(* ===== verification/Prelude.thy ===== *)
theory Prelude
  imports Main "HOL-Library.Word" "HOL-Library.Sublist"
begin

unbundle bit_operations_syntax

text \<open>
  What every theory of this development shares: names for the C integer types, the
  collections its proofs draw on, the few functions of the C library the sources call
  (\<open>strchr\<close>, \<open>strrchr\<close>, \<open>strspn\<close>, \<open>strtol\<close>, \<open>snprintf\<close>), and generic lemmas on lists
  and words.

  A NUL-terminated C string is the list of the characters before its terminator.  Text
  whose bytes matter (UTF-8, Latin-1) is a list of 8-bit words; text that is only split
  and printed (addresses, labels) is a HOL \<open>string\<close>, a character being a byte.  A pointer
  that may be NULL is an \<open>option\<close>.  An \<open>int\<close> of the sources is an integer; an unsigned
  type whose wrap-around matters is a word of its width.
\<close>

section \<open>Types\<close>

type_synonym u8 = "8 word"
type_synonym u16 = "16 word"
type_synonym u32 = "32 word"
type_synonym u64 = "64 word"
type_synonym bytes = "u8 list"

named_theorems ring_simps "the arithmetic and contents of the command rings"
named_theorems text_simps "rewrite rules of the text conversions"
named_theorems vnc_simps "fields of the LibVNC session each operation leaves alone"
named_theorems rdp_simps "fields of the FreeRDP session each operation leaves alone"

section \<open>The C library\<close>

text \<open>\<open>strchr\<close> and \<open>strrchr\<close> as offsets into the string, \<open>None\<close> for NULL.\<close>

fun strchr :: "string \<Rightarrow> char \<Rightarrow> nat option" where
  "strchr [] c = None"
| "strchr (x # xs) c = (if x = c then Some 0 else map_option Suc (strchr xs c))"

fun strrchr :: "string \<Rightarrow> char \<Rightarrow> nat option" where
  "strrchr [] c = None"
| "strrchr (x # xs) c =
     (case strrchr xs c of
        Some n \<Rightarrow> Some (Suc n)
      | None \<Rightarrow> if x = c then Some 0 else None)"

text \<open>\<open>strspn\<close>: the length of the longest prefix made of characters of a set.\<close>

definition strspn :: "string \<Rightarrow> string \<Rightarrow> nat" where
  "strspn s accept = length (takeWhile (\<lambda>c. c \<in> set accept) s)"

text \<open>
  \<open>strtol\<close> in base 10: optional white space, an optional sign, digits.  The result is the
  value, clamped to the 64-bit \<open>long\<close>, and the number of characters consumed, which is 0
  when there is no digit.
\<close>

definition is_space :: "char \<Rightarrow> bool" where
  "is_space c \<longleftrightarrow> c = CHR '' '' \<or> (9 \<le> (of_char c :: nat) \<and> (of_char c :: nat) \<le> 13)"

definition is_digit :: "char \<Rightarrow> bool" where
  "is_digit c \<longleftrightarrow> 48 \<le> (of_char c :: nat) \<and> (of_char c :: nat) \<le> 57"

fun digits_value :: "int \<Rightarrow> string \<Rightarrow> int" where
  "digits_value acc [] = acc"
| "digits_value acc (c # cs) = digits_value (acc * 10 + (of_char c - 48)) cs"

definition long_max :: int where "long_max = 2 ^ 63 - 1"
definition long_min :: int where "long_min = - (2 ^ 63)"

definition strtol10 :: "string \<Rightarrow> int \<times> nat" where
  "strtol10 s =
     (let blank = length (takeWhile is_space s);
          t = drop blank s;
          neg = (t \<noteq> [] \<and> hd t = CHR ''-'');
          sign = (if t \<noteq> [] \<and> (hd t = CHR ''-'' \<or> hd t = CHR ''+'') then 1 else 0);
          ds = takeWhile is_digit (drop sign t);
          v = digits_value 0 ds
      in if ds = [] then (0, 0)
         else (max long_min (min long_max (if neg then - v else v)), blank + sign + length ds))"

text \<open>\<open>snprintf(out, size, "%s", s)\<close> into a buffer of \<open>size\<close> bytes, the terminator included.\<close>

definition snprintf_s :: "nat \<Rightarrow> 'a list \<Rightarrow> 'a list" where
  "snprintf_s n s = take (n - 1) s"

text \<open>The decimal digits of \<open>%d\<close> and \<open>%u\<close>.\<close>

fun show_nat :: "nat \<Rightarrow> string" where
  "show_nat n = (if n < 10 then [char_of (48 + n)] else show_nat (n div 10) @ [char_of (48 + n mod 10)])"

declare show_nat.simps [simp del]

definition show_int :: "int \<Rightarrow> string" where
  "show_int i = (if i < 0 then CHR ''-'' # show_nat (nat (- i)) else show_nat (nat i))"

text \<open>The bytes of a string.\<close>

definition bytes_of :: "string \<Rightarrow> bytes" where
  "bytes_of s = map of_char s"

definition string_of :: "bytes \<Rightarrow> string" where
  "string_of b = map (\<lambda>w. char_of (unat w)) b"

section \<open>Lists\<close>

lemma strchr_None_iff [simp]: "strchr s c = None \<longleftrightarrow> c \<notin> set s"
  by (induction s) auto

lemma strchr_SomeD:
  "strchr s c = Some n \<Longrightarrow> n < length s \<and> s ! n = c \<and> c \<notin> set (take n s)"
  by (induction s arbitrary: n) (auto split: if_splits)

lemma strrchr_None_iff [simp]: "strrchr s c = None \<longleftrightarrow> c \<notin> set s"
  by (induction s) (auto split: option.splits)

lemma strrchr_SomeD:
  "strrchr s c = Some n \<Longrightarrow> n < length s \<and> s ! n = c \<and> c \<notin> set (drop (Suc n) s)"
proof (induction s arbitrary: n)
  case (Cons x xs)
  then show ?case
    by (cases "strrchr xs c") (auto split: if_splits)
qed simp

lemma strchr_append: "c \<notin> set a \<Longrightarrow> strchr (a @ c # b) c = Some (length a)"
  by (induction a) auto

lemma strrchr_append: "c \<notin> set b \<Longrightarrow> strrchr (a @ c # b) c = Some (length a)"
proof (induction a)
  case Nil
  then have "strrchr b c = None" by (simp only: strrchr_None_iff not_False_eq_True)
  then show ?case by (simp only: append_Nil strrchr.simps option.case list.size if_True refl)
qed simp

lemma length_snprintf_s: "length (snprintf_s n s) \<le> n - 1"
  by (simp add: snprintf_s_def)

lemma snprintf_s_id: "length s < n \<Longrightarrow> snprintf_s n s = s"
  by (simp add: snprintf_s_def)

lemma subseq_snoc: "subseq xs ys \<Longrightarrow> subseq xs (ys @ [y])"
  by (rule subseq_order.trans [OF _ prefix_imp_subseq]) auto

text \<open>White space at either end of an address: blanks and tabs.\<close>

definition blank :: "char \<Rightarrow> bool" where
  "blank c \<longleftrightarrow> c = CHR '' '' \<or> c = CHR 0x09"

definition trim :: "string \<Rightarrow> string" where
  "trim s = (let t = rev (dropWhile blank (rev s)) in drop (strspn t [CHR '' '', CHR 0x09]) t)"

lemma dropWhile_takeWhile_drop: "drop (length (takeWhile P t)) t = dropWhile P t"
  by (metis append_eq_conv_conj takeWhile_dropWhile_id)

lemma strspn_blank: "strspn t [CHR '' '', CHR 0x09] = length (takeWhile blank t)"
proof -
  have "(\<lambda>c. c \<in> set [CHR '' '', CHR 0x09]) = blank" by (auto simp: blank_def)
  then show ?thesis by (simp add: strspn_def)
qed

lemma trim_id: "s \<noteq> [] \<Longrightarrow> \<not> blank (hd s) \<Longrightarrow> \<not> blank (last s) \<Longrightarrow> trim s = s"
proof -
  assume s: "s \<noteq> []" "\<not> blank (hd s)" "\<not> blank (last s)"
  have "rev (dropWhile blank (rev s)) = s"
    using s(1,3) by (cases s rule: rev_cases) auto
  moreover have "takeWhile blank s = []"
    using s(1,2) by (cases s) auto
  ultimately show "trim s = s" by (simp add: trim_def strspn_blank)
qed

section \<open>Numbers in text\<close>

lemma digits_value_append: "digits_value acc (xs @ ys) = digits_value (digits_value acc xs) ys"
  by (induction xs arbitrary: acc) simp_all

lemma of_char_digit: "(d :: nat) < 10 \<Longrightarrow> (of_char (char_of (48 + d) :: char) :: nat) = 48 + d"
  by simp

lemma is_digit_char_of: "(d :: nat) < 10 \<Longrightarrow> is_digit (char_of (48 + d))"
  by (simp add: is_digit_def)

lemma show_nat_digits: "list_all is_digit (show_nat n) \<and> show_nat n \<noteq> []"
proof (induction n rule: show_nat.induct)
  case (1 n)
  then show ?case
    by (cases "n < 10") (auto simp: show_nat.simps [of n] is_digit_char_of)
qed

lemma of_char_int_nat: "(of_char c :: int) = int (of_char c)"
  by (simp add: of_char_def)

lemma digits_value_show_nat: "digits_value 0 (show_nat n) = int n"
proof (induction n rule: show_nat.induct)
  case (1 n)
  show ?case
  proof (cases "n < 10")
    case True
    then show ?thesis by (simp add: show_nat.simps [of n] of_char_int_nat of_char_digit)
  next
    case False
    with 1 have IH: "digits_value 0 (show_nat (n div 10)) = int (n div 10)" by simp
    have "int (n div 10) * 10 + int (n mod 10) = int n"
      by (metis div_mult_mod_eq of_nat_add of_nat_mult of_nat_numeral)
    with False show ?thesis
      by (simp add: show_nat.simps [of n] digits_value_append IH of_char_int_nat of_char_digit
          del: of_nat_div)
  qed
qed

lemma digit_not_special:
  "is_digit c \<Longrightarrow> \<not> is_space c \<and> c \<noteq> CHR ''-'' \<and> c \<noteq> CHR ''+'' \<and> c \<noteq> CHR '':'' \<and> c \<noteq> CHR '']'' \<and>
   c \<noteq> CHR '' '' \<and> c \<noteq> CHR 0x09"
  by (auto simp: is_digit_def is_space_def)

text \<open>\<open>strtol\<close> reads back what \<open>%d\<close> printed, all of it.\<close>

lemma strtol10_show_nat:
  assumes "int n \<le> long_max"
  shows "strtol10 (show_nat n) = (int n, length (show_nat n))"
proof -
  obtain d ds where s: "show_nat n = d # ds" and d: "is_digit d"
    using show_nat_digits [of n] by (cases "show_nat n") auto
  have tw: "takeWhile is_digit (show_nat n) = show_nat n"
    using show_nat_digits [of n] by (simp add: list_all_iff takeWhile_eq_all_conv)
  have "long_min \<le> int n" by (simp add: long_min_def)
  with assms show ?thesis
    using digit_not_special [OF d] tw digits_value_show_nat [of n] s
    by (simp add: strtol10_def Let_def)
qed

section \<open>Words\<close>

lemma u8_cases_all:
  assumes "list_all P (map word_of_nat [0..<256])"
  shows "P (b :: u8)"
proof -
  have "unat b < 256"
    using unsigned_less [of b, where ?'a = nat] by simp
  then have "word_of_nat (unat b) \<in> set (map word_of_nat [0..<256] :: u8 list)"
    by (metis atLeastLessThan_iff image_eqI image_set le0 set_upt)
  with assms have "P (word_of_nat (unat b))"
    by (metis list_all_iff)
  then show ?thesis
    by simp
qed

end
