(* ===== verification/Backend.thy ===== *)
theory Backend
  imports Prelude
begin

text \<open>
  The C interface of \<open>src/backends/api/include/vento/backend.h\<close>: what a session tells the
  platform (the members of \<open>vento_callbacks\<close>, one constructor each), the list of facts
  \<open>op_info\<close> fills in, and the two wrappers that read the optional end of an older table.
\<close>

section \<open>Callbacks\<close>

datatype vento_callback =
    Connected int int
  | Desktop_size int int
  | Damaged int int int int
  | Frame_end
  | Cursor "u32 list option" int int int int
  | Pointer_mode bool
  | Bell
  | Clipboard bytes
  | Credentials_needed bool
  | Trust_needed string
  | Unverified string
  | Question string string
  | Security_needed int int string string string
  | Message string int bool string
  | Closed bytes
  | Status "string option"

definition VENTO_LOGON_FAILED :: string where "VENTO_LOGON_FAILED = ''Logon failed.''"
definition VENTO_MAX_MONITORS :: nat where "VENTO_MAX_MONITORS = 16"

fun is_closed :: "vento_callback \<Rightarrow> bool" where
  "is_closed (Closed _) = True"
| "is_closed _ = False"

section \<open>Lists of strings\<close>

text \<open>
  \<open>items\<close> is \<open>None\<close> for NULL.  The heap is the number of live blocks, so that a leak or a
  double free would show, and \<open>malloc i n\<close> says whether the \<open>i\<close>th allocation of a call, of
  \<open>n\<close> bytes, succeeds.
\<close>

record vento_strings =
  items :: "string list option"
  count :: nat

definition vento_strings_free :: "vento_strings \<Rightarrow> int \<Rightarrow> vento_strings \<times> int" where
  "vento_strings_free s heap =
     (s\<lparr>items := None, count := 0\<rparr>,
      heap - int (count s) - (if items s = None then 0 else 1))"

fun strings_fill ::
  "(nat \<Rightarrow> nat \<Rightarrow> bool) \<Rightarrow> string option list \<Rightarrow> nat \<Rightarrow> string list \<Rightarrow> string list \<times> bool"
where
  "strings_fill malloc [] i acc = (acc, True)"
| "strings_fill malloc (v # vs) i acc =
     (let s = (case v of None \<Rightarrow> [] | Some t \<Rightarrow> t)
      in if malloc (Suc i) (length s + 1) then strings_fill malloc vs (Suc i) (acc @ [s])
         else (acc, False))"

definition vento_strings_set ::
  "(nat \<Rightarrow> nat \<Rightarrow> bool) \<Rightarrow> string option list \<Rightarrow> int \<Rightarrow> bool \<times> vento_strings \<times> int"
where
  "vento_strings_set malloc vals heap =
     (if \<not> malloc 0 (length vals * 8) then (False, \<lparr>items = None, count = 0\<rparr>, heap)
      else let (filled, ok) = strings_fill malloc vals 0 [];
               out = \<lparr>items = Some filled, count = length filled\<rparr>;
               heap = heap + 1 + int (length filled)
           in if ok then (True, out\<lparr>count := length vals\<rparr>, heap)
              else let (freed, heap) = vento_strings_free out heap in (False, freed, heap))"

section \<open>The optional end of a session's table\<close>

text \<open>
  The members after \<open>destroy\<close>, with where each ends in the table of an LP64 build: a size,
  eighteen required members, then these, eight bytes each.  A table is the bytes its own
  header gave it: \<open>size\<close>, and for each optional member inside it whether it is non-NULL.
\<close>

datatype optional_member = Screens | Request_layout | Decoder_status

fun member_end :: "optional_member \<Rightarrow> nat" where
  "member_end Screens = 160"
| "member_end Request_layout = 168"
| "member_end Decoder_status = 176"

record ops_table =
  ops_size :: nat
  ops_set :: "optional_member \<Rightarrow> bool option"  \<comment> \<open>\<open>None\<close>: past the table, must not be read\<close>

definition VENTO_SESSION_HAS :: "ops_table \<Rightarrow> optional_member \<Rightarrow> bool option" where
  "VENTO_SESSION_HAS t m = (if ops_size t \<ge> member_end m then ops_set t m else Some False)"

text \<open>\<open>-1\<close>, the layout of the far end being \<open>monitors\<close>, when there is no such member.\<close>

definition vento_session_screens :: "ops_table \<Rightarrow> int \<Rightarrow> int option" where
  "vento_session_screens t n = map_option (\<lambda>has. if has then n else - 1) (VENTO_SESSION_HAS t Screens)"

definition vento_session_request_layout :: "ops_table \<Rightarrow> bool option" where
  "vento_session_request_layout t = VENTO_SESSION_HAS t Request_layout"

text \<open>A table as a backend built it: exactly the members its size covers can be read.\<close>

definition table_ok :: "ops_table \<Rightarrow> bool" where
  "table_ok t \<longleftrightarrow> (\<forall>m. member_end m \<le> ops_size t \<longleftrightarrow> ops_set t m \<noteq> None)"

section \<open>Properties\<close>

lemma strings_fill_spec:
  "strings_fill malloc vs i acc = (out, ok) \<Longrightarrow>
   \<exists>k\<le>length vs. out = acc @ map (\<lambda>v. case v of None \<Rightarrow> [] | Some t \<Rightarrow> t) (take k vs) \<and>
     (ok \<longleftrightarrow> k = length vs)"
proof (induction vs arbitrary: i acc)
  case (Cons v vs)
  let ?s = "case v of None \<Rightarrow> [] | Some t \<Rightarrow> t"
  show ?case
  proof (cases "malloc (Suc i) (length ?s + 1)")
    case True
    with Cons.prems have "strings_fill malloc vs (Suc i) (acc @ [?s]) = (out, ok)"
      by (simp add: Let_def)
    from Cons.IH [OF this] obtain k where "k \<le> length vs"
        "out = (acc @ [?s]) @ map (\<lambda>v. case v of None \<Rightarrow> [] | Some t \<Rightarrow> t) (take k vs)"
        "ok \<longleftrightarrow> k = length vs" by blast
    then show ?thesis by (intro exI [of _ "Suc k"]) simp
  next
    case False
    with Cons.prems show ?thesis by (intro exI [of _ 0]) (simp add: Let_def)
  qed
qed auto

lemma strings_fill_all:
  "(\<And>i n. malloc i n) \<Longrightarrow>
   strings_fill malloc vs i acc = (acc @ map (\<lambda>v. case v of None \<Rightarrow> [] | Some t \<Rightarrow> t) vs, True)"
  by (induction vs arbitrary: i acc) (simp_all add: Let_def)

text \<open>
  Filling in a list of facts either copies every value (NULL as the empty string) and
  leaves one block per value and one for the array, all of which freeing the list gives
  back, or fails with nothing allocated and nothing left in the list; it can only fail when
  an allocation does.
\<close>

theorem strings_set_no_leak:
  "let (ok, out, heap') = vento_strings_set malloc vals heap in
     (ok \<longrightarrow> items out = Some (map (\<lambda>v. case v of None \<Rightarrow> [] | Some t \<Rightarrow> t) vals) \<and>
        count out = length vals \<and> heap' = heap + int (length vals) + 1 \<and>
        snd (vento_strings_free out heap') = heap) \<and>
     (\<not> ok \<longrightarrow> items out = None \<and> count out = 0 \<and> heap' = heap \<and> (\<exists>i n. \<not> malloc i n))"
proof (cases "malloc 0 (length vals * 8)")
  case True
  obtain filled ok where f: "strings_fill malloc vals 0 [] = (filled, ok)"
    by (cases "strings_fill malloc vals 0 []")
  from strings_fill_spec [OF f] obtain k where k: "k \<le> length vals"
      "filled = map (\<lambda>v. case v of None \<Rightarrow> [] | Some t \<Rightarrow> t) (take k vals)" "ok \<longleftrightarrow> k = length vals"
    by auto
  have "\<exists>i n. \<not> malloc i n" if "\<not> ok"
  proof (rule ccontr)
    assume "\<nexists>i n. \<not> malloc i n"
    then have "strings_fill malloc vals 0 [] = (map (\<lambda>v. case v of None \<Rightarrow> [] | Some t \<Rightarrow> t) vals, True)"
      using strings_fill_all [of malloc vals 0 "[]"] by simp
    with f that show False by simp
  qed
  with True f k show ?thesis
    by (auto simp: vento_strings_set_def vento_strings_free_def Let_def)
qed (auto simp: vento_strings_set_def)

theorem strings_set_no_leak_witness:
  "let (ok, out, heap) = vento_strings_set (\<lambda>_ _. True) [Some ''a'', None] 5 in
     ok \<and> items out = Some [''a'', []] \<and> heap = 8 \<and> snd (vento_strings_free out heap) = 5"
  using strings_set_no_leak [of "\<lambda>_ _. True" "[Some ''a'', None]" 5]
  by (simp add: vento_strings_set_def Let_def)

text \<open>
  The wrappers of the optional members never read past a table, however old its header,
  and treat a member the table does not have like one it leaves NULL.
\<close>

theorem optional_member_safe:
  assumes "table_ok t"
  shows "VENTO_SESSION_HAS t m \<noteq> None \<and>
    (VENTO_SESSION_HAS t m = Some True \<longleftrightarrow> member_end m \<le> ops_size t \<and> ops_set t m = Some True) \<and>
    (ops_size t < member_end Screens \<longrightarrow> vento_session_screens t n = Some (- 1)) \<and>
    (ops_size t < member_end Request_layout \<longrightarrow> vento_session_request_layout t = Some False)"
  using assms
  by (auto simp: table_ok_def VENTO_SESSION_HAS_def vento_session_screens_def
      vento_session_request_layout_def)

theorem optional_member_safe_witness:
  "table_ok \<lparr>ops_size = 160, ops_set = (\<lambda>m. if m = Screens then Some True else None)\<rparr> \<and>
   vento_session_request_layout \<lparr>ops_size = 160, ops_set = (\<lambda>m. if m = Screens then Some True else None)\<rparr> =
     Some False"
proof -
  let ?t = "\<lparr>ops_size = 160, ops_set = (\<lambda>m. if m = Screens then Some True else None)\<rparr>"
  have ok: "table_ok ?t"
    unfolding table_ok_def by (rule allI) (case_tac m; simp)
  then show ?thesis
    using optional_member_safe [OF ok] by simp
qed

end
