(* ===== verification/Command_Ring.thy ===== *)
theory Command_Ring
  imports Prelude
begin

text \<open>
  The fixed array of commands between the threads that call a session and the protocol
  thread that owns its connection.  Both C sessions keep the same one (\<open>Cmd ring[CMD_RING]\<close>
  with the indices \<open>head\<close> and \<open>tail\<close> in \<open>src/backends/modules/libvnc/cpp/libvnc_session.c\<close>
  and \<open>src/backends/modules/freerdp/cpp/freerdp_session.c\<close>), so the array, its contents as a
  list and what a write, a read and a shift do to that list are here once.  How a session
  uses it differs (what it drops when it is full), and the contract both keep is the locale
  \<open>command_queue\<close>: commands are executed in the order they were posted, none twice.
\<close>

section \<open>The array\<close>

definition CMD_RING :: nat where "CMD_RING = 512"

record 'c ring =
  rbuf :: "nat \<Rightarrow> 'c"
  rhead :: nat
  rtail :: nat

definition ring_ok :: "'c ring \<Rightarrow> bool" where
  "ring_ok r \<longleftrightarrow> rhead r < CMD_RING \<and> rtail r < CMD_RING"

definition ring_len :: "'c ring \<Rightarrow> nat" where
  "ring_len r = (rhead r + CMD_RING - rtail r) mod CMD_RING"

definition ring_slot :: "'c ring \<Rightarrow> nat \<Rightarrow> nat" where
  "ring_slot r i = (rtail r + i) mod CMD_RING"

text \<open>The queued commands, oldest first.\<close>

definition ring_items :: "'c ring \<Rightarrow> 'c list" where
  "ring_items r = map (\<lambda>i. rbuf r (ring_slot r i)) [0..<ring_len r]"

text \<open>The four things the sessions do to the array.\<close>

definition ring_put :: "'c ring \<Rightarrow> 'c \<Rightarrow> 'c ring" where
  "ring_put r c = r\<lparr>rbuf := (rbuf r)(rhead r := c), rhead := (rhead r + 1) mod CMD_RING\<rparr>"

definition ring_advance :: "'c ring \<Rightarrow> 'c ring" where
  "ring_advance r = r\<lparr>rtail := (rtail r + 1) mod CMD_RING\<rparr>"

definition ring_last :: "'c ring \<Rightarrow> nat" where
  "ring_last r = (rhead r + CMD_RING - 1) mod CMD_RING"

definition ring_set_last :: "'c ring \<Rightarrow> 'c \<Rightarrow> 'c ring" where
  "ring_set_last r c = r\<lparr>rbuf := (rbuf r)(ring_last r := c)\<rparr>"

definition ring_full :: "'c ring \<Rightarrow> bool" where
  "ring_full r \<longleftrightarrow> (rhead r + 1) mod CMD_RING = rtail r"

text \<open>
  Closing the gap a removed command leaves: every later one moves down a slot.  \<open>head\<close> is
  always an index of the array, which is what makes the loop end.
\<close>

function ring_shift :: "nat \<Rightarrow> (nat \<Rightarrow> 'c) \<Rightarrow> nat \<Rightarrow> (nat \<Rightarrow> 'c)" where
  "ring_shift head buf i =
     (if head < CMD_RING \<and> (i + 1) mod CMD_RING \<noteq> head
      then ring_shift head (buf(i := buf ((i + 1) mod CMD_RING))) ((i + 1) mod CMD_RING)
      else buf)"
  by pat_completeness auto
termination
proof (relation "measure (\<lambda>(head, buf, i). (head + CMD_RING - (i + 1) mod CMD_RING) mod CMD_RING)",
    goal_cases)
  case (2 head buf i)
  define a where "a = (i + 1) mod CMD_RING"
  have a: "a < CMD_RING" "a \<noteq> head" "head < CMD_RING"
    using 2 by (auto simp: a_def CMD_RING_def)
  have "(head + CMD_RING - (a + 1) mod CMD_RING) mod CMD_RING < (head + CMD_RING - a) mod CMD_RING"
  proof (cases "a + 1 = CMD_RING")
    case True
    then show ?thesis using a by (auto simp: mod_if)
  next
    case False
    with a show ?thesis
      by (cases "a < head") (auto simp: le_mod_geq mod_if)
  qed
  then show ?case by (simp add: a_def)
qed simp

declare ring_shift.simps [simp del]

definition ring_remove :: "'c ring \<Rightarrow> nat \<Rightarrow> 'c ring" where
  "ring_remove r v = r\<lparr>rbuf := ring_shift (rhead r) (rbuf r) v, rhead := ring_last r\<rparr>"

section \<open>Its contents\<close>

lemma CMD_RING_pos [simp]: "0 < CMD_RING"
  by (simp add: CMD_RING_def)

text \<open>No index is ever more than one lap ahead, so every \<open>% CMD_RING\<close> is a comparison.\<close>

lemma mod_lap: "a < 2 * CMD_RING \<Longrightarrow> a mod CMD_RING = (if a < CMD_RING then a else a - CMD_RING)"
  by (simp add: le_mod_geq)

lemma ring_len_if [ring_simps]:
  "ring_ok r \<Longrightarrow> ring_len r =
     (if rtail r \<le> rhead r then rhead r - rtail r else rhead r + CMD_RING - rtail r)"
  by (auto simp: ring_len_def ring_ok_def mod_lap)

lemma ring_slot_if [ring_simps]:
  "ring_ok r \<Longrightarrow> i < CMD_RING \<Longrightarrow>
   ring_slot r i = (if rtail r + i < CMD_RING then rtail r + i else rtail r + i - CMD_RING)"
  by (auto simp: ring_slot_def ring_ok_def mod_lap)

lemma ring_succ_if [ring_simps]:
  "a < CMD_RING \<Longrightarrow> (a + 1) mod CMD_RING = (if a + 1 = CMD_RING then 0 else a + 1)"
  by (auto simp: mod_lap)

lemma ring_last_if [ring_simps]:
  "ring_ok r \<Longrightarrow> ring_last r = (if rhead r = 0 then CMD_RING - 1 else rhead r - 1)"
  by (auto simp: ring_last_def ring_ok_def mod_lap)

lemma ring_len_less: "ring_len r < CMD_RING"
  by (simp add: ring_len_def)

lemma length_ring_items [simp]: "length (ring_items r) = ring_len r"
  by (simp add: ring_items_def)

lemma ring_items_Nil_iff [simp]: "ring_items r = [] \<longleftrightarrow> ring_len r = 0"
  by (simp add: ring_items_def)

lemma nth_ring_items: "i < ring_len r \<Longrightarrow> ring_items r ! i = rbuf r (ring_slot r i)"
  by (simp add: ring_items_def)

lemma ring_head_slot: "ring_ok r \<Longrightarrow> rhead r = ring_slot r (ring_len r)"
  using ring_len_less [of r] by (auto simp: ring_simps ring_ok_def split: if_splits)

lemma ring_slot_inj:
  "ring_ok r \<Longrightarrow> i < CMD_RING \<Longrightarrow> j < CMD_RING \<Longrightarrow> ring_slot r i = ring_slot r j \<longleftrightarrow> i = j"
  by (auto simp: ring_simps ring_ok_def split: if_splits)

lemma ring_slot_less: "ring_slot r i < CMD_RING"
  by (simp add: ring_slot_def)

lemma ring_empty_iff: "ring_ok r \<Longrightarrow> rhead r = rtail r \<longleftrightarrow> ring_len r = 0"
  by (auto simp: ring_simps ring_ok_def)

lemma ring_full_iff: "ring_ok r \<Longrightarrow> ring_full r \<longleftrightarrow> ring_len r = CMD_RING - 1"
  using ring_succ_if [of "rhead r"] by (auto simp: ring_full_def ring_simps ring_ok_def)

lemma ring_ok_put: "ring_ok r \<Longrightarrow> ring_ok (ring_put r c)"
  by (simp add: ring_ok_def ring_put_def)

lemma ring_ok_advance: "ring_ok r \<Longrightarrow> ring_ok (ring_advance r)"
  by (simp add: ring_ok_def ring_advance_def)

lemma ring_ok_set_last: "ring_ok r \<Longrightarrow> ring_ok (ring_set_last r c)"
  by (simp add: ring_ok_def ring_set_last_def)

lemma ring_len_put:
  assumes "ring_ok r" and "\<not> ring_full r"
  shows "ring_len (ring_put r c) = Suc (ring_len r)"
  using assms ring_succ_if [of "rhead r"] ring_ok_put [OF assms(1), of c]
  by (auto simp: ring_len_if ring_full_def ring_put_def ring_ok_def)

lemma ring_slot_put [simp]: "ring_slot (ring_put r c) = ring_slot r"
  by (rule ext) (simp add: ring_slot_def ring_put_def)

text \<open>A write at the head appends.\<close>

lemma ring_items_put:
  assumes "ring_ok r" and "\<not> ring_full r"
  shows "ring_items (ring_put r c) = ring_items r @ [c]"
proof (rule nth_equalityI)
  show "length (ring_items (ring_put r c)) = length (ring_items r @ [c])"
    using assms by (simp add: ring_len_put)
next
  fix i assume "i < length (ring_items (ring_put r c))"
  with assms have i: "i \<le> ring_len r" by (simp add: ring_len_put)
  have "ring_slot r i = rhead r \<longleftrightarrow> i = ring_len r"
    using i ring_len_less [of r] assms(1) by (auto simp: ring_head_slot ring_slot_inj)
  then have "rbuf (ring_put r c) (ring_slot r i) = (if i = ring_len r then c else rbuf r (ring_slot r i))"
    by (simp add: ring_put_def)
  then show "ring_items (ring_put r c) ! i = (ring_items r @ [c]) ! i"
    using i assms by (simp add: nth_ring_items ring_len_put nth_append)
qed

lemma ring_len_advance:
  assumes "ring_ok r" and "ring_len r \<noteq> 0"
  shows "Suc (ring_len (ring_advance r)) = ring_len r"
  using assms ring_succ_if [of "rtail r"] ring_ok_advance [OF assms(1)]
  by (auto simp: ring_len_if ring_advance_def ring_ok_def split: if_splits)

text \<open>Moving the tail drops the oldest command, which is the one in the tail's slot.\<close>

lemma ring_items_advance:
  assumes "ring_ok r" and "ring_len r \<noteq> 0"
  shows "ring_items r = rbuf r (rtail r) # ring_items (ring_advance r)"
proof -
  let ?n = "ring_len (ring_advance r)"
  have n: "ring_len r = Suc ?n" using assms by (simp add: ring_len_advance)
  have "ring_items r = rbuf r (ring_slot r 0) # map (\<lambda>i. rbuf r (ring_slot r (Suc i))) [0..<?n]"
    unfolding ring_items_def n by (simp add: upt_conv_Cons map_Suc_upt [symmetric] del: upt_Suc)
  moreover have "ring_slot r 0 = rtail r"
    using assms(1) by (simp add: ring_slot_def ring_ok_def)
  moreover have "ring_slot r (Suc i) = ring_slot (ring_advance r) i" for i
    by (simp add: ring_slot_def ring_advance_def mod_simps)
  moreover have "rbuf (ring_advance r) = rbuf r"
    by (simp add: ring_advance_def)
  ultimately show ?thesis
    by (simp add: ring_items_def)
qed

lemma ring_last_slot: "ring_ok r \<Longrightarrow> ring_len r \<noteq> 0 \<Longrightarrow> ring_last r = ring_slot r (ring_len r - 1)"
  using ring_len_less [of r] by (auto simp: ring_simps ring_ok_def split: if_splits)

lemma last_ring_items: "ring_ok r \<Longrightarrow> ring_len r \<noteq> 0 \<Longrightarrow> last (ring_items r) = rbuf r (ring_last r)"
  by (simp add: last_conv_nth nth_ring_items ring_last_slot)

text \<open>Overwriting the newest command.\<close>

lemma ring_items_set_last:
  assumes "ring_ok r" and "ring_len r \<noteq> 0"
  shows "ring_items (ring_set_last r c) = butlast (ring_items r) @ [c]"
proof (rule nth_equalityI)
  have len: "ring_len (ring_set_last r c) = ring_len r"
    by (simp add: ring_len_def ring_set_last_def)
  show "length (ring_items (ring_set_last r c)) = length (butlast (ring_items r) @ [c])"
    using assms(2) by (simp add: len)
  fix i assume "i < length (ring_items (ring_set_last r c))"
  then have i: "i < ring_len r" by (simp add: len)
  have "ring_slot r i = ring_last r \<longleftrightarrow> i = ring_len r - 1"
    using i ring_len_less [of r] assms by (simp add: ring_last_slot ring_slot_inj)
  moreover have "ring_slot (ring_set_last r c) i = ring_slot r i"
    by (simp add: ring_slot_def ring_set_last_def)
  ultimately have "rbuf (ring_set_last r c) (ring_slot (ring_set_last r c) i) =
      (if i = ring_len r - 1 then c else rbuf r (ring_slot r i))"
    by (simp add: ring_set_last_def)
  then show "ring_items (ring_set_last r c) ! i = (butlast (ring_items r) @ [c]) ! i"
    using i by (auto simp: nth_ring_items len nth_append nth_butlast)
qed

text \<open>Removing one command.\<close>

lemma ring_slot_Suc: "(ring_slot r i + 1) mod CMD_RING = ring_slot r (Suc i)"
  by (simp add: ring_slot_def mod_simps)

lemma ring_shift_spec:
  assumes "ring_ok r" and "k < ring_len r" and j: "j < ring_len r"
  shows "ring_shift (rhead r) buf (ring_slot r k) (ring_slot r j) =
      (if k \<le> j \<and> Suc j < ring_len r then buf (ring_slot r (Suc j)) else buf (ring_slot r j))"
  using assms(2)
proof (induction "ring_len r - k" arbitrary: k buf)
  case 0
  then show ?case by simp
next
  case (Suc n)
  have less: "ring_len r < CMD_RING" by (rule ring_len_less)
  have head: "rhead r = ring_slot r (ring_len r)" "rhead r < CMD_RING"
    using assms(1) by (simp_all add: ring_head_slot [symmetric] ring_ok_def)
  let ?buf = "buf(ring_slot r k := buf (ring_slot r (Suc k)))"
  show ?case
  proof (cases "Suc k = ring_len r")
    case True
    then have "ring_shift (rhead r) buf (ring_slot r k) = buf"
      using head by (subst ring_shift.simps) (simp add: ring_slot_Suc [simplified])
    then show ?thesis using True by auto
  next
    case False
    with Suc.prems have k: "Suc k < ring_len r" by simp
    have "ring_slot r (Suc k) \<noteq> rhead r"
      using k less assms(1) head(1) by (simp add: ring_slot_inj)
    then have "ring_shift (rhead r) buf (ring_slot r k) (ring_slot r j) =
        ring_shift (rhead r) ?buf (ring_slot r (Suc k)) (ring_slot r j)"
      using head(2) by (subst ring_shift.simps) (simp add: ring_slot_Suc [simplified])
    also have "\<dots> =
        (if Suc k \<le> j \<and> Suc j < ring_len r then ?buf (ring_slot r (Suc j)) else ?buf (ring_slot r j))"
      using Suc.hyps(1) [of "Suc k" ?buf] Suc.hyps(2) k by simp
    also have "\<dots> = (if k \<le> j \<and> Suc j < ring_len r then buf (ring_slot r (Suc j)) else buf (ring_slot r j))"
      using j k less assms(1) by (auto simp: ring_slot_inj)
    finally show ?thesis .
  qed
qed

lemma ring_len_remove:
  "ring_ok r \<Longrightarrow> ring_len r \<noteq> 0 \<Longrightarrow> ring_ok (ring_remove r v) \<and> ring_len (ring_remove r v) = ring_len r - 1"
proof -
  assume r: "ring_ok r" "ring_len r \<noteq> 0"
  have ok: "ring_ok (ring_remove r v)"
    using r(1) by (auto simp: ring_ok_def ring_remove_def ring_last_def)
  show ?thesis
    using r ok by (auto simp: ring_len_if ring_last_if ring_remove_def ring_ok_def split: if_splits)
qed

lemma ring_items_remove:
  assumes "ring_ok r" and "k < ring_len r"
  shows "ring_items (ring_remove r (ring_slot r k)) = take k (ring_items r) @ drop (Suc k) (ring_items r)"
proof (rule nth_equalityI)
  let ?r = "ring_remove r (ring_slot r k)"
  have len: "ring_len ?r = ring_len r - 1"
    using assms ring_len_remove [of r "ring_slot r k"] by auto
  show "length (ring_items ?r) = length (take k (ring_items r) @ drop (Suc k) (ring_items r))"
    using assms(2) by (simp add: len)
  fix j assume "j < length (ring_items ?r)"
  then have j: "Suc j < ring_len r" by (simp add: len)
  have "ring_items ?r ! j = ring_shift (rhead r) (rbuf r) (ring_slot r k) (ring_slot r j)"
    using j by (simp add: nth_ring_items len) (simp add: ring_remove_def ring_slot_def)
  also have "\<dots> = rbuf r (ring_slot r (if k \<le> j then Suc j else j))"
    using ring_shift_spec [OF assms, of j] j by auto
  also have "\<dots> = (take k (ring_items r) @ drop (Suc k) (ring_items r)) ! j"
    using j assms(2) by (auto simp: nth_append nth_ring_items min_def)
  finally show "ring_items ?r ! j = (take k (ring_items r) @ drop (Suc k) (ring_items r)) ! j" .
qed

section \<open>The contract of a command queue\<close>

text \<open>
  The steps two threads can take: one posts a command, the other takes the oldest.  Taking
  from an empty queue does nothing.
\<close>

datatype 'c queue_step = Post 'c | Take

fun queue_run ::
  "('q \<Rightarrow> 'c \<Rightarrow> 'q) \<Rightarrow> ('q \<Rightarrow> ('c \<times> 'q) option) \<Rightarrow> 'q \<Rightarrow> 'c queue_step list \<Rightarrow> 'c list \<times> 'q"
where
  "queue_run post pop q [] = ([], q)"
| "queue_run post pop q (Post c # es) = queue_run post pop (post q c) es"
| "queue_run post pop q (Take # es) =
     (case pop q of
        None \<Rightarrow> queue_run post pop q es
      | Some (c, q') \<Rightarrow> (let (cs, q'') = queue_run post pop q' es in (c # cs, q'')))"

fun posted :: "'c queue_step list \<Rightarrow> 'c list" where
  "posted [] = []"
| "posted (Post c # es) = c # posted es"
| "posted (Take # es) = posted es"

locale command_queue =
  fixes invar :: "'q \<Rightarrow> bool"
    and items :: "'q \<Rightarrow> 'c list"
    and post :: "'q \<Rightarrow> 'c \<Rightarrow> 'q"
    and pop :: "'q \<Rightarrow> ('c \<times> 'q) option"
  assumes invar_post: "invar q \<Longrightarrow> invar (post q c)"
    and invar_pop: "invar q \<Longrightarrow> pop q = Some (c, q') \<Longrightarrow> invar q'"
    and items_post: "invar q \<Longrightarrow> subseq (items (post q c)) (items q @ [c])"
    and items_bound: "invar q \<Longrightarrow> length (items q) < CMD_RING"
    and pop_None: "invar q \<Longrightarrow> pop q = None \<longleftrightarrow> items q = []"
    and pop_Some: "invar q \<Longrightarrow> pop q = Some (c, q') \<Longrightarrow> items q = c # items q'"
begin

lemma run_invar: "invar q \<Longrightarrow> queue_run post pop q es = (cs, q') \<Longrightarrow> invar q'"
proof (induction es arbitrary: q cs)
  case (Cons e es)
  then show ?case
    by (cases e) (auto split: option.splits prod.splits dest: invar_post invar_pop)
qed simp

text \<open>
  Whatever the interleaving, what was taken followed by what is still queued is a
  subsequence of what was queued followed by what was posted.
\<close>

lemma run_in_order:
  "invar q \<Longrightarrow> queue_run post pop q es = (cs, q') \<Longrightarrow>
   subseq (cs @ items q') (items q @ posted es)"
proof (induction es arbitrary: q cs)
  case Nil
  then show ?case by simp
next
  case (Cons e es)
  show ?case
  proof (cases e)
    case (Post c)
    with Cons.prems have run: "queue_run post pop (post q c) es = (cs, q')" by simp
    have "subseq (cs @ items q') (items (post q c) @ posted es)"
      using Cons.IH [OF invar_post [OF Cons.prems(1)] run] .
    also have "subseq \<dots> ((items q @ [c]) @ posted es)"
      using items_post [OF Cons.prems(1), of c] by (intro list_emb_append_mono) simp_all
    finally show ?thesis by (simp add: Post)
  next
    case Take
    show ?thesis
    proof (cases "pop q")
      case None
      with Cons Take show ?thesis by auto
    next
      case (Some p)
      obtain c q1 where p: "p = (c, q1)" by (cases p)
      obtain cs1 where run: "queue_run post pop q1 es = (cs1, q')" and cs: "cs = c # cs1"
        using Cons.prems(2) Take Some p by (auto split: prod.splits)
      have "subseq (cs1 @ items q') (items q1 @ posted es)"
        using Cons.IH [OF invar_pop [OF Cons.prems(1) Some [unfolded p]] run] .
      then show ?thesis
        using pop_Some [OF Cons.prems(1) Some [unfolded p]] Take cs by simp
    qed
  qed
qed

text \<open>Enough takes empty it.\<close>

lemma run_drains:
  "invar q \<Longrightarrow> length (items q) \<le> n \<Longrightarrow>
   \<exists>q'. queue_run post pop q (replicate n Take) = (items q, q') \<and> items q' = []"
proof (induction n arbitrary: q)
  case 0
  then show ?case by simp
next
  case (Suc n)
  show ?case
  proof (cases "pop q")
    case None
    then have e: "items q = []" using pop_None [OF Suc.prems(1)] by simp
    then show ?thesis using Suc.IH [of q] Suc.prems(1) None by simp
  next
    case (Some p)
    obtain c q1 where p: "p = (c, q1)" by (cases p)
    have i: "items q = c # items q1" and ok: "invar q1"
      using pop_Some [OF Suc.prems(1)] invar_pop [OF Suc.prems(1)] Some p by blast+
    from Suc.IH [OF ok] Suc.prems(2) i obtain q' where
      "queue_run post pop q1 (replicate n Take) = (items q1, q')" "items q' = []"
      by auto
    with Some p i show ?thesis by simp
  qed
qed

end

end
