(* ===== verification/Framebuffer.thy ===== *)
theory Framebuffer
  imports Backend
begin

text \<open>
  The second framebuffer of a session: the copy \<open>read_region\<close> and \<open>read_thumbnail\<close> are
  served from while the protocol library decodes into its own.  Both C sessions have it with
  the same code around it, so the clipping of a damaged rectangle, the copy of its rows and
  the two reads are here once; what converts a pixel on the way is an argument.

  A pixel is the 32-bit word \<open>0xAABBGGRR\<close> of \<open>vento/backend.h\<close>, whose bytes in memory are
  R, G, B, A.  The destination of a read is byte-addressed, from the start of \<open>dst\<close>.
  The lemmas show that clipping is intersection with the buffer, that a copy writes exactly
  the clipped rectangle, that a read never leaves the buffer and delivers exactly the region
  asked for, and, through the locale \<open>opaque_framebuffer\<close>, that a session which keeps its
  copy opaque never hands out a transparent pixel.
\<close>

section \<open>Definitions\<close>

record rect =
  rx :: int
  ry :: int
  rw :: int
  rh :: int

definition damage_callback :: "rect \<Rightarrow> vento_callback" where
  "damage_callback r = Damaged (rx r) (ry r) (rw r) (rh r)"

record shadow =
  px :: "u32 list option"
  pw :: int
  ph :: int

text \<open>Opaque black, so that a region read before anything was decoded is not transparent.\<close>

definition ALPHA :: u32 where "ALPHA = 0xFF000000"

definition shadow_alloc :: "int \<Rightarrow> int \<Rightarrow> shadow" where
  "shadow_alloc w h = \<lparr>px = Some (replicate (nat w * nat h) ALPHA), pw = w, ph = h\<rparr>"

text \<open>
  A damaged rectangle cut to the buffer, in the order of the code's five tests; \<open>None\<close> for
  one that has no pixel in it, whose width the code sets to 0.
\<close>

definition clip_rect :: "int \<Rightarrow> int \<Rightarrow> rect \<Rightarrow> rect option" where
  "clip_rect fw fh r =
     (let r = (if rx r < 0 then r\<lparr>rw := rw r + rx r, rx := 0\<rparr> else r);
          r = (if ry r < 0 then r\<lparr>rh := rh r + ry r, ry := 0\<rparr> else r);
          r = (if rx r + rw r > fw then r\<lparr>rw := fw - rx r\<rparr> else r);
          r = (if ry r + rh r > fh then r\<lparr>rh := fh - ry r\<rparr> else r)
      in if rw r \<le> 0 \<or> rh r \<le> 0 then None else Some r)"

text \<open>The two nested loops of the copy, with the stride of either buffer in pixels.\<close>

definition copy_row :: "('p \<Rightarrow> u32) \<Rightarrow> 'p list \<Rightarrow> nat \<Rightarrow> nat \<Rightarrow> nat \<Rightarrow> u32 list \<Rightarrow> u32 list" where
  "copy_row conv src sbase dbase n dst =
     fold (\<lambda>col d. d[dbase + col := conv (src ! (sbase + col))]) [0..<n] dst"

definition copy_rect ::
  "('p \<Rightarrow> u32) \<Rightarrow> 'p list \<Rightarrow> nat \<Rightarrow> nat \<Rightarrow> rect \<Rightarrow> u32 list \<Rightarrow> u32 list"
where
  "copy_rect conv src sstride dstride r dst =
     fold (\<lambda>row d. copy_row conv src ((nat (ry r) + row) * sstride + nat (rx r))
                                     ((nat (ry r) + row) * dstride + nat (rx r)) (nat (rw r)) d)
       [0..<nat (rh r)] dst"

text \<open>
  One update's damage: every rectangle is clipped and copied, and the clipped ones are
  reported afterwards.
\<close>

fun copy_damage ::
  "('p \<Rightarrow> u32) \<Rightarrow> 'p list \<Rightarrow> nat \<Rightarrow> nat \<Rightarrow> int \<Rightarrow> int \<Rightarrow> rect list \<Rightarrow> u32 list \<Rightarrow> u32 list \<times> rect list"
where
  "copy_damage conv src sstride dstride fw fh [] dst = (dst, [])"
| "copy_damage conv src sstride dstride fw fh (r # rs) dst =
     (case clip_rect fw fh r of
        None \<Rightarrow> copy_damage conv src sstride dstride fw fh rs dst
      | Some c \<Rightarrow>
          (let (d, cs) = copy_damage conv src sstride dstride fw fh rs
                           (copy_rect conv src sstride dstride c dst)
           in (d, c # cs)))"

subsection \<open>Reads\<close>

type_synonym mem = "nat \<Rightarrow> u8"

definition pixel_byte :: "u32 list \<Rightarrow> nat \<Rightarrow> u8" where
  "pixel_byte p i = ucast (drop_bit (8 * (i mod 4)) (p ! (i div 4)))"

definition mem_copy :: "mem \<Rightarrow> nat \<Rightarrow> (nat \<Rightarrow> u8) \<Rightarrow> nat \<Rightarrow> nat \<Rightarrow> mem" where
  "mem_copy m d src s n = (\<lambda>a. if d \<le> a \<and> a < d + n then src (s + (a - d)) else m a)"

definition fb_read_region ::
  "shadow \<Rightarrow> int \<Rightarrow> int \<Rightarrow> int \<Rightarrow> int \<Rightarrow> mem \<Rightarrow> nat \<Rightarrow> int \<Rightarrow> int \<Rightarrow> bool \<times> mem"
where
  "fb_read_region s x y w h dst stride dstX dstY =
     (if w \<le> 0 \<or> h \<le> 0 \<or> dstX < 0 \<or> dstY < 0 then (False, dst)
      else case px s of
        None \<Rightarrow> (False, dst)
      | Some p \<Rightarrow>
          if x \<ge> 0 \<and> y \<ge> 0 \<and> x \<le> pw s \<and> y \<le> ph s \<and> w \<le> pw s - x \<and> h \<le> ph s - y
          then (True, fold (\<lambda>row m. mem_copy m ((nat dstY + row) * stride + nat dstX * 4)
                                  (pixel_byte p) (((nat y + row) * nat (pw s) + nat x) * 4) (nat w * 4))
                        [0..<nat h] dst)
          else (False, dst))"

definition fb_read_thumbnail ::
  "shadow \<Rightarrow> int \<Rightarrow> mem \<Rightarrow> nat \<Rightarrow> int \<Rightarrow> int \<Rightarrow> bool \<times> mem"
where
  "fb_read_thumbnail s step dst stride dstW dstH =
     (if step < 1 then (False, dst)
      else case px s of
        None \<Rightarrow> (False, dst)
      | Some p \<Rightarrow>
          if pw s > 0 \<and> ph s > 0 then
            (let tw = (pw s + step - 1) div step;
                 th = (ph s + step - 1) div step
             in if tw \<le> dstW \<and> th \<le> dstH then
                  (True, fold (\<lambda>row m. fold (\<lambda>col m.
                            mem_copy m (row * stride + col * 4) (pixel_byte p)
                              ((row * nat step * nat (pw s) + col * nat step) * 4) 4)
                          [0..<nat tw] m) [0..<nat th] dst)
                else (False, dst))
          else (False, dst))"

subsection \<open>Invariant\<close>

definition opaque_px :: "u32 \<Rightarrow> bool" where
  "opaque_px p \<longleftrightarrow> p AND ALPHA = ALPHA"

definition shadow_ok :: "shadow \<Rightarrow> bool" where
  "shadow_ok s \<longleftrightarrow>
     (case px s of
        None \<Rightarrow> True
      | Some p \<Rightarrow> 0 < pw s \<and> 0 < ph s \<and> length p = nat (pw s) * nat (ph s) \<and> list_all opaque_px p)"

text \<open>The pixels of a rectangle, and of the whole buffer.\<close>

definition in_rect :: "rect \<Rightarrow> int \<times> int \<Rightarrow> bool" where
  "in_rect r = (\<lambda>(a, b). rx r \<le> a \<and> a < rx r + rw r \<and> ry r \<le> b \<and> b < ry r + rh r)"

definition in_buffer :: "int \<Rightarrow> int \<Rightarrow> int \<times> int \<Rightarrow> bool" where
  "in_buffer fw fh = (\<lambda>(a, b). 0 \<le> a \<and> a < fw \<and> 0 \<le> b \<and> b < fh)"

definition rect_inside :: "int \<Rightarrow> int \<Rightarrow> rect \<Rightarrow> bool" where
  "rect_inside fw fh r \<longleftrightarrow>
     0 \<le> rx r \<and> 0 \<le> ry r \<and> 0 < rw r \<and> 0 < rh r \<and> rx r + rw r \<le> fw \<and> ry r + rh r \<le> fh"

section \<open>Clipping\<close>

lemma clip_rect_inside: "clip_rect fw fh r = Some c \<Longrightarrow> rect_inside fw fh c"
  by (auto simp: clip_rect_def rect_inside_def Let_def split: if_splits)

lemma clip_rect_Some:
  "clip_rect fw fh r = Some c \<Longrightarrow> in_rect c p \<longleftrightarrow> in_rect r p \<and> in_buffer fw fh p"
  by (cases p) (auto simp: clip_rect_def in_rect_def in_buffer_def Let_def split: if_splits)

lemma clip_rect_None:
  "clip_rect fw fh r = None \<Longrightarrow> \<not> (in_rect r p \<and> in_buffer fw fh p)"
  by (cases p) (auto simp: clip_rect_def in_rect_def in_buffer_def Let_def split: if_splits)

text \<open>
  Clipping a damaged rectangle is intersecting it with the buffer: the result, when
  there is one, lies inside the buffer, is not empty and holds exactly the rectangle's
  pixels that the buffer has; there is none exactly when no pixel is left.
\<close>

theorem clip_rect_spec:
  "(case clip_rect fw fh r of
      None \<Rightarrow> \<forall>p. \<not> (in_rect r p \<and> in_buffer fw fh p)
    | Some c \<Rightarrow> rect_inside fw fh c \<and> (\<forall>p. in_rect c p \<longleftrightarrow> in_rect r p \<and> in_buffer fw fh p))"
  by (auto split: option.splits dest: clip_rect_inside clip_rect_Some clip_rect_None)

section \<open>Copying\<close>

lemma length_copy_row [simp]: "length (copy_row conv src sb db n dst) = length dst"
proof -
  have "length (fold (\<lambda>col d. d[db + col := conv (src ! (sb + col))]) cols dst) = length dst" for cols
    by (induction cols arbitrary: dst) simp_all
  then show ?thesis by (simp add: copy_row_def)
qed

lemma copy_row_nth:
  assumes "db + n \<le> length dst" and "i < length dst"
  shows "copy_row conv src sb db n dst ! i =
      (if db \<le> i \<and> i < db + n then conv (src ! (sb + (i - db))) else dst ! i)"
  using assms(1)
proof (induction n)
  case 0
  then show ?case by (auto simp: copy_row_def)
next
  case (Suc n)
  have "copy_row conv src sb db (Suc n) dst =
      (copy_row conv src sb db n dst)[db + n := conv (src ! (sb + n))]"
    by (simp add: copy_row_def)
  with Suc assms(2) show ?case
    by (auto simp: nth_list_update)
qed

text \<open>Row \<open>b\<close>, column \<open>a\<close> of a buffer lies in the run that starts at \<open>x\<close> of row \<open>r\<close> only if \<open>b = r\<close>.\<close>

lemma row_run_iff:
  fixes a b r n k :: nat
  assumes "a < n" and "x + k \<le> n"
  shows "r * n + x \<le> b * n + a \<and> b * n + a < r * n + x + k \<longleftrightarrow> b = r \<and> x \<le> a \<and> a < x + k"
proof (cases b r rule: linorder_cases)
  case less
  then have "Suc b * n \<le> r * n" by (intro mult_le_mono1) simp
  with assms less show ?thesis by auto
next
  case greater
  then have "Suc r * n \<le> b * n" by (intro mult_le_mono1) simp
  with assms greater show ?thesis by auto
qed auto

lemma row_in_length:
  fixes a b n h l :: nat
  assumes "a < n" and "b < h" and "h * n \<le> l"
  shows "b * n + a < l"
proof -
  have "Suc b * n \<le> h * n" using assms(2) by (intro mult_le_mono1) simp
  with assms show ?thesis by simp
qed

lemma length_copy_rect [simp]: "length (copy_rect conv src ss ds r dst) = length dst"
proof -
  have "length (fold (\<lambda>row d. copy_row conv src (f row) (g row) n d) rows dst) = length dst"
    for rows f g n
    by (induction rows arbitrary: dst) simp_all
  then show ?thesis by (simp add: copy_rect_def)
qed

lemma copy_rect_nth:
  assumes "rect_inside (int ds) fh r" and "nat fh * ds \<le> length dst"
    and "a < ds" and "b * ds + a < length dst"
  shows "copy_rect conv src ss ds r dst ! (b * ds + a) =
      (if in_rect r (int a, int b) then conv (src ! (b * ss + a)) else dst ! (b * ds + a))"
proof -
  define x y w where "x = nat (rx r)" and "y = nat (ry r)" and "w = nat (rw r)"
  have w: "x + w \<le> ds"
    using assms(1) by (auto simp: rect_inside_def x_def w_def)
  let ?f = "\<lambda>n. fold (\<lambda>row d. copy_row conv src ((y + row) * ss + x) ((y + row) * ds + x) w d) [0..<n] dst"
  have len: "length (?f n) = length dst" for n
    by (induction n) simp_all
  have "?f n ! (b * ds + a) =
      (if x \<le> a \<and> a < x + w \<and> y \<le> b \<and> b < y + n then conv (src ! (b * ss + a)) else dst ! (b * ds + a))"
    if "n \<le> nat (rh r)" for n
    using that
  proof (induction n)
    case (Suc n)
    have "y + n < nat fh"
      using assms(1) Suc.prems by (auto simp: rect_inside_def y_def)
    then have "Suc (y + n) * ds \<le> nat fh * ds" by (intro mult_le_mono1) simp
    then have fits: "(y + n) * ds + x + w \<le> length (?f n)"
      using assms(2) w len [of n] by simp
    have "?f (Suc n) ! (b * ds + a) =
        (if (y + n) * ds + x \<le> b * ds + a \<and> b * ds + a < (y + n) * ds + x + w
         then conv (src ! ((y + n) * ss + x + (b * ds + a - ((y + n) * ds + x)))) else ?f n ! (b * ds + a))"
      using copy_row_nth [OF fits, of "b * ds + a" conv src] assms(4) len [of n] by simp
    with Suc show ?case
      using row_run_iff [OF assms(3) w, of "y + n" b] by (auto simp: less_Suc_eq)
  qed auto
  from this [of "nat (rh r)"] show ?thesis
    using assms(1) unfolding copy_rect_def x_def [symmetric] y_def [symmetric] w_def [symmetric]
    by (auto simp: in_rect_def rect_inside_def x_def y_def w_def)
qed

text \<open>The whole damage: the last copy into a pixel wins, and every copy of it reads the same source.\<close>

lemma copy_damage_Some:
  "clip_rect fw fh r = Some c \<Longrightarrow>
   fst (copy_damage conv src ss ds fw fh (r # rs) dst) =
     fst (copy_damage conv src ss ds fw fh rs (copy_rect conv src ss ds c dst)) \<and>
   snd (copy_damage conv src ss ds fw fh (r # rs) dst) =
     c # snd (copy_damage conv src ss ds fw fh rs (copy_rect conv src ss ds c dst))"
  by (simp split: prod.splits)

lemma length_copy_damage [simp]: "length (fst (copy_damage conv src ss ds fw fh rs dst)) = length dst"
proof (induction rs arbitrary: dst)
  case (Cons r rs)
  then show ?case
    by (cases "clip_rect fw fh r") (simp_all add: copy_damage_Some del: copy_damage.simps(2), simp)
qed simp

lemma copy_damage_nth:
  assumes "int ds \<ge> fw" and "nat fh * ds \<le> length dst"
    and "a < ds" and "b * ds + a < length dst"
  shows "fst (copy_damage conv src ss ds fw fh rs dst) ! (b * ds + a) =
      (if \<exists>r\<in>set rs. in_rect r (int a, int b) \<and> in_buffer fw fh (int a, int b)
       then conv (src ! (b * ss + a)) else dst ! (b * ds + a))"
  using assms(2,4)
proof (induction rs arbitrary: dst)
  case (Cons r rs)
  show ?case
  proof (cases "clip_rect fw fh r")
    case None
    with Cons show ?thesis by (auto dest: clip_rect_None)
  next
    case (Some c)
    have inside: "rect_inside (int ds) fh c"
      using clip_rect_inside [OF Some] assms(1) by (auto simp: rect_inside_def)
    have copied: "copy_rect conv src ss ds c dst ! (b * ds + a) =
        (if in_rect r (int a, int b) \<and> in_buffer fw fh (int a, int b)
         then conv (src ! (b * ss + a)) else dst ! (b * ds + a))"
      using copy_rect_nth [OF inside Cons.prems(1) assms(3) Cons.prems(2), of conv src ss] clip_rect_Some [OF Some]
      by simp
    from Cons.IH [of "copy_rect conv src ss ds c dst"] Cons.prems copied show ?thesis
      by (simp add: copy_damage_Some [OF Some] del: copy_damage.simps(2))
  qed
qed simp

lemma copy_damage_rects:
  "snd (copy_damage conv src ss ds fw fh rs dst) = List.map_filter (clip_rect fw fh) rs"
proof (induction rs arbitrary: dst)
  case (Cons r rs)
  then show ?case
    by (cases "clip_rect fw fh r")
       (simp_all add: copy_damage_Some List.map_filter_simps del: copy_damage.simps(2), simp)
qed (simp add: List.map_filter_simps)

lemma copy_damage_inside:
  "c \<in> set (snd (copy_damage conv src ss ds fw fh rs dst)) \<Longrightarrow> rect_inside fw fh c"
  by (auto simp: copy_damage_rects List.map_filter_def dest: clip_rect_inside)

text \<open>A copy through a conversion that gives opaque pixels keeps the buffer opaque.\<close>

lemma nth_row_col:
  assumes "0 < (n::nat)" shows "i = (i div n) * n + i mod n" and "i mod n < n"
  using assms by simp_all

lemma copy_damage_opaque:
  assumes "list_all opaque_px dst" and "fw \<le> int ds" and "0 < ds" and "nat fh * ds \<le> length dst"
    and "\<And>a b r. r \<in> set rs \<Longrightarrow> in_rect r (int a, int b) \<Longrightarrow> in_buffer fw fh (int a, int b) \<Longrightarrow>
           opaque_px (conv (src ! (b * ss + a)))"
  shows "list_all opaque_px (fst (copy_damage conv src ss ds fw fh rs dst))"
  unfolding list_all_length
proof (intro allI impI)
  fix i assume "i < length (fst (copy_damage conv src ss ds fw fh rs dst))"
  then have i: "i < length dst" by simp
  note rc = nth_row_col [OF assms(3), of i]
  have "fst (copy_damage conv src ss ds fw fh rs dst) ! i =
      (if \<exists>r\<in>set rs. in_rect r (int (i mod ds), int (i div ds)) \<and> in_buffer fw fh (int (i mod ds), int (i div ds))
       then conv (src ! (i div ds * ss + i mod ds)) else dst ! i)"
    using copy_damage_nth [of fw ds fh dst "i mod ds" "i div ds" conv src ss rs] assms(2,4) i rc by simp
  then show "opaque_px (fst (copy_damage conv src ss ds fw fh rs dst) ! i)"
    using assms(1,5) i by (auto simp: list_all_length)
qed

lemma opaque_px_ALPHA [simp]: "opaque_px ALPHA"
  by (simp add: opaque_px_def)

lemma bit_ALPHA: "bit ALPHA n \<longleftrightarrow> 24 \<le> n \<and> n < 32"
proof -
  have A: "ALPHA = push_bit 24 (mask 8)" by (simp add: ALPHA_def mask_eq_exp_minus_1)
  show ?thesis unfolding A by (auto simp: bit_simps)
qed

lemma opaque_px_iff: "opaque_px p \<longleftrightarrow> (\<forall>n. 24 \<le> n \<and> n < 32 \<longrightarrow> bit p n)"
  by (auto simp: opaque_px_def bit_eq_iff bit_and_iff bit_ALPHA)

lemma opaque_px_or [simp]: "opaque_px (p OR ALPHA)" "opaque_px (ALPHA OR p)"
  by (simp_all add: opaque_px_iff bit_or_iff bit_ALPHA)

lemma shadow_ok_alloc: "0 < w \<Longrightarrow> 0 < h \<Longrightarrow> shadow_ok (shadow_alloc w h)"
  by (simp add: shadow_ok_def shadow_alloc_def list_all_length)

lemma shadow_alloc_sel [simp]:
  "px (shadow_alloc w h) \<noteq> None" "pw (shadow_alloc w h) = w" "ph (shadow_alloc w h) = h"
  by (simp_all add: shadow_alloc_def)

section \<open>Reading\<close>

text \<open>
  Copies to rows a stride apart, none longer than the stride: each row holds its copy and
  no other address changes.
\<close>

lemma mem_copy_rows:
  fixes D :: "nat \<Rightarrow> nat"
  assumes apart: "\<And>i j. i < j \<Longrightarrow> D i + n \<le> D j"
  shows "(\<forall>row<H. \<forall>k<n. fold (\<lambda>row m. mem_copy m (D row) (src row) (S row) n) [0..<H] m (D row + k) =
            src row (S row + k)) \<and>
         (\<forall>a. (\<forall>row<H. \<not> (D row \<le> a \<and> a < D row + n)) \<longrightarrow>
           fold (\<lambda>row m. mem_copy m (D row) (src row) (S row) n) [0..<H] m a = m a)"
proof (induction H)
  case (Suc H)
  have other: "\<not> (D H \<le> D row + k \<and> D row + k < D H + n)" if "row < H" "k < n" for row k
    using apart [OF that(1)] that(2) by simp
  show ?case
    using Suc other by (auto simp: mem_copy_def less_Suc_eq)
qed simp

lemma row_apart:
  fixes stride :: nat
  assumes "n \<le> stride" and "i < j"
  shows "(b + i) * stride + c + n \<le> (b + j) * stride + c"
proof -
  have "Suc (b + i) * stride \<le> (b + j) * stride"
    using assms(2) by (intro mult_le_mono1) simp
  with assms(1) show ?thesis by simp
qed

text \<open>Pixels copied one by one are one copy of the row.\<close>

lemma mem_copy_pixels:
  "fold (\<lambda>col m. mem_copy m (B + col * 4) src (S col) 4) [0..<T] m =
   mem_copy m B (\<lambda>k. src (S (k div 4) + k mod 4)) 0 (4 * T)"
proof (induction T)
  case (Suc T)
  show ?case
  proof (rule ext)
    fix a
    consider "a < B" | "B \<le> a" "a < B + T * 4" | q where "a = B + T * 4 + q" "q < 4" | "B + Suc T * 4 \<le> a"
      by (cases "a < B + T * 4"; cases "a < B + Suc T * 4"; cases "a < B")
         (auto simp: le_iff_add not_less)
    then show "fold (\<lambda>col m. mem_copy m (B + col * 4) src (S col) 4) [0..<Suc T] m a =
        mem_copy m B (\<lambda>k. src (S (k div 4) + k mod 4)) 0 (4 * Suc T) a"
      by cases (simp_all add: Suc, simp_all add: mem_copy_def)
  qed
qed (auto simp: mem_copy_def fun_eq_iff)

lemma fb_read_region_False:
  "\<not> fst (fb_read_region s x y w h dst stride dstX dstY) \<Longrightarrow>
   snd (fb_read_region s x y w h dst stride dstX dstY) = dst"
  by (auto simp: fb_read_region_def split: if_splits option.splits)

lemma fb_read_region_iff:
  "fst (fb_read_region s x y w h dst stride dstX dstY) \<longleftrightarrow>
   px s \<noteq> None \<and> 0 \<le> dstX \<and> 0 \<le> dstY \<and>
   rect_inside (pw s) (ph s) \<lparr>rx = x, ry = y, rw = w, rh = h\<rparr>"
  by (auto simp: fb_read_region_def rect_inside_def split: if_splits option.splits)

lemma fb_read_region_content:
  assumes ok: "fst (fb_read_region s x y w h dst stride dstX dstY)" and p: "px s = Some p"
    and stride: "4 * nat w \<le> stride"
    and row: "row < nat h" and k: "k < 4 * nat w"
  shows "snd (fb_read_region s x y w h dst stride dstX dstY) ((nat dstY + row) * stride + nat dstX * 4 + k) =
      pixel_byte p (((nat y + row) * nat (pw s) + nat x) * 4 + k)"
proof -
  let ?D = "\<lambda>row. (nat dstY + row) * stride + nat dstX * 4"
  let ?S = "\<lambda>row. ((nat y + row) * nat (pw s) + nat x) * 4"
  have apart: "?D i + nat w * 4 \<le> ?D j" if "i < j" for i j
    using row_apart [OF _ that, of "nat w * 4" stride] stride by simp
  have "snd (fb_read_region s x y w h dst stride dstX dstY) =
      fold (\<lambda>row m. mem_copy m (?D row) (pixel_byte p) (?S row) (nat w * 4)) [0..<nat h] dst"
    using ok p by (auto simp: fb_read_region_def split: if_splits)
  with mem_copy_rows [where D = ?D, OF apart, where H = "nat h" and S = ?S and src = "\<lambda>_. pixel_byte p" and m = dst] row k
  show ?thesis by simp
qed

lemma fb_read_region_in_bounds:
  assumes "rect_inside (pw s) (ph s) \<lparr>rx = x, ry = y, rw = w, rh = h\<rparr>" and "px s = Some p"
    and "shadow_ok s" and "row < nat h" and "k < 4 * nat w"
  shows "(((nat y + row) * nat (pw s) + nat x) * 4 + k) div 4 < length p"
proof -
  have a: "nat x + k div 4 < nat (pw s)" "nat y + row < nat (ph s)"
    using assms by (auto simp: rect_inside_def)
  have "(nat y + row) * nat (pw s) + (nat x + k div 4) < length p"
    using row_in_length [OF a] assms(2,3) by (simp add: shadow_ok_def mult.commute)
  then show ?thesis by simp
qed

lemma pixel_byte_pixel:
  assumes "k < 4"
  shows "pixel_byte p (i * 4 + k) = ucast (drop_bit (8 * k) (p ! i))"
  using assms by (simp add: pixel_byte_def)

lemma ucast_alpha_byte: "opaque_px q \<Longrightarrow> (ucast (drop_bit 24 q) :: u8) = 0xFF"
proof -
  assume "opaque_px q"
  then have b: "bit q n" if "n \<in> {24..<32}" for n
    using that by (auto simp: opaque_px_iff)
  have m: "(0xFF :: u8) = mask 8" by (simp add: mask_eq_exp_minus_1)
  show ?thesis
    unfolding m by (rule bit_word_eqI) (auto simp: bit_simps b)
qed

text \<open>
  A region read succeeds exactly when there is a framebuffer, the destination offset is
  not negative and the region is a non-empty part of the desktop, for any integers; when it
  fails nothing is written; and when it succeeds every byte delivered is the byte of the
  pixel asked for, read inside the buffer.
\<close>

theorem read_region_spec:
  assumes "shadow_ok s" and "4 * nat w \<le> stride"
  shows "let (ok, m) = fb_read_region s x y w h dst stride dstX dstY in
     (ok \<longleftrightarrow> px s \<noteq> None \<and> 0 \<le> dstX \<and> 0 \<le> dstY \<and>
             rect_inside (pw s) (ph s) \<lparr>rx = x, ry = y, rw = w, rh = h\<rparr>) \<and>
     (\<not> ok \<longrightarrow> m = dst) \<and>
     (ok \<longrightarrow> (\<forall>row<nat h. \<forall>k<4 * nat w.
        (((nat y + row) * nat (pw s) + nat x) * 4 + k) div 4 < length (the (px s)) \<and>
        m ((nat dstY + row) * stride + nat dstX * 4 + k) =
          pixel_byte (the (px s)) (((nat y + row) * nat (pw s) + nat x) * 4 + k)))"
proof -
  obtain ok m where r: "fb_read_region s x y w h dst stride dstX dstY = (ok, m)"
    by (cases "fb_read_region s x y w h dst stride dstX dstY")
  have iff: "ok \<longleftrightarrow> px s \<noteq> None \<and> 0 \<le> dstX \<and> 0 \<le> dstY \<and>
      rect_inside (pw s) (ph s) \<lparr>rx = x, ry = y, rw = w, rh = h\<rparr>"
    using fb_read_region_iff [of s x y w h dst stride dstX dstY] r by simp
  have fail: "\<not> ok \<longrightarrow> m = dst"
    using fb_read_region_False [of s x y w h dst stride dstX dstY] r by simp
  have "(((nat y + row) * nat (pw s) + nat x) * 4 + k) div 4 < length (the (px s)) \<and>
      m ((nat dstY + row) * stride + nat dstX * 4 + k) =
        pixel_byte (the (px s)) (((nat y + row) * nat (pw s) + nat x) * 4 + k)"
    if "ok" "row < nat h" "k < 4 * nat w" for row k
    using fb_read_region_content [of s x y w h dst stride dstX dstY, OF _ _ assms(2) that(2,3)]
      fb_read_region_in_bounds [of s x y w h _ row k] r iff that assms(1) by auto
  with iff fail show ?thesis
    unfolding r Let_def prod.case by blast
qed

theorem read_region_spec_witness:
  "let s = shadow_alloc 2 2; (ok, m) = fb_read_region s 1 1 1 1 (\<lambda>_. 7) 4 0 0 in
     ok \<and> m 0 = 0 \<and> m 3 = 0xFF"
proof -
  have ok: "shadow_ok (shadow_alloc 2 2)"
    by (rule shadow_ok_alloc) simp_all
  obtain r m where r: "fb_read_region (shadow_alloc 2 2) 1 1 1 1 (\<lambda>_. 7) 4 0 0 = (r, m)"
    by fastforce
  have inside: "px (shadow_alloc 2 2) = Some (replicate 4 ALPHA)"
      "pw (shadow_alloc 2 2) = 2" "ph (shadow_alloc 2 2) = 2"
    by (simp_all add: shadow_alloc_def)
  have "r \<and> (\<forall>row<1. \<forall>k<4. m ((0 + row) * 4 + 0 * 4 + k) = pixel_byte (replicate 4 ALPHA) (((1 + row) * 2 + 1) * 4 + k))"
    using read_region_spec [OF ok, of 1 4 1 1 1 "\<lambda>_. 7" 0 0] unfolding r Let_def prod.case inside
    by (simp add: rect_inside_def)
  then have "r \<and> m 0 = pixel_byte (replicate 4 ALPHA) 12 \<and> m 3 = pixel_byte (replicate 4 ALPHA) 15"
    by (auto dest: spec [of _ 0] spec [of _ 3])
  then show ?thesis
    by (simp add: r pixel_byte_def ALPHA_def)
qed

text \<open>The thumbnail: row \<open>row\<close>, column \<open>col\<close> is the pixel a step of rows and columns away.\<close>

lemma ceil_div_less:
  fixes n step :: int
  assumes "1 \<le> step" and "0 < n" and "i < nat ((n + step - 1) div step)"
  shows "i * nat step < nat n"
proof -
  have "int i + 1 \<le> (n + step - 1) div step" using assms(3) by linarith
  then have "(int i + 1) * step \<le> (n + step - 1) div step * step"
    using assms(1) by (intro mult_right_mono) simp_all
  also have "\<dots> \<le> n + step - 1"
    using pos_mod_sign [of step "n + step - 1"] assms(1)
    by (simp add: minus_mod_eq_div_mult [symmetric] del: pos_mod_sign)
  finally have "int i * step < n" by (simp add: algebra_simps)
  then show ?thesis
    using assms(1) by (simp add: nat_mult_distrib [symmetric] zless_nat_eq_int_zless)
qed

lemma fb_read_thumbnail_iff:
  assumes "shadow_ok s"
  shows "fst (fb_read_thumbnail s step dst stride dstW dstH) \<longleftrightarrow>
     1 \<le> step \<and> px s \<noteq> None \<and>
     (pw s + step - 1) div step \<le> dstW \<and> (ph s + step - 1) div step \<le> dstH"
  using assms by (auto simp: fb_read_thumbnail_def shadow_ok_def Let_def split: if_splits option.splits)

lemma fb_read_thumbnail_False:
  "\<not> fst (fb_read_thumbnail s step dst stride dstW dstH) \<Longrightarrow>
   snd (fb_read_thumbnail s step dst stride dstW dstH) = dst"
  by (auto simp: fb_read_thumbnail_def Let_def split: if_splits option.splits)

lemma fb_read_thumbnail_content:
  assumes ok: "fst (fb_read_thumbnail s step dst stride dstW dstH)" and p: "px s = Some p"
    and stride: "4 * nat ((pw s + step - 1) div step) \<le> stride"
    and row: "row < nat ((ph s + step - 1) div step)"
    and k: "k < 4 * nat ((pw s + step - 1) div step)"
  shows "snd (fb_read_thumbnail s step dst stride dstW dstH) (row * stride + k) =
      pixel_byte p ((row * nat step * nat (pw s) + k div 4 * nat step) * 4 + k mod 4)"
proof -
  let ?D = "\<lambda>row. (0 + row) * stride + 0" and ?T = "nat ((pw s + step - 1) div step)"
  let ?src = "\<lambda>row k. pixel_byte p ((row * nat step * nat (pw s) + k div 4 * nat step) * 4 + k mod 4)"
  have "snd (fb_read_thumbnail s step dst stride dstW dstH) =
      fold (\<lambda>row m. fold (\<lambda>col m. mem_copy m (row * stride + col * 4) (pixel_byte p)
          ((row * nat step * nat (pw s) + col * nat step) * 4) 4) [0..<?T] m)
        [0..<nat ((ph s + step - 1) div step)] dst"
    using ok p by (simp add: fb_read_thumbnail_def Let_def split: if_splits)
  also have "\<dots> = fold (\<lambda>row m. mem_copy m (?D row) (?src row) 0 (4 * ?T))
      [0..<nat ((ph s + step - 1) div step)] dst"
    by (rule fold_cong [OF refl refl], rule ext, subst mem_copy_pixels) simp
  finally have "snd (fb_read_thumbnail s step dst stride dstW dstH) = \<dots>" .
  moreover have "?D i + 4 * ?T \<le> ?D j" if "i < j" for i j
    by (rule row_apart [OF stride that])
  note mem_copy_rows [where D = ?D, OF this, where H = "nat ((ph s + step - 1) div step)"
      and S = "\<lambda>_. 0" and src = ?src and m = dst]
  ultimately show ?thesis using row k by simp
qed

text \<open>
  A thumbnail read succeeds exactly when the step is positive, there is a framebuffer
  and the destination holds \<open>ceil(w/step)\<close> by \<open>ceil(h/step)\<close> pixels; otherwise nothing is
  written; and when it succeeds each pixel is the desktop's pixel at that multiple of the
  step, read inside the buffer.
\<close>

theorem read_thumbnail_spec:
  assumes "shadow_ok s" and "4 * nat ((pw s + step - 1) div step) \<le> stride"
  shows "let (ok, m) = fb_read_thumbnail s step dst stride dstW dstH;
             tw = (pw s + step - 1) div step; th = (ph s + step - 1) div step in
     (ok \<longleftrightarrow> 1 \<le> step \<and> px s \<noteq> None \<and> tw \<le> dstW \<and> th \<le> dstH) \<and>
     (\<not> ok \<longrightarrow> m = dst) \<and>
     (ok \<longrightarrow> (\<forall>row<nat th. \<forall>col<nat tw. \<forall>c<4.
        row * nat step * nat (pw s) + col * nat step < length (the (px s)) \<and>
        m (row * stride + col * 4 + c) =
          ucast (drop_bit (8 * c) (the (px s) ! (row * nat step * nat (pw s) + col * nat step)))))"
proof -
  obtain ok m where r: "fb_read_thumbnail s step dst stride dstW dstH = (ok, m)"
    by (cases "fb_read_thumbnail s step dst stride dstW dstH")
  let ?tw = "(pw s + step - 1) div step" and ?th = "(ph s + step - 1) div step"
  have iff: "ok \<longleftrightarrow> 1 \<le> step \<and> px s \<noteq> None \<and> ?tw \<le> dstW \<and> ?th \<le> dstH"
    using fb_read_thumbnail_iff [OF assms(1), of step dst stride dstW dstH] r by simp
  have fail: "\<not> ok \<longrightarrow> m = dst"
    using fb_read_thumbnail_False [of s step dst stride dstW dstH] r by simp
  have "row * nat step * nat (pw s) + col * nat step < length (the (px s)) \<and>
      m (row * stride + col * 4 + c) =
        ucast (drop_bit (8 * c) (the (px s) ! (row * nat step * nat (pw s) + col * nat step)))"
    if that: "ok" "row < nat ?th" "col < nat ?tw" "c < 4" for row col c
  proof -
    from that(1) iff obtain p where p: "px s = Some p" and step: "1 \<le> step" by blast
    have size: "0 < pw s" "0 < ph s" "length p = nat (pw s) * nat (ph s)"
      using assms(1) p by (simp_all add: shadow_ok_def)
    have "col * nat step < nat (pw s)" "row * nat step < nat (ph s)"
      using ceil_div_less [OF step] size that(2,3) by blast+
    from row_in_length [OF this] have "row * nat step * nat (pw s) + col * nat step < length p"
      by (simp add: size(3) mult.commute)
    moreover have "m (row * stride + (col * 4 + c)) =
        pixel_byte p ((row * nat step * nat (pw s) + col * nat step) * 4 + c)"
      using fb_read_thumbnail_content [of s step dst stride dstW dstH p row "col * 4 + c"] r that p assms(2)
      by simp
    ultimately show ?thesis
      unfolding pixel_byte_pixel [OF that(4)] by (simp add: p add.assoc)
  qed
  with iff fail show ?thesis
    unfolding r Let_def prod.case by blast
qed

theorem read_thumbnail_spec_witness:
  "fst (fb_read_thumbnail (shadow_alloc 3 3) 2 (\<lambda>_. 7) 8 2 2) \<and>
   \<not> fst (fb_read_thumbnail (shadow_alloc 3 3) 2 (\<lambda>_. 7) 8 1 2)"
proof -
  have ok: "shadow_ok (shadow_alloc 3 3)" by (rule shadow_ok_alloc) simp_all
  have dims: "pw (shadow_alloc 3 3) = 3" "ph (shadow_alloc 3 3) = 3" "px (shadow_alloc 3 3) \<noteq> None"
    by (simp_all add: shadow_alloc_def)
  show ?thesis
    using read_thumbnail_spec [OF ok, of 2 8 "\<lambda>_. 7" 2 2] read_thumbnail_spec [OF ok, of 2 8 "\<lambda>_. 7" 1 2] dims
    by (simp add: case_prod_unfold Let_def)
qed

section \<open>The contract of a session's framebuffer\<close>

text \<open>
  A session whose every step keeps its copy well-formed and opaque: then no sequence of steps
  makes a region read deliver a pixel whose alpha byte is not \<open>0xFF\<close>, which is what
  \<open>vento/backend.h\<close> requires of every backend.
\<close>

locale opaque_framebuffer =
  fixes invar :: "'s \<Rightarrow> bool"
    and shadow_of :: "'s \<Rightarrow> shadow"
    and fstep :: "'s \<Rightarrow> 'e \<Rightarrow> 's"
  assumes invar_step: "invar s \<Longrightarrow> invar (fstep s e)"
    and invar_shadow: "invar s \<Longrightarrow> shadow_ok (shadow_of s)"
begin

lemma invar_run: "invar s \<Longrightarrow> invar (fold (\<lambda>e s. fstep s e) es s)"
  by (induction es arbitrary: s) (simp_all add: invar_step)

lemma read_opaque:
  assumes "invar s" and "4 * nat w \<le> stride"
    and "fb_read_region (shadow_of (fold (\<lambda>e s. fstep s e) es s)) x y w h dst stride dstX dstY = (True, m)"
    and "row < nat h" and "col < nat w"
  shows "m ((nat dstY + row) * stride + nat dstX * 4 + (col * 4 + 3)) = 0xFF"
proof -
  let ?s = "shadow_of (fold (\<lambda>e s. fstep s e) es s)"
  have ok: "shadow_ok ?s" using invar_run [OF assms(1)] by (rule invar_shadow)
  obtain p where p: "px ?s = Some p" and inside: "rect_inside (pw ?s) (ph ?s) \<lparr>rx = x, ry = y, rw = w, rh = h\<rparr>"
    using fb_read_region_iff [of ?s x y w h dst stride dstX dstY] assms(3) by auto
  have k: "col * 4 + 3 < 4 * nat w" using assms(5) by simp
  let ?i = "(nat y + row) * nat (pw ?s) + nat x + col"
  have "?i < length p"
    using fb_read_region_in_bounds [OF inside p ok assms(4) k] by simp
  then have "opaque_px (p ! ?i)"
    using ok p by (simp add: shadow_ok_def list_all_length)
  moreover have "m ((nat dstY + row) * stride + nat dstX * 4 + (col * 4 + 3)) = pixel_byte p (?i * 4 + 3)"
    using fb_read_region_content [of ?s x y w h dst stride dstX dstY, OF _ p assms(2,4) k] assms(3)
    by (simp add: add_mult_distrib add.assoc)
  moreover have "pixel_byte p (?i * 4 + 3) = ucast (drop_bit 24 (p ! ?i))"
    using pixel_byte_pixel [of 3 p ?i] by simp
  ultimately show ?thesis
    by (simp only: ucast_alpha_byte)
qed

end

end
