(* ===== verification/Text.thy ===== *)
theory Text
  imports Prelude
begin

text \<open>
  The text helpers of \<open>src/backends/api/include/vento/text.h\<close>, which every C session passes
  a server's strings and both clipboards through: the UTF-8 check, the reading of any other
  bytes as Latin-1, and the two conversions of line ends.  The lemmas show what the check
  accepts (sequences of the right shape, of which RFC 3629's are a proper subset), that what
  reaches a callback always passes it, that no conversion writes past what it allocates, and
  that the two line-end conversions are inverse up to normalisation and keep UTF-8 intact.
\<close>

section \<open>Definitions\<close>

subsection \<open>UTF-8\<close>

text \<open>The number of bytes that follow a lead byte; \<open>None\<close> where the check returns false.\<close>

definition utf8_extra :: "u8 \<Rightarrow> nat option" where
  "utf8_extra c =
     (if c < 0x80 then Some 0
      else if c AND 0xE0 = 0xC0 then Some 1
      else if c AND 0xF0 = 0xE0 then Some 2
      else if c AND 0xF8 = 0xF0 then Some 3
      else None)"

definition utf8_cont :: "u8 \<Rightarrow> bool" where
  "utf8_cont c \<longleftrightarrow> c AND 0xC0 = 0x80"

text \<open>The loop of the check, from index \<open>i\<close>; \<open>bs\<close> is the string up to its terminator.\<close>

function utf8_valid_from :: "bytes \<Rightarrow> nat \<Rightarrow> bool" where
  "utf8_valid_from bs i =
     (if i < length bs then
        (case utf8_extra (bs ! i) of
           None \<Rightarrow> False
         | Some extra \<Rightarrow>
             if i + extra \<ge> length bs then False
             else if \<not> list_all (\<lambda>k. utf8_cont (bs ! (i + k))) [1..<extra + 1] then False
             else utf8_valid_from bs (i + extra + 1))
      else True)"
  by pat_completeness auto
termination
  by (relation "measure (\<lambda>(bs, i). length bs - i)") auto

declare utf8_valid_from.simps [simp del]

definition vento_utf8_valid :: "bytes \<Rightarrow> bool" where
  "vento_utf8_valid bs = utf8_valid_from bs 0"

text \<open>
  One code point per byte, each at most two bytes of UTF-8: the loop of
  \<open>vento_utf8_from_bytes\<close>, and, written out a second time, of \<open>onCutText\<close>.
\<close>

definition latin1_byte :: "u8 \<Rightarrow> bytes" where
  "latin1_byte c = (if c < 0x80 then [c] else [0xC0 OR drop_bit 6 c, 0x80 OR (c AND 0x3F)])"

primrec latin1_to_utf8 :: "bytes \<Rightarrow> bytes" where
  "latin1_to_utf8 [] = []"
| "latin1_to_utf8 (c # cs) = latin1_byte c @ latin1_to_utf8 cs"

text \<open>
  \<open>malloc\<close> is an argument that says which sizes can be had, so that running out of memory
  is a branch.  NULL reads as the empty string.
\<close>

definition vento_utf8_from_bytes :: "(nat \<Rightarrow> bool) \<Rightarrow> bytes option \<Rightarrow> bytes option" where
  "vento_utf8_from_bytes malloc p =
     (let bs = (case p of None \<Rightarrow> [] | Some b \<Rightarrow> b);
          n = length bs
      in if vento_utf8_valid bs then (if malloc (n + 1) then Some bs else None)
         else if malloc (2 * n + 1) then Some (latin1_to_utf8 bs)
         else None)"

subsection \<open>Line ends\<close>

definition VENTO_MAX_CLIPBOARD :: nat where "VENTO_MAX_CLIPBOARD = 2 ^ 20"

definition CR :: u8 where "CR = 13"
definition LF :: u8 where "LF = 10"

text \<open>The read index steps over the LF of a CRLF.\<close>

definition skip_lf :: "bytes \<Rightarrow> bytes" where
  "skip_lf cs = (case cs of d # ds \<Rightarrow> if d = LF then ds else d # ds | [] \<Rightarrow> [])"

lemma length_skip_lf [termination_simp]: "length (skip_lf cs) \<le> length cs"
  by (simp add: skip_lf_def split: list.splits)

lemma length_skip_lf_less [termination_simp]: "length (skip_lf cs) < Suc (length cs)"
  using length_skip_lf [of cs] by simp

fun vento_text_to_lf :: "bytes \<Rightarrow> bytes" where
  "vento_text_to_lf [] = []"
| "vento_text_to_lf (c # cs) =
     (if c = CR then LF # vento_text_to_lf (skip_lf cs) else c # vento_text_to_lf cs)"

text \<open>The count the output buffer is sized by.\<close>

fun crlf_ends :: "bytes \<Rightarrow> nat" where
  "crlf_ends [] = 0"
| "crlf_ends (c # cs) =
     (if c = LF \<or> (c = CR \<and> (cs = [] \<or> hd cs \<noteq> LF)) then 1 else 0) + crlf_ends cs"

text \<open>The bytes the second loop writes.\<close>

fun crlf_write :: "bytes \<Rightarrow> bytes" where
  "crlf_write [] = []"
| "crlf_write (c # cs) =
     (if c = CR \<or> c = LF then CR # LF # crlf_write (if c = CR then skip_lf cs else cs)
      else c # crlf_write cs)"

definition vento_text_to_crlf :: "(nat \<Rightarrow> bool) \<Rightarrow> bytes option \<Rightarrow> bytes option" where
  "vento_text_to_crlf malloc p =
     (let bs = (case p of None \<Rightarrow> [] | Some b \<Rightarrow> b)
      in if malloc (length bs + crlf_ends bs + 1) then Some (crlf_write bs) else None)"

subsection \<open>Specifications\<close>

text \<open>One sequence of the shape the check looks for, and RFC 3629's well-formed ones.\<close>

definition utf8_seq :: "bytes \<Rightarrow> bool" where
  "utf8_seq s \<longleftrightarrow> s \<noteq> [] \<and> utf8_extra (hd s) = Some (length s - 1) \<and> list_all utf8_cont (tl s)"

fun rfc3629_seq :: "bytes \<Rightarrow> bool" where
  "rfc3629_seq [a] \<longleftrightarrow> a \<le> 0x7F"
| "rfc3629_seq [a, b] \<longleftrightarrow> 0xC2 \<le> a \<and> a \<le> 0xDF \<and> 0x80 \<le> b \<and> b \<le> 0xBF"
| "rfc3629_seq [a, b, c] \<longleftrightarrow>
     0x80 \<le> c \<and> c \<le> 0xBF \<and>
     (a = 0xE0 \<and> 0xA0 \<le> b \<and> b \<le> 0xBF \<or>
      (0xE1 \<le> a \<and> a \<le> 0xEC \<or> 0xEE \<le> a \<and> a \<le> 0xEF) \<and> 0x80 \<le> b \<and> b \<le> 0xBF \<or>
      a = 0xED \<and> 0x80 \<le> b \<and> b \<le> 0x9F)"
| "rfc3629_seq [a, b, c, d] \<longleftrightarrow>
     0x80 \<le> c \<and> c \<le> 0xBF \<and> 0x80 \<le> d \<and> d \<le> 0xBF \<and>
     (a = 0xF0 \<and> 0x90 \<le> b \<and> b \<le> 0xBF \<or>
      0xF1 \<le> a \<and> a \<le> 0xF3 \<and> 0x80 \<le> b \<and> b \<le> 0xBF \<or>
      a = 0xF4 \<and> 0x80 \<le> b \<and> b \<le> 0x8F)"
| "rfc3629_seq _ \<longleftrightarrow> False"

definition rfc3629 :: "bytes \<Rightarrow> bool" where
  "rfc3629 bs \<longleftrightarrow> (\<exists>ss. bs = concat ss \<and> (\<forall>s\<in>set ss. rfc3629_seq s))"

text \<open>
  A text in which every CR is the first half of a CRLF and every LF the second: what a
  Windows clipboard expects.
\<close>

fun crlf_normal :: "bytes \<Rightarrow> bool" where
  "crlf_normal [] \<longleftrightarrow> True"
| "crlf_normal (c # cs) \<longleftrightarrow>
     (if c = CR then (case cs of d # ds \<Rightarrow> d = LF \<and> crlf_normal ds | [] \<Rightarrow> False)
      else c \<noteq> LF \<and> crlf_normal cs)"

section \<open>What the check accepts\<close>

text \<open>The check restarted at an index is the check of the rest of the string.\<close>

fun utf8_shape :: "bytes \<Rightarrow> bool" where
  "utf8_shape [] \<longleftrightarrow> True"
| "utf8_shape (c # cs) \<longleftrightarrow>
     (case utf8_extra c of
        None \<Rightarrow> False
      | Some e \<Rightarrow> e \<le> length cs \<and> list_all utf8_cont (take e cs) \<and> utf8_shape (drop e cs))"

lemma list_all_nth_shift:
  assumes "i + extra < length bs"
  shows "list_all (\<lambda>k. P (bs ! (i + k))) [1..<extra + 1] = list_all P (take extra (drop (Suc i) bs))"
proof -
  have "list_all (\<lambda>k. P (bs ! (i + k))) [1..<extra + 1] \<longleftrightarrow> (\<forall>k\<in>Suc ` {..<extra}. P (bs ! (i + k)))"
    by (auto simp: list_all_iff image_Suc_lessThan)
  also have "\<dots> \<longleftrightarrow> list_all P (take extra (drop (Suc i) bs))"
    using assms by (auto simp: list_all_length)
  finally show ?thesis .
qed

lemma utf8_valid_from_shape: "utf8_valid_from bs i = utf8_shape (drop i bs)"
proof (induction bs i rule: utf8_valid_from.induct)
  case (1 bs i)
  show ?case
  proof (cases "i < length bs")
    case True
    then have d: "drop i bs = bs ! i # drop (Suc i) bs"
      by (simp add: Cons_nth_drop_Suc)
    show ?thesis
    proof (cases "utf8_extra (bs ! i)")
      case None
      with True d show ?thesis by (simp add: utf8_valid_from.simps)
    next
      case (Some extra)
      show ?thesis
      proof (cases "i + extra < length bs")
        case False
        with True Some d show ?thesis by (auto simp: utf8_valid_from.simps)
      next
        case inside: True
        have eq: "list_all (\<lambda>k. utf8_cont (bs ! (i + k))) [1..<extra + 1] =
            list_all utf8_cont (take extra (drop (Suc i) bs))"
          by (rule list_all_nth_shift [OF inside])
        have rest: "utf8_valid_from bs (i + extra + 1) = utf8_shape (drop extra (drop (Suc i) bs))"
          if "list_all (\<lambda>k. utf8_cont (bs ! (i + k))) [1..<extra + 1]"
          using "1.IH" [OF True Some] inside that by (simp add: add.commute)
        show ?thesis
          unfolding utf8_valid_from.simps [of bs i] d
          using True Some inside eq rest by auto
      qed
    qed
  next
    case False
    then show ?thesis by (simp add: utf8_valid_from.simps)
  qed
qed

lemma vento_utf8_valid_shape: "vento_utf8_valid bs = utf8_shape bs"
  by (simp add: vento_utf8_valid_def utf8_valid_from_shape)

text \<open>Splitting off the first sequence.\<close>

lemma utf8_shape_append: "utf8_seq s \<Longrightarrow> utf8_shape (s @ t) = utf8_shape t"
  by (cases s) (auto simp: utf8_seq_def)

lemma utf8_shape_concat: "\<forall>s\<in>set ss. utf8_seq s \<Longrightarrow> utf8_shape (concat ss)"
  by (induction ss) (auto simp: utf8_shape_append)

lemma utf8_shape_decompose:
  "utf8_shape bs \<Longrightarrow> \<exists>ss. bs = concat ss \<and> (\<forall>s\<in>set ss. utf8_seq s)"
proof (induction bs rule: utf8_shape.induct)
  case 1
  show ?case by (rule exI [of _ "[]"]) simp
next
  case (2 c cs)
  then obtain e where e: "utf8_extra c = Some e" "e \<le> length cs" "list_all utf8_cont (take e cs)"
      "utf8_shape (drop e cs)"
    by (auto split: option.splits)
  with "2.IH" obtain ss where ss: "drop e cs = concat ss" "\<forall>s\<in>set ss. utf8_seq s"
    by blast
  have "c # cs = concat ((c # take e cs) # ss)"
    by (simp add: ss(1) [symmetric])
  moreover have "utf8_seq (c # take e cs)"
    using e by (simp add: utf8_seq_def)
  ultimately show ?case
    using ss(2) by (metis set_ConsD)
qed

lemma utf8_shape_iff: "utf8_shape bs \<longleftrightarrow> (\<exists>ss. bs = concat ss \<and> (\<forall>s\<in>set ss. utf8_seq s))"
  using utf8_shape_concat utf8_shape_decompose by blast

lemma utf8_shape_append_shape: "utf8_shape a \<Longrightarrow> utf8_shape (a @ b) = utf8_shape b"
  by (induction a rule: utf8_shape.induct) (auto split: option.splits)

text \<open>The three classes of a byte, by its value.\<close>

lemma utf8_class:
  "utf8_extra c =
     (if c < 0x80 then Some 0 else if c < 0xC0 then None else if c < 0xE0 then Some 1
      else if c < 0xF0 then Some 2 else if c < 0xF8 then Some 3 else None) \<and>
   utf8_cont c = (0x80 \<le> c \<and> c \<le> 0xBF)"
  by (rule u8_cases_all [of "\<lambda>c. utf8_extra c = _ c \<and> utf8_cont c = _ c"])
     (code_simp)

lemma rfc3629_seq_utf8_seq: "rfc3629_seq s \<Longrightarrow> utf8_seq s"
  by (induction s rule: rfc3629_seq.induct)
     (auto simp: utf8_seq_def utf8_class word_le_nat_alt word_less_nat_alt)



lemma rfc3629_cases:
  assumes "rfc3629 (a # b # bs)" and "0xC0 \<le> a"
  shows "(0xC2 \<le> a) \<and> (a = 0xED \<longrightarrow> b \<le> 0x9F)"
proof -
  obtain s ss where s: "a # b # bs = s @ concat ss" "rfc3629_seq s"
  proof -
    from assms(1) obtain ss where ss: "a # b # bs = concat ss" "\<forall>s\<in>set ss. rfc3629_seq s"
      by (auto simp: rfc3629_def)
    then show ?thesis
      using that by (cases ss) auto
  qed
  from s(2) have "s \<noteq> []" by auto
  with s(1) have "hd s = a" by (cases s) auto
  with s assms(2) show ?thesis
    by (cases s rule: rfc3629_seq.cases) (auto simp: word_le_nat_alt)
qed

text \<open>
  The converse fails: an overlong encoding (of \<open>/\<close>, in two bytes) and a UTF-16
  surrogate pass the check although RFC 3629 forbids both.
\<close>

theorem utf8_valid_accepts_ill_formed:
  "vento_utf8_valid [0xC0, 0xAF] \<and> \<not> rfc3629 [0xC0, 0xAF] \<and>
   vento_utf8_valid [0xED, 0xA0, 0x80] \<and> \<not> rfc3629 [0xED, 0xA0, 0x80]"
proof -
  have "vento_utf8_valid [0xC0, 0xAF]" "vento_utf8_valid [0xED, 0xA0, 0x80]"
    by (simp_all add: vento_utf8_valid_shape utf8_class)
  moreover have "\<not> rfc3629 [0xC0, 0xAF]" "\<not> rfc3629 [0xED, 0xA0, 0x80]"
    using rfc3629_cases [of "0xC0" "0xAF" "[]"] rfc3629_cases [of "0xED" "0xA0" "[0x80]"]
    by auto
  ultimately show ?thesis by simp
qed

section \<open>Latin-1\<close>

lemma latin1_byte_seq: "rfc3629_seq (latin1_byte c)"
  by (rule u8_cases_all [of "\<lambda>c. rfc3629_seq (latin1_byte c)"]) code_simp

lemma length_latin1_byte: "1 \<le> length (latin1_byte c) \<and> length (latin1_byte c) \<le> 2"
  by (simp add: latin1_byte_def)

lemma latin1_to_utf8_concat: "latin1_to_utf8 cs = concat (map latin1_byte cs)"
  by (induction cs) auto

lemma rfc3629_latin1: "rfc3629 (latin1_to_utf8 cs)"
  unfolding rfc3629_def latin1_to_utf8_concat
  by (rule exI [of _ "map latin1_byte cs"]) (auto simp: latin1_byte_seq)

lemma utf8_shape_latin1: "utf8_shape (latin1_to_utf8 cs)"
  by (induction cs) (simp_all add: utf8_shape_append rfc3629_seq_utf8_seq latin1_byte_seq)

lemma length_latin1_to_utf8: "length (latin1_to_utf8 cs) \<le> 2 * length cs"
proof (induction cs)
  case (Cons c cs)
  then show ?case using length_latin1_byte [of c] by simp
qed simp

lemma latin1_to_utf8_ascii: "list_all (\<lambda>c. c < 0x80) cs \<Longrightarrow> latin1_to_utf8 cs = cs"
  by (induction cs) (auto simp: latin1_byte_def)

lemma utf8_shape_ascii: "list_all (\<lambda>c. c < 0x80) cs \<Longrightarrow> utf8_shape cs"
  by (induction cs) (auto simp: utf8_class)

lemma zero_notin_latin1: "0 \<notin> set cs \<Longrightarrow> 0 \<notin> set (latin1_to_utf8 cs)"
proof (induction cs)
  case (Cons c cs)
  have "c \<noteq> 0 \<longrightarrow> 0 \<notin> set (latin1_byte c)"
    by (rule u8_cases_all [of "\<lambda>c. c \<noteq> 0 \<longrightarrow> 0 \<notin> set (latin1_byte c)"]) code_simp
  with Cons show ?case by auto
qed simp

text \<open>
  Whatever bytes a server chose, the string that reaches a callback passes the UTF-8
  check, contains no terminator the input did not have, is the input itself when that was
  valid, and is never longer than the buffer allocated for it; NULL comes back only when
  the allocation failed.
\<close>

theorem utf8_from_bytes_spec:
  assumes "0 \<notin> set bs"
  shows "(case vento_utf8_from_bytes malloc (Some bs) of
            None \<Rightarrow> \<not> malloc (length bs + 1) \<or> \<not> malloc (2 * length bs + 1)
          | Some out \<Rightarrow>
              vento_utf8_valid out \<and> 0 \<notin> set out \<and> (vento_utf8_valid bs \<longrightarrow> out = bs) \<and>
              (\<exists>n. malloc n \<and> length out + 1 \<le> n))"
proof (cases "vento_utf8_valid bs")
  case True
  with assms show ?thesis
    by (auto simp: vento_utf8_from_bytes_def Let_def)
next
  case False
  have "Suc (length (latin1_to_utf8 bs)) \<le> Suc (2 * length bs)"
    using length_latin1_to_utf8 [of bs] by simp
  with False assms show ?thesis
    by (auto simp: vento_utf8_from_bytes_def Let_def vento_utf8_valid_shape utf8_shape_latin1
        dest: zero_notin_latin1)
qed

theorem utf8_from_bytes_spec_witness:
  "vento_utf8_from_bytes (\<lambda>n. n \<le> 8) (Some [0x63, 0xE9]) = Some [0x63, 0xC3, 0xA9] \<and>
   vento_utf8_valid [0x63, 0xC3, 0xA9]"
proof -
  have v: "\<not> vento_utf8_valid [0x63, 0xE9]"
    by (simp add: vento_utf8_valid_shape utf8_class)
  have "vento_utf8_from_bytes (\<lambda>n. n \<le> 8) (Some [0x63, 0xE9]) = Some [0x63, 0xC3, 0xA9]"
    using v by (simp add: vento_utf8_from_bytes_def latin1_byte_def)
  then show ?thesis
    using utf8_from_bytes_spec [of "[0x63, 0xE9]" "\<lambda>n. n \<le> 8"] by simp
qed

section \<open>Line ends\<close>

lemma CR_neq_LF [simp]: "CR \<noteq> LF" "LF \<noteq> CR"
  by (simp_all add: CR_def LF_def)

lemma skip_lf_simps [simp]: "skip_lf [] = []" "skip_lf (LF # cs) = cs"
    "d \<noteq> LF \<Longrightarrow> skip_lf (d # ds) = d # ds"
  by (simp_all add: skip_lf_def)

lemma CR_not_in_to_lf: "CR \<notin> set (vento_text_to_lf cs)"
  by (induction cs rule: vento_text_to_lf.induct) auto

lemma length_to_lf: "length (vento_text_to_lf cs) \<le> length cs"
proof (induction cs rule: vento_text_to_lf.induct)
  case (2 c cs)
  then show ?case using length_skip_lf [of cs] by (cases "c = CR") auto
qed simp

lemma to_lf_id: "CR \<notin> set cs \<Longrightarrow> vento_text_to_lf cs = cs"
  by (induction cs rule: vento_text_to_lf.induct) auto

lemma crlf_write_normal: "crlf_normal (crlf_write cs)"
  by (induction cs rule: crlf_write.induct) auto

lemma to_lf_crlf_write: "vento_text_to_lf (crlf_write cs) = vento_text_to_lf cs"
  by (induction cs rule: crlf_write.induct) auto

lemma crlf_write_to_lf: "crlf_write (vento_text_to_lf cs) = crlf_write cs"
  by (induction cs rule: vento_text_to_lf.induct) auto

lemma crlf_ends_skip_lf:
  "length (skip_lf cs) + crlf_ends (skip_lf cs) + (if cs \<noteq> [] \<and> hd cs = LF then 1 else 0) \<le>
   length cs + crlf_ends cs"
  by (cases cs; cases "hd cs = LF") auto

lemma length_crlf_write: "length (crlf_write cs) \<le> length cs + crlf_ends cs"
proof (induction cs rule: crlf_write.induct)
  case (2 c cs)
  then show ?case
    using crlf_ends_skip_lf [of cs] by (cases "c = CR"; cases "c = LF") auto
qed simp

lemma utf8_cont_not_end: "utf8_cont c \<Longrightarrow> c \<noteq> CR \<and> c \<noteq> LF"
  by (auto simp: utf8_class CR_def LF_def)

lemma utf8_extra_end [simp]: "utf8_extra CR = Some 0" "utf8_extra LF = Some 0"
  by (simp_all add: utf8_class CR_def LF_def)

text \<open>A conversion leaves alone a prefix that holds neither CR nor LF.\<close>

lemma crlf_write_prefix: "CR \<notin> set a \<Longrightarrow> LF \<notin> set a \<Longrightarrow> crlf_write (a @ b) = a @ crlf_write b"
  by (induction a) auto

lemma to_lf_prefix: "CR \<notin> set a \<Longrightarrow> vento_text_to_lf (a @ b) = a @ vento_text_to_lf b"
  by (induction a) auto

lemma utf8_shape_convert:
  assumes step: "\<And>a b. CR \<notin> set a \<Longrightarrow> LF \<notin> set a \<Longrightarrow> f (a @ b) = a @ f b"
    and cr: "\<And>b. utf8_shape (f b) \<Longrightarrow> utf8_shape (f (CR # b))"
    and crlf: "\<And>b. utf8_shape (f b) \<Longrightarrow> utf8_shape (f (CR # LF # b))"
    and lf: "\<And>b. utf8_shape (f b) \<Longrightarrow> utf8_shape (f (LF # b))"
    and nil: "f [] = []"
  shows "utf8_shape bs \<Longrightarrow> utf8_shape (f bs)"
proof (induction "length bs" arbitrary: bs rule: less_induct)
  case less
  show ?case
  proof (cases bs)
    case Nil
    then show ?thesis by (simp add: nil)
  next
    case (Cons c cs)
    with less.prems obtain e where e: "utf8_extra c = Some e" "e \<le> length cs"
        "list_all utf8_cont (take e cs)" "utf8_shape (drop e cs)"
      by (auto split: option.splits)
    have IH: "utf8_shape (f (drop e cs))"
      using less.hyps [of "drop e cs"] e(4) Cons by simp
    show ?thesis
    proof (cases "c = CR \<or> c = LF")
      case True
      with e IH Cons show ?thesis by (auto intro: cr lf)
    next
      case False
      have noend: "CR \<notin> set (c # take e cs)" "LF \<notin> set (c # take e cs)"
        using False e(3) utf8_cont_not_end by (auto simp: list_all_iff)
      have "f bs = (c # take e cs) @ f (drop e cs)"
        using step [OF noend, of "drop e cs"] Cons by simp
      moreover have "utf8_seq (c # take e cs)"
        using e by (simp add: utf8_seq_def)
      ultimately show ?thesis
        using IH utf8_shape_append [of "c # take e cs" "f (drop e cs)"] by simp
    qed
  qed
qed

lemma utf8_shape_ends [simp]: "utf8_shape (CR # b) = utf8_shape b" "utf8_shape (LF # b) = utf8_shape b"
  by simp_all

lemma crlf_write_CR: "crlf_write (CR # b) = (if b \<noteq> [] \<and> hd b = LF then crlf_write b else CR # LF # crlf_write b)"
  by (cases b; cases "hd b = LF") auto

lemma to_lf_CR:
  "vento_text_to_lf (CR # b) = (if b \<noteq> [] \<and> hd b = LF then vento_text_to_lf b else LF # vento_text_to_lf b)"
  by (cases b; cases "hd b = LF") auto

lemma utf8_shape_crlf_write: "utf8_shape bs \<Longrightarrow> utf8_shape (crlf_write bs)"
  by (rule utf8_shape_convert [of crlf_write])
     (simp_all add: crlf_write_prefix crlf_write_CR del: crlf_write.simps(2), simp_all)

lemma utf8_shape_to_lf: "utf8_shape bs \<Longrightarrow> utf8_shape (vento_text_to_lf bs)"
  by (rule utf8_shape_convert [of vento_text_to_lf])
     (simp_all add: to_lf_prefix to_lf_CR del: vento_text_to_lf.simps(2), simp_all)

text \<open>
  The two line-end conversions agree on what a line is: converting to CRLF and back
  gives what converting to LF gives at once, converting to LF first does not change the
  CRLF text, the CRLF text has its CRs and LFs only in pairs, the LF text has no CR and is
  never longer than its input (it is written in place), and both keep valid UTF-8 valid.
\<close>

theorem line_ends_roundtrip:
  "(\<forall>out. vento_text_to_crlf malloc (Some bs) = Some out \<longrightarrow>
      vento_text_to_lf out = vento_text_to_lf bs \<and> crlf_normal out \<and>
      (vento_utf8_valid bs \<longrightarrow> vento_utf8_valid out)) \<and>
   crlf_write (vento_text_to_lf bs) = crlf_write bs \<and>
   CR \<notin> set (vento_text_to_lf bs) \<and> length (vento_text_to_lf bs) \<le> length bs \<and>
   vento_text_to_lf (vento_text_to_lf bs) = vento_text_to_lf bs \<and>
   (vento_utf8_valid bs \<longrightarrow> vento_utf8_valid (vento_text_to_lf bs))"
  by (auto simp: vento_text_to_crlf_def to_lf_crlf_write crlf_write_normal crlf_write_to_lf
      CR_not_in_to_lf length_to_lf to_lf_id vento_utf8_valid_shape utf8_shape_crlf_write
      utf8_shape_to_lf split: if_splits)

theorem line_ends_roundtrip_witness:
  "vento_text_to_crlf (\<lambda>n. n \<le> 16) (Some [0x61, LF, 0x62, CR]) = Some [0x61, CR, LF, 0x62, CR, LF] \<and>
   vento_utf8_valid [0x61, LF, 0x62, CR] \<and>
   crlf_normal [0x61, CR, LF, 0x62, CR, LF] \<and>
   vento_utf8_valid [0x61, CR, LF, 0x62, CR, LF] \<and>
   vento_text_to_lf [0x61, CR, LF, 0x62, CR, LF] = [0x61, LF, 0x62, LF]"
proof -
  have e: "vento_text_to_crlf (\<lambda>n. n \<le> 16) (Some [0x61, LF, 0x62, CR]) =
      Some [0x61, CR, LF, 0x62, CR, LF]"
    by (simp add: vento_text_to_crlf_def skip_lf_def CR_def LF_def)
  have v: "vento_utf8_valid [0x61, LF, 0x62, CR]"
    by (simp add: vento_utf8_valid_shape utf8_class LF_def CR_def)
  have l: "vento_text_to_lf [0x61, LF, 0x62, CR] = [0x61, LF, 0x62, LF]"
    by (simp add: skip_lf_def CR_def LF_def)
  show ?thesis
    using line_ends_roundtrip [of "\<lambda>n. n \<le> 16" "[0x61, LF, 0x62, CR]"] e v l by metis
qed

text \<open>
  The buffer of the CRLF conversion, sized by counting the line ends first, always
  holds the result and its terminator, and the conversion fails only when that allocation
  does.
\<close>

theorem crlf_fits:
  "(case vento_text_to_crlf malloc (Some bs) of
      None \<Rightarrow> \<not> malloc (length bs + crlf_ends bs + 1)
    | Some out \<Rightarrow> malloc (length bs + crlf_ends bs + 1) \<and>
        length out + 1 \<le> length bs + crlf_ends bs + 1)"
  using length_crlf_write [of bs] by (simp add: vento_text_to_crlf_def)

end
