(* ===== verification/Address.thy ===== *)
theory Address
  imports Prelude
begin

text \<open>
  The address of a session, as a user types it: \<open>splitAddress\<close> and its helpers of
  \<open>src/backends/modules/libvnc/cpp/libvnc_session.c\<close> (VNC, with display numbers) and of
  \<open>src/backends/modules/freerdp/cpp/freerdp_session.c\<close> (RDP, which also refuses what FreeRDP
  would not dial as a host).  The C functions leave the host in the caller's buffer, the port
  behind a pointer and a reason in a buffer that stays empty on success; the model returns the
  three.  The lemmas show which addresses each form accepts and with what host and port, that
  a refused address changes no port, and that no accepted RDP host is special to FreeRDP.
\<close>

section \<open>VNC\<close>

definition bareLiteral :: "string \<Rightarrow> bool" where
  "bareLiteral address =
     (case (strchr address CHR '':'', strrchr address CHR '':'') of
        (Some i, Some j) \<Rightarrow> j > i + 1
      | _ \<Rightarrow> False)"

text \<open>
  Which part of a trimmed address is the host and which, if any, the number, and whether a
  small number is a display; \<open>Inl\<close> is the reason it is refused.
\<close>

definition vnc_addressParts :: "string \<Rightarrow> string + (string \<times> string option \<times> bool)" where
  "vnc_addressParts address =
     (if address ! 0 = CHR ''['' then
        (case strchr address CHR '']'' of
           None \<Rightarrow> Inl (address @ '' missing closing bracket'')
         | Some close \<Rightarrow>
             let host = take (close - 1) (drop 1 address); rest = drop (close + 1) address
             in if rest \<noteq> [] \<and> hd rest = CHR '':'' then Inr (host, Some (drop (close + 2) address), True)
                else if rest \<noteq> [] then Inl (address @ '' has junk after closing bracket'')
                else Inr (host, None, True))
      else if bareLiteral address then
        Inl (''IPv6 addresses must be bracketed, like [::1]:5900, not '' @ address)
      else
        (case strrchr address CHR '':'' of
           None \<Rightarrow> Inr (address, None, True)
         | Some colon \<Rightarrow>
             let display = (address ! (colon - 1) \<noteq> CHR '':'')
             in Inr (take (colon - (if display then 0 else 1)) address, Some (drop (colon + 1) address), display)))"

definition vnc_splitAddress :: "nat \<Rightarrow> string \<Rightarrow> int \<Rightarrow> string \<times> int \<times> string" where
  "vnc_splitAddress whyLen raw port =
     (let address = trim raw
      in if address = [] \<or> address ! 0 = CHR '':'' then (address, port, snprintf_s whyLen ''No host in address'')
         else case vnc_addressParts address of
           Inl why \<Rightarrow> (address, port, snprintf_s whyLen why)
         | Inr (host, number, display) \<Rightarrow>
             if host = [] then (address, port, snprintf_s whyLen ''No host in address'')
             else case number of
               None \<Rightarrow> (host, port, [])
             | Some digits \<Rightarrow>
                 let (n, used) = strtol10 digits;
                     p = (if display \<and> n \<ge> 0 \<and> n < 100 then 5900 + n else n)
                 in if used = 0 \<or> used < length digits \<or> p \<le> 0 \<or> p > 65535
                    then (address, port, snprintf_s whyLen (address @ '' does not end in a port number''))
                    else (host, p, []))"

section \<open>RDP\<close>

definition specialHost :: "string \<Rightarrow> bool" where
  "specialHost host \<longleftrightarrow>
     (host \<noteq> [] \<and> (hd host = CHR ''/'' \<or> hd host = CHR ''|'')) \<or> take 8 host = ''vsock://''"

definition rdp_addressParts :: "string \<Rightarrow> string + (string \<times> string option)" where
  "rdp_addressParts address =
     (if specialHost address then Inl (address @ '' is not a host name or IP address'')
      else if address ! 0 = CHR ''['' then
        (case strchr address CHR '']'' of
           None \<Rightarrow> Inl (address @ '' missing closing bracket'')
         | Some close \<Rightarrow>
             if specialHost (drop 1 address) then Inl (address @ '' is not a host name or IP address'')
             else let host = take (close - 1) (drop 1 address); rest = drop (close + 1) address
             in if rest \<noteq> [] \<and> hd rest = CHR '':'' then Inr (host, Some (drop (close + 2) address))
                else if rest \<noteq> [] then Inl (address @ '' has junk after closing bracket'')
                else Inr (host, None))
      else if strchr address CHR '':'' \<noteq> strrchr address CHR '':'' then
        Inl (''IPv6 addresses must be bracketed, like [::1]:3389, not '' @ address)
      else
        (case strchr address CHR '':'' of
           None \<Rightarrow> Inr (address, None)
         | Some colon \<Rightarrow> Inr (take colon address, Some (drop (colon + 1) address))))"

definition rdp_splitAddress :: "nat \<Rightarrow> string \<Rightarrow> int \<Rightarrow> string \<times> int \<times> string" where
  "rdp_splitAddress whyLen raw port =
     (let address = trim raw
      in if address = [] \<or> (address ! 0 = CHR '':'' \<and> strchr (drop 1 address) CHR '':'' = None)
         then (address, port, snprintf_s whyLen ''No host in address'')
         else case rdp_addressParts address of
           Inl why \<Rightarrow> (address, port, snprintf_s whyLen why)
         | Inr (host, number) \<Rightarrow>
             if host = [] then (address, port, snprintf_s whyLen ''No host in address'')
             else case number of
               None \<Rightarrow> (host, port, [])
             | Some digits \<Rightarrow>
                 let (p, used) = strtol10 digits
                 in if used = 0 \<or> used < length digits \<or> p \<le> 0 \<or> p > 65535
                    then (address, port, snprintf_s whyLen (address @ '' does not end in a port number''))
                    else (host, p, []))"

section \<open>Refusals\<close>

lemma snprintf_nonempty: "1 < n \<Longrightarrow> s \<noteq> [] \<Longrightarrow> snprintf_s n s \<noteq> []"
  by (simp add: snprintf_s_def)

lemma vnc_addressParts_Inl: "vnc_addressParts a = Inl why \<Longrightarrow> why \<noteq> []"
  by (auto simp: vnc_addressParts_def Let_def split: if_splits option.splits)

lemma rdp_addressParts_Inl: "rdp_addressParts a = Inl why \<Longrightarrow> why \<noteq> []"
  by (auto simp: rdp_addressParts_def Let_def split: if_splits option.splits)

text \<open>
  A VNC address is either refused, with a reason that fits its buffer, the port
  untouched, or split into a non-empty host and a port that is the one given before or lies
  in 1..65535.
\<close>

theorem vnc_splitAddress_total:
  assumes "1 < whyLen"
  shows "case vnc_splitAddress whyLen raw port of (host, p, why) \<Rightarrow>
    length why < whyLen \<and>
    (if why = [] then host \<noteq> [] \<and> (p = port \<or> 1 \<le> p \<and> p \<le> 65535)
     else host = trim raw \<and> p = port)"
proof -
  have fits: "length (snprintf_s whyLen s) < whyLen" for s :: string
    using length_snprintf_s [of whyLen s] assms by linarith
  show ?thesis
    using assms vnc_addressParts_Inl [of "trim raw"]
    by (auto simp: vnc_splitAddress_def Let_def fits snprintf_nonempty
        split: sum.splits prod.splits option.splits if_splits)
qed

theorem vnc_splitAddress_total_witness:
  "vnc_splitAddress 160 ''host:1'' 5900 = (''host'', 5901, []) \<and>
   (case vnc_splitAddress 160 ''host:1'' 5900 of (host, p, why) \<Rightarrow> host \<noteq> [] \<and> 1 \<le> p \<and> p \<le> 65535)"
proof -
  have e: "vnc_splitAddress 160 ''host:1'' 5900 = (''host'', 5901, [])"
    by code_simp
  show ?thesis
    using vnc_splitAddress_total [of 160 5900 "''host:1''"] unfolding e by simp
qed

section \<open>Accepted forms\<close>

text \<open>A host name as both parsers read one: no colon or bracket, and no white space at its ends.\<close>

definition plain_host :: "string \<Rightarrow> bool" where
  "plain_host h \<longleftrightarrow> h \<noteq> [] \<and> CHR '':'' \<notin> set h \<and> hd h \<noteq> CHR ''['' \<and> \<not> blank (hd h) \<and> \<not> blank (last h)"

lemma hd_append_nth: "h \<noteq> [] \<Longrightarrow> (h @ t) ! 0 = hd h"
  by (cases h) auto

lemma show_nat_last: "\<not> blank (last (show_nat n))"
proof -
  have "is_digit (last (show_nat n))"
    using show_nat_digits [of n] by (simp add: list_all_iff)
  then show ?thesis using digit_not_special by (auto simp: blank_def)
qed

lemma colon_notin_show_nat [simp]: "CHR '':'' \<notin> set (show_nat n)"
  using show_nat_digits [of n] digit_not_special by (auto simp: list_all_iff)

lemma strtol10_port: "n \<le> 65535 \<Longrightarrow> strtol10 (show_nat n) = (int n, length (show_nat n))"
  by (rule strtol10_show_nat) (simp add: long_max_def)

lemma show_nat_nonempty [simp]: "show_nat n \<noteq> []"
  using show_nat_digits by blast

lemma trim_host_number:
  "plain_host h \<Longrightarrow> trim (h @ t @ show_nat n) = h @ t @ show_nat n"
  by (rule trim_id) (auto simp: plain_host_def show_nat_last)

lemma trim_literal_number:
  "trim (CHR ''['' # l @ CHR '']'' # t @ show_nat n) = CHR ''['' # l @ CHR '']'' # t @ show_nat n"
  by (rule trim_id) (auto simp: blank_def show_nat_last [unfolded blank_def])

lemma trim_literal: "trim (CHR ''['' # l @ [CHR '']'']) = CHR ''['' # l @ [CHR '']'']"
  by (rule trim_id) (auto simp: blank_def)

lemma trim_plain: "plain_host h \<Longrightarrow> trim h = h"
  by (rule trim_id) (auto simp: plain_host_def)

lemma strchr_literal:
  "CHR '']'' \<notin> set l \<Longrightarrow> strchr (CHR ''['' # l @ CHR '']'' # t) CHR '']'' = Some (length l + 1)"
  by (simp add: strchr_append)

lemma vnc_parts_plain: "plain_host h \<Longrightarrow> vnc_addressParts h = Inr (h, None, True)"
  using strchr_None_iff [of h "CHR '':''"] strrchr_None_iff [of h "CHR '':''"]
  by (cases h) (auto simp: vnc_addressParts_def plain_host_def bareLiteral_def)

lemma vnc_parts_port:
  assumes "plain_host h"
  shows "vnc_addressParts (h @ CHR '':'' # show_nat n) = Inr (h, Some (show_nat n), True)"
proof -
  have c: "strchr (h @ CHR '':'' # show_nat n) CHR '':'' = Some (length h)"
      "strrchr (h @ CHR '':'' # show_nat n) CHR '':'' = Some (length h)"
    using assms by (simp_all add: strchr_append strrchr_append plain_host_def)
  have "(h @ CHR '':'' # show_nat n) ! (length h - 1) = last h"
    using assms by (simp add: nth_append last_conv_nth plain_host_def)
  moreover have "last h \<noteq> CHR '':''"
    using assms last_in_set [of h] by (auto simp: plain_host_def simp del: last_in_set)
  ultimately show ?thesis
    using assms c by (simp add: vnc_addressParts_def plain_host_def hd_append_nth bareLiteral_def Let_def)
qed

lemma vnc_parts_port_port:
  assumes "plain_host h"
  shows "vnc_addressParts (h @ CHR '':'' # CHR '':'' # show_nat n) = Inr (h, Some (show_nat n), False)"
proof -
  let ?a = "h @ CHR '':'' # CHR '':'' # show_nat n"
  have "strchr ?a CHR '':'' = Some (length h)" "strrchr ?a CHR '':'' = Some (Suc (length h))"
    using assms strrchr_append [of "CHR '':''" "show_nat n" "h @ [CHR '':'']"]
    by (simp_all add: strchr_append plain_host_def)
  moreover have "?a ! length h = CHR '':''" by simp
  ultimately show ?thesis
    using assms by (simp add: vnc_addressParts_def plain_host_def hd_append_nth bareLiteral_def Let_def)
qed

lemma vnc_parts_literal:
  assumes "CHR '']'' \<notin> set l"
  shows "vnc_addressParts (CHR ''['' # l @ [CHR '']'']) = Inr (l, None, True)"
    and "vnc_addressParts (CHR ''['' # l @ CHR '']'' # CHR '':'' # show_nat n) = Inr (l, Some (show_nat n), True)"
  using strchr_literal [OF assms, of "[]"] strchr_literal [OF assms, of "CHR '':'' # show_nat n"]
  by (simp_all add: vnc_addressParts_def Let_def)

text \<open>
  Every documented form of a VNC address is read as documented: a host alone keeps the
  default port; a number after one colon is a display below 100 and a port from there; a
  number after two colons is always a port; an IPv6 literal in brackets may have a port.
\<close>

theorem vnc_splitAddress_forms:
  assumes "plain_host h" and "l \<noteq> []" and "CHR '']'' \<notin> set l"
    and "d < 100" and "100 \<le> p" and "p \<le> 65535" and "1 \<le> q" and "q \<le> 65535"
  shows "vnc_splitAddress whyLen h port = (h, port, []) \<and>
    vnc_splitAddress whyLen (h @ '':'' @ show_nat d) port = (h, 5900 + int d, []) \<and>
    vnc_splitAddress whyLen (h @ '':'' @ show_nat p) port = (h, int p, []) \<and>
    vnc_splitAddress whyLen (h @ ''::'' @ show_nat q) port = (h, int q, []) \<and>
    vnc_splitAddress whyLen (''['' @ l @ '']'') port = (l, port, []) \<and>
    vnc_splitAddress whyLen (''['' @ l @ '']:'' @ show_nat p) port = (l, int p, [])"
proof (intro conjI)
  have h: "h \<noteq> []" "hd h \<noteq> CHR '':''"
    using assms(1) hd_in_set [of h] by (auto simp: plain_host_def simp del: hd_in_set)
  note s = vnc_splitAddress_def Let_def hd_append_nth h
  show "vnc_splitAddress whyLen h port = (h, port, [])"
    using assms(1) h hd_append_nth [of h "[]"] by (simp add: s trim_plain vnc_parts_plain)
  show "vnc_splitAddress whyLen (h @ '':'' @ show_nat d) port = (h, 5900 + int d, [])"
    using assms(1,4) trim_host_number [OF assms(1), of "'':''" d]
    by (simp add: s vnc_parts_port strtol10_port)
  show "vnc_splitAddress whyLen (h @ '':'' @ show_nat p) port = (h, int p, [])"
    using assms(1,5,6) trim_host_number [OF assms(1), of "'':''" p]
    by (simp add: s vnc_parts_port strtol10_port)
  show "vnc_splitAddress whyLen (h @ ''::'' @ show_nat q) port = (h, int q, [])"
    using assms(1,7,8) trim_host_number [OF assms(1), of "''::''" q]
    by (simp add: s vnc_parts_port_port strtol10_port)
  show "vnc_splitAddress whyLen (''['' @ l @ '']'') port = (l, port, [])"
    using assms(2,3) trim_literal [of l] by (simp add: s vnc_parts_literal)
  show "vnc_splitAddress whyLen (''['' @ l @ '']:'' @ show_nat p) port = (l, int p, [])"
    using assms(2,3,5,6) trim_literal_number [of l "'':''" p]
    by (simp add: s vnc_parts_literal strtol10_port)
qed

theorem vnc_splitAddress_forms_witness:
  "vnc_splitAddress 160 (''pc'' @ '':'' @ show_nat 1) 5900 = (''pc'', 5901, []) \<and>
   vnc_splitAddress 160 (''['' @ ''::1'' @ '']:'' @ show_nat 5902) 5900 = (''::1'', 5902, [])"
  using vnc_splitAddress_forms [of "''pc''" "''::1''" 1 5902 1 160 5900]
  by (simp add: plain_host_def blank_def)

lemma take_take_special: "specialHost (take n s) \<Longrightarrow> specialHost s"
proof -
  assume a: "specialHost (take n s)"
  have "take 8 s = ''vsock://''" if e: "take 8 (take n s) = ''vsock://''"
  proof -
    have "length (take 8 (take n s)) = 8" using e by simp
    then have "8 \<le> n" by simp
    with e show ?thesis by (simp add: min_def split: if_splits)
  qed
  with a show ?thesis
    by (cases s; cases n) (auto simp: specialHost_def)
qed

lemma rdp_addressParts_host:
  "rdp_addressParts a = Inr (host, number) \<Longrightarrow> \<not> specialHost host"
  by (auto simp: rdp_addressParts_def Let_def dest: take_take_special split: if_splits option.splits)

text \<open>
  C40. What the RDP parser accepts is a non-empty host that FreeRDP does not treat as
  something other than a host (a socket path, a pipe, a vsock), with the port given before
  or one in 1..65535; what it refuses has a reason that fits its buffer and leaves the port.
\<close>

theorem rdp_splitAddress_total:
  assumes "1 < whyLen"
  shows "case rdp_splitAddress whyLen raw port of (host, p, why) \<Rightarrow>
    length why < whyLen \<and>
    (if why = [] then host \<noteq> [] \<and> \<not> specialHost host \<and> (p = port \<or> 1 \<le> p \<and> p \<le> 65535)
     else host = trim raw \<and> p = port)"
proof -
  have fits: "length (snprintf_s whyLen s) < whyLen" for s :: string
    using length_snprintf_s [of whyLen s] assms by linarith
  show ?thesis
    using assms rdp_addressParts_Inl [of "trim raw"]
    by (auto simp: rdp_splitAddress_def Let_def fits snprintf_nonempty dest: rdp_addressParts_host
        split: sum.splits prod.splits option.splits if_splits)
qed

theorem rdp_splitAddress_total_witness:
  "rdp_splitAddress 160 ''pc:3390'' 3389 = (''pc'', 3390, []) \<and> \<not> specialHost ''pc'' \<and>
   snd (snd (rdp_splitAddress 160 ''[vsock://3]'' 3389)) \<noteq> []"
proof -
  have e: "rdp_splitAddress 160 ''pc:3390'' 3389 = (''pc'', 3390, [])"
    by code_simp
  have "snd (snd (rdp_splitAddress 160 ''[vsock://3]'' 3389)) \<noteq> []" by code_simp
  then show ?thesis
    using rdp_splitAddress_total [of 160 3389 "''pc:3390''"] unfolding e by simp
qed

lemma not_specialHost: "CHR ''/'' \<notin> set s \<Longrightarrow> hd s \<noteq> CHR ''|'' \<Longrightarrow> \<not> specialHost s"
proof
  assume s: "CHR ''/'' \<notin> set s" "hd s \<noteq> CHR ''|''" and sp: "specialHost s"
  have "CHR ''/'' \<in> set s" if "take 8 s = ''vsock://''"
    using in_set_takeD [of "CHR ''/''" 8 s] that by simp
  moreover have "hd s \<noteq> CHR ''/''" if "s \<noteq> []" using that s(1) by (cases s) auto
  ultimately show False using s sp by (auto simp: specialHost_def)
qed

lemma slash_notin_show_nat [simp]: "CHR ''/'' \<notin> set (show_nat n)"
  using show_nat_digits [of n] by (auto simp: list_all_iff is_digit_def)

lemma rdp_parts_plain:
  assumes "plain_host h" and "CHR ''/'' \<notin> set h" and "hd h \<noteq> CHR ''|''"
  shows "rdp_addressParts h = Inr (h, None)"
    and "rdp_addressParts (h @ CHR '':'' # show_nat n) = Inr (h, Some (show_nat n))"
proof -
  have h: "h \<noteq> []" "hd h \<noteq> CHR ''[''" "CHR '':'' \<notin> set h"
    using assms(1) by (auto simp: plain_host_def)
  have none: "strchr h CHR '':'' = None" "strrchr h CHR '':'' = None"
    using h(3) by (simp_all only: strchr_None_iff strrchr_None_iff not_False_eq_True)
  have "\<not> specialHost h" "\<not> specialHost (h @ CHR '':'' # show_nat n)"
    using assms(2,3) h(1) by (simp_all add: not_specialHost)
  then show "rdp_addressParts h = Inr (h, None)"
    and "rdp_addressParts (h @ CHR '':'' # show_nat n) = Inr (h, Some (show_nat n))"
    using h hd_append_nth [of h "[]"]
    by (simp_all add: rdp_addressParts_def hd_append_nth strchr_append strrchr_append Let_def none
        del: strchr_None_iff strrchr_None_iff)
qed

lemma rdp_parts_literal:
  assumes "CHR '']'' \<notin> set l" and "l \<noteq> []" and "CHR ''/'' \<notin> set l" and "hd l \<noteq> CHR ''|''"
  shows "rdp_addressParts (CHR ''['' # l @ [CHR '']'']) = Inr (l, None)"
    and "rdp_addressParts (CHR ''['' # l @ CHR '']'' # CHR '':'' # show_nat n) = Inr (l, Some (show_nat n))"
proof -
  have "\<not> specialHost (l @ CHR '']'' # t)" if "CHR ''/'' \<notin> set t" for t
    using assms(2-4) that by (simp add: not_specialHost)
  moreover have "\<not> specialHost (CHR ''['' # t)" for t
    by (simp add: specialHost_def)
  ultimately show "rdp_addressParts (CHR ''['' # l @ [CHR '']'']) = Inr (l, None)"
    and "rdp_addressParts (CHR ''['' # l @ CHR '']'' # CHR '':'' # show_nat n) = Inr (l, Some (show_nat n))"
    using strchr_literal [OF assms(1), of "[]"] strchr_literal [OF assms(1), of "CHR '':'' # show_nat n"]
    by (simp_all add: rdp_addressParts_def Let_def)
qed

text \<open>A host or a literal with a port is read as both.\<close>

lemma rdp_split_port:
  assumes "1 \<le> p" and "p \<le> 65535"
  shows "plain_host h \<Longrightarrow> CHR ''/'' \<notin> set h \<Longrightarrow> hd h \<noteq> CHR ''|'' \<Longrightarrow>
      rdp_splitAddress whyLen (h @ '':'' @ show_nat p) port = (h, int p, [])"
    and "l \<noteq> [] \<Longrightarrow> CHR '']'' \<notin> set l \<Longrightarrow> CHR ''/'' \<notin> set l \<Longrightarrow> hd l \<noteq> CHR ''|'' \<Longrightarrow>
      rdp_splitAddress whyLen (''['' @ l @ '']:'' @ show_nat p) port = (l, int p, [])"
proof -
  show "rdp_splitAddress whyLen (h @ '':'' @ show_nat p) port = (h, int p, [])"
    if "plain_host h" "CHR ''/'' \<notin> set h" "hd h \<noteq> CHR ''|''"
  proof -
    have h: "h \<noteq> []" "hd h \<noteq> CHR '':''"
      using that(1) hd_in_set [of h] by (auto simp: plain_host_def simp del: hd_in_set)
    then show ?thesis
      using assms that trim_host_number [OF that(1), of "'':''" p]
      by (simp add: rdp_splitAddress_def Let_def hd_append_nth rdp_parts_plain strtol10_port)
  qed
  show "rdp_splitAddress whyLen (''['' @ l @ '']:'' @ show_nat p) port = (l, int p, [])"
    if "l \<noteq> []" "CHR '']'' \<notin> set l" "CHR ''/'' \<notin> set l" "hd l \<noteq> CHR ''|''"
    using assms that trim_literal_number [of l "'':''" p]
    by (simp add: rdp_splitAddress_def Let_def rdp_parts_literal strtol10_port)
qed

text \<open>
  Every documented form of an RDP address is read as documented: a host, a host and a
  port, an IPv6 literal in brackets, with or without a port; and a host followed by two
  colons, which in VNC is a port, has no meaning and is refused.
\<close>

theorem rdp_splitAddress_forms:
  assumes "plain_host h" and "CHR ''/'' \<notin> set h" and "hd h \<noteq> CHR ''|''"
    and "l \<noteq> []" and "CHR '']'' \<notin> set l" and "CHR ''/'' \<notin> set l" and "hd l \<noteq> CHR ''|''"
    and "1 \<le> p" and "p \<le> 65535" and "1 < whyLen"
  shows "rdp_splitAddress whyLen h port = (h, port, []) \<and>
    rdp_splitAddress whyLen (h @ '':'' @ show_nat p) port = (h, int p, []) \<and>
    rdp_splitAddress whyLen (''['' @ l @ '']'') port = (l, port, []) \<and>
    rdp_splitAddress whyLen (''['' @ l @ '']:'' @ show_nat p) port = (l, int p, []) \<and>
    snd (snd (rdp_splitAddress whyLen (h @ ''::'' @ show_nat p) port)) \<noteq> []"
proof (intro conjI)
  have h: "h \<noteq> []" "hd h \<noteq> CHR '':''" "hd h \<noteq> CHR ''[''" "CHR '':'' \<notin> set h"
    using assms(1) hd_in_set [of h] by (auto simp: plain_host_def simp del: hd_in_set)
  note s = rdp_splitAddress_def Let_def hd_append_nth h
  show "rdp_splitAddress whyLen h port = (h, port, [])"
    using h hd_append_nth [of h "[]"] assms(1-3) by (simp add: s trim_plain rdp_parts_plain)
  show "rdp_splitAddress whyLen (h @ '':'' @ show_nat p) port = (h, int p, [])"
    using assms by (intro rdp_split_port)
  show "rdp_splitAddress whyLen (''['' @ l @ '']'') port = (l, port, [])"
    using assms(4-7) trim_literal [of l] by (simp add: s rdp_parts_literal)
  show "rdp_splitAddress whyLen (''['' @ l @ '']:'' @ show_nat p) port = (l, int p, [])"
    using assms by (intro rdp_split_port)
  let ?a = "h @ CHR '':'' # CHR '':'' # show_nat p"
  have "strchr ?a CHR '':'' = Some (length h)" "strrchr ?a CHR '':'' = Some (Suc (length h))"
    using h(4) strrchr_append [of "CHR '':''" "show_nat p" "h @ [CHR '':'']"]
    by (simp_all add: strchr_append)
  then have "\<exists>why. rdp_addressParts ?a = Inl why"
    using h by (cases "specialHost ?a") (simp_all add: rdp_addressParts_def hd_append_nth)
  then obtain why where why: "rdp_addressParts ?a = Inl why" "why \<noteq> []"
    using rdp_addressParts_Inl by blast
  have "trim ?a = ?a" using trim_host_number [OF assms(1), of "''::''" p] by simp
  then show "snd (snd (rdp_splitAddress whyLen (h @ ''::'' @ show_nat p) port)) \<noteq> []"
    using why snprintf_nonempty [OF assms(10)] by (simp add: s)
qed

theorem rdp_splitAddress_forms_witness:
  "rdp_splitAddress 160 (''pc'' @ '':'' @ show_nat 3390) 3389 = (''pc'', 3390, []) \<and>
   rdp_splitAddress 160 (''['' @ ''::1'' @ '']'') 3389 = (''::1'', 3389, [])"
  using rdp_splitAddress_forms [of "''pc''" "''::1''" 3390 160 3389]
  by (simp add: plain_host_def blank_def)

end
