(* ===== verification/Held_Keys.thy ===== *)
theory Held_Keys
  imports Prelude "HOL-Library.Multiset"
begin

text \<open>
  The table of keys a session has pressed at the far end, so that each can be released as it
  was pressed: \<open>keys[MAX_HELD_KEYS]\<close> and \<open>nkeys\<close> of both C sessions
  (\<open>src/backends/modules/libvnc/cpp/libvnc_session.c\<close> and
  \<open>src/backends/modules/freerdp/cpp/freerdp_session.c\<close>).  An entry is a pair of the key's id and
  what was sent for it.  The search by id and the removal that moves the last entry into the
  gap are here once; the contract both sessions keep is the locale \<open>held_keys\<close>.
\<close>

section \<open>The table\<close>

definition MAX_HELD_KEYS :: nat where "MAX_HELD_KEYS = 64"

text \<open>The index of the first entry with an id, which is where the loops stop.\<close>

fun key_slot :: "int \<Rightarrow> (int \<times> 'k) list \<Rightarrow> nat option" where
  "key_slot k [] = None"
| "key_slot k (e # es) = (if fst e = k then Some 0 else map_option Suc (key_slot k es))"

text \<open>\<open>keys[i] = keys[--nkeys]\<close>\<close>

definition key_remove :: "nat \<Rightarrow> (int \<times> 'k) list \<Rightarrow> (int \<times> 'k) list" where
  "key_remove i es = butlast (es[i := last es])"

definition key_ids :: "(int \<times> 'k) list \<Rightarrow> int list" where
  "key_ids es = map fst es"

definition keys_ok :: "(int \<times> 'k) list \<Rightarrow> bool" where
  "keys_ok es \<longleftrightarrow> distinct (key_ids es) \<and> length es \<le> MAX_HELD_KEYS"

section \<open>Lemmas\<close>

lemma key_slot_None: "key_slot k es = None \<longleftrightarrow> k \<notin> set (key_ids es)"
  by (induction es) (auto simp: key_ids_def)

lemma key_slot_Some: "key_slot k es = Some i \<Longrightarrow> i < length es \<and> fst (es ! i) = k"
  by (induction es arbitrary: i) (auto split: if_splits)

lemma key_ids_append [simp]: "key_ids (es @ [e]) = key_ids es @ [fst e]"
  by (simp add: key_ids_def)

lemma map_of_key_slot: "map_of es k = map_option (\<lambda>i. snd (es ! i)) (key_slot k es)"
  by (induction es) (auto simp: option.map_comp comp_def)

text \<open>Up to order, removal drops the entry.\<close>

lemma mset_key_remove: "i < length es \<Longrightarrow> mset (key_remove i es) = mset es - {#es ! i#}"
proof (cases es rule: rev_cases)
  case (snoc xs x)
  assume "i < length es"
  show ?thesis
  proof (cases "i = length xs")
    case True
    then show ?thesis by (simp add: key_remove_def snoc)
  next
    case False
    with \<open>i < length es\<close> snoc have i: "i < length xs" by simp
    then show ?thesis
      by (simp add: key_remove_def snoc nth_append list_update_append mset_update)
  qed
qed (simp add: key_remove_def)

lemma length_key_remove [simp]: "length (key_remove i es) = length es - 1"
  by (simp add: key_remove_def)

lemma distinct_remove1_mset:
  assumes "distinct xs" and "mset ys = mset xs - {#x#}"
  shows "distinct ys" and "set ys = set xs - {x}"
proof -
  have "mset ys = mset (remove1 x xs)" using assms(2) by simp
  then show "distinct ys" and "set ys = set xs - {x}"
    using assms(1) by (metis distinct_remove1 mset_eq_imp_distinct_iff, metis set_mset_mset set_remove1_eq)
qed

lemma key_remove_ok:
  assumes "keys_ok es" and "i < length es"
  shows "keys_ok (key_remove i es)" and "set (key_ids (key_remove i es)) = set (key_ids es) - {fst (es ! i)}"
    and "set (key_remove i es) = set es - {es ! i}"
proof -
  have d: "distinct (key_ids es)" "distinct es" using assms(1) by (auto simp: keys_ok_def key_ids_def distinct_map)
  note m = mset_key_remove [OF assms(2)]
  have "mset (key_ids (key_remove i es)) = mset (key_ids es) - {#fst (es ! i)#}"
    using m assms(2) by (simp add: key_ids_def image_mset_Diff)
  note ids = distinct_remove1_mset [OF d(1) this]
  show "keys_ok (key_remove i es)" using assms(1) ids(1) by (auto simp: keys_ok_def)
  show "set (key_ids (key_remove i es)) = set (key_ids es) - {fst (es ! i)}" by (rule ids(2))
  show "set (key_remove i es) = set es - {es ! i}" by (rule distinct_remove1_mset(2) [OF d(2) m])
qed

section \<open>The contract\<close>

text \<open>What reaches a session: a press with what identifies the key there, a release, a release of all.\<close>

datatype 'p key_event = Press int 'p | Release int | Release_all

text \<open>The keys a user holds after a sequence of these.\<close>

fun user_holds :: "int set \<Rightarrow> 'p key_event list \<Rightarrow> int set" where
  "user_holds h [] = h"
| "user_holds h (Press k p # es) = user_holds (insert k h) es"
| "user_holds h (Release k # es) = user_holds (h - {k}) es"
| "user_holds h (Release_all # es) = user_holds {} es"

fun key_run ::
  "(int \<Rightarrow> 'p \<Rightarrow> 's \<Rightarrow> 's) \<Rightarrow> (int \<Rightarrow> 's \<Rightarrow> 's) \<Rightarrow> ('s \<Rightarrow> 's) \<Rightarrow> 'p key_event list \<Rightarrow> 's \<Rightarrow> 's"
where
  "key_run down up all [] s = s"
| "key_run down up all (Press k p # es) s = key_run down up all es (down k p s)"
| "key_run down up all (Release k # es) s = key_run down up all es (up k s)"
| "key_run down up all (Release_all # es) s = key_run down up all es (all s)"

locale held_keys =
  fixes table :: "'s \<Rightarrow> (int \<times> 'k) list"
    and down :: "int \<Rightarrow> 'p \<Rightarrow> 's \<Rightarrow> 's"
    and up :: "int \<Rightarrow> 's \<Rightarrow> 's"
    and all :: "'s \<Rightarrow> 's"
  assumes down_ok: "keys_ok (table s) \<Longrightarrow> keys_ok (table (down k p s))"
    and down_ids: "keys_ok (table s) \<Longrightarrow> set (key_ids (table (down k p s))) \<subseteq> insert k (set (key_ids (table s)))"
    and up_ok: "keys_ok (table s) \<Longrightarrow> keys_ok (table (up k s))"
    and up_ids: "keys_ok (table s) \<Longrightarrow> set (key_ids (table (up k s))) = set (key_ids (table s)) - {k}"
    and all_empty: "table (all s) = []"
begin

lemma table_ok_all: "keys_ok (table (all s))"
  by (simp add: all_empty keys_ok_def key_ids_def)

lemma run_ok: "keys_ok (table s) \<Longrightarrow> keys_ok (table (key_run down up all es s))"
proof (induction es arbitrary: s)
  case (Cons e es)
  then show ?case by (cases e) (simp_all add: down_ok up_ok table_ok_all)
qed simp

text \<open>The session never thinks a key is held that the user does not hold.\<close>

lemma run_ids:
  "keys_ok (table s) \<Longrightarrow> set (key_ids (table s)) \<subseteq> h \<Longrightarrow>
   set (key_ids (table (key_run down up all es s))) \<subseteq> user_holds h es"
proof (induction es arbitrary: s h)
  case (Cons e es)
  show ?case
  proof (cases e)
    case (Press k p)
    have "set (key_ids (table (down k p s))) \<subseteq> insert k h"
      using down_ids [OF Cons.prems(1), of k p] Cons.prems(2) by blast
    with Press Cons.IH [OF down_ok [OF Cons.prems(1)], of k p "insert k h"] show ?thesis by simp
  next
    case (Release k)
    have "set (key_ids (table (up k s))) \<subseteq> h - {k}"
      using up_ids [OF Cons.prems(1), of k] Cons.prems(2) by blast
    with Release Cons.IH [OF up_ok [OF Cons.prems(1)], of k "h - {k}"] show ?thesis by simp
  next
    case Release_all
    have "set (key_ids (table (all s))) \<subseteq> {}" by (simp add: all_empty key_ids_def)
    with Release_all Cons.IH [OF table_ok_all, of s "{}"] show ?thesis by simp
  qed
qed simp

end

end
