(* ===== verification/Vnc_Session.thy ===== *)
theory Vnc_Session
  imports Backend Command_Ring Framebuffer Text Address Held_Keys
begin

text \<open>
  The state of a LibVNC session and its command queue, from
  \<open>src/backends/modules/libvnc/cpp/libvnc_session.c\<close>: \<open>Session\<close>, \<open>Cmd\<close>, \<open>Facts\<close>, what the file
  reads and writes of libvncclient's \<open>rfbClient\<close>, the queue (\<open>ring_push\<close>, \<open>post\<close> and the head of
  \<open>drain\<close>) and \<open>fireClosed\<close>.

  A field of the record \<open>vnc_session\<close> is the C field of that name; an array with a count is a
  list.  What the session tells the platform and what it asks of libvncclient is appended to
  \<open>vs_trace\<close> as it happens.  Each critical section is atomic, which is what the locks give, so
  a call from another thread is a function on the state.  Freed memory is not modelled.
\<close>

section \<open>The library's client\<close>

record rfbPixelFormat =
  bitsPerPixel :: nat
  depth :: nat
  bigEndian :: bool
  trueColour :: bool
  redMax :: nat
  greenMax :: nat
  blueMax :: nat
  redShift :: nat
  greenShift :: nat
  blueShift :: nat

text \<open>A screen as it is on the wire, in network byte order.\<close>

record rfbExtDesktopScreen =
  sc_id :: u32
  sc_x :: u16
  sc_y :: u16
  sc_width :: u16
  sc_height :: u16
  sc_flags :: u32

text \<open>
  The security types the file tells apart, by the names of their macros; \<open>cl_subAuthScheme\<close> is
  0 until VeNCrypt has agreed on one.
\<close>

datatype rfb_auth = rfbNoAuth | rfbVncAuth | rfbVeNCrypt | rfbAuthOther u32

datatype rfb_vencrypt =
    rfbVeNCryptPlain
  | rfbVeNCryptTLSNone
  | rfbVeNCryptTLSVNC
  | rfbVeNCryptTLSPlain
  | rfbVeNCryptX509None
  | rfbVeNCryptX509VNC
  | rfbVeNCryptX509Plain
  | rfbVeNCryptOther u32

text \<open>\<open>cl_screenWidth\<close> is \<open>screen.width\<close>, \<open>cl_screens\<close> the array \<open>screens\<close> of \<open>numScreens\<close>.\<close>

record rfbClient =
  cl_width :: int
  cl_height :: int
  cl_format :: rfbPixelFormat
  cl_siFormat :: rfbPixelFormat
  cl_frameBuffer :: "bytes option"
  cl_screenWidth :: u16
  cl_screens :: "rfbExtDesktopScreen list"
  cl_requestedResize :: bool
  cl_encodingsString :: "string option"
  cl_compressLevel :: int
  cl_qualityLevel :: int
  cl_enableJPEG :: bool
  cl_useRemoteCursor :: bool
  cl_shareDesktop :: bool
  cl_canHandleNewFBSize :: bool
  cl_connectTimeout :: int
  cl_serverHost :: string
  cl_serverPort :: int
  cl_sock :: "int option"
  cl_authScheme :: rfb_auth
  cl_subAuthScheme :: rfb_vencrypt
  cl_major :: int
  cl_minor :: int
  cl_desktopName :: "bytes option"
  cl_bytesRcvd :: u64
  cl_bytesSent :: u64

text \<open>A client with nothing in it, for the examples.\<close>

definition rfb_format_zero :: rfbPixelFormat where
  "rfb_format_zero =
     \<lparr>bitsPerPixel = 0, depth = 0, bigEndian = False, trueColour = False, redMax = 0, greenMax = 0,
      blueMax = 0, redShift = 0, greenShift = 0, blueShift = 0\<rparr>"

definition rfb_client_zero :: rfbClient where
  "rfb_client_zero =
     \<lparr>cl_width = 0, cl_height = 0, cl_format = rfb_format_zero, cl_siFormat = rfb_format_zero,
      cl_frameBuffer = None, cl_screenWidth = 0, cl_screens = [], cl_requestedResize = False,
      cl_encodingsString = None, cl_compressLevel = 0, cl_qualityLevel = 0, cl_enableJPEG = False,
      cl_useRemoteCursor = False, cl_shareDesktop = False, cl_canHandleNewFBSize = False,
      cl_connectTimeout = 0, cl_serverHost = [], cl_serverPort = 0, cl_sock = None, cl_authScheme = rfbAuthOther 0,
      cl_subAuthScheme = rfbVeNCryptOther 0, cl_major = 0, cl_minor = 0, cl_desktopName = None, cl_bytesRcvd = 0,
      cl_bytesSent = 0\<rparr>"

section \<open>Commands and events\<close>

text \<open>A screen of a layout as five ints: the id (its 32 bits), then x, y, width and height.\<close>

type_synonym screen5 = "u32 \<times> int \<times> int \<times> int \<times> int"

datatype vnc_cmd =
    VNC_POINTER int int int
  | VNC_KEY_DOWN u32 int
  | VNC_KEY_UP int
  | VNC_RELEASE_KEYS
  | VNC_CLIPBOARD "bytes option"
  | VNC_RESIZE int int
  | VNC_LAYOUT int int "screen5 list"

text \<open>What a session does to the outside, in order.\<close>

datatype vnc_event =
    Callback vento_callback
  | SendPointerEvent int int int
  | SendKeyEvent u32 bool
  | SendClientCutText bytes
  | SetFormatAndEncodings
  | WriteSetDesktopSize u16 u16 u8
  | WriteScreen rfbExtDesktopScreen
  | SendFramebufferUpdateRequest int int int int bool
  | ShutdownSocket int
  | CloseSocket int

section \<open>The session\<close>

record vnc_facts =
  known :: bool
  desktop :: bytes
  protocol :: string
  security :: string
  serverPixels :: string
  viewerPixels :: string

record vnc_session =
  vs_cl :: "rfbClient option"
  vs_wake :: bool  \<comment> \<open>the wake pipe has bytes to read\<close>
  vs_ring :: "vnc_cmd ring"
  vs_quit :: bool
  vs_paused :: bool
  vs_viewOnly :: bool
  vs_connected :: bool
  vs_closedReported :: bool
  vs_canResize :: bool
  vs_screens :: "screen5 list"
  vs_credWaiting :: bool
  vs_credAnswered :: bool
  vs_credUser :: "string option"
  vs_credPass :: "string option"
  vs_trustAnswered :: bool
  vs_trustAccepted :: bool
  vs_storedUser :: "string option"
  vs_storedPass :: "string option"
  vs_storedPassUsed :: bool
  vs_fb :: shadow  \<comment> \<open>\<open>fb\<close>, \<open>fbW\<close>, \<open>fbH\<close>\<close>
  vs_dirty :: "rect list"
  vs_capdirty :: nat
  vs_keys :: "(int \<times> u32) list"
  vs_host :: "string option"
  vs_port :: int
  vs_addressError :: string
  vs_shared :: bool
  vs_anonymousTls :: bool
  vs_encodings :: "string option"
  vs_compressLevel :: int
  vs_qualityLevel :: int
  vs_encodingsChanged :: bool
  vs_applied :: "string option"
  vs_colorLevel :: int
  vs_connectTimeoutMs :: int
  vs_facts :: vnc_facts
  vs_palette :: "u32 list"
  vs_lastError :: string  \<comment> \<open>thread-local to the protocol thread\<close>
  vs_lastLine :: string
  vs_trace :: "vnc_event list"

definition vnc_emit :: "vnc_event \<Rightarrow> vnc_session \<Rightarrow> vnc_session" where
  "vnc_emit e s = s\<lparr>vs_trace := vs_trace s @ [e]\<rparr>"

lemma vnc_emit_simps [vnc_simps]:
  "vs_cl (vnc_emit e s) = vs_cl s" "vs_wake (vnc_emit e s) = vs_wake s" "vs_ring (vnc_emit e s) = vs_ring s"
  "vs_quit (vnc_emit e s) = vs_quit s" "vs_viewOnly (vnc_emit e s) = vs_viewOnly s"
  "vs_closedReported (vnc_emit e s) = vs_closedReported s" "vs_fb (vnc_emit e s) = vs_fb s"
  "vs_dirty (vnc_emit e s) = vs_dirty s" "vs_keys (vnc_emit e s) = vs_keys s"
  "vs_colorLevel (vnc_emit e s) = vs_colorLevel s" "vs_palette (vnc_emit e s) = vs_palette s"
  "vs_trace (vnc_emit e s) = vs_trace s @ [e]"
  by (simp_all add: vnc_emit_def)

lemma fold_vnc_emit: "fold (\<lambda>r. vnc_emit (f r)) rs s = s\<lparr>vs_trace := vs_trace s @ map f rs\<rparr>"
  by (induction rs arbitrary: s) (simp_all add: vnc_emit_def)

text \<open>The callbacks of a trace, which is what the platform sees of it.\<close>

fun vnc_callbacks :: "vnc_event list \<Rightarrow> vento_callback list" where
  "vnc_callbacks [] = []"
| "vnc_callbacks (Callback c # es) = c # vnc_callbacks es"
| "vnc_callbacks (_ # es) = vnc_callbacks es"

definition publishClient :: "rfbClient option \<Rightarrow> vnc_session \<Rightarrow> vnc_session" where
  "publishClient cl s = s\<lparr>vs_cl := cl\<rparr>"

section \<open>The command queue\<close>

text \<open>A write to the non-blocking pipe leaves it readable, also when it was full.\<close>

definition vnc_wake :: "vnc_session \<Rightarrow> vnc_session" where
  "vnc_wake s = s\<lparr>vs_wake := True\<rparr>"

definition ring_push :: "vnc_session \<Rightarrow> vnc_cmd \<Rightarrow> vnc_session" where
  "ring_push s c =
     (let r = vs_ring s;
          r = (if ring_full r then ring_advance r else r)
      in s\<lparr>vs_ring := ring_put r c\<rparr>)"

text \<open>Whether a command replaces the newest one queued: motion with the same buttons.\<close>

fun same_motion :: "vnc_cmd \<Rightarrow> vnc_cmd \<Rightarrow> bool" where
  "same_motion (VNC_POINTER _ _ m) (VNC_POINTER _ _ m') \<longleftrightarrow> m = m'"
| "same_motion _ _ \<longleftrightarrow> False"

definition vnc_post :: "vnc_session \<Rightarrow> vnc_cmd \<Rightarrow> vnc_session" where
  "vnc_post s c =
     (if vs_quit s then s
      else let r = vs_ring s
      in if rhead r \<noteq> rtail r \<and> same_motion (rbuf r (ring_last r)) c
         then vnc_wake (s\<lparr>vs_ring := ring_set_last r c\<rparr>)
         else vnc_wake (ring_push s c))"

text \<open>The part of \<open>drain\<close> under the lock: the oldest command, if there is one.\<close>

definition vnc_pop :: "vnc_session \<Rightarrow> (vnc_cmd \<times> vnc_session) option" where
  "vnc_pop s =
     (let r = vs_ring s
      in if rtail r = rhead r then None
         else Some (rbuf r (rtail r), s\<lparr>vs_ring := ring_advance r\<rparr>))"

text \<open>The queue, oldest first, and the invariant of its indices.\<close>

definition vnc_items :: "vnc_session \<Rightarrow> vnc_cmd list" where
  "vnc_items s = ring_items (vs_ring s)"

definition vnc_queue_ok :: "vnc_session \<Rightarrow> bool" where
  "vnc_queue_ok s \<longleftrightarrow> ring_ok (vs_ring s)"

section \<open>Reporting the end\<close>

definition vnc_fireClosed :: "(nat \<Rightarrow> bool) \<Rightarrow> bytes option \<Rightarrow> vnc_session \<Rightarrow> vnc_session" where
  "vnc_fireClosed malloc detail s =
     (let already = vs_closedReported s;
          s = s\<lparr>vs_closedReported := True\<rparr>
      in if already then s
         else vnc_emit (Callback (Closed (case vento_utf8_from_bytes malloc detail of
                                            Some utf8 \<Rightarrow> utf8 | None \<Rightarrow> []))) s)"

section \<open>A new session\<close>

record vento_libvnc_config =
  address :: "string option"
  user_name :: "string option"
  password :: "string option"
  encoding :: "string option"
  compress_level :: int
  quality_level :: int
  color_level :: int
  shared :: bool
  anonymous_tls :: bool
  connect_timeout_ms :: int

text \<open>
  The zeroed struct.  A slot of the ring outside \<open>tail\<close>..\<open>head\<close> is never read, so what it
  holds does not matter.
\<close>

definition vnc_calloc :: vnc_session where
  "vnc_calloc =
     \<lparr>vs_cl = None, vs_wake = False,
      vs_ring = \<lparr>rbuf = (\<lambda>_. VNC_RELEASE_KEYS), rhead = 0, rtail = 0\<rparr>,
      vs_quit = False, vs_paused = False, vs_viewOnly = False, vs_connected = False,
      vs_closedReported = False, vs_canResize = False, vs_screens = [],
      vs_credWaiting = False, vs_credAnswered = False, vs_credUser = None, vs_credPass = None,
      vs_trustAnswered = False, vs_trustAccepted = False,
      vs_storedUser = None, vs_storedPass = None, vs_storedPassUsed = False,
      vs_fb = \<lparr>px = None, pw = 0, ph = 0\<rparr>, vs_dirty = [], vs_capdirty = 0, vs_keys = [],
      vs_host = None, vs_port = 0, vs_addressError = [], vs_shared = False, vs_anonymousTls = False,
      vs_encodings = None, vs_compressLevel = 0, vs_qualityLevel = 0, vs_encodingsChanged = False,
      vs_applied = None, vs_colorLevel = 0, vs_connectTimeoutMs = 0,
      vs_facts = \<lparr>known = False, desktop = [], protocol = [], security = [], serverPixels = [],
        viewerPixels = []\<rparr>,
      vs_palette = replicate 256 0, vs_lastError = [], vs_lastLine = [], vs_trace = []\<rparr>"

text \<open>\<open>pipe\<close> and \<open>thread\<close> say whether \<open>pipe\<close> and \<open>pthread_create\<close> succeed.\<close>

definition vento_libvnc_create :: "bool \<Rightarrow> bool \<Rightarrow> bool \<Rightarrow> vento_libvnc_config \<Rightarrow> vnc_session option" where
  "vento_libvnc_create memory pipe thread cfg =
     (if \<not> memory \<or> \<not> pipe then None
      else let s = vnc_calloc\<lparr>vs_port := 5900\<rparr>;
               s = (case address cfg of
                      None \<Rightarrow> s
                    | Some addr \<Rightarrow>
                        let (host, port, why) = vnc_splitAddress 160 addr 5900
                        in s\<lparr>vs_host := Some host, vs_port := port, vs_addressError := why\<rparr>);
               s = s\<lparr>vs_storedUser := user_name cfg, vs_storedPass := password cfg,
                     vs_encodings := encoding cfg, vs_compressLevel := compress_level cfg,
                     vs_qualityLevel := quality_level cfg, vs_colorLevel := color_level cfg,
                     vs_shared := shared cfg, vs_anonymousTls := anonymous_tls cfg,
                     vs_connectTimeoutMs := connect_timeout_ms cfg\<rparr>
           in if thread then Some s else None)"

section \<open>Properties of the queue\<close>

lemma vnc_wake_simps [vnc_simps]:
  "vs_ring (vnc_wake s) = vs_ring s" "vs_quit (vnc_wake s) = vs_quit s" "vs_wake (vnc_wake s)"
  by (simp_all add: vnc_wake_def)

lemma ring_push_items:
  assumes "vnc_queue_ok s"
  shows "vnc_items (ring_push s c) =
      (if length (vnc_items s) = CMD_RING - 1 then tl (vnc_items s) else vnc_items s) @ [c]"
    and "vnc_queue_ok (ring_push s c)"
proof -
  let ?r = "vs_ring s"
  let ?r' = "if ring_full ?r then ring_advance ?r else ?r"
  have ok: "ring_ok ?r" using assms by (simp add: vnc_queue_ok_def)
  have ok': "ring_ok ?r'" using ok by (simp add: ring_ok_advance)
  have items: "ring_items ?r' =
      (if length (ring_items ?r) = CMD_RING - 1 then tl (ring_items ?r) else ring_items ?r)"
    using ring_items_advance [OF ok] by (auto simp: ring_full_iff [OF ok] CMD_RING_def)
  then have "length (ring_items ?r') < CMD_RING - 1"
    using ring_len_less [of ?r] by (auto simp: CMD_RING_def)
  then have "\<not> ring_full ?r'"
    using ring_full_iff [OF ok'] by simp
  from ring_items_put [OF ok' this, of c] items
  show "vnc_items (ring_push s c) =
      (if length (vnc_items s) = CMD_RING - 1 then tl (vnc_items s) else vnc_items s) @ [c]"
    by (simp add: ring_push_def vnc_items_def Let_def)
  show "vnc_queue_ok (ring_push s c)"
    using ok' by (simp add: ring_push_def vnc_queue_ok_def ring_ok_put Let_def)
qed

lemma newest_same_motion:
  assumes "vnc_queue_ok s"
  shows "rhead (vs_ring s) \<noteq> rtail (vs_ring s) \<and> same_motion (rbuf (vs_ring s) (ring_last (vs_ring s))) c \<longleftrightarrow>
     vnc_items s \<noteq> [] \<and> same_motion (last (vnc_items s)) c"
proof -
  have ok: "ring_ok (vs_ring s)" using assms by (simp add: vnc_queue_ok_def)
  have "vnc_items s \<noteq> [] \<longleftrightarrow> ring_len (vs_ring s) \<noteq> 0"
    by (metis length_0_conv length_ring_items vnc_items_def)
  then show ?thesis
    using ring_empty_iff [OF ok] last_ring_items [OF ok] by (auto simp: vnc_items_def)
qed

lemma vnc_post_items:
  assumes "vnc_queue_ok s"
  shows "vnc_items (vnc_post s c) =
      (if vs_quit s then vnc_items s
       else if vnc_items s \<noteq> [] \<and> same_motion (last (vnc_items s)) c then butlast (vnc_items s) @ [c]
       else (if length (vnc_items s) = CMD_RING - 1 then tl (vnc_items s) else vnc_items s) @ [c])"
    and "vnc_queue_ok (vnc_post s c)"
proof -
  have ok: "ring_ok (vs_ring s)" using assms by (simp add: vnc_queue_ok_def)
  have set_last: "ring_items (ring_set_last (vs_ring s) c) = butlast (vnc_items s) @ [c]"
    if "vnc_items s \<noteq> []"
  proof -
    have "ring_len (vs_ring s) \<noteq> 0"
      using that by (metis length_0_conv length_ring_items vnc_items_def)
    from ring_items_set_last [OF ok this] show ?thesis by (simp add: vnc_items_def)
  qed
  show "vnc_items (vnc_post s c) =
      (if vs_quit s then vnc_items s
       else if vnc_items s \<noteq> [] \<and> same_motion (last (vnc_items s)) c then butlast (vnc_items s) @ [c]
       else (if length (vnc_items s) = CMD_RING - 1 then tl (vnc_items s) else vnc_items s) @ [c])"
    unfolding vnc_post_def Let_def newest_same_motion [OF assms]
    using set_last ring_push_items(1) [OF assms, of c]
    by (auto simp: vnc_items_def vnc_simps)
  show "vnc_queue_ok (vnc_post s c)"
    using ok ring_push_items(2) [OF assms, of c]
    by (auto simp: vnc_post_def vnc_queue_ok_def vnc_simps ring_ok_set_last Let_def)
qed

lemma vnc_pop_None: "vnc_queue_ok s \<Longrightarrow> vnc_pop s = None \<longleftrightarrow> vnc_items s = []"
  using ring_empty_iff [of "vs_ring s"] length_0_conv [of "vnc_items s"]
  by (auto simp: vnc_pop_def vnc_queue_ok_def vnc_items_def Let_def)

lemma vnc_pop_Some:
  assumes "vnc_queue_ok s" and "vnc_pop s = Some (c, s')"
  shows "vnc_items s = c # vnc_items s' \<and> vnc_queue_ok s' \<and> s' = s\<lparr>vs_ring := vs_ring s'\<rparr>"
proof -
  have ok: "ring_ok (vs_ring s)" using assms by (simp add: vnc_queue_ok_def)
  have ne: "rtail (vs_ring s) \<noteq> rhead (vs_ring s)"
    and c: "c = rbuf (vs_ring s) (rtail (vs_ring s))"
    and s': "s' = s\<lparr>vs_ring := ring_advance (vs_ring s)\<rparr>"
    using assms(2) by (auto simp: vnc_pop_def Let_def split: if_splits)
  have "ring_len (vs_ring s) \<noteq> 0" using ring_empty_iff [OF ok] ne by metis
  from ring_items_advance [OF ok this] show ?thesis
    using ok by (simp add: c s' vnc_items_def vnc_queue_ok_def ring_ok_advance)
qed

lemma vnc_items_less: "length (vnc_items s) < CMD_RING"
  by (simp add: vnc_items_def ring_len_less)

interpretation vq: command_queue vnc_queue_ok vnc_items vnc_post vnc_pop
proof
  fix q :: vnc_session and c
  assume q: "vnc_queue_ok q"
  show "vnc_queue_ok (vnc_post q c)" by (rule vnc_post_items(2) [OF q])
  show "subseq (vnc_items (vnc_post q c)) (vnc_items q @ [c])"
    unfolding vnc_post_items(1) [OF q]
    by (auto intro!: list_emb_append_mono)
  show "length (vnc_items q) < CMD_RING" by (rule vnc_items_less)
  show "vnc_pop q = None \<longleftrightarrow> vnc_items q = []" by (rule vnc_pop_None [OF q])
next
  fix q q' :: vnc_session and c
  assume "vnc_queue_ok q" "vnc_pop q = Some (c, q')"
  from vnc_pop_Some [OF this] show "vnc_queue_ok q'" "vnc_items q = c # vnc_items q'"
    by blast+
qed

text \<open>
  Whatever the interleaving of posts and takes, the protocol thread executes LibVNC
  commands in the order they were posted, each at most once, and a queue left alone is
  emptied: the commands taken followed by those still queued are a subsequence of those
  queued before followed by those posted.
\<close>

theorem vnc_commands_in_order:
  assumes "vnc_queue_ok s" and "queue_run vnc_post vnc_pop s es = (taken, s')"
  shows "subseq (taken @ vnc_items s') (vnc_items s @ posted es) \<and> vnc_queue_ok s' \<and>
    length (vnc_items s') < CMD_RING \<and>
    (\<exists>s''. queue_run vnc_post vnc_pop s' (replicate CMD_RING Take) = (vnc_items s', s'') \<and> vnc_items s'' = [])"
proof -
  have ok: "vnc_queue_ok s'" by (rule vq.run_invar [OF assms])
  have "length (vnc_items s') \<le> CMD_RING" using vnc_items_less [of s'] by simp
  with ok vq.run_drains [OF ok this] show ?thesis
    by (simp add: vq.run_in_order [OF assms] vnc_items_less)
qed

lemma vnc_calloc_queue [simp]: "vnc_queue_ok vnc_calloc" "vnc_items vnc_calloc = []"
  by (simp_all add: vnc_queue_ok_def vnc_items_def vnc_calloc_def ring_ok_def ring_items_def ring_len_def
      CMD_RING_def)

lemma vnc_calloc_quit [simp]: "\<not> vs_quit vnc_calloc"
  by (simp add: vnc_calloc_def)

theorem vnc_commands_in_order_witness:
  "\<exists>taken s'. queue_run vnc_post vnc_pop vnc_calloc [Post (VNC_KEY_UP 1), Take, Post VNC_RELEASE_KEYS] = (taken, s') \<and>
     subseq (taken @ vnc_items s') [VNC_KEY_UP 1, VNC_RELEASE_KEYS]"
proof -
  let ?es = "[Post (VNC_KEY_UP 1), Take, Post VNC_RELEASE_KEYS]"
  obtain taken s' where r: "queue_run vnc_post vnc_pop vnc_calloc ?es = (taken, s')"
    by (cases "queue_run vnc_post vnc_pop vnc_calloc ?es")
  with vnc_commands_in_order [OF vnc_calloc_queue(1) r] show ?thesis by simp
qed

text \<open>What motion coalescing means: of a run of moves with the same buttons only the last counts.\<close>

fun coalesce :: "vnc_cmd list \<Rightarrow> vnc_cmd list" where
  "coalesce [] = []"
| "coalesce [c] = [c]"
| "coalesce (c # d # cs) = (if same_motion c d then coalesce (d # cs) else c # coalesce (d # cs))"

lemma coalesce_eq_Nil [simp]: "coalesce cs = [] \<longleftrightarrow> cs = []"
  by (induction cs rule: coalesce.induct) auto

lemma last_coalesce: "cs \<noteq> [] \<Longrightarrow> last (coalesce cs) = last cs"
  by (induction cs rule: coalesce.induct) auto

lemma coalesce_snoc:
  "coalesce (cs @ [c]) =
     (if cs \<noteq> [] \<and> same_motion (last cs) c then butlast (coalesce cs) @ [c] else coalesce cs @ [c])"
  by (induction cs rule: coalesce.induct) auto

lemma length_coalesce_snoc: "length (coalesce cs) \<le> length (coalesce (cs @ [c]))"
  by (cases "coalesce cs" rule: rev_cases) (auto simp: coalesce_snoc)

lemma vnc_post_quit [simp]: "vs_quit (vnc_post s c) = vs_quit s"
  by (simp add: vnc_post_def ring_push_def vnc_simps Let_def)

lemma vnc_post_coalesce_step:
  assumes "vnc_queue_ok t" and "\<not> vs_quit t" and "vnc_items t = coalesce cs"
    and "length (coalesce (cs @ [c])) < CMD_RING"
  shows "vnc_items (vnc_post t c) = coalesce (cs @ [c])"
proof (cases "cs \<noteq> [] \<and> same_motion (last cs) c")
  case True
  then show ?thesis
    using vnc_post_items(1) [OF assms(1), of c] assms(2,3) by (simp add: coalesce_snoc last_coalesce)
next
  case False
  then have "length (coalesce cs) \<noteq> CMD_RING - 1" and "coalesce (cs @ [c]) = coalesce cs @ [c]"
    using assms(4) by (auto simp: coalesce_snoc)
  with False show ?thesis
    using vnc_post_items(1) [OF assms(1), of c] assms(2,3) by (auto simp: last_coalesce)
qed

text \<open>
  As long as the queue has room, what it holds is the posted commands with each run of
  pointer moves that have the same buttons reduced to its last: the newest position is never
  lost, no button change is merged away and nothing but stale motion is dropped.
\<close>

theorem vnc_post_coalesces:
  assumes "vnc_queue_ok s" and "vnc_items s = []" and "\<not> vs_quit s"
    and "length (coalesce cs) < CMD_RING"
  shows "vnc_items (fold (\<lambda>c s. vnc_post s c) cs s) = coalesce cs"
proof -
  have "vnc_queue_ok (fold (\<lambda>c s. vnc_post s c) cs s) \<and> \<not> vs_quit (fold (\<lambda>c s. vnc_post s c) cs s) \<and>
      vnc_items (fold (\<lambda>c s. vnc_post s c) cs s) = coalesce cs"
    using assms(4)
  proof (induction cs rule: rev_induct)
    case (snoc c cs)
    have len: "length (coalesce cs) < CMD_RING"
      using snoc.prems length_coalesce_snoc [of cs c] by linarith
    let ?s = "fold (\<lambda>c s. vnc_post s c) cs s"
    from snoc.IH [OF len] have q: "vnc_queue_ok ?s" "\<not> vs_quit ?s" "vnc_items ?s = coalesce cs" by auto
    from vnc_post_coalesce_step [OF q snoc.prems]
    have "vnc_items (vnc_post ?s c) = coalesce (cs @ [c])" .
    with q vnc_post_items(2) [OF q(1), of c] show ?case by simp
  qed (use assms in simp)
  then show ?thesis by blast
qed

theorem vnc_post_coalesces_witness:
  "vnc_items (fold (\<lambda>c s. vnc_post s c)
       [VNC_POINTER 1 1 0, VNC_POINTER 2 2 0, VNC_POINTER 2 2 1, VNC_POINTER 3 3 1] vnc_calloc) =
     [VNC_POINTER 2 2 0, VNC_POINTER 3 3 1]"
  using vnc_post_coalesces [OF vnc_calloc_queue vnc_calloc_quit,
      of "[VNC_POINTER 1 1 0, VNC_POINTER 2 2 0, VNC_POINTER 2 2 1, VNC_POINTER 3 3 1]"]
  by (simp add: CMD_RING_def)

end
