(* ===== verification/Vnc_Display.thy ===== *)
theory Vnc_Display
  imports Vnc_Session
begin

text \<open>
  What libvncclient calls while it decodes, from
  \<open>src/backends/modules/libvnc/cpp/libvnc_session.c\<close>: \<open>setColorFormat\<close>, \<open>onMallocFrameBuffer\<close>,
  \<open>onGotUpdate\<close>, \<open>layoutChanged\<close>, \<open>onFinishedUpdate\<close>, \<open>onGotCursor\<close>, \<open>onBell\<close> and \<open>onCutText\<close>.
  Each takes the session and the client, as \<open>sessionOf\<close> finds the one from the other, and
  returns both.  The library's byte-order macros are the record \<open>rfb_lib\<close>.

  The lemmas show that the second framebuffer stays opaque and of the announced size, that
  the copy reads only inside the decode buffer, that what is reported as damaged is exactly
  what changed and lies inside the desktop, and what each reduced colour becomes.
\<close>

section \<open>Definitions\<close>

record rfb_lib =
  swap32 :: "u32 \<Rightarrow> u32"  \<comment> \<open>\<open>rfbClientSwap32IfLE\<close>\<close>
  swap16 :: "u16 \<Rightarrow> u16"  \<comment> \<open>\<open>rfbClientSwap16IfLE\<close>\<close>

subsection \<open>Pixel format\<close>

definition palette_entry :: "nat \<Rightarrow> nat \<Rightarrow> nat \<Rightarrow> nat \<Rightarrow> u32" where
  "palette_entry rshift gshift chanMax i =
     (let i = word_of_nat i; m = word_of_nat chanMax;
          r = drop_bit rshift i AND m;
          g = drop_bit gshift i AND m;
          b = i AND m
      in ALPHA OR push_bit 16 (b * 255 div m) OR push_bit 8 (g * 255 div m) OR (r * 255 div m))"

definition setColorFormat :: "vnc_session \<Rightarrow> rfbClient \<Rightarrow> vnc_session \<times> rfbClient" where
  "setColorFormat s cl =
     (let f = (cl_format cl)\<lparr>bigEndian := False, trueColour := True\<rparr>
      in if vs_colorLevel s \<le> 0 then
           (s, cl\<lparr>cl_format := f\<lparr>bitsPerPixel := 32, depth := 24, redMax := 255, greenMax := 255,
                 blueMax := 255, redShift := 0, greenShift := 8, blueShift := 16\<rparr>\<rparr>)
         else
           let bits = (if vs_colorLevel s = 1 then 2 else 1);
               chanMax = 2 ^ bits - 1;
               f = f\<lparr>bitsPerPixel := 8, depth := bits * 3, redMax := chanMax, greenMax := chanMax,
                     blueMax := chanMax,
                     redShift := bits * 2, greenShift := bits, blueShift := 0\<rparr>
           in (s\<lparr>vs_palette := map (palette_entry (redShift f) (greenShift f) chanMax) [0..<256]\<rparr>,
               cl\<lparr>cl_format := f\<rparr>))"

subsection \<open>The framebuffers\<close>

text \<open>\<open>memory\<close> says whether both allocations succeed.\<close>

definition onMallocFrameBuffer ::
  "bool \<Rightarrow> vnc_session \<Rightarrow> rfbClient \<Rightarrow> bool \<times> vnc_session \<times> rfbClient"
where
  "onMallocFrameBuffer memory s cl =
     (let w = cl_width cl; h = cl_height cl
      in if w \<le> 0 \<or> h \<le> 0 \<or> \<not> memory then (False, s, cl)
         else let decode = replicate (nat w * nat h * (bitsPerPixel (cl_format cl) div 8)) 0;
                  cl = cl\<lparr>cl_frameBuffer := Some decode\<rparr>;
                  s = s\<lparr>vs_fb := shadow_alloc w h\<rparr>;
                  s = vnc_emit (Callback (if vs_connected s then Desktop_size w h else Connected w h)) s
              in (True, s\<lparr>vs_connected := True\<rparr>, cl))"

text \<open>\<open>grow\<close> says whether \<open>realloc\<close> succeeds.\<close>

definition onGotUpdate :: "bool \<Rightarrow> int \<Rightarrow> int \<Rightarrow> int \<Rightarrow> int \<Rightarrow> vnc_session \<Rightarrow> vnc_session" where
  "onGotUpdate grow x y w h s =
     (if w \<le> 0 \<or> h \<le> 0 then s
      else let full = (length (vs_dirty s) = vs_capdirty s)
           in if full \<and> \<not> grow then s
              else let s = (if full
                            then s\<lparr>vs_capdirty := if vs_capdirty s \<noteq> 0 then vs_capdirty s * 2 else 64\<rparr>
                            else s)
                   in s\<lparr>vs_dirty := vs_dirty s @ [\<lparr>rx = x, ry = y, rw = w, rh = h\<rparr>]\<rparr>)"

definition flat_screen :: "rfb_lib \<Rightarrow> rfbExtDesktopScreen \<Rightarrow> screen5" where
  "flat_screen lib c =
     (swap32 lib (sc_id c), uint (swap16 lib (sc_x c)), uint (swap16 lib (sc_y c)),
      uint (swap16 lib (sc_width c)), uint (swap16 lib (sc_height c)))"

definition layoutChanged :: "rfb_lib \<Rightarrow> bool \<Rightarrow> rfbClient \<Rightarrow> vnc_session \<Rightarrow> vnc_session" where
  "layoutChanged lib memory cl s =
     (let n = length (cl_screens cl)
      in if n > VENTO_MAX_MONITORS then s
         else let flat = map (flat_screen lib) (cl_screens cl)
              in if vs_screens s \<noteq> flat \<and> (n = 0 \<or> memory) then s\<lparr>vs_screens := flat\<rparr> else s)"

text \<open>The decode buffer read as 32-bit little-endian pixels.\<close>

fun le32s :: "bytes \<Rightarrow> u32 list" where
  "le32s (a # b # c # d # bs) =
     (ucast a OR push_bit 8 (ucast b) OR push_bit 16 (ucast c) OR push_bit 24 (ucast d)) # le32s bs"
| "le32s _ = []"

definition buffer_of :: "'a list option \<Rightarrow> 'a list" where
  "buffer_of b = (case b of None \<Rightarrow> [] | Some p \<Rightarrow> p)"

definition vnc_copy :: "vnc_session \<Rightarrow> rfbClient \<Rightarrow> u32 list \<times> rect list" where
  "vnc_copy s cl =
     (let fw = pw (vs_fb s); fh = ph (vs_fb s);
          dst = buffer_of (px (vs_fb s)); src = buffer_of (cl_frameBuffer cl)
      in if vs_colorLevel s \<le> 0
         then copy_damage (\<lambda>p. p OR ALPHA) (le32s src) (nat fw) (nat fw) fw fh (vs_dirty s) dst
         else copy_damage (\<lambda>p. vs_palette s ! unat p) src (nat fw) (nat fw) fw fh (vs_dirty s) dst)"

definition onFinishedUpdate :: "rfb_lib \<Rightarrow> bool \<Rightarrow> rfbClient \<Rightarrow> vnc_session \<Rightarrow> vnc_session" where
  "onFinishedUpdate lib memory cl s =
     (let s = s\<lparr>vs_canResize := (cl_screenWidth cl \<noteq> 0)\<rparr>;
          s = layoutChanged lib memory cl s
      in if vs_dirty s = [] then s
         else let (d, rects) = vnc_copy s cl;
                  s = s\<lparr>vs_fb := (vs_fb s)\<lparr>px := map_option (\<lambda>_. d) (px (vs_fb s))\<rparr>\<rparr>;
                  s = fold (\<lambda>r. vnc_emit (Callback (damage_callback r))) rects s;
                  s = vnc_emit (Callback Frame_end) s
              in s\<lparr>vs_dirty := []\<rparr>)"

subsection \<open>Cursor, bell, clipboard\<close>

text \<open>
  The shape's pixels are \<open>rcSource\<close>, \<open>bpp\<close> bytes each; \<open>rcMask\<close> has a byte per pixel.
\<close>

definition cursor_pixel :: "vnc_session \<Rightarrow> int \<Rightarrow> bytes \<Rightarrow> bytes option \<Rightarrow> nat \<Rightarrow> u32" where
  "cursor_pixel s bpp source rcMask i =
     (let p = (if bpp = 4 then le32s source ! i else vs_palette s ! unat (source ! i));
          a = (case rcMask of None \<Rightarrow> 0xFF | Some m \<Rightarrow> if m ! i = 0 then 0 else 0xFF)
      in push_bit 24 a OR (p AND 0x00FFFFFF))"

definition onGotCursor ::
  "bool \<Rightarrow> bytes option \<Rightarrow> bytes option \<Rightarrow> int \<Rightarrow> int \<Rightarrow> int \<Rightarrow> int \<Rightarrow> int \<Rightarrow> vnc_session \<Rightarrow> vnc_session"
where
  "onGotCursor memory rcSource rcMask xhot yhot w h bpp s =
     (let rgba = (case rcSource of
                    Some source \<Rightarrow>
                      if w > 0 \<and> h > 0 \<and> (bpp = 4 \<or> bpp = 1) \<and> memory
                      then Some (map (cursor_pixel s bpp source rcMask) [0..<nat (w * h)]) else None
                  | None \<Rightarrow> None)
      in vnc_emit (Callback (Cursor rgba w h xhot yhot)) s)"

definition onBell :: "vnc_session \<Rightarrow> vnc_session" where
  "onBell s = vnc_emit (Callback Bell) s"

text \<open>
  The text comes with its length, so its loop stops there rather than at a NUL; the callback
  gets a C string.
\<close>

definition c_string :: "bytes \<Rightarrow> bytes" where
  "c_string b = takeWhile (\<lambda>c. c \<noteq> 0) b"

definition onCutText :: "bool \<Rightarrow> bytes option \<Rightarrow> vnc_session \<Rightarrow> vnc_session" where
  "onCutText memory text s =
     (case text of
        None \<Rightarrow> s
      | Some t \<Rightarrow>
          if t = [] \<or> \<not> memory then s
          else vnc_emit (Callback (Clipboard (c_string (latin1_to_utf8 t)))) s)"

subsection \<open>The hooks of the decoder\<close>

text \<open>
  What the library does to the client between and inside its calls: a new size followed by
  \<open>MallocFrameBuffer\<close>, decoding into the buffer it was given, the hooks of an update, and a
  new list of screens.
\<close>

datatype vnc_display =
    Malloc_framebuffer bool int int
  | Decode bytes
  | Got_update bool int int int int
  | Server_screens u16 "rfbExtDesktopScreen list"
  | Finished_update bool

definition with_client :: "(vnc_session \<Rightarrow> rfbClient \<Rightarrow> vnc_session \<times> rfbClient) \<Rightarrow> vnc_session \<Rightarrow> vnc_session" where
  "with_client f s =
     (case vs_cl s of
        None \<Rightarrow> s
      | Some cl \<Rightarrow> let (s, cl) = f s cl in s\<lparr>vs_cl := Some cl\<rparr>)"

fun vnc_display_step :: "rfb_lib \<Rightarrow> vnc_session \<Rightarrow> vnc_display \<Rightarrow> vnc_session" where
  "vnc_display_step lib s (Malloc_framebuffer memory w h) =
     with_client (\<lambda>s cl. snd (onMallocFrameBuffer memory s (cl\<lparr>cl_width := w, cl_height := h\<rparr>))) s"
| "vnc_display_step lib s (Decode b) =
     with_client (\<lambda>s cl. (s, case cl_frameBuffer cl of
        None \<Rightarrow> cl
      | Some old \<Rightarrow> if length b = length old then cl\<lparr>cl_frameBuffer := Some b\<rparr> else cl)) s"
| "vnc_display_step lib s (Got_update grow x y w h) = onGotUpdate grow x y w h s"
| "vnc_display_step lib s (Server_screens width screens) =
     with_client (\<lambda>s cl. (s, cl\<lparr>cl_screenWidth := width, cl_screens := screens\<rparr>)) s"
| "vnc_display_step lib s (Finished_update memory) =
     with_client (\<lambda>s cl. (onFinishedUpdate lib memory cl s, cl)) s"

section \<open>Invariant\<close>

definition vnc_bpp :: "int \<Rightarrow> nat" where
  "vnc_bpp level = (if level \<le> 0 then 32 else 8)"

definition decode_fits :: "vnc_session \<Rightarrow> rfbClient \<Rightarrow> bool" where
  "decode_fits s cl \<longleftrightarrow>
     bitsPerPixel (cl_format cl) = vnc_bpp (vs_colorLevel s) \<and>
     (px (vs_fb s) \<noteq> None \<longrightarrow>
        length (buffer_of (cl_frameBuffer cl)) =
          nat (pw (vs_fb s)) * nat (ph (vs_fb s)) * (vnc_bpp (vs_colorLevel s) div 8))"

definition vnc_display_ok :: "vnc_session \<Rightarrow> bool" where
  "vnc_display_ok s \<longleftrightarrow>
     shadow_ok (vs_fb s) \<and> (px (vs_fb s) = None \<longrightarrow> pw (vs_fb s) = 0 \<and> ph (vs_fb s) = 0) \<and>
     (0 < vs_colorLevel s \<longrightarrow> length (vs_palette s) = 256 \<and> list_all opaque_px (vs_palette s)) \<and>
     (case vs_cl s of None \<Rightarrow> True | Some cl \<Rightarrow> decode_fits s cl)"

section \<open>Colours\<close>

definition channel :: "nat \<Rightarrow> nat \<Rightarrow> u32" where
  "channel bits v = word_of_nat ((v mod 2 ^ bits) * 255 div (2 ^ bits - 1))"

definition entry_ok :: "nat \<Rightarrow> nat \<Rightarrow> bool" where
  "entry_ok bits i \<longleftrightarrow>
     palette_entry (bits * 2) bits (2 ^ bits - 1) i =
       ALPHA OR push_bit 16 (channel bits i) OR push_bit 8 (channel bits (i div 2 ^ bits)) OR
         channel bits (i div 2 ^ (2 * bits))"

lemma channel_bits:
  assumes "i < 256" and "n \<le> 32"
  shows "drop_bit r (word_of_nat i :: u32) AND word_of_nat (2 ^ n - 1) = word_of_nat (i div 2 ^ r mod 2 ^ n)"
proof -
  have m: "(word_of_nat (2 ^ n - 1) :: u32) = mask n"
    by (simp add: mask_eq_exp_minus_1 of_nat_diff)
  have "unat (word_of_nat i :: u32) = i" using assms by (simp add: unsigned_of_nat take_bit_nat_eq_self)
  then have d: "drop_bit r (word_of_nat i :: u32) = word_of_nat (i div 2 ^ r)"
    using unat_drop_bit_eq [of r "word_of_nat i :: u32"]
      of_nat_unat [of "drop_bit r (word_of_nat i :: u32)", where ?'a = 32]
    by (simp add: drop_bit_eq_div) (metis of_nat_unat ucast_id unat_div unsigned_of_nat)
  show ?thesis unfolding m d
    by (simp only: take_bit_eq_mask [symmetric] take_bit_of_nat take_bit_nat_def)
qed
lemma channel_scale:
  assumes "v < 2 ^ bits" and "bits = 1 \<or> bits = 2"
  shows "(word_of_nat v :: u32) * 255 div word_of_nat (2 ^ bits - 1) = word_of_nat (v * 255 div (2 ^ bits - 1))"
proof -
  have "v = 0 \<or> v = 1 \<or> bits = 2 \<and> (v = 2 \<or> v = 3)" using assms by auto
  then show ?thesis using assms(2) by auto
qed

lemma entries_ok: "i < 256 \<Longrightarrow> bits = 1 \<or> bits = 2 \<Longrightarrow> entry_ok bits i"
  using channel_bits [of i bits 0] channel_bits [of i bits bits] channel_bits [of i bits "bits * 2"]
    channel_scale [of "i mod 2 ^ bits" bits] channel_scale [of "i div 2 ^ bits mod 2 ^ bits" bits]
    channel_scale [of "i div 2 ^ (bits * 2) mod 2 ^ bits" bits]
  by (auto simp: entry_ok_def palette_entry_def Let_def channel_def mult.commute)

lemma opaque_or_assoc: "opaque_px (ALPHA OR a OR b OR c)"
  by (simp add: opaque_px_iff bit_or_iff bit_ALPHA)

lemma palette_entry_opaque: "opaque_px (palette_entry r g m i)"
  by (simp add: palette_entry_def Let_def opaque_or_assoc)

text \<open>
  A reduced colour is scaled to the full range: every palette entry is opaque, the
  channels of a pixel go through the map that takes 0 to 0, the largest value to 255 and the
  ones between in even steps, and the formats asked for are 64 colours at level 1 and 8 at
  any higher level.
\<close>

theorem palette_scales:
  assumes "0 < vs_colorLevel s" and "i < 256"
  shows "let bits = (if vs_colorLevel s = 1 then 2 else 1); (s', cl') = setColorFormat s cl in
    bitsPerPixel (cl_format cl') = 8 \<and> depth (cl_format cl') = 3 * bits \<and>
    vs_palette s' ! i =
      ALPHA OR push_bit 16 (channel bits i) OR push_bit 8 (channel bits (i div 2 ^ bits)) OR
        channel bits (i div 2 ^ (2 * bits)) \<and>
    opaque_px (vs_palette s' ! i)"
proof -
  define bits :: nat where "bits = (if vs_colorLevel s = 1 then 2 else 1)"
  have "vs_palette (fst (setColorFormat s cl)) ! i = palette_entry (bits * 2) bits (2 ^ bits - 1) i"
    using assms by (simp add: setColorFormat_def Let_def bits_def)
  moreover have "entry_ok bits i"
    using entries_ok [OF assms(2)] by (simp add: bits_def)
  ultimately show ?thesis
    using assms unfolding bits_def [symmetric] Let_def
    by (auto simp: setColorFormat_def Let_def entry_ok_def bits_def [symmetric] opaque_or_assoc)
qed

theorem palette_scales_witness:
  "let (s, cl) = setColorFormat (vnc_calloc\<lparr>vs_colorLevel := 1\<rparr>) rfb_client_zero in vs_palette s ! 63 = 0xFFFFFFFF"
  using palette_scales [of "vnc_calloc\<lparr>vs_colorLevel := 1\<rparr>" 63 rfb_client_zero]
  by (simp add: Let_def case_prod_unfold channel_def ALPHA_def)

section \<open>The second framebuffer\<close>

lemma length_le32s: "length (le32s b) = length b div 4"
  by (induction b rule: le32s.induct) simp_all

lemma layoutChanged_simps [vnc_simps]:
  "vs_cl (layoutChanged lib memory cl s) = vs_cl s" "vs_fb (layoutChanged lib memory cl s) = vs_fb s"
  "vs_dirty (layoutChanged lib memory cl s) = vs_dirty s"
  "vs_colorLevel (layoutChanged lib memory cl s) = vs_colorLevel s"
  "vs_palette (layoutChanged lib memory cl s) = vs_palette s"
  "vs_trace (layoutChanged lib memory cl s) = vs_trace s"
  by (simp_all add: layoutChanged_def Let_def)

lemma onMallocFrameBuffer_fb:
  "onMallocFrameBuffer memory s cl = (ok, s', cl') \<Longrightarrow>
   vs_colorLevel s' = vs_colorLevel s \<and> vs_palette s' = vs_palette s \<and> cl_format cl' = cl_format cl \<and>
   (if ok then 0 < cl_width cl \<and> 0 < cl_height cl \<and> vs_fb s' = shadow_alloc (cl_width cl) (cl_height cl) \<and>
      length (buffer_of (cl_frameBuffer cl')) =
        nat (cl_width cl) * nat (cl_height cl) * (bitsPerPixel (cl_format cl) div 8)
    else s' = s \<and> cl' = cl)"
  by (auto simp: onMallocFrameBuffer_def Let_def vnc_simps buffer_of_def split: if_splits)

lemma onFinishedUpdate_simps [vnc_simps]:
  "vs_cl (onFinishedUpdate lib memory cl s) = vs_cl s"
  "vs_colorLevel (onFinishedUpdate lib memory cl s) = vs_colorLevel s"
  "vs_palette (onFinishedUpdate lib memory cl s) = vs_palette s"
  by (simp_all add: onFinishedUpdate_def Let_def vnc_simps fold_vnc_emit split: prod.splits)

lemma vnc_copy_cong:
  "vs_fb s' = vs_fb s \<Longrightarrow> vs_colorLevel s' = vs_colorLevel s \<Longrightarrow> vs_palette s' = vs_palette s \<Longrightarrow>
   vs_dirty s' = vs_dirty s \<Longrightarrow> vnc_copy s' cl = vnc_copy s cl"
  by (simp add: vnc_copy_def Let_def)

lemma vnc_copy_layoutChanged [vnc_simps]:
  "vnc_copy (layoutChanged lib memory cl (s\<lparr>vs_canResize := b\<rparr>)) cl = vnc_copy s cl"
  by (rule vnc_copy_cong) (simp_all add: vnc_simps)

lemma onFinishedUpdate_fb:
  "vs_fb (onFinishedUpdate lib memory cl s) =
     (if vs_dirty s = [] then vs_fb s
      else (vs_fb s)\<lparr>px := map_option (\<lambda>_. fst (vnc_copy s cl)) (px (vs_fb s))\<rparr>)"
  by (simp add: onFinishedUpdate_def Let_def vnc_simps fold_vnc_emit case_prod_unfold)

lemma onFinishedUpdate_trace:
  "vs_trace (onFinishedUpdate lib memory cl s) =
     vs_trace s @ (if vs_dirty s = [] then []
       else map (\<lambda>r. Callback (damage_callback r)) (snd (vnc_copy s cl)) @ [Callback Frame_end])"
  by (simp add: onFinishedUpdate_def Let_def vnc_simps fold_vnc_emit case_prod_unfold)

lemma copy_all_opaque:
  assumes "shadow_ok fb" and "px fb = Some p" and "\<And>q. opaque_px (conv q)"
  shows "list_all opaque_px (fst (copy_damage conv src (nat (pw fb)) (nat (pw fb)) (pw fb) (ph fb) rs p))"
  using assms by (intro copy_damage_opaque) (simp_all add: shadow_ok_def mult.commute)

lemma vnc_copy_opaque:
  assumes "shadow_ok (vs_fb s)" and "px (vs_fb s) = Some p"
    and "0 < vs_colorLevel s \<Longrightarrow> length (vs_palette s) = 256 \<and> list_all opaque_px (vs_palette s)"
  shows "list_all opaque_px (fst (vnc_copy s cl)) \<and> length (fst (vnc_copy s cl)) = length p"
proof -
  have entry: "opaque_px (vs_palette s ! unat b)" if "0 < vs_colorLevel s" for b :: u8
    using assms(3) [OF that] unsigned_less [of b, where ?'a = nat] by (simp add: list_all_length)
  have "list_all opaque_px (fst (vnc_copy s cl))"
  proof (cases "vs_colorLevel s \<le> 0")
    case True
    then show ?thesis
      by (simp add: vnc_copy_def Let_def assms(2) buffer_of_def [of "Some p"] copy_all_opaque [OF assms(1,2)])
  next
    case False
    then have "opaque_px (vs_palette s ! unat q)" for q :: u8 by (simp add: entry)
    from copy_all_opaque [OF assms(1,2), of "\<lambda>b. vs_palette s ! unat b", OF this] False show ?thesis
      by (simp add: vnc_copy_def Let_def assms(2) buffer_of_def [of "Some p"])
  qed
  then show ?thesis
    by (simp add: vnc_copy_def Let_def assms(2) buffer_of_def [of "Some p"])
qed

lemma with_client_ok:
  assumes "vnc_display_ok s"
    and "\<And>cl. vs_cl s = Some cl \<Longrightarrow> decode_fits s cl \<Longrightarrow> vnc_display_ok ((fst (f s cl))\<lparr>vs_cl := Some (snd (f s cl))\<rparr>)"
  shows "vnc_display_ok (with_client f s)"
  using assms by (auto simp: with_client_def vnc_display_ok_def split: option.splits prod.splits)

lemma vnc_display_ok_step:
  assumes "vnc_display_ok s"
  shows "vnc_display_ok (vnc_display_step lib s e)"
proof (cases e)
  case (Malloc_framebuffer memory w h)
  have "vnc_display_ok (s'\<lparr>vs_cl := Some cl'\<rparr>)"
    if "decode_fits s cl" "onMallocFrameBuffer memory s (cl\<lparr>cl_width := w, cl_height := h\<rparr>) = (ok, s', cl')"
    for ok s' cl cl'
    using onMallocFrameBuffer_fb [OF that(2)] that(1) assms
    by (cases ok) (auto simp: vnc_display_ok_def decode_fits_def shadow_ok_alloc)
  then show ?thesis
    unfolding Malloc_framebuffer vnc_display_step.simps
    by (intro with_client_ok [OF assms]) (metis prod.collapse)
next
  case (Decode b)
  then show ?thesis
    by (auto intro!: with_client_ok [OF assms] split: option.splits)
      (use assms in \<open>auto simp: vnc_display_ok_def decode_fits_def buffer_of_def\<close>)
next
  case (Got_update grow x y w h)
  then show ?thesis
    using assms by (auto simp: onGotUpdate_def vnc_display_ok_def decode_fits_def Let_def split: option.splits)
next
  case (Server_screens width screens)
  have "vnc_display_ok (s\<lparr>vs_cl := Some (cl\<lparr>cl_screenWidth := width, cl_screens := screens\<rparr>)\<rparr>)"
    if "decode_fits s cl" for cl
    using assms that by (simp add: vnc_display_ok_def decode_fits_def)
  then show ?thesis
    unfolding Server_screens vnc_display_step.simps by (intro with_client_ok [OF assms]) simp
next
  case (Finished_update memory)
  have "vnc_display_ok ((onFinishedUpdate lib memory cl s)\<lparr>vs_cl := Some cl\<rparr>)" if "decode_fits s cl" for cl
  proof (cases "px (vs_fb s)")
    case None
    with assms that show ?thesis
      by (simp add: vnc_display_ok_def decode_fits_def vnc_simps onFinishedUpdate_fb shadow_ok_def)
  next
    case (Some p)
    then show ?thesis
      using assms that vnc_copy_opaque [of s p cl]
      by (simp add: vnc_display_ok_def decode_fits_def vnc_simps onFinishedUpdate_fb shadow_ok_def)
  qed
  then show ?thesis
    unfolding Finished_update vnc_display_step.simps by (intro with_client_ok [OF assms]) simp
qed

interpretation vd: opaque_framebuffer vnc_display_ok vs_fb "vnc_display_step lib" for lib
  by unfold_locales (simp_all add: vnc_display_ok_step, simp add: vnc_display_ok_def)

text \<open>
  A LibVNC session never hands out a transparent or uninitialised pixel: after any
  sequence of resizes, decoded updates and layouts, every pixel a region read delivers has
  the alpha byte \<open>0xFF\<close>, in every colour depth.
\<close>

theorem vnc_read_opaque:
  assumes "vnc_display_ok s" and "4 * nat w \<le> stride"
    and "fb_read_region (vs_fb (fold (\<lambda>e s. vnc_display_step lib s e) es s)) x y w h dst stride dstX dstY = (True, m)"
    and "row < nat h" and "col < nat w"
  shows "m ((nat dstY + row) * stride + nat dstX * 4 + (col * 4 + 3)) = 0xFF"
  using vd.read_opaque [OF assms] .

definition example_session :: vnc_session where
  "example_session = (let (s, cl) = setColorFormat vnc_calloc rfb_client_zero in s\<lparr>vs_cl := Some cl\<rparr>)"

definition example_lib :: rfb_lib where
  "example_lib = \<lparr>swap32 = (\<lambda>w. w), swap16 = (\<lambda>w. w)\<rparr>"

lemma example_session_ok: "vnc_display_ok example_session"
  by (simp add: example_session_def setColorFormat_def vnc_calloc_def rfb_client_zero_def Let_def
      vnc_display_ok_def decode_fits_def shadow_ok_def vnc_bpp_def)

theorem vnc_read_opaque_witness:
  "\<exists>m. fb_read_region (vs_fb (fold (\<lambda>e s. vnc_display_step example_lib s e) [Malloc_framebuffer True 1 1]
        example_session)) 0 0 1 1 (\<lambda>_. 7) 4 0 0 = (True, m) \<and> m 3 = 0xFF"
proof -
  let ?s = "vs_fb (fold (\<lambda>e s. vnc_display_step example_lib s e) [Malloc_framebuffer True 1 1] example_session)"
  have "?s = shadow_alloc 1 1"
    by (simp add: example_session_def setColorFormat_def vnc_calloc_def rfb_client_zero_def Let_def
        with_client_def onMallocFrameBuffer_def vnc_emit_def)
  then have "fst (fb_read_region ?s 0 0 1 1 (\<lambda>_. 7) 4 0 0)"
    by (simp add: fb_read_region_def shadow_alloc_def)
  then obtain m where m: "fb_read_region ?s 0 0 1 1 (\<lambda>_. 7) 4 0 0 = (True, m)"
    by (metis (full_types) prod.collapse)
  with vnc_read_opaque [OF example_session_ok _ m, of 0 0] show ?thesis by auto
qed

text \<open>The pixel of the decode buffer in the session's format.\<close>

definition decoded :: "vnc_session \<Rightarrow> rfbClient \<Rightarrow> nat \<Rightarrow> u32" where
  "decoded s cl i =
     (if vs_colorLevel s \<le> 0 then le32s (buffer_of (cl_frameBuffer cl)) ! i OR ALPHA
      else vs_palette s ! unat (buffer_of (cl_frameBuffer cl) ! i))"

definition decoded_size :: "vnc_session \<Rightarrow> rfbClient \<Rightarrow> nat" where
  "decoded_size s cl =
     (if vs_colorLevel s \<le> 0 then length (le32s (buffer_of (cl_frameBuffer cl)))
      else length (buffer_of (cl_frameBuffer cl)))"

lemma decoded_size_fits:
  "decode_fits s cl \<Longrightarrow> px (vs_fb s) \<noteq> None \<Longrightarrow> decoded_size s cl = nat (pw (vs_fb s)) * nat (ph (vs_fb s))"
  by (simp add: decode_fits_def decoded_size_def length_le32s vnc_bpp_def)

lemma vnc_copy_nth:
  assumes "shadow_ok (vs_fb s)" and "px (vs_fb s) = Some p"
    and "a < nat (pw (vs_fb s))" and "b < nat (ph (vs_fb s))"
  shows "fst (vnc_copy s cl) ! (b * nat (pw (vs_fb s)) + a) =
     (if \<exists>r\<in>set (vs_dirty s). in_rect r (int a, int b) then decoded s cl (b * nat (pw (vs_fb s)) + a)
      else p ! (b * nat (pw (vs_fb s)) + a))"
proof -
  have fb: "0 < pw (vs_fb s)" "0 < ph (vs_fb s)" "length p = nat (pw (vs_fb s)) * nat (ph (vs_fb s))"
    using assms(1,2) by (simp_all add: shadow_ok_def)
  have "b * nat (pw (vs_fb s)) + a < length p"
    using row_in_length [OF assms(3,4)] fb(3) by (simp add: mult.commute)
  moreover have "in_buffer (pw (vs_fb s)) (ph (vs_fb s)) (int a, int b)"
    using assms(3,4) by (auto simp: in_buffer_def)
  ultimately show ?thesis
    using assms(3) fb unfolding vnc_copy_def Let_def
    by (simp add: copy_damage_nth assms(2) buffer_of_def [of "Some p"] mult.commute decoded_def)
qed

lemma vnc_copy_rects: "snd (vnc_copy s cl) = List.map_filter (clip_rect (pw (vs_fb s)) (ph (vs_fb s))) (vs_dirty s)"
  by (simp add: vnc_copy_def Let_def copy_damage_rects)

text \<open>
  C15. When an update message ends, every pixel inside one of its rectangles is the decoded
  one, read inside the decode buffer, and every other pixel is what it was; the rectangles
  reported as damaged are the update's, cut to the desktop, followed by one end of frame;
  and the list of rectangles is empty again.
\<close>

theorem vnc_finished_update:
  assumes "vnc_display_ok s" and "decode_fits s cl" and "px (vs_fb s) = Some p" and "vs_dirty s \<noteq> []"
    and "a < nat (pw (vs_fb s))" and "b < nat (ph (vs_fb s))"
  shows "let s' = onFinishedUpdate lib memory cl s; i = b * nat (pw (vs_fb s)) + a in
     i < decoded_size s cl \<and> vs_dirty s' = [] \<and>
     (\<exists>p'. px (vs_fb s') = Some p' \<and> length p' = length p \<and>
        p' ! i = (if \<exists>r\<in>set (vs_dirty s). in_rect r (int a, int b) then decoded s cl i else p ! i)) \<and>
     vs_trace s' = vs_trace s @
       map (\<lambda>r. Callback (damage_callback r))
         (List.map_filter (clip_rect (pw (vs_fb s)) (ph (vs_fb s))) (vs_dirty s)) @ [Callback Frame_end]"
proof -
  have ok: "shadow_ok (vs_fb s)" using assms(1) by (simp add: vnc_display_ok_def)
  have len: "length (fst (vnc_copy s cl)) = length p"
    by (simp add: vnc_copy_def Let_def assms(3) buffer_of_def [of "Some p"])
  have "b * nat (pw (vs_fb s)) + a < decoded_size s cl"
    using row_in_length [OF assms(5,6)] assms(3) by (simp add: decoded_size_fits [OF assms(2)] mult.commute)
  moreover have "vs_dirty (onFinishedUpdate lib memory cl s) = []"
    using assms(4) by (simp add: onFinishedUpdate_def Let_def vnc_simps case_prod_unfold)
  ultimately show ?thesis
    unfolding Let_def onFinishedUpdate_trace onFinishedUpdate_fb
    using assms(3,4) len vnc_copy_nth [OF ok assms(3,5,6), of cl] by (simp add: vnc_copy_rects)
qed

theorem vnc_finished_update_witness:
  "let s = fold (\<lambda>e s. vnc_display_step example_lib s e)
         [Malloc_framebuffer True 1 1, Decode [1, 2, 3, 0], Got_update True 0 0 5 5] example_session;
       s' = onFinishedUpdate example_lib True (the (vs_cl s)) s in
     (\<exists>p. px (vs_fb s') = Some p \<and> p ! 0 = decoded s (the (vs_cl s)) 0) \<and> vs_dirty s' = []"
proof -
  define s where "s = fold (\<lambda>e s. vnc_display_step example_lib s e)
    [Malloc_framebuffer True 1 1, Decode [1, 2, 3, 0], Got_update True 0 0 5 5] example_session"
  have ok: "vnc_display_ok s" unfolding s_def by (rule vd.invar_run [OF example_session_ok])
  have fb: "vs_fb s = shadow_alloc 1 1" and d: "vs_dirty s = [\<lparr>rx = 0, ry = 0, rw = 5, rh = 5\<rparr>]"
    and cl: "vs_cl s \<noteq> None"
    by (simp_all add: s_def example_session_def setColorFormat_def vnc_calloc_def rfb_client_zero_def Let_def
        with_client_def onMallocFrameBuffer_def vnc_emit_def onGotUpdate_def)
  obtain p where p: "px (vs_fb s) = Some p" using fb by (simp add: shadow_alloc_def)
  have fits: "decode_fits s (the (vs_cl s))" using ok cl by (auto simp: vnc_display_ok_def)
  show ?thesis
    unfolding s_def [symmetric] Let_def
    using vnc_finished_update [OF ok fits p, of 0 0 example_lib True] by (auto simp: fb d Let_def in_rect_def)
qed

end
