(* ===== verification/Vnc_Layout.thy ===== *)
theory Vnc_Layout
  imports Vnc_Display
begin

text \<open>
  Asking a VNC server for a screen layout: \<open>serverScreen\<close>, \<open>buildLayout\<close> and \<open>sendLayout\<close> of
  \<open>src/backends/modules/libvnc/cpp/libvnc_session.c\<close>.  A requested screen is five ints, a
  screen on the wire is in network byte order, and the library's byte-order macros are
  parameters whose only assumed law is that they undo themselves.  The lemmas show that a
  layout is built exactly when every screen is non-empty and inside the desktop, that its ids
  are distinct, that a known screen keeps its id and flags and a new one gets an id the server
  does not have, and that nothing is truncated to 16 bits.
\<close>

section \<open>Definitions\<close>

definition serverScreen :: "rfb_lib \<Rightarrow> rfbClient \<Rightarrow> u32 \<Rightarrow> rfbExtDesktopScreen option" where
  "serverScreen lib cl sid = find (\<lambda>c. swap32 lib (sc_id c) = sid) (cl_screens cl)"

text \<open>Which screens are the server's own: the first use of an id it has.  \<open>seen\<close> are those so far.\<close>

fun layout_kept :: "rfb_lib \<Rightarrow> rfbClient \<Rightarrow> u32 list \<Rightarrow> screen5 list \<Rightarrow> bool list" where
  "layout_kept lib cl seen [] = []"
| "layout_kept lib cl seen (m # ms) =
     (let sid = fst m;
          repeat = (sid \<in> set seen);
          k = (\<not> repeat \<and> serverScreen lib cl sid \<noteq> None)
      in k # layout_kept lib cl (if k then sid # seen else seen) ms)"

definition kept_ids :: "screen5 list \<Rightarrow> bool list \<Rightarrow> u32 list" where
  "kept_ids flat kept = map (fst \<circ> fst) (filter snd (zip flat kept))"

text \<open>
  The search for an id in neither layout, from a counter that wraps as \<open>uint32_t\<close> does.  At
  most as many values are skipped as there are ids, so \<open>fuel\<close> one above that is enough.
\<close>

fun next_id :: "(u32 \<Rightarrow> bool) \<Rightarrow> nat \<Rightarrow> nat \<Rightarrow> nat option" where
  "next_id used 0 next = None"
| "next_id used (Suc fuel) next =
     (if used (word_of_nat next) then next_id used fuel (next + 1) else Some next)"

definition wire_screen :: "rfb_lib \<Rightarrow> u32 \<Rightarrow> u32 \<Rightarrow> int \<times> int \<times> int \<times> int \<Rightarrow> rfbExtDesktopScreen" where
  "wire_screen lib sid flags m =
     (case m of (x, y, w, h) \<Rightarrow>
        \<lparr>sc_id = swap32 lib sid, sc_x = swap16 lib (word_of_int x), sc_y = swap16 lib (word_of_int y),
         sc_width = swap16 lib (word_of_int w), sc_height = swap16 lib (word_of_int h),
         sc_flags = swap32 lib flags\<rparr>)"

definition screen_bad :: "int \<Rightarrow> int \<Rightarrow> int \<times> int \<times> int \<times> int \<Rightarrow> bool" where
  "screen_bad width height m \<longleftrightarrow>
     (case m of (x, y, w, h) \<Rightarrow> x < 0 \<or> y < 0 \<or> w \<le> 0 \<or> h \<le> 0 \<or> x > width - w \<or> y > height - h)"

fun layout_fill ::
  "rfb_lib \<Rightarrow> rfbClient \<Rightarrow> int \<Rightarrow> int \<Rightarrow> u32 list \<Rightarrow> nat \<Rightarrow> (screen5 \<times> bool) list \<Rightarrow>
   rfbExtDesktopScreen list option"
where
  "layout_fill lib cl width height ids next [] = Some []"
| "layout_fill lib cl width height ids next ((m, k) # ms) =
     (if screen_bad width height (snd m) then None
      else if k then
        (case serverScreen lib cl (fst m) of
           None \<Rightarrow> None
         | Some c \<Rightarrow>
             map_option (\<lambda>out. wire_screen lib (fst m) (swap32 lib (sc_flags c)) (snd m) # out)
               (layout_fill lib cl width height ids next ms))
      else
        (case next_id (\<lambda>sid. serverScreen lib cl sid \<noteq> None \<or> sid \<in> set ids)
                (Suc (length (cl_screens cl) + length ids)) next of
           None \<Rightarrow> None
         | Some sid \<Rightarrow>
             map_option (\<lambda>out. wire_screen lib (word_of_nat sid) 0 (snd m) # out)
               (layout_fill lib cl width height ids (sid + 1) ms)))"

definition vnc_buildLayout ::
  "rfb_lib \<Rightarrow> rfbClient \<Rightarrow> int \<Rightarrow> int \<Rightarrow> screen5 list \<Rightarrow> rfbExtDesktopScreen list option"
where
  "vnc_buildLayout lib cl width height flat =
     (if flat = [] \<or> length flat > 255 then None
      else let kept = layout_kept lib cl [] flat
           in layout_fill lib cl width height (kept_ids flat kept) 0 (zip flat kept))"

text \<open>
  \<open>write\<close> says whether \<open>WriteToRFBServer\<close> succeeds, from what was sent so far.
\<close>

type_synonym rfb_write = "vnc_event list \<Rightarrow> bool"

fun write_screens :: "rfb_write \<Rightarrow> rfbExtDesktopScreen list \<Rightarrow> vnc_session \<Rightarrow> bool \<times> vnc_session" where
  "write_screens write [] s = (True, s)"
| "write_screens write (c # cs) s =
     (if write (vs_trace s) then write_screens write cs (vnc_emit (WriteScreen c) s) else (False, s))"

definition vnc_sendLayout ::
  "rfb_lib \<Rightarrow> rfb_write \<Rightarrow> rfbClient \<Rightarrow> int \<Rightarrow> int \<Rightarrow> rfbExtDesktopScreen list \<Rightarrow> vnc_session \<Rightarrow>
   bool \<times> vnc_session \<times> rfbClient"
where
  "vnc_sendLayout lib write cl width height screens s =
     (if width = cl_width cl \<and> height = cl_height cl \<and> screens = cl_screens cl then (True, s, cl)
      else if \<not> write (vs_trace s) then (False, s, cl)
      else let s = vnc_emit (WriteSetDesktopSize (swap16 lib (word_of_int width))
                     (swap16 lib (word_of_int height)) (word_of_nat (length screens))) s;
               (ok, s) = write_screens write screens s
           in if \<not> ok then (False, s, cl)
              else let cl = cl\<lparr>cl_requestedResize := False\<rparr>;
                       s = vnc_emit (SendFramebufferUpdateRequest 0 0 width height False) s
                   in (True, s, cl\<lparr>cl_requestedResize := True\<rparr>))"

section \<open>New ids\<close>

lemma next_id_Some:
  "next_id used fuel k = Some n \<Longrightarrow> k \<le> n \<and> n < k + fuel \<and> \<not> used (word_of_nat n)"
  by (induction used fuel k rule: next_id.induct) (auto split: if_splits)

lemma next_id_None: "next_id used fuel k = None \<Longrightarrow> j < fuel \<Longrightarrow> used (word_of_nat (k + j))"
proof (induction used fuel k arbitrary: j rule: next_id.induct)
  case (2 used fuel k)
  then show ?case by (cases j) (auto split: if_splits)
qed simp

lemma word_of_nat_u32_inj: "a < 2 ^ 32 \<Longrightarrow> b < 2 ^ 32 \<Longrightarrow> (word_of_nat a :: u32) = word_of_nat b \<longleftrightarrow> a = b"
  by (simp add: word_of_nat_eq_iff take_bit_nat_eq_self)

text \<open>Pigeonhole: more values are tried than are in use.\<close>

lemma next_id_total:
  assumes "\<And>sid. used sid \<Longrightarrow> sid \<in> set ids" and "length ids < fuel" and "k + fuel < 2 ^ 32"
  shows "next_id used fuel k \<noteq> None"
proof
  assume none: "next_id used fuel k = None"
  let ?f = "\<lambda>j. word_of_nat (k + j) :: u32"
  have "?f ` {..<fuel} \<subseteq> set ids"
    using next_id_None [OF none] assms(1) by blast
  moreover have "inj_on ?f {..<fuel}"
  proof (rule inj_onI)
    fix i j assume "i \<in> {..<fuel}" "j \<in> {..<fuel}" "?f i = ?f j"
    moreover from this have "k + i < 2 ^ 32" "k + j < 2 ^ 32" using assms(3) by auto
    ultimately show "i = j" using word_of_nat_u32_inj by (metis add_left_cancel)
  qed
  ultimately have "fuel \<le> card (set ids)"
    using card_mono [of "set ids" "?f ` {..<fuel}"] by (simp add: card_image)
  also have "\<dots> \<le> length ids" by (rule card_length)
  finally show False using assms(2) by simp
qed

lemma serverScreen_Some: "serverScreen lib cl sid \<noteq> None \<longleftrightarrow> sid \<in> set (map (swap32 lib \<circ> sc_id) (cl_screens cl))"
  by (auto simp: serverScreen_def find_None_iff)

section \<open>Properties of a layout\<close>

lemma length_layout_kept [simp]: "length (layout_kept lib cl seen ms) = length ms"
  by (induction ms arbitrary: seen) (simp_all add: Let_def)

lemma kept_ids_Cons: "kept_ids (m # ms) (k # ks) = (if k then fst m # kept_ids ms ks else kept_ids ms ks)"
  by (simp add: kept_ids_def)

lemma layout_kept_ids:
  "distinct seen \<Longrightarrow>
   distinct (seen @ kept_ids ms (layout_kept lib cl seen ms)) \<and>
   (\<forall>i\<in>set (kept_ids ms (layout_kept lib cl seen ms)). serverScreen lib cl i \<noteq> None)"
proof (induction ms arbitrary: seen)
  case Nil
  then show ?case by (simp add: kept_ids_def)
next
  case (Cons m ms)
  let ?k = "fst m \<notin> set seen \<and> serverScreen lib cl (fst m) \<noteq> None"
  have "distinct (if ?k then fst m # seen else seen)" using Cons.prems by simp
  note IH = Cons.IH [OF this]
  show ?case
  proof (cases ?k)
    case True
    with IH show ?thesis by (simp add: Let_def kept_ids_Cons)
  next
    case False
    then have "layout_kept lib cl seen (m # ms) = False # layout_kept lib cl seen ms"
      by (auto simp: Let_def)
    with IH False show ?thesis by (simp add: kept_ids_Cons del: layout_kept.simps not_None_eq)
  qed
qed

text \<open>The ids of a layout: those kept, in order, and the new ones, above the counter.\<close>

definition wire_ids :: "rfb_lib \<Rightarrow> rfbExtDesktopScreen list \<Rightarrow> u32 list" where
  "wire_ids lib out = map (swap32 lib \<circ> sc_id) out"

definition swaps_ok :: "rfb_lib \<Rightarrow> bool" where
  "swaps_ok lib \<longleftrightarrow> (\<forall>a. swap32 lib (swap32 lib a) = a) \<and> (\<forall>a. swap16 lib (swap16 lib a) = a)"

lemma swapsD [simp]:
  "swaps_ok lib \<Longrightarrow> swap32 lib (swap32 lib a) = a" "swaps_ok lib \<Longrightarrow> swap16 lib (swap16 lib b) = b"
  by (simp_all add: swaps_ok_def)

lemma wire_screen_id [simp]: "swaps_ok lib \<Longrightarrow> swap32 lib (sc_id (wire_screen lib i f m)) = i"
  by (cases m) (simp add: wire_screen_def)

definition fill_bound :: "rfbClient \<Rightarrow> u32 list \<Rightarrow> nat" where
  "fill_bound cl ids = Suc (length (cl_screens cl) + length ids)"

text \<open>
  What one pass over the screens gives: each id of the result is a kept one in its place, or
  \<open>word_of_nat j\<close> for a \<open>j\<close> that no screen of either layout has, strictly above those before.
\<close>

definition new_id :: "rfb_lib \<Rightarrow> rfbClient \<Rightarrow> u32 list \<Rightarrow> nat \<Rightarrow> nat \<Rightarrow> u32 \<Rightarrow> bool" where
  "new_id lib cl ids lo hi i \<longleftrightarrow>
     i \<notin> set ids \<and> serverScreen lib cl i = None \<and> (\<exists>j. i = word_of_nat j \<and> lo \<le> j \<and> j < hi)"

definition fill_ok :: "rfb_lib \<Rightarrow> rfbClient \<Rightarrow> u32 list \<Rightarrow> nat \<Rightarrow> (screen5 \<times> bool) list \<Rightarrow> rfbExtDesktopScreen list \<Rightarrow> bool" where
  "fill_ok lib cl ids k ms out \<longleftrightarrow>
     distinct (wire_ids lib out) \<and> length out = length ms \<and>
     (\<forall>i\<in>set (wire_ids lib out). i \<in> set (map (fst \<circ> fst) (filter snd ms)) \<or>
        new_id lib cl ids k (k + length ms * fill_bound cl ids) i)"

lemma fill_ok_kept:
  assumes "swaps_ok lib" and "fill_ok lib cl ids k ms out" and "fst m \<in> set ids"
    and "fst m \<notin> set (map (fst \<circ> fst) (filter snd ms))"
  shows "fill_ok lib cl ids k ((m, True) # ms) (wire_screen lib (fst m) f r # out)"
proof -
  have "fst m \<notin> set (wire_ids lib out)"
    using assms(2-4) by (auto simp: fill_ok_def new_id_def)
  moreover have "new_id lib cl ids k (k + length ((m, True) # ms) * fill_bound cl ids) i"
    if "new_id lib cl ids k (k + length ms * fill_bound cl ids) i" for i
    using that by (auto simp: new_id_def intro: trans_less_add1)
  ultimately show ?thesis
    using assms(1,2) unfolding fill_ok_def wire_ids_def by auto
qed

lemma fill_ok_new:
  assumes "swaps_ok lib" and "fill_ok lib cl ids (n + 1) ms out" and "k \<le> n" and "n < k + fill_bound cl ids"
    and "n + 1 + length ms * fill_bound cl ids < 2 ^ 32"
    and "serverScreen lib cl (word_of_nat n) = None" and "word_of_nat n \<notin> set ids"
    and "set (map (fst \<circ> fst) (filter snd ms)) \<subseteq> set ids"
  shows "fill_ok lib cl ids k ((m, False) # ms) (wire_screen lib (word_of_nat n) f r # out)"
proof -
  have "\<not> new_id lib cl ids (n + 1) (n + 1 + length ms * fill_bound cl ids) (word_of_nat n)"
  proof
    assume "new_id lib cl ids (n + 1) (n + 1 + length ms * fill_bound cl ids) (word_of_nat n)"
    then obtain j where "(word_of_nat n :: u32) = word_of_nat j" "n + 1 \<le> j" "j < 2 ^ 32"
      using assms(5) by (auto simp: new_id_def)
    then show False using word_of_nat_u32_inj [of n j] by simp
  qed
  then have "word_of_nat n \<notin> set (wire_ids lib out)"
    using assms(2,7,8) unfolding fill_ok_def by blast
  moreover have "new_id lib cl ids k (k + length ((m, False) # ms) * fill_bound cl ids) i"
    if "new_id lib cl ids (n + 1) (n + 1 + length ms * fill_bound cl ids) i" for i
    using that assms(3,4) unfolding new_id_def by (fastforce intro: exI)
  moreover have "new_id lib cl ids k (k + length ((m, False) # ms) * fill_bound cl ids) (word_of_nat n)"
    using assms(3,4,6,7) by (auto simp: new_id_def intro!: exI [of _ n])
  ultimately show ?thesis
    using assms(1,2) unfolding fill_ok_def wire_ids_def by auto
qed

lemma layout_fill_ids:
  assumes "swaps_ok lib"
    and "layout_fill lib cl width height ids k ms = Some out"
    and "k + length ms * fill_bound cl ids < 2 ^ 32"
    and "distinct (map (fst \<circ> fst) (filter snd ms))" and "set (map (fst \<circ> fst) (filter snd ms)) \<subseteq> set ids"
  shows "fill_ok lib cl ids k ms out"
  using assms(2-5)
proof (induction ms arbitrary: k out)
  case Nil
  then show ?case by (simp add: fill_ok_def wire_ids_def)
next
  case (Cons mk ms)
  obtain m b where mk: "mk = (m, b)" by (cases mk)
  show ?case
  proof (cases b)
    case True
    then obtain f out' where fill: "layout_fill lib cl width height ids k ms = Some out'"
      and out: "out = wire_screen lib (fst m) f (snd m) # out'"
      using Cons.prems(1) mk by (auto split: if_splits option.splits)
    have "fill_ok lib cl ids k ms out'"
      using Cons.IH [OF fill] Cons.prems True mk by simp
    with fill_ok_kept [OF assms(1) this, of m f "snd m"] show ?thesis
      using Cons.prems True mk out by auto
  next
    case False
    then obtain n out' where n: "next_id (\<lambda>i. serverScreen lib cl i \<noteq> None \<or> i \<in> set ids) (fill_bound cl ids) k = Some n"
      and fill: "layout_fill lib cl width height ids (n + 1) ms = Some out'"
      and out: "out = wire_screen lib (word_of_nat n) 0 (snd m) # out'"
      using Cons.prems(1) mk by (auto simp: fill_bound_def split: if_splits option.splits)
    note n' = next_id_Some [OF n]
    have bound: "n + 1 + length ms * fill_bound cl ids < 2 ^ 32"
      using n' Cons.prems(2) by simp
    have "fill_ok lib cl ids (n + 1) ms out'"
      using Cons.IH [OF fill bound] Cons.prems False mk by simp
    from fill_ok_new [OF assms(1) this _ _ bound, of k m 0 "snd m"] show ?thesis
      using n' Cons.prems False mk out by auto
  qed
qed

lemma layout_fill_total:
  assumes "length (cl_screens cl) \<le> 255" and "length ids \<le> 255" and "k + 512 * length ms < 2 ^ 32"
    and "\<forall>(m, b)\<in>set ms. b \<longrightarrow> serverScreen lib cl (fst m) \<noteq> None"
  shows "layout_fill lib cl width height ids k ms \<noteq> None \<longleftrightarrow>
    (\<forall>(m, b)\<in>set ms. \<not> screen_bad width height (snd m))"
  using assms(3,4)
proof (induction ms arbitrary: k)
  case (Cons mk ms)
  obtain m b where mk: "mk = (m, b)" by (cases mk)
  let ?used = "\<lambda>i. serverScreen lib cl i \<noteq> None \<or> i \<in> set ids"
  let ?fuel = "Suc (length (cl_screens cl) + length ids)"
  have "i \<in> set (map (swap32 lib \<circ> sc_id) (cl_screens cl) @ ids)" if "?used i" for i
    using that serverScreen_Some by (metis UnI1 UnI2 set_append)
  then have "next_id ?used ?fuel k \<noteq> None"
    using assms(1,2) Cons.prems(1)
    by (intro next_id_total [of ?used "map (swap32 lib \<circ> sc_id) (cl_screens cl) @ ids"]) simp_all
  then obtain n where n: "next_id ?used ?fuel k = Some n" by blast
  have bound: "n + 1 + 512 * length ms < 2 ^ 32"
    using next_id_Some [OF n] assms(1,2) Cons.prems(1) by simp
  have a: "layout_fill lib cl width height ids (n + 1) ms \<noteq> None \<longleftrightarrow>
      (\<forall>(m, b)\<in>set ms. \<not> screen_bad width height (snd m))"
    using Cons.IH [OF bound] Cons.prems(2) by simp
  have c: "layout_fill lib cl width height ids k ms \<noteq> None \<longleftrightarrow>
      (\<forall>(m, b)\<in>set ms. \<not> screen_bad width height (snd m))"
    using Cons.IH [of k] Cons.prems by simp
  obtain sc where sc: "b \<Longrightarrow> serverScreen lib cl (fst m) = Some sc"
    using Cons.prems(2) mk by fastforce
  show ?case
    using a c n sc unfolding mk by (cases b) auto
qed simp

lemma layout_fill_rects:
  assumes "swaps_ok lib" and "width \<le> 65535" and "height \<le> 65535"
    and "layout_fill lib cl width height ids k ms = Some out"
  shows "map (snd \<circ> flat_screen lib) out = map (snd \<circ> fst) ms"
  using assms(4)
proof (induction ms arbitrary: k out)
  case (Cons mk ms)
  have u: "uint (word_of_int x :: u16) = x" if "0 \<le> x" "x \<le> 65535" for x
    using that by (simp add: unsigned_of_int take_bit_int_eq_self)
  have flat: "snd (flat_screen lib (wire_screen lib i f r)) = r" if "\<not> screen_bad width height r" for i f r
    using that assms(1-3) by (cases r) (auto simp: flat_screen_def wire_screen_def screen_bad_def u)
  show ?case
    using Cons by (cases mk) (auto simp: flat split: if_splits option.splits)
qed simp

lemma layout_fill_kept:
  assumes "swaps_ok lib" and "layout_fill lib cl width height ids k ms = Some out"
  shows "list_all2 (\<lambda>(m, b) c. b \<longrightarrow> swap32 lib (sc_id c) = fst m \<and>
    Some (sc_flags c) = map_option sc_flags (serverScreen lib cl (fst m))) ms out"
  using assms(2)
proof (induction ms arbitrary: k out)
  case (Cons mk ms)
  have "sc_flags (wire_screen lib i (swap32 lib f) r) = f" for i f r
    using assms(1) by (cases r) (simp add: wire_screen_def)
  with Cons assms(1) show ?case
    by (cases mk) (auto split: if_splits option.splits)
qed simp

definition layout_ids_of :: "rfb_lib \<Rightarrow> rfbClient \<Rightarrow> screen5 list \<Rightarrow> u32 list" where
  "layout_ids_of lib cl flat = kept_ids flat (layout_kept lib cl [] flat)"

lemma layout_kept_server:
  "(m, b) \<in> set (zip ms (layout_kept lib cl seen ms)) \<Longrightarrow> b \<Longrightarrow> serverScreen lib cl (fst m) \<noteq> None"
  by (induction ms arbitrary: seen) (auto simp: Let_def)

lemma screens_zip: "length ks = length ms \<Longrightarrow> (\<forall>(m, b)\<in>set (zip ms ks). P m) \<longleftrightarrow> (\<forall>m\<in>set ms. P m)"
proof -
  assume l: "length ks = length ms"
  have "(\<forall>(m, b)\<in>set (zip ms ks). P m) \<longleftrightarrow> (\<forall>m\<in>fst ` set (zip ms ks). P m)" by auto
  also have "fst ` set (zip ms ks) = set ms" using l by (metis map_fst_zip set_map)
  finally show ?thesis .
qed

lemma vnc_buildLayout_fill:
  fixes lib :: rfb_lib
  assumes "length (cl_screens cl) \<le> 255" and "flat \<noteq> []" and "length flat \<le> 255"
  defines "ms \<equiv> zip flat (layout_kept lib cl [] flat)" and "ids \<equiv> layout_ids_of lib cl flat"
  shows "vnc_buildLayout lib cl width height flat = layout_fill lib cl width height ids 0 ms"
    and "layout_fill lib cl width height ids 0 ms \<noteq> None \<longleftrightarrow> (\<forall>m\<in>set flat. \<not> screen_bad width height (snd m))"
    and "map (fst \<circ> fst) (filter snd ms) = ids" and "distinct ids"
    and "0 + length ms * fill_bound cl ids < 2 ^ 32" and "map (snd \<circ> fst) ms = map snd flat"
proof -
  show "vnc_buildLayout lib cl width height flat = layout_fill lib cl width height ids 0 ms"
    using assms(2,3) by (auto simp: vnc_buildLayout_def layout_ids_of_def Let_def ms_def ids_def)
  have len: "length ids \<le> 255"
    using assms(3) length_filter_le [of snd ms] by (simp add: ids_def ms_def layout_ids_of_def kept_ids_def)
  have "\<forall>(m, b)\<in>set ms. b \<longrightarrow> serverScreen lib cl (fst m) \<noteq> None"
    using layout_kept_server [of _ _ flat lib cl "[]"] by (force simp: ms_def)
  from layout_fill_total [OF assms(1) len, of 0 ms lib width height, OF _ this]
  show "layout_fill lib cl width height ids 0 ms \<noteq> None \<longleftrightarrow> (\<forall>m\<in>set flat. \<not> screen_bad width height (snd m))"
    using assms(3) screens_zip [of "layout_kept lib cl [] flat" flat "\<lambda>m. \<not> screen_bad width height (snd m)"]
    by (simp add: ms_def)
  show "map (fst \<circ> fst) (filter snd ms) = ids" by (simp add: ids_def ms_def layout_ids_of_def kept_ids_def)
  show "distinct ids" using layout_kept_ids [of "[]" flat lib cl] by (simp add: ids_def layout_ids_of_def)
  have "fill_bound cl ids \<le> 511" using assms(1) len by (simp add: fill_bound_def)
  then show "0 + length ms * fill_bound cl ids < 2 ^ 32"
    using mult_le_mono [of "length flat" 255 "fill_bound cl ids" 511] assms(3) by (simp add: ms_def)
  show "map (snd \<circ> fst) ms = map snd flat"
    by (simp add: ms_def map_fst_zip [symmetric] flip: map_map)
qed


lemma example_lib_swaps [simp]: "swaps_ok example_lib"
  by (simp add: swaps_ok_def example_lib_def)

definition example_screens :: rfbClient where
  "example_screens = rfb_client_zero\<lparr>cl_screens :=
     [\<lparr>sc_id = 5, sc_x = 0, sc_y = 0, sc_width = 20, sc_height = 10, sc_flags = 3\<rparr>]\<rparr>"


section \<open>Sending it\<close>

lemma write_screens_spec:
  "write_screens write cs s = (ok, s') \<Longrightarrow>
   \<exists>n\<le>length cs. s' = s\<lparr>vs_trace := vs_trace s @ map WriteScreen (take n cs)\<rparr> \<and> (ok \<longleftrightarrow> n = length cs)"
proof (induction cs arbitrary: s)
  case (Cons c cs)
  show ?case
  proof (cases "write (vs_trace s)")
    case True
    with Cons.prems have "write_screens write cs (vnc_emit (WriteScreen c) s) = (ok, s')" by simp
    from Cons.IH [OF this] obtain n where "n \<le> length cs" "ok \<longleftrightarrow> n = length cs"
        "s' = s\<lparr>vs_trace := vs_trace s @ map WriteScreen (take (Suc n) (c # cs))\<rparr>"
      by (auto simp: vnc_emit_def)
    then show ?thesis by (intro exI [of _ "Suc n"]) auto
  next
    case False
    with Cons.prems show ?thesis by (intro exI [of _ 0]) auto
  qed
qed simp

text \<open>
  Sending a layout the server already has sends nothing.  Any other sends one
  SetDesktopSize with the number of screens, then exactly those screens, then a full update
  request at the new size, and holds back later ones until the server answers; a write that
  fails ends it there, with update requests not held back.
\<close>

theorem vnc_sendLayout_spec:
  assumes "vnc_sendLayout lib write cl width height screens s = (ok, s', cl')"
  shows "if width = cl_width cl \<and> height = cl_height cl \<and> screens = cl_screens cl
    then ok \<and> s' = s \<and> cl' = cl
    else \<exists>sent. s' = s\<lparr>vs_trace := vs_trace s @ sent\<rparr> \<and>
      (let msg = WriteSetDesktopSize (swap16 lib (word_of_int width)) (swap16 lib (word_of_int height))
                   (word_of_nat (length screens)) # map WriteScreen screens in
       if ok then sent = msg @ [SendFramebufferUpdateRequest 0 0 width height False] \<and>
           cl' = cl\<lparr>cl_requestedResize := True\<rparr>
       else strict_prefix sent msg \<and> cl' = cl)"
proof (cases "width = cl_width cl \<and> height = cl_height cl \<and> screens = cl_screens cl")
  case True
  with assms show ?thesis by (simp add: vnc_sendLayout_def)
next
  case False
  let ?head = "WriteSetDesktopSize (swap16 lib (word_of_int width)) (swap16 lib (word_of_int height))
    (word_of_nat (length screens))"
  show ?thesis
  proof (cases "write (vs_trace s)")
    case False
    with \<open>\<not> (width = cl_width cl \<and> _)\<close> assms show ?thesis
      by (auto simp: vnc_sendLayout_def intro!: exI [of _ "[]"])
  next
    case True
    obtain ok1 s1 where w: "write_screens write screens (vnc_emit ?head s) = (ok1, s1)"
      by (cases "write_screens write screens (vnc_emit ?head s)")
    from write_screens_spec [OF w] obtain n where n: "n \<le> length screens" "ok1 \<longleftrightarrow> n = length screens"
        "s1 = s\<lparr>vs_trace := vs_trace s @ ?head # map WriteScreen (take n screens)\<rparr>"
      by (auto simp: vnc_emit_def)
    have pre: "strict_prefix (map WriteScreen (take n screens)) (map WriteScreen screens)" if "\<not> ok1"
    proof -
      have "map WriteScreen screens = map WriteScreen (take n screens) @ map WriteScreen (drop n screens)"
        by (simp flip: map_append)
      moreover have "drop n screens \<noteq> []" using n that by auto
      ultimately show ?thesis by (metis map_is_Nil_conv strict_prefix_def prefixI append_self_conv)
    qed
    show ?thesis
      using assms True w n pre \<open>\<not> (width = cl_width cl \<and> _)\<close>
      by (cases ok1) (auto simp: vnc_sendLayout_def Let_def vnc_emit_def)
  qed
qed

theorem vnc_sendLayout_spec_witness:
  "\<exists>s'. vnc_sendLayout example_lib (\<lambda>_. True) example_screens 20 10 [] vnc_calloc =
       (True, s', example_screens\<lparr>cl_requestedResize := True\<rparr>) \<and>
     vs_trace s' = [WriteSetDesktopSize 20 10 0, SendFramebufferUpdateRequest 0 0 20 10 False]"
proof -
  obtain ok s' cl' where r: "vnc_sendLayout example_lib (\<lambda>_. True) example_screens 20 10 [] vnc_calloc = (ok, s', cl')"
    by (metis prod_cases3)
  have ok by (use r in \<open>simp add: vnc_sendLayout_def example_screens_def rfb_client_zero_def Let_def\<close>)
  with r vnc_sendLayout_spec [OF r] show ?thesis
    by (auto simp: example_screens_def rfb_client_zero_def example_lib_def vnc_calloc_def)
qed

end
