(* ===== verification/Vnc_Input.thy ===== *)
theory Vnc_Input
  imports Vnc_Layout
begin

text \<open>
  Executing commands on the protocol thread, from
  \<open>src/backends/modules/libvnc/cpp/libvnc_session.c\<close>: \<open>utf8ToLatin1\<close>, \<open>takeEncodings\<close>,
  \<open>applyEncodings\<close>, \<open>runCmd\<close> and \<open>drain\<close>.  The lemmas show that clipboard text a server sent comes
  back to it byte for byte, that the key table refines the keys a user holds (the locale
  \<open>held_keys\<close>), that a release sends the keysym of its press and that no key stays pressed at
  the far end, and that a drain executes the whole queue, in order, and ends.
\<close>

section \<open>Clipboard text\<close>

text \<open>
  One step of the loop per character; a sequence of three or four bytes is one question mark,
  also when the text ends inside it.
\<close>

function latin1_of :: "bytes \<Rightarrow> bytes" where
  "latin1_of [] = []"
| "latin1_of (c # cs) =
     (if c < 0x80 then c # latin1_of cs
      else if c AND 0xE0 = 0xC0 \<and> cs \<noteq> [] then
        (let cp = push_bit 6 ((ucast c :: u32) AND 0x1F) OR ((ucast (hd cs) :: u32) AND 0x3F)
         in (if cp \<le> 0xFF then ucast cp else 0x3F) # latin1_of (tl cs))
      else 0x3F # latin1_of (drop (if c AND 0xF0 = 0xE0 then 2 else 3) cs))"
  by pat_completeness auto
termination by (relation "measure length") auto

declare latin1_of.simps(2) [simp del]

definition utf8ToLatin1 :: "(nat \<Rightarrow> bool) \<Rightarrow> bytes \<Rightarrow> bytes option" where
  "utf8ToLatin1 malloc utf8 = (if malloc (length utf8 + 1) then Some (latin1_of utf8) else None)"

section \<open>Encodings\<close>

definition takeEncodings :: "vnc_session \<Rightarrow> rfbClient \<Rightarrow> vnc_session \<times> rfbClient" where
  "takeEncodings s cl =
     (s\<lparr>vs_encodingsChanged := False, vs_applied := vs_encodings s\<rparr>,
      cl\<lparr>cl_encodingsString := vs_encodings s, cl_compressLevel := vs_compressLevel s,
         cl_qualityLevel := (if vs_qualityLevel s < 0 then 9 else vs_qualityLevel s),
         cl_enableJPEG := (vs_qualityLevel s \<ge> 0)\<rparr>)"

definition applyEncodings :: "vnc_session \<Rightarrow> vnc_session" where
  "applyEncodings s =
     (case vs_cl s of
        None \<Rightarrow> s
      | Some _ \<Rightarrow> vnc_emit SetFormatAndEncodings (with_client takeEncodings s))"

section \<open>Commands\<close>

text \<open>Whether input goes to the far end at all: \<open>cl && !s->viewOnly\<close>.\<close>

definition vnc_sends :: "vnc_session \<Rightarrow> bool" where
  "vnc_sends s \<longleftrightarrow> vs_cl s \<noteq> None \<and> \<not> vs_viewOnly s"

definition vnc_key_down :: "int \<Rightarrow> u32 \<Rightarrow> vnc_session \<Rightarrow> vnc_session" where
  "vnc_key_down k keysym s =
     (if \<not> vnc_sends s then s
      else let s = (case key_slot k (vs_keys s) of
                      Some i \<Rightarrow> s\<lparr>vs_keys := (vs_keys s)[i := (k, keysym)]\<rparr>
                    | None \<Rightarrow>
                        if length (vs_keys s) < MAX_HELD_KEYS
                        then s\<lparr>vs_keys := vs_keys s @ [(k, keysym)]\<rparr> else s)
           in vnc_emit (SendKeyEvent keysym True) s)"

definition vnc_key_up :: "int \<Rightarrow> vnc_session \<Rightarrow> vnc_session" where
  "vnc_key_up k s =
     (case key_slot k (vs_keys s) of
        None \<Rightarrow> s
      | Some i \<Rightarrow>
          let s = (if vnc_sends s then vnc_emit (SendKeyEvent (snd (vs_keys s ! i)) False) s else s)
          in s\<lparr>vs_keys := key_remove i (vs_keys s)\<rparr>)"

definition vnc_release_keys :: "vnc_session \<Rightarrow> vnc_session" where
  "vnc_release_keys s =
     (let s = (if vnc_sends s then fold (\<lambda>e. vnc_emit (SendKeyEvent (snd e) False)) (vs_keys s) s else s)
      in s\<lparr>vs_keys := []\<rparr>)"

definition send_layout :: "rfb_lib \<Rightarrow> rfb_write \<Rightarrow> int \<Rightarrow> int \<Rightarrow> screen5 list \<Rightarrow> vnc_session \<Rightarrow> vnc_session" where
  "send_layout lib write width height flat s =
     with_client (\<lambda>s cl. case vnc_buildLayout lib cl width height flat of
        None \<Rightarrow> (s, cl)
      | Some out \<Rightarrow> snd (vnc_sendLayout lib write cl width height out s)) s"

definition first_screen :: "rfb_lib \<Rightarrow> vnc_session \<Rightarrow> u32" where
  "first_screen lib s =
     (case vs_cl s of
        Some cl \<Rightarrow> (case cl_screens cl of c # _ \<Rightarrow> swap32 lib (sc_id c) | [] \<Rightarrow> 0)
      | None \<Rightarrow> 0)"

fun vnc_runCmd :: "rfb_lib \<Rightarrow> rfb_write \<Rightarrow> (nat \<Rightarrow> bool) \<Rightarrow> vnc_cmd \<Rightarrow> vnc_session \<Rightarrow> vnc_session" where
  "vnc_runCmd lib write malloc (VNC_POINTER a b c) s =
     (if vnc_sends s then vnc_emit (SendPointerEvent a b c) s else s)"
| "vnc_runCmd lib write malloc (VNC_KEY_DOWN keysym k) s = vnc_key_down k keysym s"
| "vnc_runCmd lib write malloc (VNC_KEY_UP k) s = vnc_key_up k s"
| "vnc_runCmd lib write malloc VNC_RELEASE_KEYS s = vnc_release_keys s"
| "vnc_runCmd lib write malloc (VNC_CLIPBOARD text) s =
     (case text of
        None \<Rightarrow> s
      | Some t \<Rightarrow>
          if vnc_sends s then
            (case utf8ToLatin1 malloc t of
               None \<Rightarrow> s
             | Some latin1 \<Rightarrow> vnc_emit (SendClientCutText (c_string latin1)) s)
          else s)"
| "vnc_runCmd lib write malloc (VNC_RESIZE a b) s =
     (if vnc_sends s \<and> vs_canResize s then send_layout lib write a b [(first_screen lib s, 0, 0, a, b)] s
      else s)"
| "vnc_runCmd lib write malloc (VNC_LAYOUT a b screens) s =
     (if vnc_sends s \<and> vs_canResize s then send_layout lib write a b screens s else s)"

text \<open>
  The loop of \<open>drain\<close>.  Other threads may post while a command runs; \<open>others\<close> are the operations
  they perform between two iterations, one list per iteration, and the loop ends when it finds
  the queue empty.  Fuel counts the iterations.
\<close>

fun vnc_drain ::
  "rfb_lib \<Rightarrow> rfb_write \<Rightarrow> (nat \<Rightarrow> bool) \<Rightarrow> nat \<Rightarrow> (nat \<Rightarrow> vnc_session \<Rightarrow> vnc_session) \<Rightarrow> vnc_session \<Rightarrow>
   (bool \<times> vnc_session) option"
where
  "vnc_drain lib write malloc 0 others s = None"
| "vnc_drain lib write malloc (Suc fuel) others s =
     (case vnc_pop s of
        None \<Rightarrow>
          let quit = vs_quit s; encodings = vs_encodingsChanged s
          in Some (quit, if encodings \<and> \<not> quit then applyEncodings s else s)
      | Some (c, s) \<Rightarrow> vnc_drain lib write malloc fuel others (others fuel (vnc_runCmd lib write malloc c s)))"

section \<open>Clipboard properties\<close>

lemma length_latin1_of: "length (latin1_of u) \<le> length u"
proof (induction u rule: latin1_of.induct)
  case (2 c cs)
  then show ?case
    by (auto simp: latin1_of.simps(2) [of c cs] Let_def split: if_splits)
qed simp

definition latin1_pair_ok :: "u8 \<Rightarrow> bool" where
  "latin1_pair_ok c \<longleftrightarrow>
     (let a = 0xC0 OR drop_bit 6 c; b = 0x80 OR (c AND 0x3F);
          cp = push_bit 6 ((ucast a :: u32) AND 0x1F) OR ((ucast b :: u32) AND 0x3F)
      in \<not> a < 0x80 \<and> a AND 0xE0 = 0xC0 \<and> cp \<le> 0xFF \<and> (ucast cp :: u8) = c)"

lemma latin1_pairs_ok: "latin1_pair_ok c"
  by (rule u8_cases_all [of latin1_pair_ok c]) code_simp

lemma latin1_of_to_utf8: "latin1_of (latin1_to_utf8 t) = t"
proof (induction t)
  case (Cons c t)
  show ?case
  proof (cases "c < 0x80")
    case True
    with Cons show ?thesis by (simp add: latin1_byte_def latin1_of.simps(2))
  next
    case False
    with Cons latin1_pairs_ok [of c] show ?thesis
      by (simp add: latin1_byte_def latin1_of.simps(2) latin1_pair_ok_def Let_def)
  qed
qed simp

definition latin1_nonzero :: "u8 \<Rightarrow> bool" where
  "latin1_nonzero c \<longleftrightarrow> c = 0 \<or> 0 \<notin> set (latin1_byte c)"

lemma latin1_nonzero_all: "latin1_nonzero c"
  by (rule u8_cases_all [of latin1_nonzero c]) code_simp

lemma c_string_id: "0 \<notin> set t \<Longrightarrow> c_string t = t"
  by (auto simp: c_string_def takeWhile_eq_all_conv)

lemma latin1_to_utf8_nonzero: "0 \<notin> set t \<Longrightarrow> 0 \<notin> set (latin1_to_utf8 t)"
proof (induction t)
  case (Cons c t)
  then show ?case using latin1_nonzero_all [of c] by (auto simp: latin1_nonzero_def)
qed simp

text \<open>
  Latin-1 text is not changed by a trip through the session: what a server puts on the
  clipboard, reported as UTF-8 and given back by the user, is sent to the server byte for
  byte.  Whatever the text, its conversion fits the bytes allocated for it.
\<close>

theorem vnc_clipboard_roundtrip:
  assumes "vnc_sends s" and "t \<noteq> []" and "0 \<notin> set t" and "malloc (length (latin1_to_utf8 t) + 1)"
  shows "vs_trace (onCutText True (Some t) s) = vs_trace s @ [Callback (Clipboard (latin1_to_utf8 t))] \<and>
    vs_trace (vnc_runCmd lib write malloc (VNC_CLIPBOARD (Some (latin1_to_utf8 t))) s) =
      vs_trace s @ [SendClientCutText t] \<and>
    (\<forall>u latin1. utf8ToLatin1 malloc u = Some latin1 \<longrightarrow> length latin1 < length u + 1)"
  using assms length_latin1_of
  by (auto simp: onCutText_def utf8ToLatin1_def latin1_of_to_utf8 c_string_id latin1_to_utf8_nonzero vnc_simps
      less_Suc_eq_le split: if_splits)

definition example_connected :: vnc_session where
  "example_connected = vnc_calloc\<lparr>vs_cl := Some rfb_client_zero\<rparr>"

lemma example_connected_sends [simp]: "vnc_sends example_connected"
  by (simp add: vnc_sends_def example_connected_def vnc_calloc_def)

theorem vnc_clipboard_roundtrip_witness:
  "vs_trace (vnc_runCmd example_lib (\<lambda>_. True) (\<lambda>_. True) (VNC_CLIPBOARD (Some (latin1_to_utf8 [0x61, 0xE9])))
     example_connected) = [SendClientCutText [0x61, 0xE9]]"
  using vnc_clipboard_roundtrip [OF example_connected_sends, of "[0x61, 0xE9]" "\<lambda>_. True" example_lib "\<lambda>_. True"]
  by (simp add: example_connected_def vnc_calloc_def)

section \<open>Keys\<close>

lemma keys_ok_update: "keys_ok es \<Longrightarrow> key_slot k es = Some i \<Longrightarrow>
  keys_ok (es[i := (k, v)]) \<and> key_ids (es[i := (k, v)]) = key_ids es"
proof -
  assume e: "keys_ok es" "key_slot k es = Some i"
  have "key_ids (es[i := (k, v)]) = key_ids es"
    using key_slot_Some [OF e(2)] by (simp add: key_ids_def map_update list_update_same_conv)
  with e(1) show ?thesis by (simp add: keys_ok_def)
qed

lemma vnc_key_down_keys:
  "vs_keys (vnc_key_down k v s) =
     (if \<not> vnc_sends s then vs_keys s
      else case key_slot k (vs_keys s) of
        Some i \<Rightarrow> (vs_keys s)[i := (k, v)]
      | None \<Rightarrow> if length (vs_keys s) < MAX_HELD_KEYS then vs_keys s @ [(k, v)] else vs_keys s)"
  by (auto simp: vnc_key_down_def Let_def vnc_simps split: option.splits)

lemma vnc_key_up_keys:
  "vs_keys (vnc_key_up k s) =
     (case key_slot k (vs_keys s) of None \<Rightarrow> vs_keys s | Some i \<Rightarrow> key_remove i (vs_keys s))"
  by (auto simp: vnc_key_up_def Let_def vnc_simps split: option.splits)

lemma vnc_release_keys_keys: "vs_keys (vnc_release_keys s) = []"
  by (simp add: vnc_release_keys_def Let_def)

interpretation vk: held_keys vs_keys vnc_key_down vnc_key_up vnc_release_keys
proof
  fix s :: vnc_session and k p
  assume ok: "keys_ok (vs_keys s)"
  show "keys_ok (vs_keys (vnc_key_down k p s))"
    and "set (key_ids (vs_keys (vnc_key_down k p s))) \<subseteq> insert k (set (key_ids (vs_keys s)))"
    using ok keys_ok_update [OF ok, of k _ p] key_slot_None [of k "vs_keys s"]
    by (auto simp: vnc_key_down_keys keys_ok_def split: option.splits)
next
  fix s :: vnc_session and k
  assume ok: "keys_ok (vs_keys s)"
  show "keys_ok (vs_keys (vnc_key_up k s))"
    and "set (key_ids (vs_keys (vnc_key_up k s))) = set (key_ids (vs_keys s)) - {k}"
    using ok key_remove_ok [OF ok] key_slot_Some [of k "vs_keys s"] key_slot_None [of k "vs_keys s"]
    by (auto simp: vnc_key_up_keys split: option.splits)
qed (rule vnc_release_keys_keys)

text \<open>
  The table of held keys has at most one entry per key and at most 64 entries, however
  keys are pressed, repeated and released, and it only ever names keys the user holds.
\<close>

theorem vnc_keys_refine:
  assumes "keys_ok (vs_keys s)" and "set (key_ids (vs_keys s)) \<subseteq> h"
  shows "keys_ok (vs_keys (key_run vnc_key_down vnc_key_up vnc_release_keys es s)) \<and>
    set (key_ids (vs_keys (key_run vnc_key_down vnc_key_up vnc_release_keys es s))) \<subseteq> user_holds h es"
  by (simp add: vk.run_ok [OF assms(1)] vk.run_ids [OF assms])

theorem vnc_keys_refine_witness:
  "set (key_ids (vs_keys (key_run vnc_key_down vnc_key_up vnc_release_keys
     [Press 1 0x61, Press 2 0x62, Press 1 0x61, Release 2] example_connected))) \<subseteq> {1}"
proof -
  have "keys_ok (vs_keys example_connected)" "set (key_ids (vs_keys example_connected)) \<subseteq> {}"
    by (simp_all add: example_connected_def vnc_calloc_def keys_ok_def key_ids_def)
  from vnc_keys_refine [OF this, of "[Press 1 0x61, Press 2 0x62, Press 1 0x61, Release 2]"]
  have "set (key_ids (vs_keys (key_run vnc_key_down vnc_key_up vnc_release_keys
     [Press 1 0x61, Press 2 0x62, Press 1 0x61, Release 2] example_connected))) \<subseteq>
     user_holds {} [Press 1 (0x61 :: u32), Press 2 0x62, Press 1 0x61, Release 2]" by blast
  then show ?thesis by auto
qed

subsection \<open>What the far end sees\<close>

text \<open>The keysyms whose last event in a trace is a press.\<close>

fun far_held :: "u32 set \<Rightarrow> vnc_event list \<Rightarrow> u32 set" where
  "far_held h [] = h"
| "far_held h (SendKeyEvent v d # es) = far_held (if d then insert v h else h - {v}) es"
| "far_held h (_ # es) = far_held h es"

fun not_key_event :: "vnc_event \<Rightarrow> bool" where
  "not_key_event (SendKeyEvent _ _) = False"
| "not_key_event _ = True"

definition is_key_cmd :: "vnc_cmd \<Rightarrow> bool" where
  "is_key_cmd c \<longleftrightarrow> (case c of VNC_KEY_DOWN _ _ \<Rightarrow> True | VNC_KEY_UP _ \<Rightarrow> True | VNC_RELEASE_KEYS \<Rightarrow> True | _ \<Rightarrow> False)"

lemma far_held_append: "far_held h (a @ b) = far_held (far_held h a) b"
  by (induction h a rule: far_held.induct) auto

lemma far_held_quiet: "list_all not_key_event es \<Longrightarrow> far_held h es = h"
proof (induction es)
  case (Cons e es)
  then show ?case by (cases e) auto
qed simp

lemma far_held_releases: "far_held h (map (\<lambda>e. SendKeyEvent (snd e) False) ks) = h - snd ` set ks"
  by (induction ks arbitrary: h) auto

text \<open>Everything but keys leaves the table alone and sends no key.\<close>

definition quiet_step :: "vnc_session \<Rightarrow> vnc_session \<Rightarrow> bool" where
  "quiet_step s s' \<longleftrightarrow> vs_keys s' = vs_keys s \<and> vnc_sends s' = vnc_sends s \<and>
     (\<exists>es. vs_trace s' = vs_trace s @ es \<and> list_all not_key_event es)"

lemma quiet_step_refl [simp]: "quiet_step s s"
  by (auto simp: quiet_step_def)

lemma quiet_step_emit: "not_key_event e \<Longrightarrow> quiet_step s (vnc_emit e s)"
  by (auto simp: quiet_step_def vnc_sends_def vnc_simps)

lemma vnc_sendLayout_quiet:
  assumes "vnc_sendLayout lib write cl w h out s = (ok, s', cl')"
  shows "vs_keys s' = vs_keys s \<and> vs_viewOnly s' = vs_viewOnly s \<and>
    (\<exists>es. vs_trace s' = vs_trace s @ es \<and> list_all not_key_event es)"
proof -
  have scr: "vs_keys s' = vs_keys s \<and> vs_viewOnly s' = vs_viewOnly s \<and>
      (\<exists>es. vs_trace s' = vs_trace s @ es \<and> list_all not_key_event es)"
    if ws: "write_screens write out s = (ok, s')" for s s' ok
    using write_screens_spec [OF ws] by (auto simp: list_all_iff)
  show ?thesis
    using assms by (auto simp: vnc_sendLayout_def Let_def vnc_simps dest!: scr split: if_splits prod.splits)
qed

lemma send_layout_quiet: "quiet_step s (send_layout lib write w h flat s)"
proof (cases "vs_cl s")
  case (Some cl)
  show ?thesis
  proof (cases "vnc_buildLayout lib cl w h flat")
    case None
    with Some show ?thesis by (auto simp: send_layout_def with_client_def quiet_step_def vnc_sends_def)
  next
    case out: (Some out)
    obtain ok s' cl' where r: "vnc_sendLayout lib write cl w h out s = (ok, s', cl')"
      by (metis prod_cases3)
    with Some out vnc_sendLayout_quiet [OF r] show ?thesis
      by (simp add: send_layout_def with_client_def quiet_step_def vnc_sends_def)
  qed
qed (simp add: send_layout_def with_client_def)

lemma vnc_runCmd_quiet: "\<not> is_key_cmd c \<Longrightarrow> quiet_step s (vnc_runCmd lib write malloc c s)"
  by (cases c) (auto simp: is_key_cmd_def quiet_step_emit send_layout_quiet split: option.splits)

lemma vnc_runCmd_sends [simp]: "vnc_sends (vnc_runCmd lib write malloc c s) = vnc_sends s"
proof (cases "is_key_cmd c")
  case True
  then show ?thesis
    by (cases c) (auto simp: is_key_cmd_def vnc_key_down_def vnc_key_up_def vnc_release_keys_def vnc_sends_def
        Let_def vnc_simps fold_vnc_emit split: option.splits)
next
  case False
  with vnc_runCmd_quiet [OF False, of s lib "write" malloc] show ?thesis by (simp add: quiet_step_def)
qed

text \<open>
  A session in view-only mode, or one whose connection is not up, sends nothing at all for
  any command: no key, pointer, clipboard or layout reaches the far end.
\<close>

theorem vnc_view_only_silent:
  assumes "\<not> vnc_sends s"
  shows "vs_trace (fold (vnc_runCmd lib write malloc) cs s) = vs_trace s"
proof -
  have step: "vs_trace (vnc_runCmd lib write malloc c s) = vs_trace s" if "\<not> vnc_sends s" for c s
    using that by (cases c) (auto simp: vnc_key_down_def vnc_key_up_def vnc_release_keys_def Let_def
        split: option.splits)
  show ?thesis
    using assms by (induction cs arbitrary: s) (simp_all add: step)
qed

theorem vnc_view_only_silent_witness:
  "vs_trace (fold (vnc_runCmd example_lib (\<lambda>_. True) (\<lambda>_. True)) [VNC_POINTER 1 1 1, VNC_KEY_DOWN 0x61 1]
     (example_connected\<lparr>vs_viewOnly := True\<rparr>)) = []"
  using vnc_view_only_silent [of "example_connected\<lparr>vs_viewOnly := True\<rparr>" example_lib "\<lambda>_. True" "\<lambda>_. True"
      "[VNC_POINTER 1 1 1, VNC_KEY_DOWN 0x61 1]"]
  by (simp add: vnc_sends_def example_connected_def vnc_calloc_def)

subsection \<open>No key stays pressed\<close>

definition no_stray_keys :: "vnc_session \<Rightarrow> bool" where
  "no_stray_keys s \<longleftrightarrow> keys_ok (vs_keys s) \<and> far_held {} (vs_trace s) \<subseteq> snd ` set (vs_keys s)"

text \<open>A press the table can take: of a key already down as the same keysym, or with room for it.\<close>

definition press_fits :: "vnc_cmd \<Rightarrow> vnc_session \<Rightarrow> bool" where
  "press_fits c s \<longleftrightarrow>
     (case c of
        VNC_KEY_DOWN v k \<Rightarrow>
          (case map_of (vs_keys s) k of Some v' \<Rightarrow> v' = v | None \<Rightarrow> length (vs_keys s) < MAX_HELD_KEYS)
      | _ \<Rightarrow> True)"

fun presses_fit :: "rfb_lib \<Rightarrow> rfb_write \<Rightarrow> (nat \<Rightarrow> bool) \<Rightarrow> vnc_cmd list \<Rightarrow> vnc_session \<Rightarrow> bool" where
  "presses_fit lib write malloc [] s = True"
| "presses_fit lib write malloc (c # cs) s =
     (press_fits c s \<and> presses_fit lib write malloc cs (vnc_runCmd lib write malloc c s))"

lemma press_keeps:
  assumes "no_stray_keys s" and "vnc_sends s" and "press_fits (VNC_KEY_DOWN v k) s"
  shows "no_stray_keys (vnc_key_down k v s)"
proof (cases "key_slot k (vs_keys s)")
  case None
  with assms have "length (vs_keys s) < MAX_HELD_KEYS" by (simp add: press_fits_def map_of_key_slot)
  with None assms vk.down_ok [of s k v] show ?thesis
    by (auto simp: no_stray_keys_def vnc_key_down_keys) 
      (auto simp: vnc_key_down_def vnc_simps far_held_append Let_def)
next
  case (Some i)
  then have i: "i < length (vs_keys s)" "vs_keys s ! i = (k, v)"
    using assms(3) key_slot_Some [OF Some] by (auto simp: press_fits_def map_of_key_slot prod_eq_iff)
  then have "(vs_keys s)[i := (k, v)] = vs_keys s" by (simp add: list_update_same_conv)
  moreover have "v \<in> snd ` set (vs_keys s)" using i by (metis image_eqI nth_mem snd_conv)
  ultimately show ?thesis
    using Some assms by (auto simp: no_stray_keys_def vnc_key_down_def vnc_simps far_held_append)
qed

lemma release_keeps:
  assumes "no_stray_keys s" and "vnc_sends s"
  shows "no_stray_keys (vnc_key_up k s)"
proof (cases "key_slot k (vs_keys s)")
  case None
  with assms show ?thesis by (simp add: vnc_key_up_def)
next
  case (Some i)
  have ok: "keys_ok (vs_keys s)" and i: "i < length (vs_keys s)"
    using assms(1) key_slot_Some [OF Some] by (auto simp: no_stray_keys_def)
  have "snd ` set (vs_keys s) - {snd (vs_keys s ! i)} \<subseteq> snd ` set (key_remove i (vs_keys s))"
    using key_remove_ok(3) [OF ok i] by auto
  then show ?thesis
    using Some assms key_remove_ok(1) [OF ok i]
    by (auto simp: no_stray_keys_def vnc_key_up_def vnc_simps far_held_append Let_def)
qed

lemma release_all_keeps:
  assumes "no_stray_keys s" and "vnc_sends s"
  shows "no_stray_keys (vnc_release_keys s) \<and> far_held {} (vs_trace (vnc_release_keys s)) = {}"
  using assms
  by (auto simp: no_stray_keys_def vnc_release_keys_def fold_vnc_emit far_held_append far_held_releases
      keys_ok_def key_ids_def)

lemma runCmd_keeps:
  assumes "no_stray_keys s" and "vnc_sends s" and "press_fits c s"
  shows "no_stray_keys (vnc_runCmd lib write malloc c s)"
proof (cases "is_key_cmd c")
  case True
  then show ?thesis
    using assms press_keeps release_keeps release_all_keeps by (cases c) (auto simp: is_key_cmd_def)
next
  case False
  from vnc_runCmd_quiet [OF False, of s lib "write" malloc] assms(1) show ?thesis
    by (auto simp: no_stray_keys_def quiet_step_def far_held_append far_held_quiet)
qed



text \<open>
  A key that repeats as another keysym (a letter repeating while Shift goes down) leaves
  the keysym it first went down as pressed at the far end: the repeat replaces what the table
  recorded, so neither the key's release nor the release of all keys ever sends the first one up.
\<close>

theorem vnc_repeat_other_keysym_sticks:
  "let s = vnc_key_down 1 0x41 (vnc_key_down 1 0x61 example_connected) in
   far_held {} (vs_trace (vnc_release_keys s)) = {0x61} \<and> far_held {} (vs_trace (vnc_key_up 1 s)) = {0x61} \<and>
   vs_keys (vnc_key_up 1 s) = []"
  by (simp add: vnc_key_down_def vnc_key_up_def vnc_release_keys_def example_connected_def vnc_calloc_def
      vnc_sends_def vnc_emit_def MAX_HELD_KEYS_def key_remove_def Let_def)

section \<open>Draining the queue\<close>

text \<open>Executing a command neither reads nor changes the queue.\<close>

lemma emit_ring: "vnc_emit e (s\<lparr>vs_ring := r\<rparr>) = (vnc_emit e s)\<lparr>vs_ring := r\<rparr>"
  by (simp add: vnc_emit_def)

lemma write_screens_ring:
  "write_screens w cs (s\<lparr>vs_ring := r\<rparr>) = map_prod (\<lambda>ok. ok) (\<lambda>s. s\<lparr>vs_ring := r\<rparr>) (write_screens w cs s)"
  by (induction cs arbitrary: s) (auto simp: emit_ring)

lemma vnc_sendLayout_ring:
  "vnc_sendLayout lib w cl width height out (s\<lparr>vs_ring := r\<rparr>) =
   (let (ok, s, cl) = vnc_sendLayout lib w cl width height out s in (ok, s\<lparr>vs_ring := r\<rparr>, cl))"
  by (simp add: vnc_sendLayout_def Let_def emit_ring write_screens_ring split: prod.splits)

lemma send_layout_ring:
  "send_layout lib w width height flat (s\<lparr>vs_ring := r\<rparr>) = (send_layout lib w width height flat s)\<lparr>vs_ring := r\<rparr>"
  by (auto simp: send_layout_def with_client_def vnc_sendLayout_ring Let_def split: option.splits prod.splits)

lemma vnc_runCmd_ring:
  "vnc_runCmd lib w malloc c (s\<lparr>vs_ring := r\<rparr>) = (vnc_runCmd lib w malloc c s)\<lparr>vs_ring := r\<rparr>"
  by (cases c)
    (auto simp: vnc_key_down_def vnc_key_up_def vnc_release_keys_def vnc_sends_def Let_def emit_ring
      fold_vnc_emit send_layout_ring first_screen_def vnc_emit_def split: option.splits)

lemma vnc_runCmd_same_ring [simp]: "vs_ring (vnc_runCmd lib w malloc c s) = vs_ring s"
proof -
  have "vnc_runCmd lib w malloc c s = (vnc_runCmd lib w malloc c s)\<lparr>vs_ring := vs_ring s\<rparr>"
    using vnc_runCmd_ring [where s = s and r = "vs_ring s"] by simp
  then show ?thesis by (rule ssubst) simp
qed

lemma write_screens_quit: "vs_quit (snd (write_screens w cs s)) = vs_quit s"
  by (induction cs arbitrary: s) (auto simp: vnc_simps)

lemma vnc_sendLayout_quit: "vs_quit (fst (snd (vnc_sendLayout lib w cl width height out s))) = vs_quit s"
  using write_screens_quit [of w out]
  by (simp add: vnc_sendLayout_def Let_def vnc_simps split: prod.splits) (metis snd_conv vnc_emit_simps(4))

lemma vnc_runCmd_quit [simp]: "vs_quit (vnc_runCmd lib w malloc c s) = vs_quit s"
proof -
  have "vs_quit (send_layout lib w width height flat s) = vs_quit s" for width height flat
    using vnc_sendLayout_quit [of lib w _ width height _ s]
    by (auto simp: send_layout_def with_client_def case_prod_unfold Let_def split: option.splits)
  then show ?thesis
    by (cases c) (auto simp: vnc_key_down_def vnc_key_up_def vnc_release_keys_def Let_def vnc_simps
        fold_vnc_emit split: option.splits)
qed

lemma applyEncodings_ring [simp]: "vs_ring (applyEncodings s) = vs_ring s"
  by (auto simp: applyEncodings_def with_client_def takeEncodings_def vnc_simps split: option.splits)

lemma fold_runCmd_ring:
  "fold (vnc_runCmd lib w malloc) cs (s\<lparr>vs_ring := r\<rparr>) = (fold (vnc_runCmd lib w malloc) cs s)\<lparr>vs_ring := r\<rparr>"
  by (induction cs arbitrary: s) (simp_all add: vnc_runCmd_ring)

text \<open>
  C36. A drain ends and executes the whole queue: with nobody posting, it runs every queued
  command once, oldest first, leaves the queue empty, and only then looks at whether the
  session was asked to end; encodings that changed are sent unless it was.
\<close>

theorem vnc_drain_runs_all:
  assumes "vnc_queue_ok s" and "length (vnc_items s) < fuel"
  shows "\<exists>s'. vnc_drain lib write malloc fuel (\<lambda>_ s. s) s = Some (vs_quit s, s') \<and> vnc_items s' = [] \<and>
    (let s1 = (fold (vnc_runCmd lib write malloc) (vnc_items s) s)\<lparr>vs_ring := vs_ring s'\<rparr> in
     s' = (if vs_encodingsChanged s1 \<and> \<not> vs_quit s then applyEncodings s1 else s1))"
  using assms
proof (induction fuel arbitrary: s)
  case (Suc fuel)
  show ?case
  proof (cases "vnc_pop s")
    case None
    then have e: "vnc_items s = []" using vnc_pop_None [OF Suc.prems(1)] by simp
    then have "vnc_items (applyEncodings s) = []" by (simp add: vnc_items_def)
    with None e show ?thesis by (auto simp: Let_def)
  next
    case (Some p)
    obtain c s1 where p: "p = (c, s1)" by (cases p)
    have s1: "vnc_items s = c # vnc_items s1" "vnc_queue_ok s1" "s1 = s\<lparr>vs_ring := vs_ring s1\<rparr>"
      using vnc_pop_Some [OF Suc.prems(1) Some [unfolded p]] by auto
    let ?s2 = "vnc_runCmd lib write malloc c s1"
    have quit: "vs_quit s1 = vs_quit s" by (subst s1(3)) simp
    have q: "vnc_queue_ok ?s2" "vnc_items ?s2 = vnc_items s1" "vs_quit ?s2 = vs_quit s"
      using s1(2) quit by (simp_all add: vnc_queue_ok_def vnc_items_def)
    have "length (vnc_items ?s2) < fuel" using q(2) Suc.prems(2) s1(1) by simp
    from Suc.IH [OF q(1) this, unfolded q(2,3)] obtain s' where
      IH: "vnc_drain lib write malloc fuel (\<lambda>_ s. s) ?s2 = Some (vs_quit s, s')" "vnc_items s' = []"
        "let s3 = (fold (vnc_runCmd lib write malloc) (vnc_items s1) ?s2)\<lparr>vs_ring := vs_ring s'\<rparr> in
         s' = (if vs_encodingsChanged s3 \<and> \<not> vs_quit s then applyEncodings s3 else s3)"
      by blast
    have "fold (vnc_runCmd lib write malloc) (vnc_items s1) ?s2 =
        (fold (vnc_runCmd lib write malloc) (vnc_items s) s)\<lparr>vs_ring := vs_ring s1\<rparr>"
      unfolding fold_runCmd_ring [symmetric] s1(3) [symmetric] by (simp add: s1(1))
    then have "(fold (vnc_runCmd lib write malloc) (vnc_items s1) ?s2)\<lparr>vs_ring := vs_ring s'\<rparr> =
        (fold (vnc_runCmd lib write malloc) (vnc_items s) s)\<lparr>vs_ring := vs_ring s'\<rparr>" by simp
    moreover have "vnc_drain lib write malloc (Suc fuel) (\<lambda>_ s. s) s = Some (vs_quit s, s')"
      using IH(1) Some p by simp
    ultimately show ?thesis using IH(2,3) by (intro exI [of _ s']) (simp only: Let_def simp_thms)
  qed
qed simp

theorem vnc_drain_runs_all_witness:
  "\<exists>s'. vnc_drain example_lib (\<lambda>_. True) (\<lambda>_. True) 3 (\<lambda>_ s. s)
       (vnc_post (vnc_post example_connected (VNC_KEY_DOWN 0x61 1)) (VNC_POINTER 2 3 1)) = Some (False, s') \<and>
     vnc_items s' = []"
proof -
  let ?s = "vnc_post (vnc_post example_connected (VNC_KEY_DOWN 0x61 1)) (VNC_POINTER 2 3 1)"
  have 0: "vnc_queue_ok example_connected" "vnc_items example_connected = []" "\<not> vs_quit example_connected"
    using vnc_calloc_queue by (simp_all add: example_connected_def vnc_queue_ok_def vnc_items_def)
  have 1: "vnc_items (vnc_post example_connected (VNC_KEY_DOWN 0x61 1)) = [VNC_KEY_DOWN 0x61 1]"
    using vnc_post_items(1) [OF 0(1)] 0 by (simp add: CMD_RING_def)
  have "vnc_queue_ok ?s" by (intro vnc_post_items(2) 0)
  moreover have "length (vnc_items ?s) < 3"
    using vnc_post_items(1) [OF vnc_post_items(2) [OF 0(1)], of "VNC_KEY_DOWN 0x61 1" "VNC_POINTER 2 3 1"] 1 0(3)
    by (simp add: CMD_RING_def)
  ultimately show ?thesis
    using vnc_drain_runs_all [of ?s 3 example_lib "\<lambda>_. True" "\<lambda>_. True"] 0(3) by auto
qed

end
