(* ===== verification/Vnc_Info.thy ===== *)
theory Vnc_Info
  imports Vnc_Session
begin

text \<open>
  What a LibVNC session reports of its connection, from
  \<open>src/backends/modules/libvnc/cpp/libvnc_session.c\<close>: \<open>describeFormat\<close>, \<open>describeVeNCrypt\<close>,
  \<open>publishFacts\<close>, \<open>op_info\<close>, \<open>op_traffic\<close>, \<open>copyScreens\<close> and the two reads of the framebuffer.  The
  lemmas show that the desktop's name, whatever bytes the server sent, is reported as UTF-8
  and never cut, and that an unverified tunnel is always called one.
\<close>

section \<open>Definitions\<close>

text \<open>The number of times \<open>m\<close> can be halved before it is 0.\<close>

fun halvings :: "nat \<Rightarrow> nat" where
  "halvings m = (if m = 0 then 0 else Suc (halvings (m div 2)))"

declare halvings.simps [simp del]

definition describeFormat :: "nat \<Rightarrow> rfbPixelFormat \<Rightarrow> string" where
  "describeFormat sz f =
     (let head = ''depth '' @ show_nat (depth f) @ '' ('' @ show_nat (bitsPerPixel f) @ ''bpp) ''
      in if \<not> trueColour f then snprintf_s sz (head @ ''colour map'')
         else snprintf_s sz (head @ (if bigEndian f then ''big'' else ''little'') @ ''-endian rgb'' @
                show_nat (halvings (redMax f)) @ show_nat (halvings (greenMax f)) @
                show_nat (halvings (blueMax f))))"

text \<open>\<open>number\<close> gives the macros' values, which only the last case prints.\<close>

definition describeVeNCrypt :: "(rfb_vencrypt \<Rightarrow> nat) \<Rightarrow> nat \<Rightarrow> rfb_vencrypt \<Rightarrow> string" where
  "describeVeNCrypt number sz subType =
     (let auth = (case subType of
                    rfbVeNCryptTLSNone \<Rightarrow> Some ''None''
                  | rfbVeNCryptX509None \<Rightarrow> Some ''None''
                  | rfbVeNCryptTLSVNC \<Rightarrow> Some ''VNC password''
                  | rfbVeNCryptX509VNC \<Rightarrow> Some ''VNC password''
                  | rfbVeNCryptTLSPlain \<Rightarrow> Some ''User name and password''
                  | rfbVeNCryptX509Plain \<Rightarrow> Some ''User name and password''
                  | _ \<Rightarrow> None);
          anonymous = (subType = rfbVeNCryptTLSNone \<or> subType = rfbVeNCryptTLSVNC \<or>
                       subType = rfbVeNCryptTLSPlain)
      in case auth of
           None \<Rightarrow> snprintf_s sz (''VeNCrypt type '' @ show_nat (number subType))
         | Some a \<Rightarrow>
             snprintf_s sz (a @ '' (VeNCrypt)'' @
               (if anonymous then '', encrypted and unverified'' else [])))"

definition describe_security :: "(rfb_vencrypt \<Rightarrow> nat) \<Rightarrow> rfbClient \<Rightarrow> string" where
  "describe_security number cl =
     (case cl_authScheme cl of
        rfbNoAuth \<Rightarrow> snprintf_s 96 ''None''
      | rfbVncAuth \<Rightarrow> snprintf_s 96 ''VNC password''
      | rfbVeNCrypt \<Rightarrow> describeVeNCrypt number 96 (cl_subAuthScheme cl)
      | rfbAuthOther n \<Rightarrow> snprintf_s 96 (''Type '' @ show_nat (unat n)))"

definition publishFacts ::
  "(nat \<Rightarrow> bool) \<Rightarrow> (rfb_vencrypt \<Rightarrow> nat) \<Rightarrow> rfbClient \<Rightarrow> vnc_session \<Rightarrow> vnc_session"
where
  "publishFacts malloc number cl s =
     (let raw = snprintf_s 256 (case cl_desktopName cl of Some n \<Rightarrow> n | None \<Rightarrow> []);
          name = vento_utf8_from_bytes malloc (Some raw)
      in s\<lparr>vs_facts :=
             \<lparr>known = True,
              desktop = snprintf_s 512 (case name of Some n \<Rightarrow> n | None \<Rightarrow> []),
              protocol = snprintf_s 64 (''RFB '' @ show_int (cl_major cl) @ ''.'' @ show_int (cl_minor cl)),
              security = describe_security number cl,
              serverPixels = describeFormat 64 (cl_siFormat cl),
              viewerPixels = describeFormat 64 (cl_format cl)\<rparr>\<rparr>)"

text \<open>The facts in their order; \<open>None\<close> before there are any, or when an allocation fails.\<close>

definition vnc_op_info :: "(nat \<Rightarrow> nat \<Rightarrow> bool) \<Rightarrow> vnc_session \<Rightarrow> vento_strings option" where
  "vnc_op_info malloc s =
     (if \<not> known (vs_facts s) then None
      else let f = vs_facts s;
               applied = snprintf_s 64 (case vs_applied s of Some a \<Rightarrow> a | None \<Rightarrow> []);
               (ok, out, heap) = vento_strings_set malloc
                 (map Some [string_of (desktop f), protocol f, ''TCP'', security f, applied, serverPixels f,
                            viewerPixels f]) 0
           in if ok then Some out else None)"

definition vnc_op_traffic :: "vnc_session \<Rightarrow> (u64 \<times> u64) option" where
  "vnc_op_traffic s = map_option (\<lambda>cl. (cl_bytesRcvd cl, cl_bytesSent cl)) (vs_cl s)"

definition copyScreens :: "vnc_session \<Rightarrow> bool \<Rightarrow> u32 list" where
  "copyScreens s ids =
     concat (map (\<lambda>(i, x, y, w, h). (if ids then [i] else []) @ map word_of_int [x, y, w, h]) (vs_screens s))"

definition vnc_op_monitors :: "vnc_session \<Rightarrow> nat \<times> u32 list" where
  "vnc_op_monitors s = (length (vs_screens s), copyScreens s False)"

definition vnc_op_screens :: "vnc_session \<Rightarrow> nat \<times> u32 list" where
  "vnc_op_screens s = (length (vs_screens s), copyScreens s True)"

definition vnc_op_read_region ::
  "vnc_session \<Rightarrow> int \<Rightarrow> int \<Rightarrow> int \<Rightarrow> int \<Rightarrow> mem \<Rightarrow> nat \<Rightarrow> int \<Rightarrow> int \<Rightarrow> bool \<times> mem"
where
  "vnc_op_read_region s x y w h dst stride dstX dstY = fb_read_region (vs_fb s) x y w h dst stride dstX dstY"

definition vnc_op_read_thumbnail :: "vnc_session \<Rightarrow> int \<Rightarrow> mem \<Rightarrow> nat \<Rightarrow> int \<Rightarrow> int \<Rightarrow> bool \<times> mem" where
  "vnc_op_read_thumbnail s step dst stride dstW dstH = fb_read_thumbnail (vs_fb s) step dst stride dstW dstH"

section \<open>Properties\<close>

lemma vento_utf8_from_bytes_length:
  "vento_utf8_from_bytes malloc (Some b) = Some u \<Longrightarrow> length u \<le> 2 * length b"
  using length_latin1_to_utf8 [of b] by (auto simp: vento_utf8_from_bytes_def Let_def split: if_splits)

lemma vento_utf8_from_bytes_valid: "vento_utf8_from_bytes malloc (Some b) = Some u \<Longrightarrow> vento_utf8_valid u"
  by (auto simp: vento_utf8_from_bytes_def Let_def vento_utf8_valid_shape utf8_shape_latin1 split: if_splits)

lemma vento_utf8_valid_Nil: "vento_utf8_valid []"
  by (simp add: vento_utf8_valid_shape)

lemma last_snprintf_digits: "length a < sz - 1 \<Longrightarrow> is_digit (last (snprintf_s sz (a @ show_nat n)))"
proof -
  assume l: "length a < sz - 1"
  let ?k = "sz - 1 - length a"
  have ne: "take ?k (show_nat n) \<noteq> []" using l show_nat_digits [of n] by simp
  then have "last (take ?k (show_nat n)) \<in> set (show_nat n)"
    using in_set_takeD last_in_set by metis
  then have "is_digit (last (take ?k (show_nat n)))"
    using show_nat_digits [of n] by (simp add: list_all_iff)
  with ne l show ?thesis by (simp add: snprintf_s_def)
qed

lemma type_number_no_suffix:
  "\<not> suffix '', encrypted and unverified'' (snprintf_s 96 (''VeNCrypt type '' @ show_nat n))"
proof
  assume "suffix '', encrypted and unverified'' (snprintf_s 96 (''VeNCrypt type '' @ show_nat n))"
  then have "last (snprintf_s 96 (''VeNCrypt type '' @ show_nat n)) = CHR ''d''"
    by (auto simp only: suffix_def last_append list.simps simp_thms if_False if_True last.simps)
  moreover have "is_digit (last (snprintf_s 96 (''VeNCrypt type '' @ show_nat n)))"
    by (rule last_snprintf_digits) simp
  ultimately show False by (simp only: is_digit_def) simp
qed

lemma describeVeNCrypt_unverified:
  "suffix '', encrypted and unverified'' (describeVeNCrypt number 96 t) \<longleftrightarrow>
   t \<in> {rfbVeNCryptTLSNone, rfbVeNCryptTLSVNC, rfbVeNCryptTLSPlain}"
proof -
  have last: "last u = CHR ''d''" if "suffix '', encrypted and unverified'' u" for u
    using that by (auto simp: suffix_def)
  have yes: "suffix '', encrypted and unverified'' (snprintf_s 96 (a @ '' (VeNCrypt)'' @ '', encrypted and unverified''))"
    if "length a < 50" for a
    using that unfolding suffix_def
    by (subst snprintf_s_id) (auto intro: exI [of _ "a @ '' (VeNCrypt)''"])
  have no: "\<not> suffix '', encrypted and unverified'' (snprintf_s 96 (a @ '' (VeNCrypt)'' @ []))"
    if "length a < 50" for a
    using that last [of "a @ '' (VeNCrypt)''"] by (subst snprintf_s_id) auto
  show ?thesis
    using type_number_no_suffix yes [of "''None''"] yes [of "''VNC password''"] yes [of "''User name and password''"]
      no [of "''None''"] no [of "''VNC password''"] no [of "''User name and password''"]
    by (cases t) (simp_all add: describeVeNCrypt_def Let_def)
qed

text \<open>
  The name of the desktop, whatever bytes the server chose, is reported as UTF-8 and is
  never cut after its conversion: the buffer holds twice the 255 bytes read.  A connection
  encrypted without a certificate is always reported as unverified, and one with a
  certificate never is.
\<close>

theorem publishFacts_reports:
  assumes "cl_desktopName cl = Some name" and "malloc (2 * length (take 255 name) + 1)"
    and "malloc (length (take 255 name) + 1)"
  shows "let f = vs_facts (publishFacts malloc number cl s) in
    known f \<and> vento_utf8_valid (desktop f) \<and>
    Some (desktop f) = vento_utf8_from_bytes malloc (Some (take 255 name)) \<and>
    (cl_authScheme cl = rfbVeNCrypt \<longrightarrow>
      (suffix '', encrypted and unverified'' (security f) \<longleftrightarrow>
        cl_subAuthScheme cl \<in> {rfbVeNCryptTLSNone, rfbVeNCryptTLSVNC, rfbVeNCryptTLSPlain}))"
proof -
  have "vento_utf8_from_bytes malloc (Some (take 255 name)) \<noteq> None"
    using assms(2,3) by (simp add: vento_utf8_from_bytes_def Let_def)
  then obtain u where u: "vento_utf8_from_bytes malloc (Some (take 255 name)) = Some u" by blast
  have "length u \<le> 510"
    using vento_utf8_from_bytes_length [OF u] by simp
  then have "snprintf_s 512 u = u" by (simp add: snprintf_s_def)
  then show ?thesis
    using u vento_utf8_from_bytes_valid [OF u] assms(1) describeVeNCrypt_unverified
    by (simp add: publishFacts_def Let_def snprintf_s_def [of 256] describe_security_def)
qed

theorem publishFacts_reports_witness:
  "let f = vs_facts (publishFacts (\<lambda>_. True) (\<lambda>_. 0)
         (rfb_client_zero\<lparr>cl_desktopName := Some [0x61, 0xE9], cl_authScheme := rfbVeNCrypt,
            cl_subAuthScheme := rfbVeNCryptTLSVNC\<rparr>) vnc_calloc) in
     vento_utf8_valid (desktop f) \<and> suffix '', encrypted and unverified'' (security f)"
  using publishFacts_reports [of "rfb_client_zero\<lparr>cl_desktopName := Some [0x61, 0xE9], cl_authScheme := rfbVeNCrypt,
      cl_subAuthScheme := rfbVeNCryptTLSVNC\<rparr>" "[0x61, 0xE9]" "\<lambda>_. True" "\<lambda>_. 0" vnc_calloc]
  by (simp add: Let_def)

end
