(* ===== verification/Vnc_Thread.thy ===== *)
theory Vnc_Thread
  imports Vnc_Input Vnc_Info
begin

text \<open>
  The calls other threads make and the protocol thread, from
  \<open>src/backends/modules/libvnc/cpp/libvnc_session.c\<close>: the operations of its table, the two
  prompts that block the thread (\<open>askCredentials\<close>, \<open>askIdentity\<close>) and the hooks that ask them, the
  memory of the library's last message, the dial (\<open>waitConnected\<close>, \<open>dial\<close>, \<open>initClient\<close>) and
  \<open>protocolThread\<close>.

  Other threads are a schedule, a list of batches of operations: one batch is performed before
  each hook and each iteration of a loop, and a blocked thread performs them until what it
  waits for is there.  A function of the thread returns \<open>None\<close> when the schedule (or, for the
  library, its fuel) runs out, which is the thread still running.  The library's handshake and
  message handling are a parameter: from the results of the hooks it called so far, the next
  hook, or the result it returns.
\<close>

section \<open>Operations\<close>

definition vnc_op_answer_credentials :: "string option \<Rightarrow> string option \<Rightarrow> vnc_session \<Rightarrow> vnc_session" where
  "vnc_op_answer_credentials user pass s =
     vnc_wake (s\<lparr>vs_credUser := user, vs_credPass := pass, vs_credAnswered := True,
                 vs_quit := (vs_quit s \<or> pass = None)\<rparr>)"

definition vnc_op_answer_trust :: "bool \<Rightarrow> vnc_session \<Rightarrow> vnc_session" where
  "vnc_op_answer_trust accept s =
     vnc_wake (s\<lparr>vs_trustAccepted := accept, vs_trustAnswered := True,
                 vs_quit := (vs_quit s \<or> \<not> accept)\<rparr>)"

definition vnc_stop :: "vnc_session \<Rightarrow> vnc_session" where
  "vnc_stop s =
     (let s = s\<lparr>vs_quit := True, vs_paused := False\<rparr>;
          s = (case vs_cl s of
                 None \<Rightarrow> s
               | Some cl \<Rightarrow> (case cl_sock cl of None \<Rightarrow> s | Some fd \<Rightarrow> vnc_emit (ShutdownSocket fd) s))
      in vnc_wake s)"

definition vnc_op_focus :: "bool \<Rightarrow> vnc_session \<Rightarrow> vnc_session" where
  "vnc_op_focus focused s = vnc_wake (s\<lparr>vs_paused := \<not> focused\<rparr>)"

definition vnc_op_view_only :: "bool \<Rightarrow> vnc_session \<Rightarrow> vnc_session" where
  "vnc_op_view_only v s = s\<lparr>vs_viewOnly := v\<rparr>"

definition vnc_op_can_resize :: "vnc_session \<Rightarrow> bool" where
  "vnc_op_can_resize s \<longleftrightarrow> vs_canResize s \<and> \<not> vs_viewOnly s"

definition vnc_op_request_desktop_size :: "int \<Rightarrow> int \<Rightarrow> vnc_session \<Rightarrow> vnc_session" where
  "vnc_op_request_desktop_size w h s =
     (if w > 0 \<and> h > 0 \<and> w \<le> 65535 \<and> h \<le> 65535 then vnc_post s (VNC_RESIZE w h) else s)"

text \<open>\<open>screens\<close> is \<open>None\<close> for NULL.\<close>

definition vnc_op_request_layout ::
  "bool \<Rightarrow> int \<Rightarrow> int \<Rightarrow> screen5 list option \<Rightarrow> vnc_session \<Rightarrow> vnc_session"
where
  "vnc_op_request_layout memory w h screens s =
     (case screens of
        None \<Rightarrow> s
      | Some m \<Rightarrow>
          if w \<le> 0 \<or> h \<le> 0 \<or> w > 65535 \<or> h > 65535 \<or> m = [] \<or> length m > 255 \<or> \<not> memory then s
          else vnc_post s (VNC_LAYOUT w h m))"

definition vento_libvnc_set_encodings :: "string option \<Rightarrow> int \<Rightarrow> int \<Rightarrow> vnc_session \<Rightarrow> vnc_session" where
  "vento_libvnc_set_encodings e c q s =
     (let s = s\<lparr>vs_encodings := e, vs_compressLevel := c, vs_qualityLevel := q, vs_encodingsChanged := True\<rparr>
      in if vs_quit s then s else vnc_wake s)"

text \<open>The calls of the table that change the session, and \<open>vento_libvnc_set_encodings\<close>.\<close>

datatype vnc_op =
    Op_pointer int int int
  | Op_key_down u32 int
  | Op_key_up int
  | Op_release_all_keys
  | Op_focus bool
  | Op_view_only bool
  | Op_request_desktop_size int int
  | Op_request_layout bool int int "screen5 list option"
  | Op_clipboard "bytes option"
  | Op_set_encodings "string option" int int
  | Op_answer_credentials "string option" "string option"
  | Op_answer_trust bool
  | Op_disconnect

fun vnc_op_step :: "vnc_op \<Rightarrow> vnc_session \<Rightarrow> vnc_session" where
  "vnc_op_step (Op_pointer x y m) s = vnc_post s (VNC_POINTER x y m)"
| "vnc_op_step (Op_key_down k i) s = vnc_post s (VNC_KEY_DOWN k i)"
| "vnc_op_step (Op_key_up i) s = vnc_post s (VNC_KEY_UP i)"
| "vnc_op_step Op_release_all_keys s = vnc_post s VNC_RELEASE_KEYS"
| "vnc_op_step (Op_focus f) s = vnc_op_focus f s"
| "vnc_op_step (Op_view_only v) s = vnc_op_view_only v s"
| "vnc_op_step (Op_request_desktop_size w h) s = vnc_op_request_desktop_size w h s"
| "vnc_op_step (Op_request_layout memory w h m) s = vnc_op_request_layout memory w h m s"
| "vnc_op_step (Op_clipboard t) s = vnc_post s (VNC_CLIPBOARD t)"
| "vnc_op_step (Op_set_encodings e c q) s = vento_libvnc_set_encodings e c q s"
| "vnc_op_step (Op_answer_credentials u p) s = vnc_op_answer_credentials u p s"
| "vnc_op_step (Op_answer_trust a) s = vnc_op_answer_trust a s"
| "vnc_op_step Op_disconnect s = vnc_stop s"

type_synonym schedule = "vnc_op list list"

fun others :: "schedule \<Rightarrow> vnc_session \<Rightarrow> schedule \<times> vnc_session" where
  "others [] s = ([], s)"
| "others (b # w) s = (w, fold vnc_op_step b s)"

section \<open>Prompts\<close>

text \<open>\<open>while (!done) pthread_cond_wait(...)\<close>\<close>

fun vnc_wait :: "(vnc_session \<Rightarrow> bool) \<Rightarrow> schedule \<Rightarrow> vnc_session \<Rightarrow> (schedule \<times> vnc_session) option" where
  "vnc_wait P [] s = (if P s then Some ([], s) else None)"
| "vnc_wait P (b # w) s = (if P s then Some (b # w, s) else vnc_wait P w (fold vnc_op_step b s))"

definition askCredentials :: "bool \<Rightarrow> schedule \<Rightarrow> vnc_session \<Rightarrow> (bool \<times> schedule \<times> vnc_session) option" where
  "askCredentials needsUserName w s =
     (let s = s\<lparr>vs_credWaiting := True, vs_credAnswered := False, vs_credUser := None, vs_credPass := None\<rparr>;
          s = vnc_emit (Callback (Credentials_needed needsUserName)) s
      in map_option (\<lambda>(w, s). (vs_credPass s \<noteq> None, w, s\<lparr>vs_credWaiting := False\<rparr>))
           (vnc_wait (\<lambda>s. vs_credAnswered s \<or> vs_quit s) w s))"

definition askIdentity :: "vento_callback \<Rightarrow> schedule \<Rightarrow> vnc_session \<Rightarrow> (bool \<times> schedule \<times> vnc_session) option" where
  "askIdentity ask w s =
     (let s = s\<lparr>vs_trustAnswered := False, vs_trustAccepted := False\<rparr>;
          s = vnc_emit (Callback ask) s
      in map_option (\<lambda>(w, s). (vs_trustAccepted s \<and> \<not> vs_quit s, w, s))
           (vnc_wait (\<lambda>s. vs_trustAnswered s \<or> vs_quit s) w s))"

section \<open>Messages of the library\<close>

definition remember :: "string \<Rightarrow> string" where
  "remember line = rev (dropWhile (\<lambda>c. c = CHR 0x0A \<or> c = CHR 0x0D) (rev (snprintf_s 256 line)))"

definition logInfo :: "string \<Rightarrow> vnc_session \<Rightarrow> vnc_session" where
  "logInfo text s = s\<lparr>vs_lastLine := remember (snprintf_s 256 text)\<rparr>"

definition logErr :: "string \<Rightarrow> vnc_session \<Rightarrow> vnc_session" where
  "logErr text s = s\<lparr>vs_lastError := remember (snprintf_s 256 text)\<rparr>"

definition forgetLastError :: "vnc_session \<Rightarrow> vnc_session" where
  "forgetLastError s = s\<lparr>vs_lastError := [], vs_lastLine := []\<rparr>"

definition takeLastError :: "nat \<Rightarrow> vnc_session \<Rightarrow> string" where
  "takeLastError sz s = snprintf_s sz (if vs_lastError s \<noteq> [] then vs_lastError s else vs_lastLine s)"

section \<open>Authentication\<close>

text \<open>\<open>%02X\<close>\<close>

definition hex_digit :: "nat \<Rightarrow> char" where
  "hex_digit n = char_of (if n < 10 then 48 + n else 55 + n)"

definition hex2 :: "u8 \<Rightarrow> string" where
  "hex2 b = [hex_digit (unat b div 16), hex_digit (unat b mod 16)]"

text \<open>Two digits and a colon for each byte, the last colon replaced by the terminator.\<close>

definition fingerprint :: "bytes \<Rightarrow> string" where
  "fingerprint sha256 = butlast (concat (map (\<lambda>b. hex2 b @ '':'') sha256))"

definition onCertMismatch :: "bytes \<Rightarrow> schedule \<Rightarrow> vnc_session \<Rightarrow> (bool \<times> schedule \<times> vnc_session) option" where
  "onCertMismatch sha256 w s =
     (if length sha256 \<noteq> 32 then Some (False, w, s)
      else askIdentity (Trust_needed (fingerprint sha256)) w s)"

definition onConfirmAnonymousTLS :: "schedule \<Rightarrow> vnc_session \<Rightarrow> (bool \<times> schedule \<times> vnc_session) option" where
  "onConfirmAnonymousTLS w s =
     (if \<not> vs_anonymousTls s then
        Some (False, w, logErr (''This server only offers encryption without a peer certificate, which is not enabled for this connection.'' @ [CHR 0x0A]) s)
      else askIdentity (Unverified ''This server offers encryption without a peer certificate.'') w s)"

definition onGetPassword :: "schedule \<Rightarrow> vnc_session \<Rightarrow> (string option \<times> schedule \<times> vnc_session) option" where
  "onGetPassword w s =
     (if vs_storedPass s \<noteq> None \<and> \<not> vs_storedPassUsed s then
        Some (vs_storedPass s, w, s\<lparr>vs_storedPassUsed := True\<rparr>)
      else case askCredentials False w s of
        None \<Rightarrow> None
      | Some (ok, w, s) \<Rightarrow> Some (if ok then vs_credPass s else None, w, s))"

datatype credential_type = rfbCredentialTypeX509 | rfbCredentialTypeUser | Credential_type_other

datatype rfb_credential = X509_empty | User_credential string string

definition onGetCredential ::
  "credential_type \<Rightarrow> rfbClient \<Rightarrow> schedule \<Rightarrow> vnc_session \<Rightarrow>
   (rfb_credential option \<times> schedule \<times> vnc_session) option"
where
  "onGetCredential type cl w s =
     (case type of
        rfbCredentialTypeX509 \<Rightarrow> Some (Some X509_empty, w, s)
      | Credential_type_other \<Rightarrow> Some (None, w, s)
      | rfbCredentialTypeUser \<Rightarrow>
          if cl_subAuthScheme cl = rfbVeNCryptPlain then
            Some (None, w, logErr (''The remote server is requesting plaintext credentials (VeNCrypt Plain), which are not supported by this app.'' @ [CHR 0x0A]) s)
          else if vs_storedPass s \<noteq> None \<and> \<not> vs_storedPassUsed s then
            Some (Some (User_credential (case vs_storedUser s of Some u \<Rightarrow> u | None \<Rightarrow> []) (the (vs_storedPass s))),
                  w, s\<lparr>vs_storedPassUsed := True\<rparr>)
          else case askCredentials True w s of
            None \<Rightarrow> None
          | Some (ok, w, s) \<Rightarrow>
              Some (if ok then Some (User_credential (case vs_credUser s of Some u \<Rightarrow> u | None \<Rightarrow> [])
                                       (case vs_credPass s of Some p \<Rightarrow> p | None \<Rightarrow> []))
                    else None, w, s))"

section \<open>The library's calls\<close>

datatype vnc_hook =
    Display_hook vnc_display
  | Cursor_hook bool "bytes option" "bytes option" int int int int int
  | Bell_hook
  | Cut_text_hook bool "bytes option"
  | Get_password
  | Get_credential credential_type
  | Cert_mismatch bytes
  | Confirm_anonymous
  | Log_info string
  | Log_err string
  | Handshake_client "rfbClient \<Rightarrow> rfbClient"  \<comment> \<open>what the library writes into its own client\<close>

datatype hook_result =
    Done
  | Answer bool
  | Password "string option"
  | Credential "rfb_credential option"

text \<open>The library writes anything but the fields the session hands it as its own.\<close>

definition library_writes :: "(rfbClient \<Rightarrow> rfbClient) \<Rightarrow> rfbClient \<Rightarrow> rfbClient" where
  "library_writes f cl =
     (let cl' = f cl
      in cl\<lparr>cl_siFormat := cl_siFormat cl', cl_authScheme := cl_authScheme cl',
            cl_subAuthScheme := cl_subAuthScheme cl', cl_major := cl_major cl', cl_minor := cl_minor cl',
            cl_desktopName := cl_desktopName cl', cl_bytesRcvd := cl_bytesRcvd cl',
            cl_bytesSent := cl_bytesSent cl', cl_requestedResize := cl_requestedResize cl'\<rparr>)"

fun run_hook ::
  "rfb_lib \<Rightarrow> vnc_hook \<Rightarrow> schedule \<Rightarrow> vnc_session \<Rightarrow> (hook_result \<times> schedule \<times> vnc_session) option"
where
  "run_hook lib (Display_hook d) w s = Some (Done, w, vnc_display_step lib s d)"
| "run_hook lib (Cursor_hook memory src m xh yh wd ht bpp) w s =
     Some (Done, w, onGotCursor memory src m xh yh wd ht bpp s)"
| "run_hook lib Bell_hook w s = Some (Done, w, onBell s)"
| "run_hook lib (Cut_text_hook memory t) w s = Some (Done, w, onCutText memory t s)"
| "run_hook lib Get_password w s = map_option (\<lambda>(p, w, s). (Password p, w, s)) (onGetPassword w s)"
| "run_hook lib (Get_credential t) w s =
     (case vs_cl s of
        None \<Rightarrow> Some (Credential None, w, s)
      | Some cl \<Rightarrow> map_option (\<lambda>(c, w, s). (Credential c, w, s)) (onGetCredential t cl w s))"
| "run_hook lib (Cert_mismatch sha) w s = map_option (\<lambda>(a, w, s). (Answer a, w, s)) (onCertMismatch sha w s)"
| "run_hook lib Confirm_anonymous w s =
     map_option (\<lambda>(a, w, s). (Answer a, w, s)) (onConfirmAnonymousTLS w s)"
| "run_hook lib (Log_info t) w s = Some (Done, w, logInfo t s)"
| "run_hook lib (Log_err t) w s = Some (Done, w, logErr t s)"
| "run_hook lib (Handshake_client f) w s =
     Some (Done, w, with_client (\<lambda>s cl. (s, library_writes f cl)) s)"

type_synonym library = "hook_result list \<Rightarrow> vnc_hook + bool"

fun run_library ::
  "rfb_lib \<Rightarrow> library \<Rightarrow> nat \<Rightarrow> hook_result list \<Rightarrow> schedule \<Rightarrow> vnc_session \<Rightarrow>
   (bool \<times> schedule \<times> vnc_session) option"
where
  "run_library lib nxt 0 rs w s = None"
| "run_library lib nxt (Suc fuel) rs w s =
     (let (w, s) = others w s
      in case nxt rs of
           Inr ok \<Rightarrow> Some (ok, w, s)
         | Inl h \<Rightarrow>
             (case run_hook lib h w s of
                None \<Rightarrow> None
              | Some (r, w, s) \<Rightarrow> run_library lib nxt fuel (rs @ [r]) w s))"

section \<open>The dial\<close>

datatype errno = ETIMEDOUT | ECANCELED | EHOSTUNREACH | EINTR | Errno string

definition drainWake :: "vnc_session \<Rightarrow> vnc_session" where
  "drainWake s = s\<lparr>vs_wake := False\<rparr>"

definition vnc_quitting :: "vnc_session \<Rightarrow> bool" where
  "vnc_quitting s \<longleftrightarrow> vs_quit s"

text \<open>
  One turn of the loop of \<open>waitConnected\<close>: the milliseconds since it began, what other threads
  did, and what \<open>poll\<close> returns: an error, or whether the socket is ready and its \<open>SO_ERROR\<close>
  (\<open>None\<close> for 0).  The wake pipe is readable when it has bytes.
\<close>

record wait_turn =
  wt_elapsed :: int
  wt_ops :: "vnc_op list"
  wt_poll :: "errno + errno option option"

fun waitConnected :: "int \<Rightarrow> wait_turn list \<Rightarrow> vnc_session \<Rightarrow> (errno option \<times> vnc_session) option" where
  "waitConnected timeoutMs [] s = None"
| "waitConnected timeoutMs (t # ts) s =
     (let s = fold vnc_op_step (wt_ops t) s
      in if wt_elapsed t \<ge> timeoutMs then Some (Some ETIMEDOUT, s)
         else case wt_poll t of
           Inl e \<Rightarrow> if e = EINTR then waitConnected timeoutMs ts s else Some (Some e, s)
         | Inr ready \<Rightarrow>
             let woken = vs_wake s; s = (if woken then drainWake s else s)
             in if woken \<and> vnc_quitting s then Some (Some ECANCELED, s)
                else case ready of
                  Some soError \<Rightarrow> Some (soError, s)
                | None \<Rightarrow> waitConnected timeoutMs ts s)"

text \<open>An address \<open>getaddrinfo\<close> gave, as what happens when it is tried.\<close>

datatype dial_outcome =
    Socket_fails errno
  | Fcntl_fails int errno
  | Connects int
  | Connect_fails int errno
  | In_progress int "wait_turn list"

fun dial_addresses ::
  "int \<Rightarrow> dial_outcome list \<Rightarrow> errno \<Rightarrow> vnc_session \<Rightarrow> (int option \<times> errno \<times> vnc_session) option"
where
  "dial_addresses timeoutMs [] err s = Some (None, err, s)"
| "dial_addresses timeoutMs (a # as) err s =
     (if err = ECANCELED then Some (None, err, s)
      else case a of
        Socket_fails e \<Rightarrow> dial_addresses timeoutMs as e s
      | Fcntl_fails fd e \<Rightarrow> dial_addresses timeoutMs as e (vnc_emit (CloseSocket fd) s)
      | Connects fd \<Rightarrow> Some (Some fd, err, s)
      | Connect_fails fd e \<Rightarrow> dial_addresses timeoutMs as e (vnc_emit (CloseSocket fd) s)
      | In_progress fd turns \<Rightarrow>
          (case waitConnected timeoutMs turns s of
             None \<Rightarrow> None
           | Some (None, s) \<Rightarrow> Some (Some fd, err, s)
           | Some (Some e, s) \<Rightarrow> dial_addresses timeoutMs as e (vnc_emit (CloseSocket fd) s)))"

text \<open>\<open>strerror\<close> is a parameter, as is what \<open>getaddrinfo\<close> gives: \<open>Inl\<close> its error text.\<close>

definition dial ::
  "(errno \<Rightarrow> string) \<Rightarrow> string + dial_outcome list \<Rightarrow> string \<Rightarrow> int \<Rightarrow> vnc_session \<Rightarrow> (int option \<times> vnc_session) option"
where
  "dial strerror addresses host timeoutMs s =
     (case addresses of
        Inl gai \<Rightarrow> Some (None, logErr (''Could not find '' @ host @ '': '' @ gai) s)
      | Inr as \<Rightarrow>
          (case dial_addresses timeoutMs as EHOSTUNREACH s of
             None \<Rightarrow> None
           | Some (Some fd, err, s) \<Rightarrow> Some (Some fd, s)
           | Some (None, err, s) \<Rightarrow>
               Some (None, if err \<noteq> ECANCELED
                           then logErr (''Unable to connect to VNC server: '' @ strerror err) s else s)))"

text \<open>
  What the connection attempt meets: whether the host is a socket path (then what
  \<open>rfbClientConnect\<close> returns), the addresses, and the library's handshake.
\<close>

record vnc_network =
  nw_socket_path :: "int option option"
  nw_addresses :: "string + dial_outcome list"
  nw_handshake :: library
  nw_fuel :: nat

definition set_sock :: "int option \<Rightarrow> vnc_session \<Rightarrow> vnc_session" where
  "set_sock fd s = with_client (\<lambda>s cl. (s, cl\<lparr>cl_sock := fd\<rparr>)) s"

definition vnc_connect ::
  "(errno \<Rightarrow> string) \<Rightarrow> vnc_network \<Rightarrow> schedule \<Rightarrow> vnc_session \<Rightarrow> (bool \<times> schedule \<times> vnc_session) option"
where
  "vnc_connect strerror nw w s =
     (case nw_socket_path nw of
        Some fd \<Rightarrow> Some (fd \<noteq> None, w, set_sock fd s)
      | None \<Rightarrow>
          let timeoutMs = (if vs_connectTimeoutMs s > 0 then vs_connectTimeoutMs s else 20000);
              host = (case vs_cl s of Some cl \<Rightarrow> cl_serverHost cl | None \<Rightarrow> [])
          in case dial strerror (nw_addresses nw) host timeoutMs s of
               None \<Rightarrow> None
             | Some (None, s) \<Rightarrow> Some (False, w, s)
             | Some (Some fd, s) \<Rightarrow>
                 let (w, s) = others w s
                 in if vs_quit s then Some (False, w, vnc_emit (CloseSocket fd) s)
                    else Some (True, w, set_sock (Some fd) s))"

definition initClient ::
  "rfb_lib \<Rightarrow> (errno \<Rightarrow> string) \<Rightarrow> vnc_network \<Rightarrow> schedule \<Rightarrow> vnc_session \<Rightarrow> (bool \<times> schedule \<times> vnc_session) option"
where
  "initClient lib strerror nw w s =
     (case vnc_connect strerror nw w s of
        None \<Rightarrow> None
      | Some (False, w, s) \<Rightarrow> Some (False, w, publishClient None s)
      | Some (True, w, s) \<Rightarrow>
          (case run_library lib (nw_handshake nw) (nw_fuel nw) [] w s of
             None \<Rightarrow> None
           | Some (True, w, s) \<Rightarrow> Some (True, w, s)
           | Some (False, w, s) \<Rightarrow> Some (False, w, publishClient None s)))"

section \<open>The protocol thread\<close>

text \<open>
  One turn of the main loop: how long the drain may take and what other threads do between two
  of its commands, whether the library or the TLS session has bytes buffered, what
  \<open>poll\<close> returns (\<open>Inl\<close> an error, \<open>Inr\<close> whether the socket has input and whether it failed), and
  the library's handling of the message, if one is read.
\<close>

record loop_turn =
  lt_drain_fuel :: nat
  lt_during :: "nat \<Rightarrow> vnc_op list"
  lt_pending :: bool
  lt_poll :: "errno + (bool \<times> bool)"
  lt_message :: library
  lt_fuel :: nat

text \<open>The rest of a turn, once the queue is empty; the flag says whether the loop goes on.\<close>

definition vnc_poll_turn ::
  "rfb_lib \<Rightarrow> loop_turn \<Rightarrow> schedule \<Rightarrow> vnc_session \<Rightarrow> (bool \<times> schedule \<times> vnc_session) option"
where
  "vnc_poll_turn lib t w s =
     (let paused = vs_paused s;
          handle = run_library lib (lt_message t) (lt_fuel t) []
      in if \<not> paused \<and> lt_pending t then handle w s
         else
           let polled = (\<not> paused \<and> (case vs_cl s of Some cl \<Rightarrow> cl_sock cl \<noteq> None | None \<Rightarrow> False))
           in case lt_poll t of
                Inl e \<Rightarrow> Some (e = EINTR, w, s)
              | Inr (input, failed) \<Rightarrow>
                  let s = (if vs_wake s then drainWake s else s)
                  in if polled \<and> input then handle w s
                     else Some (\<not> (polled \<and> failed), w, s))"

definition vnc_turn ::
  "rfb_lib \<Rightarrow> rfb_write \<Rightarrow> (nat \<Rightarrow> bool) \<Rightarrow> loop_turn \<Rightarrow> schedule \<Rightarrow> vnc_session \<Rightarrow> (bool \<times> schedule \<times> vnc_session) option"
where
  "vnc_turn lib write malloc t w s =
     (let (w, s) = others w s
      in case vnc_drain lib write malloc (lt_drain_fuel t) (\<lambda>n. fold vnc_op_step (lt_during t n)) s of
           None \<Rightarrow> None
         | Some (quit, s) \<Rightarrow>
             if quit then Some (False, w, s)
             else let (w, s) = others w s in vnc_poll_turn lib t w s)"

fun vnc_loop ::
  "rfb_lib \<Rightarrow> rfb_write \<Rightarrow> (nat \<Rightarrow> bool) \<Rightarrow> loop_turn list \<Rightarrow> schedule \<Rightarrow> vnc_session \<Rightarrow> (schedule \<times> vnc_session) option"
where
  "vnc_loop lib write malloc [] w s = None"
| "vnc_loop lib write malloc (t # ts) w s =
     (case vnc_turn lib write malloc t w s of
        None \<Rightarrow> None
      | Some (go, w, s) \<Rightarrow> if go then vnc_loop lib write malloc ts w s else Some (w, s))"

text \<open>The client the thread sets up, from the one \<open>rfbGetClient\<close> gave.\<close>

definition vnc_setup :: "rfbClient \<Rightarrow> vnc_session \<Rightarrow> vnc_session" where
  "vnc_setup cl s =
     (let (s, cl) = setColorFormat s cl;
          cl = cl\<lparr>cl_useRemoteCursor := True, cl_shareDesktop := vs_shared s, cl_canHandleNewFBSize := True\<rparr>;
          (s, cl) = takeEncodings s cl;
          cl = cl\<lparr>cl_connectTimeout := (if vs_connectTimeoutMs s > 0 then (vs_connectTimeoutMs s + 999) div 1000 else 20),
                  cl_serverHost := (case vs_host s of Some h \<Rightarrow> h | None \<Rightarrow> []), cl_serverPort := vs_port s\<rparr>
      in publishClient (Some cl) s)"

text \<open>\<open>vnc_env\<close> is everything outside the session that the thread meets.\<close>

record vnc_env =
  ev_lib :: rfb_lib
  ev_write :: rfb_write
  ev_malloc :: "nat \<Rightarrow> bool"
  ev_strerror :: "errno \<Rightarrow> string"
  ev_number :: "rfb_vencrypt \<Rightarrow> nat"
  ev_client :: "rfbClient option"  \<comment> \<open>\<open>rfbGetClient\<close>\<close>
  ev_network :: vnc_network
  ev_turns :: "loop_turn list"

definition vnc_protocolThread :: "vnc_env \<Rightarrow> schedule \<Rightarrow> vnc_session \<Rightarrow> (schedule \<times> vnc_session) option" where
  "vnc_protocolThread ev w s =
     (if vs_addressError s \<noteq> [] then
        Some (w, vnc_fireClosed (ev_malloc ev) (Some (bytes_of (vs_addressError s))) s)
      else case ev_client ev of
        None \<Rightarrow> Some (w, vnc_fireClosed (ev_malloc ev) (Some (bytes_of ''Out of memory'')) s)
      | Some cl \<Rightarrow>
          (case initClient (ev_lib ev) (ev_strerror ev) (ev_network ev) w (forgetLastError (vnc_setup cl s)) of
             None \<Rightarrow> None
           | Some (False, w, s) \<Rightarrow>
               let (w, s) = others w s; cancelled = vs_quit s; why = takeLastError 256 s
               in Some (w, vnc_fireClosed (ev_malloc ev)
                    (Some (bytes_of (if cancelled then [] else if why \<noteq> [] then why else ''Could not connect''))) s)
           | Some (True, w, s) \<Rightarrow>
               let s = (case vs_cl s of Some cl \<Rightarrow> publishFacts (ev_malloc ev) (ev_number ev) cl s | None \<Rightarrow> s)
               in case vnc_loop (ev_lib ev) (ev_write ev) (ev_malloc ev) (ev_turns ev) w s of
                    None \<Rightarrow> None
                  | Some (w, s) \<Rightarrow>
                      let (w, s) = others w s; asked = vs_quit s; s = publishClient None s
                      in Some (w, vnc_fireClosed (ev_malloc ev)
                           (Some (bytes_of (if asked then [] else ''The connection was lost''))) s)))"

section \<open>What every step keeps\<close>

text \<open>
  No step but \<open>fireClosed\<close> reports the end or touches the flag that it was reported, and a
  session asked to end stays so.
\<close>

definition closed_of :: "vnc_session \<Rightarrow> vento_callback list" where
  "closed_of s = filter is_closed (vnc_callbacks (vs_trace s))"

definition goes_on :: "vnc_session \<Rightarrow> vnc_session \<Rightarrow> bool" where
  "goes_on s s' \<longleftrightarrow>
     vs_closedReported s' = vs_closedReported s \<and> closed_of s' = closed_of s \<and> (vs_quit s \<longrightarrow> vs_quit s')"

lemma goes_on_refl [simp]: "goes_on s s"
  by (simp add: goes_on_def)

lemma goes_on_trans: "goes_on a b \<Longrightarrow> goes_on b c \<Longrightarrow> goes_on a c"
  by (auto simp: goes_on_def)

lemma vnc_callbacks_append: "vnc_callbacks (a @ b) = vnc_callbacks a @ vnc_callbacks b"
  by (induction a rule: vnc_callbacks.induct) simp_all

fun not_closed :: "vnc_event \<Rightarrow> bool" where
  "not_closed (Callback c) = (\<not> is_closed c)"
| "not_closed _ = True"

lemma closed_of_extend:
  "vs_trace s' = vs_trace s @ es \<Longrightarrow> list_all not_closed es \<Longrightarrow> closed_of s' = closed_of s"
proof -
  have "filter is_closed (vnc_callbacks es) = []" if "list_all not_closed es"
    using that by (induction es rule: vnc_callbacks.induct) auto
  then show "vs_trace s' = vs_trace s @ es \<Longrightarrow> list_all not_closed es \<Longrightarrow> closed_of s' = closed_of s"
    by (simp add: closed_of_def vnc_callbacks_append)
qed

lemma goes_onI:
  "vs_closedReported s' = vs_closedReported s \<Longrightarrow> vs_trace s' = vs_trace s @ es \<Longrightarrow> list_all not_closed es \<Longrightarrow>
   (vs_quit s \<Longrightarrow> vs_quit s') \<Longrightarrow> goes_on s s'"
  using closed_of_extend by (auto simp: goes_on_def)

lemma goes_on_same:
  "vs_closedReported s' = vs_closedReported s \<Longrightarrow> vs_trace s' = vs_trace s \<Longrightarrow> (vs_quit s \<Longrightarrow> vs_quit s') \<Longrightarrow>
   goes_on s s'"
  by (rule goes_onI [of _ _ "[]"]) simp_all

lemma goes_on_emit: "not_closed e \<Longrightarrow> goes_on s (vnc_emit e s)"
  by (rule goes_onI [of _ _ "[e]"]) (simp_all add: vnc_simps)

lemma goes_on_post: "goes_on s (vnc_post s c)"
  by (rule goes_on_same) (simp_all add: vnc_post_def vnc_wake_def ring_push_def Let_def)

lemma goes_on_op: "goes_on s (vnc_op_step a s)"
proof (cases a)
  case Op_disconnect
  have "goes_on s (vnc_wake (vnc_emit e (s\<lparr>vs_quit := True, vs_paused := False\<rparr>)))" if "not_closed e" for e
    using that by (intro goes_onI [of _ _ "[e]"]) (simp_all add: vnc_wake_def vnc_simps)
  moreover have "goes_on s (vnc_wake (s\<lparr>vs_quit := True, vs_paused := False\<rparr>))"
    by (rule goes_on_same) (simp_all add: vnc_wake_def)
  ultimately show ?thesis
    using Op_disconnect by (auto simp: vnc_stop_def Let_def split: option.splits)
qed (auto simp: vnc_op_answer_credentials_def vnc_op_answer_trust_def vnc_op_focus_def vnc_op_view_only_def
    vnc_op_request_desktop_size_def vnc_op_request_layout_def vento_libvnc_set_encodings_def vnc_wake_def
    Let_def goes_on_post intro!: goes_on_same split: option.splits)

lemma goes_on_ops: "goes_on s (fold vnc_op_step b s)"
  by (induction b arbitrary: s) (auto intro: goes_on_trans goes_on_op)

lemma goes_on_others: "others w s = (w', s') \<Longrightarrow> goes_on s s'"
  by (cases w) (auto simp: goes_on_ops)

lemma goes_on_wait: "vnc_wait P w s = Some (w', s') \<Longrightarrow> goes_on s s'"
  by (induction P w s rule: vnc_wait.induct) (auto intro: goes_on_trans goes_on_ops split: if_splits)

lemma goes_on_with_client:
  "(\<And>cl. vs_cl s = Some cl \<Longrightarrow> goes_on s (fst (f s cl))) \<Longrightarrow> goes_on s (with_client f s)"
  by (auto simp: with_client_def goes_on_def closed_of_def split: option.splits prod.splits)

lemma goes_on_display: "goes_on s (vnc_display_step lib s d)"
proof (cases d)
  case (Malloc_framebuffer memory w h)
  have "goes_on s (fst (snd (onMallocFrameBuffer memory s cl)))" for cl
  proof (cases "cl_width cl \<le> 0 \<or> cl_height cl \<le> 0 \<or> \<not> memory")
    case False
    then show ?thesis
      by (intro goes_onI [of _ _ "[Callback (if vs_connected s then Desktop_size (cl_width cl) (cl_height cl)
          else Connected (cl_width cl) (cl_height cl))]"])
        (simp_all add: onMallocFrameBuffer_def Let_def vnc_emit_def)
  qed (auto simp: onMallocFrameBuffer_def Let_def)
  with Malloc_framebuffer show ?thesis by (auto intro: goes_on_with_client)
next
  case (Finished_update memory)
  have "goes_on s (onFinishedUpdate lib memory cl s)" for cl
  proof (rule goes_onI [OF _ onFinishedUpdate_trace])
    show "list_all not_closed (if vs_dirty s = [] then []
        else map (\<lambda>r. Callback (damage_callback r)) (snd (vnc_copy s cl)) @ [Callback Frame_end])"
      by (auto simp: list_all_iff damage_callback_def)
  qed (simp_all add: onFinishedUpdate_def layoutChanged_def Let_def fold_vnc_emit vnc_emit_def split: prod.splits)
  with Finished_update show ?thesis by (auto intro: goes_on_with_client)
qed (auto simp: onGotUpdate_def Let_def intro!: goes_on_with_client goes_on_same)

lemma goes_on_write_screens: "goes_on s (snd (write_screens w cs s))"
proof (induction cs arbitrary: s)
  case (Cons c cs)
  from goes_on_trans [OF goes_on_emit [of "WriteScreen c" s] Cons.IH] show ?case by simp
qed simp

lemma goes_on_sendLayout: "goes_on s (fst (snd (vnc_sendLayout lib w cl width height out s)))"
  by (auto simp: vnc_sendLayout_def Let_def case_prod_unfold
      intro: goes_on_trans [OF goes_on_emit] goes_on_trans [OF goes_on_write_screens] goes_on_emit
      goes_on_trans [OF goes_on_emit goes_on_trans [OF goes_on_write_screens goes_on_emit]]
      goes_on_trans [OF goes_on_emit goes_on_write_screens])

lemma goes_on_send_layout: "goes_on s (send_layout lib w width height flat s)"
  unfolding send_layout_def
  by (rule goes_on_with_client) (auto simp: goes_on_sendLayout split: option.splits)

lemma goes_on_set_keys: "goes_on s (s\<lparr>vs_keys := ks\<rparr>)"
  by (rule goes_on_same) simp_all

lemma goes_on_emits: "list_all not_closed (map f ks) \<Longrightarrow> goes_on s (fold (\<lambda>k. vnc_emit (f k)) ks s)"
  by (rule goes_onI [of _ _ "map f ks"]) (simp_all add: fold_vnc_emit)

lemma goes_on_runCmd: "goes_on s (vnc_runCmd lib w malloc c s)"
  by (cases c)
    (auto simp: vnc_key_down_def vnc_key_up_def vnc_release_keys_def Let_def goes_on_send_layout list_all_iff
      intro: goes_on_emit goes_on_set_keys goes_on_trans [OF goes_on_emit goes_on_set_keys]
        goes_on_trans [OF goes_on_set_keys goes_on_emit] goes_on_trans [OF goes_on_emits goes_on_set_keys]
      split: option.splits)

lemma goes_on_takeEncodings: "goes_on s (fst (takeEncodings s cl))"
  by (rule goes_on_same) (simp_all add: takeEncodings_def)

lemma goes_on_applyEncodings: "goes_on s (applyEncodings s)"
  by (auto simp: applyEncodings_def split: option.splits
      intro: goes_on_trans [OF goes_on_with_client goes_on_emit] goes_on_takeEncodings)

lemma vnc_pop_goes_on: "vnc_pop s = Some (c, s') \<Longrightarrow> goes_on s s'"
  by (rule goes_on_same) (auto simp: vnc_pop_def Let_def split: if_splits)

lemma goes_on_drain:
  "(\<And>n s. goes_on s (oth n s)) \<Longrightarrow> vnc_drain lib w malloc fuel oth s = Some (q, s') \<Longrightarrow> goes_on s s'"
proof (induction lib w malloc fuel oth s rule: vnc_drain.induct)
  case (2 lib w malloc fuel oth s)
  show ?case
  proof (cases "vnc_pop s")
    case None
    with 2 show ?thesis by (auto simp: Let_def goes_on_applyEncodings split: if_splits)
  next
    case (Some p)
    obtain c s1 where p: "p = (c, s1)" by (cases p)
    have "goes_on (oth fuel (vnc_runCmd lib w malloc c s1)) s'"
      using 2 Some p by auto
    then show ?thesis
      using vnc_pop_goes_on Some p goes_on_runCmd 2(2) by (metis goes_on_trans)
  qed
qed simp

lemma goes_on_askCredentials: "askCredentials n w s = Some (ok, w', s') \<Longrightarrow> goes_on s s'"
proof -
  assume "askCredentials n w s = Some (ok, w', s')"
  then obtain s1 where w: "vnc_wait (\<lambda>s. vs_credAnswered s \<or> vs_quit s) w
      (vnc_emit (Callback (Credentials_needed n)) (s\<lparr>vs_credWaiting := True, vs_credAnswered := False,
        vs_credUser := None, vs_credPass := None\<rparr>)) = Some (w', s1)" and s': "s' = s1\<lparr>vs_credWaiting := False\<rparr>"
    by (auto simp: askCredentials_def Let_def)
  have "goes_on s (vnc_emit (Callback (Credentials_needed n)) (s\<lparr>vs_credWaiting := True, vs_credAnswered := False,
        vs_credUser := None, vs_credPass := None\<rparr>))"
    by (rule goes_onI [of _ _ "[Callback (Credentials_needed n)]"]) (simp_all add: vnc_simps)
  moreover have "goes_on s1 s'" by (rule goes_on_same) (simp_all add: s')
  ultimately show ?thesis using goes_on_wait [OF w] goes_on_trans by blast
qed

lemma goes_on_askIdentity: "\<not> is_closed a \<Longrightarrow> askIdentity a w s = Some (ok, w', s') \<Longrightarrow> goes_on s s'"
proof -
  assume a: "\<not> is_closed a" and "askIdentity a w s = Some (ok, w', s')"
  then have w: "vnc_wait (\<lambda>s. vs_trustAnswered s \<or> vs_quit s) w
      (vnc_emit (Callback a) (s\<lparr>vs_trustAnswered := False, vs_trustAccepted := False\<rparr>)) = Some (w', s')"
    by (auto simp: askIdentity_def Let_def)
  have "goes_on s (vnc_emit (Callback a) (s\<lparr>vs_trustAnswered := False, vs_trustAccepted := False\<rparr>))"
    by (rule goes_onI [of _ _ "[Callback a]"]) (simp_all add: vnc_simps a)
  then show ?thesis using goes_on_wait [OF w] goes_on_trans by blast
qed

lemma goes_on_logs: "goes_on s (logInfo t s)" "goes_on s (logErr t s)" "goes_on s (forgetLastError s)"
  by (auto intro!: goes_on_same simp: logInfo_def logErr_def forgetLastError_def)

lemma goes_on_storedPassUsed: "goes_on s (s\<lparr>vs_storedPassUsed := b\<rparr>)"
  by (rule goes_on_same) simp_all

lemma goes_on_onGetPassword: "onGetPassword w s = Some (p, w', s') \<Longrightarrow> goes_on s s'"
  by (auto simp: onGetPassword_def goes_on_storedPassUsed dest: goes_on_askCredentials
      split: if_splits option.splits)

lemma goes_on_onGetCredential: "onGetCredential t cl w s = Some (p, w', s') \<Longrightarrow> goes_on s s'"
  by (auto simp: onGetCredential_def goes_on_storedPassUsed goes_on_logs dest: goes_on_askCredentials
      split: if_splits option.splits credential_type.splits)

lemma goes_on_hook: "run_hook lib h w s = Some (r, w', s') \<Longrightarrow> goes_on s s'"
proof (cases h)
  case (Handshake_client f)
  assume "run_hook lib h w s = Some (r, w', s')"
  with Handshake_client show ?thesis by (auto intro: goes_on_with_client)
qed (auto simp: goes_on_display onGotCursor_def onBell_def onCutText_def goes_on_logs onCertMismatch_def
    onConfirmAnonymousTLS_def
    intro: goes_on_emit dest: goes_on_onGetPassword goes_on_onGetCredential goes_on_askIdentity [rotated]
    split: option.splits if_splits)

lemma goes_on_library: "run_library lib nxt fuel rs w s = Some (ok, w', s') \<Longrightarrow> goes_on s s'"
proof (induction lib nxt fuel rs w s rule: run_library.induct)
  case (2 lib nxt fuel rs w s)
  obtain w1 s1 where o: "others w s = (w1, s1)" by (cases "others w s")
  show ?case
  proof (cases "nxt rs")
    case (Inl h)
    obtain r w2 s2 where h: "run_hook lib h w1 s1 = Some (r, w2, s2)"
      and rest: "run_library lib nxt fuel (rs @ [r]) w2 s2 = Some (ok, w', s')"
      using 2(2) o Inl by (auto split: option.splits)
    have "goes_on s2 s'" using 2(1) [OF o [symmetric] refl Inl h] rest by simp
    with goes_on_others [OF o] goes_on_hook [OF h] show ?thesis by (metis goes_on_trans)
  next
    case (Inr b)
    with 2(2) o goes_on_others [OF o] show ?thesis by simp
  qed
qed simp

lemma goes_on_drainWake: "goes_on s (if b then drainWake s else s)"
  by (rule goes_on_same) (simp_all add: drainWake_def)

lemma goes_on_waitConnected: "waitConnected ms ts s = Some (e, s') \<Longrightarrow> goes_on s s'"
proof (induction ms ts s rule: waitConnected.induct)
  case (2 ms t ts s)
  let ?s = "fold vnc_op_step (wt_ops t) s"
  have a: "goes_on s ?s" by (rule goes_on_ops)
  have b: "goes_on s (if vs_wake ?s then drainWake ?s else ?s)"
    using goes_on_trans [OF a goes_on_drainWake] by blast
  show ?case
    using 2 a b by (auto simp: Let_def split: if_splits sum.splits option.splits intro: goes_on_trans)
qed simp

lemma goes_on_dial_addresses: "dial_addresses ms as err s = Some (fd, e, s') \<Longrightarrow> goes_on s s'"
proof (induction ms as err s rule: dial_addresses.induct)
  case (2 ms a as err s)
  have c: "goes_on s1 s'" if "goes_on (vnc_emit (CloseSocket n) s1) s'" for n s1
    using goes_on_trans [OF goes_on_emit that] by simp
  have d: "goes_on s s'" if "goes_on s s1" "goes_on (vnc_emit (CloseSocket n) s1) s'" for n s1
    using goes_on_trans [OF that(1) c [OF that(2)]] .
  show ?case
  proof (cases a)
    case (In_progress n turns)
    show ?thesis
    proof (cases "err = ECANCELED")
      case False
      with 2(5) In_progress obtain r s1 where wc: "waitConnected ms turns s = Some (r, s1)"
        by (auto split: option.splits)
      note s1 = goes_on_waitConnected [OF wc]
      show ?thesis
      proof (cases r)
        case None
        with 2(5) In_progress False wc s1 show ?thesis by auto
      next
        case (Some e1)
        then have "dial_addresses ms as e1 (vnc_emit (CloseSocket n) s1) = Some (fd, e, s')"
          using 2(5) In_progress False wc by simp
        from d [OF s1 2(4) [OF False In_progress wc refl Some this]] show ?thesis .
      qed
    qed (use 2(5) In_progress in simp)
  qed (use 2 in \<open>auto split: if_splits intro: c\<close>)
qed simp

lemma goes_on_dial: "dial strerror as host ms s = Some (fd, s') \<Longrightarrow> goes_on s s'"
  by (auto simp: dial_def goes_on_logs intro: goes_on_trans [OF _ goes_on_logs(2)] dest!: goes_on_dial_addresses
      split: sum.splits option.splits if_splits)

lemma goes_on_set_sock: "goes_on s (set_sock fd s)"
  unfolding set_sock_def by (rule goes_on_with_client) simp

lemma goes_on_connect: "vnc_connect strerror nw w s = Some (ok, w', s') \<Longrightarrow> goes_on s s'"
proof -
  assume c: "vnc_connect strerror nw w s = Some (ok, w', s')"
  show ?thesis
  proof (cases "nw_socket_path nw")
    case (Some fd)
    with c goes_on_set_sock show ?thesis by (auto simp: vnc_connect_def)
  next
    case None
    let ?ms = "if vs_connectTimeoutMs s > 0 then vs_connectTimeoutMs s else 20000"
    let ?host = "case vs_cl s of Some cl \<Rightarrow> cl_serverHost cl | None \<Rightarrow> []"
    obtain fd s1 where d: "dial strerror (nw_addresses nw) ?host ?ms s = Some (fd, s1)"
      using c None by (auto simp: vnc_connect_def Let_def split: option.splits)
    obtain w2 s2 where o: "others w s1 = (w2, s2)" by (cases "others w s1")
    have s2: "goes_on s s2" using goes_on_trans [OF goes_on_dial [OF d] goes_on_others [OF o]] .
    have "goes_on s (vnc_emit (CloseSocket n) s2)" "goes_on s (set_sock f s2)" for n f
      using goes_on_trans [OF s2 goes_on_emit [of "CloseSocket n"]] goes_on_trans [OF s2 goes_on_set_sock]
      by simp_all
    with goes_on_dial [OF d] show ?thesis
      using c None d o by (auto simp: vnc_connect_def Let_def split: option.splits if_splits)
  qed
qed

lemma goes_on_publishClient: "goes_on s (publishClient cl s)"
  by (rule goes_on_same) (simp_all add: publishClient_def)

lemma goes_on_initClient: "initClient lib strerror nw w s = Some (ok, w', s') \<Longrightarrow> goes_on s s'"
proof -
  assume i: "initClient lib strerror nw w s = Some (ok, w', s')"
  obtain ok1 w1 s1 where c: "vnc_connect strerror nw w s = Some (ok1, w1, s1)"
    using i by (auto simp: initClient_def split: option.splits)
  note c' = goes_on_connect [OF c]
  show ?thesis
  proof (cases ok1)
    case False
    with i c goes_on_trans [OF c' goes_on_publishClient] show ?thesis by (auto simp: initClient_def)
  next
    case True
    obtain ok2 w2 s2 where r: "run_library lib (nw_handshake nw) (nw_fuel nw) [] w1 s1 = Some (ok2, w2, s2)"
      using i c True by (auto simp: initClient_def split: option.splits)
    from goes_on_trans [OF c' goes_on_library [OF r]] have "goes_on s s2" .
    with goes_on_trans [OF this goes_on_publishClient] show ?thesis
      using i c True r by (cases ok2) (auto simp: initClient_def)
  qed
qed

lemma goes_on_poll_turn: "vnc_poll_turn lib t w s = Some (go, w', s') \<Longrightarrow> goes_on s s'"
  using goes_on_drainWake [of s True]
  by (auto simp: vnc_poll_turn_def Let_def dest!: goes_on_library intro: goes_on_trans
      split: if_splits sum.splits)

lemma goes_on_turn:
  assumes "vnc_turn lib wr malloc t w s = Some (go, w', s')"
  shows "goes_on s s'"
proof -
  obtain w1 s1 where o1: "others w s = (w1, s1)" by (cases "others w s")
  obtain q s2 where d: "vnc_drain lib wr malloc (lt_drain_fuel t) (\<lambda>n. fold vnc_op_step (lt_during t n)) s1 = Some (q, s2)"
    using assms o1 by (auto simp: vnc_turn_def split: option.splits)
  obtain w3 s3 where o3: "others w1 s2 = (w3, s3)" by (cases "others w1 s2")
  have s2: "goes_on s s2"
    using goes_on_trans [OF goes_on_others [OF o1] goes_on_drain [OF goes_on_ops d]] .
  show ?thesis
  proof (cases q)
    case True
    with assms o1 d s2 show ?thesis by (simp add: vnc_turn_def)
  next
    case False
    with assms o1 d o3 have "vnc_poll_turn lib t w3 s3 = Some (go, w', s')" by (simp add: vnc_turn_def)
    from goes_on_trans [OF goes_on_trans [OF s2 goes_on_others [OF o3]] goes_on_poll_turn [OF this]]
    show ?thesis .
  qed
qed

lemma goes_on_loop: "vnc_loop lib wr malloc ts w s = Some (w', s') \<Longrightarrow> goes_on s s'"
  by (induction ts arbitrary: w s)
    (auto intro: goes_on_trans goes_on_turn split: option.splits if_splits)

lemma goes_on_setup: "goes_on s (vnc_setup cl s)"
  by (rule goes_on_same)
    (simp_all add: vnc_setup_def setColorFormat_def takeEncodings_def publishClient_def Let_def split: prod.splits)

lemma goes_on_publishFacts: "goes_on s (publishFacts malloc number cl s)"
  by (rule goes_on_same) (simp_all add: publishFacts_def Let_def)

section \<open>The end of a session\<close>

text \<open>How the thread ends: some steps later, the end is reported, with a reason unless it was asked for.\<close>

definition ends_from :: "(nat \<Rightarrow> bool) \<Rightarrow> vnc_session \<Rightarrow> vnc_session \<Rightarrow> bool" where
  "ends_from malloc s s' \<longleftrightarrow>
     (\<exists>s1 why. goes_on s s1 \<and> s' = vnc_fireClosed malloc (Some (bytes_of why)) s1 \<and>
        (vs_quit s1 \<longrightarrow> vs_quit s \<or> why = []) \<and> (\<not> vs_quit s1 \<longrightarrow> why \<noteq> []))"

lemma ends_fromI:
  "goes_on s s1 \<Longrightarrow> (vs_quit s1 \<Longrightarrow> \<not> vs_quit s \<Longrightarrow> why = []) \<Longrightarrow> (\<not> vs_quit s1 \<Longrightarrow> why \<noteq> []) \<Longrightarrow>
   ends_from malloc s (vnc_fireClosed malloc (Some (bytes_of why)) s1)"
  unfolding ends_from_def by blast

lemma vnc_protocolThread_ends:
  assumes "vnc_protocolThread ev w s = Some (w', s')"
  shows "ends_from (ev_malloc ev) s s'"
proof (cases "vs_addressError s \<noteq> [] \<or> ev_client ev = None")
  case True
  then show ?thesis
    using assms by (auto simp: vnc_protocolThread_def intro!: ends_fromI split: if_splits)
next
  case False
  then obtain cl where cl: "ev_client ev = Some cl" and addr: "vs_addressError s = []" by auto
  obtain ok w1 s1 where i: "initClient (ev_lib ev) (ev_strerror ev) (ev_network ev) w
      (forgetLastError (vnc_setup cl s)) = Some (ok, w1, s1)"
    using assms cl addr by (auto simp: vnc_protocolThread_def split: option.splits)
  have s1: "goes_on s s1"
    using goes_on_trans [OF goes_on_trans [OF goes_on_setup goes_on_logs(3)] goes_on_initClient [OF i]] .
  show ?thesis
  proof (cases ok)
    case False
    obtain w2 s2 where o: "others w1 s1 = (w2, s2)" by (cases "others w1 s1")
    have "goes_on s s2" using goes_on_trans [OF s1 goes_on_others [OF o]] .
    with assms cl addr i False o show ?thesis
      by (auto simp: vnc_protocolThread_def Let_def intro!: ends_fromI split: if_splits)
  next
    case True
    let ?s2 = "case vs_cl s1 of Some cl \<Rightarrow> publishFacts (ev_malloc ev) (ev_number ev) cl s1 | None \<Rightarrow> s1"
    have "goes_on s ?s2"
      using s1 goes_on_trans [OF s1 goes_on_publishFacts] by (auto split: option.splits)
    moreover obtain w3 s3 where l: "vnc_loop (ev_lib ev) (ev_write ev) (ev_malloc ev) (ev_turns ev) w1 ?s2 = Some (w3, s3)"
      using assms cl addr i True by (auto simp: vnc_protocolThread_def Let_def split: option.splits)
    moreover obtain w4 s4 where o: "others w3 s3 = (w4, s4)" by (cases "others w3 s3")
    ultimately have "goes_on s (publishClient None s4)"
      using goes_on_trans goes_on_loop goes_on_others goes_on_publishClient by meson
    moreover have "s' = vnc_fireClosed (ev_malloc ev)
        (Some (bytes_of (if vs_quit s4 then [] else ''The connection was lost''))) (publishClient None s4)"
      using assms cl addr i True l o by (simp add: vnc_protocolThread_def Let_def)
    ultimately show ?thesis
      by (auto simp: publishClient_def intro!: ends_fromI)
  qed
qed

text \<open>
  C1. A session reports its end exactly once, whatever the library, the network and the other
  threads do: when the protocol thread returns, the last event of its trace is the one and only
  \<open>closed\<close> callback, and, if it was not asked to end before it started, the reason it gives is
  empty exactly when the session was asked to end.
\<close>

theorem vnc_closed_once:
  assumes "vnc_protocolThread ev w s = Some (w', s')"
    and "\<not> vs_closedReported s" and "closed_of s = []" and "\<not> vs_quit s" and "\<And>n. ev_malloc ev n"
  shows "\<exists>es why. vs_trace s' = es @ [Callback (Closed why)] \<and> closed_of s' = [Closed why] \<and>
    (why = [] \<longleftrightarrow> vs_quit s')"
proof -
  from vnc_protocolThread_ends [OF assms(1)] obtain s1 why where s1: "goes_on s s1"
    and s': "s' = vnc_fireClosed (ev_malloc ev) (Some (bytes_of why)) s1" and why: "vs_quit s1 \<longleftrightarrow> why = []"
    using assms(4) by (auto simp: ends_from_def)
  let ?d = "case vento_utf8_from_bytes (ev_malloc ev) (Some (bytes_of why)) of Some u \<Rightarrow> u | None \<Rightarrow> []"
  have "\<not> vs_closedReported s1" "closed_of s1 = []" using s1 assms(2,3) by (auto simp: goes_on_def)
  then have "vs_trace s' = vs_trace s1 @ [Callback (Closed ?d)]" "closed_of s' = [Closed ?d]" "vs_quit s' = vs_quit s1"
    by (simp_all add: s' vnc_fireClosed_def vnc_simps closed_of_def vnc_callbacks_append vnc_emit_def Let_def)
  moreover have "?d = [] \<longleftrightarrow> why = []"
  proof -
    have "latin1_to_utf8 b = [] \<longleftrightarrow> b = []" for b by (cases b) (auto simp: latin1_byte_def)
    then show ?thesis using assms(5) by (auto simp: vento_utf8_from_bytes_def Let_def bytes_of_def)
  qed
  ultimately show ?thesis using why by blast
qed

text \<open>A network where nothing answers, for the examples.\<close>

definition example_env :: vnc_env where
  "example_env =
     \<lparr>ev_lib = example_lib, ev_write = (\<lambda>_. True), ev_malloc = (\<lambda>_. True), ev_strerror = (\<lambda>_. ''Refused''),
      ev_number = (\<lambda>_. 0), ev_client = Some rfb_client_zero,
      ev_network = \<lparr>nw_socket_path = None, nw_addresses = Inr [Connect_fails 3 (Errno ''refused'')],
        nw_handshake = (\<lambda>_. Inr False), nw_fuel = 1\<rparr>,
      ev_turns = []\<rparr>"

theorem vnc_closed_once_witness:
  "\<exists>w' s' why. vnc_protocolThread example_env [] vnc_calloc = Some (w', s') \<and>
     closed_of s' = [Closed why] \<and> why \<noteq> [] \<and> \<not> vs_quit s'"
proof -
  have "\<exists>w' s'. vnc_protocolThread example_env [] vnc_calloc = Some (w', s') \<and> \<not> vs_quit s'"
    by (simp add: vnc_protocolThread_def example_env_def vnc_calloc_def initClient_def vnc_connect_def dial_def
        vnc_setup_def setColorFormat_def takeEncodings_def publishClient_def forgetLastError_def logErr_def
        vnc_fireClosed_def vnc_emit_def Let_def)
  then obtain w' s' where r: "vnc_protocolThread example_env [] vnc_calloc = Some (w', s')" "\<not> vs_quit s'" by blast
  have "\<not> vs_closedReported vnc_calloc" "closed_of vnc_calloc = []" "\<And>n. ev_malloc example_env n"
    by (simp_all add: vnc_calloc_def closed_of_def example_env_def)
  from vnc_closed_once [OF r(1) this(1,2) vnc_calloc_quit this(3)] r show ?thesis by blast
qed

section \<open>Asking it to end\<close>

lemma vnc_op_ring_quit: "vs_quit s \<Longrightarrow> vs_ring (vnc_op_step a s) = vs_ring s"
  by (cases a) (auto simp: vnc_post_def vnc_op_answer_credentials_def vnc_op_answer_trust_def vnc_op_focus_def
      vnc_op_view_only_def vnc_op_request_desktop_size_def vnc_op_request_layout_def vnc_stop_def
      vento_libvnc_set_encodings_def vnc_wake_def vnc_emit_def Let_def split: option.splits)

lemma vnc_op_keeps_quit: "vs_quit s \<Longrightarrow> vs_quit (vnc_op_step a s)"
  using goes_on_op by (simp add: goes_on_def)

lemma vnc_ops_ring_quit: "vs_quit s \<Longrightarrow> vs_ring (fold vnc_op_step b s) = vs_ring s \<and> vs_quit (fold vnc_op_step b s)"
  by (induction b arbitrary: s) (simp_all add: vnc_op_ring_quit vnc_op_keeps_quit)

lemma vnc_disconnect_quits: "Op_disconnect \<in> set b \<Longrightarrow> vs_quit (fold vnc_op_step b s)"
proof (induction b arbitrary: s)
  case (Cons a b)
  have "vs_quit (vnc_stop s)"
    by (simp add: vnc_stop_def vnc_wake_def vnc_emit_def Let_def split: option.splits)
  with Cons vnc_ops_ring_quit show ?case by auto
qed simp

text \<open>Nothing can be posted any more, so the drain ends, and with it the loop.\<close>

lemma vnc_drain_quit:
  assumes "\<And>n s. vs_quit s \<Longrightarrow> vs_ring (oth n s) = vs_ring s \<and> vs_quit (oth n s)"
    and "vnc_queue_ok s" and "vs_quit s" and "length (vnc_items s) < fuel"
  shows "\<exists>s'. vnc_drain lib w malloc fuel oth s = Some (True, s')"
  using assms(2-4)
proof (induction fuel arbitrary: s)
  case (Suc fuel)
  show ?case
  proof (cases "vnc_pop s")
    case None
    with Suc.prems show ?thesis by simp
  next
    case (Some p)
    obtain c s1 where p: "p = (c, s1)" by (cases p)
    have s1: "vnc_items s = c # vnc_items s1" "vnc_queue_ok s1" "s1 = s\<lparr>vs_ring := vs_ring s1\<rparr>"
      using vnc_pop_Some [OF Suc.prems(1) Some [unfolded p]] by auto
    have q: "vs_quit s1" using Suc.prems(2) by (subst s1(3)) simp
    let ?s2 = "oth fuel (vnc_runCmd lib w malloc c s1)"
    have "vs_quit ?s2" "vs_ring ?s2 = vs_ring s1"
      using assms(1) [of "vnc_runCmd lib w malloc c s1" fuel] q by simp_all
    with Suc.IH [of ?s2] s1 Suc.prems(3) Some p show ?thesis
      by (simp add: vnc_queue_ok_def vnc_items_def)
  qed
qed simp



section \<open>Trust and credentials\<close>

lemma trust_from_ops:
  "vs_trustAccepted (fold vnc_op_step b s) \<Longrightarrow> vs_trustAccepted s \<or> Op_answer_trust True \<in> set b"
proof (induction b arbitrary: s)
  case (Cons a b)
  then have "vs_trustAccepted (vnc_op_step a s) \<or> Op_answer_trust True \<in> set b" by simp
  then show ?case
    by (cases a) (auto simp: vnc_post_def ring_push_def vnc_op_answer_credentials_def vnc_op_answer_trust_def
        vnc_op_focus_def vnc_op_view_only_def vnc_op_request_desktop_size_def vnc_op_request_layout_def vnc_stop_def
        vento_libvnc_set_encodings_def vnc_wake_def vnc_emit_def Let_def split: option.splits if_splits)
qed simp

lemma pass_from_ops:
  "vs_credPass (fold vnc_op_step b s) = Some p \<Longrightarrow>
   vs_credPass s = Some p \<or> (\<exists>u. Op_answer_credentials u (Some p) \<in> set b)"
proof (induction b arbitrary: s)
  case (Cons a b)
  then have "vs_credPass (vnc_op_step a s) = Some p \<or> (\<exists>u. Op_answer_credentials u (Some p) \<in> set b)" by simp
  then show ?case
    by (cases a) (auto simp: vnc_post_def ring_push_def vnc_op_answer_credentials_def vnc_op_answer_trust_def
        vnc_op_focus_def vnc_op_view_only_def vnc_op_request_desktop_size_def vnc_op_request_layout_def vnc_stop_def
        vento_libvnc_set_encodings_def vnc_wake_def vnc_emit_def Let_def split: option.splits if_splits)
qed simp

lemma wait_trust:
  "vnc_wait P w s = Some (w', s') \<Longrightarrow> vs_trustAccepted s' \<Longrightarrow>
   vs_trustAccepted s \<or> Op_answer_trust True \<in> set (concat w)"
  by (induction P w s rule: vnc_wait.induct) (auto split: if_splits dest: trust_from_ops)

lemma wait_pass:
  "vnc_wait P w s = Some (w', s') \<Longrightarrow> vs_credPass s' = Some p \<Longrightarrow>
   vs_credPass s = Some p \<or> (\<exists>u. Op_answer_credentials u (Some p) \<in> set (concat w))"
proof (induction P w s rule: vnc_wait.induct)
  case (2 P b w s)
  then show ?case using pass_from_ops [of b s p] by (auto split: if_splits)
qed (auto split: if_splits)

lemma askIdentity_trust: "askIdentity a w s = Some (True, w', s') \<Longrightarrow> Op_answer_trust True \<in> set (concat w)"
  by (auto simp: askIdentity_def Let_def vnc_emit_def dest: wait_trust)

lemma askCredentials_pass:
  "askCredentials n w s = Some (True, w', s') \<Longrightarrow>
   \<exists>u p. vs_credPass s' = Some p \<and> Op_answer_credentials u (Some p) \<in> set (concat w)"
proof -
  assume "askCredentials n w s = Some (True, w', s')"
  then obtain s1 p where w: "vnc_wait (\<lambda>s. vs_credAnswered s \<or> vs_quit s) w
      (vnc_emit (Callback (Credentials_needed n)) (s\<lparr>vs_credWaiting := True, vs_credAnswered := False,
        vs_credUser := None, vs_credPass := None\<rparr>)) = Some (w', s1)"
      and s': "s' = s1\<lparr>vs_credWaiting := False\<rparr>" and p: "vs_credPass s1 = Some p"
    by (auto simp: askCredentials_def Let_def)
  from wait_pass [OF w p] show ?thesis by (auto simp: s' p vnc_emit_def)
qed

text \<open>
  C4. No far end is trusted and no password leaves the session without the user's word.  A
  certificate, or a tunnel without one, is accepted only when a user answered yes while it was
  asked (and, for a tunnel without one, the connection allows it); a password given to the
  library is the stored one, not used before, or one a user typed while asked; and VeNCrypt's
  plain text type never gets any.
\<close>

theorem vnc_hooks_need_user:
  assumes "run_hook lib h w s = Some (r, w', s')"
  shows "(r = Answer True \<longrightarrow> Op_answer_trust True \<in> set (concat w) \<and>
      (h = Confirm_anonymous \<longrightarrow> vs_anonymousTls s)) \<and>
    (\<forall>u p. r = Password (Some p) \<or> r = Credential (Some (User_credential u p)) \<longrightarrow>
      (vs_storedPass s = Some p \<and> \<not> vs_storedPassUsed s \<and> vs_storedPassUsed s') \<or>
      (\<exists>u. Op_answer_credentials u (Some p) \<in> set (concat w))) \<and>
    (\<forall>cl u p. vs_cl s = Some cl \<longrightarrow> cl_subAuthScheme cl = rfbVeNCryptPlain \<longrightarrow>
      r \<noteq> Credential (Some (User_credential u p)))"
proof (cases h)
  case Get_password
  have "(vs_storedPass s = Some p \<and> \<not> vs_storedPassUsed s \<and> vs_storedPassUsed s') \<or>
      (\<exists>u. Op_answer_credentials u (Some p) \<in> set (concat w))" if r: "r = Password (Some p)" for p
  proof (cases "vs_storedPass s \<noteq> None \<and> \<not> vs_storedPassUsed s")
    case False
    then have "\<exists>s1. askCredentials False w s = Some (True, w', s') \<and> vs_credPass s' = Some p"
      using assms Get_password r by (auto simp: onGetPassword_def split: option.splits if_splits)
    with askCredentials_pass [of False w s w' s'] show ?thesis by auto
  qed (use assms Get_password r in \<open>auto simp: onGetPassword_def\<close>)
  moreover have "\<exists>p. r = Password p" using assms Get_password by auto
  ultimately show ?thesis by auto
next
  case (Get_credential t)
  have "(vs_storedPass s = Some p \<and> \<not> vs_storedPassUsed s \<and> vs_storedPassUsed s') \<or>
      (\<exists>u. Op_answer_credentials u (Some p) \<in> set (concat w))" if r: "r = Credential (Some (User_credential u p))" for u p
  proof (cases "vs_storedPass s \<noteq> None \<and> \<not> vs_storedPassUsed s")
    case False
    then have "askCredentials True w s = Some (True, w', s') \<and> (case vs_credPass s' of Some p \<Rightarrow> p | None \<Rightarrow> []) = p"
      using assms Get_credential r
      by (auto simp: onGetCredential_def split: option.splits if_splits credential_type.splits)
    with askCredentials_pass [of True w s w' s'] show ?thesis by auto
  qed (use assms Get_credential r in
      \<open>auto simp: onGetCredential_def split: option.splits if_splits credential_type.splits\<close>)
  moreover have "\<exists>c. r = Credential c" using assms Get_credential by (auto split: option.splits)
  moreover have "r \<noteq> Credential (Some (User_credential u p))"
    if "vs_cl s = Some cl" "cl_subAuthScheme cl = rfbVeNCryptPlain" for cl u p
    using assms Get_credential that by (auto simp: onGetCredential_def split: credential_type.splits)
  ultimately show ?thesis by auto
qed (use assms in \<open>auto simp: onCertMismatch_def onConfirmAnonymousTLS_def dest: askIdentity_trust
    split: if_splits\<close>)

theorem vnc_hooks_need_user_witness:
  "\<exists>w' s'. run_hook example_lib (Cert_mismatch (replicate 32 7)) [[Op_answer_trust True]] example_connected =
     Some (Answer True, w', s') \<and> Op_answer_trust True \<in> set (concat [[Op_answer_trust True]])"
proof -
  have "\<exists>w' s'. run_hook example_lib (Cert_mismatch (replicate 32 7)) [[Op_answer_trust True]] example_connected =
     Some (Answer True, w', s')"
    by (simp add: onCertMismatch_def askIdentity_def example_connected_def vnc_calloc_def vnc_emit_def
        vnc_op_answer_trust_def vnc_wake_def Let_def)
  then show ?thesis using vnc_hooks_need_user by blast
qed

section \<open>Wake-ups\<close>

definition vnc_pending :: "vnc_session \<Rightarrow> bool" where
  "vnc_pending s \<longleftrightarrow> vnc_items s \<noteq> [] \<or> vs_quit s \<or> vs_encodingsChanged s"

lemma vnc_op_wakes: "(vnc_pending s \<longrightarrow> vs_wake s) \<Longrightarrow> vnc_pending (vnc_op_step a s) \<longrightarrow> vs_wake (vnc_op_step a s)"
  by (cases a) (auto simp: vnc_pending_def vnc_items_def vnc_post_def vnc_op_answer_credentials_def
      vnc_op_answer_trust_def vnc_op_focus_def vnc_op_view_only_def vnc_op_request_desktop_size_def
      vnc_op_request_layout_def vnc_stop_def vento_libvnc_set_encodings_def vnc_wake_def vnc_emit_def Let_def
      split: option.splits if_splits)

lemma vnc_ops_wake: "(vnc_pending s \<longrightarrow> vs_wake s) \<Longrightarrow>
  vnc_pending (fold vnc_op_step b s) \<longrightarrow> vs_wake (fold vnc_op_step b s)"
  by (induction b arbitrary: s) (simp_all add: vnc_op_wakes)

lemma vnc_drain_False:
  "vnc_drain lib w malloc fuel oth s = Some (False, s') \<Longrightarrow> vs_cl s' \<noteq> None \<Longrightarrow>
   rhead (vs_ring s') = rtail (vs_ring s') \<and> \<not> vs_quit s' \<and> \<not> vs_encodingsChanged s'"
proof (induction lib w malloc fuel oth s rule: vnc_drain.induct)
  case (2 lib w malloc fuel oth s)
  show ?case
  proof (cases "vnc_pop s")
    case None
    then show ?thesis
      using 2(2,3) by (auto simp: vnc_pop_def Let_def applyEncodings_def with_client_def takeEncodings_def
          vnc_simps vnc_emit_def split: if_splits option.splits)
  next
    case (Some p)
    then show ?thesis using 2 by (cases p) auto
  qed
qed simp



end
