(* ===== verification/Rdp_H264.thy ===== *)
theory Rdp_H264
  imports Prelude
begin

text \<open>
  The H.264 subsystem of the FreeRDP session, \<open>src/backends/modules/freerdp/cpp/h264_vento.c\<close>:
  one \<open>Context\<close> per surface, each with a decoder from the platform's table
  (\<open>vento/video.h\<close>), and the state of a session's decoders they share (\<open>VentoH264\<close>), of which
  the hardware slots are the scarce part.

  The table is the platform's code: which of its members are set is in the record
  \<open>vento_video_decoders\<close>, what a call answers is an argument (\<open>h264_answers\<close>), and which calls
  are made is appended to \<open>h_trace\<close>.  A decoder is a number the table hands out.  An operation of
  one context is a function of that context and the shared state; the two are only ever
  touched through the atomics, so contexts on several threads are a sequence of such
  operations.
\<close>

section \<open>The table of decoders\<close>

text \<open>Whether each member is non-NULL.\<close>

record vento_video_decoders =
  vt_open :: bool
  vt_mode :: bool
  vt_decode_planes :: bool
  vt_hardware :: bool
  vt_status :: bool
  vt_take_key_frame_request :: bool
  vt_close :: bool
  vt_release :: bool

definition video_table_zero :: vento_video_decoders where
  "video_table_zero =
     \<lparr>vt_open = False, vt_mode = False, vt_decode_planes = False, vt_hardware = False, vt_status = False,
      vt_take_key_frame_request = False, vt_close = False, vt_release = False\<rparr>"

record vento_video_planes =
  pl_data :: "nat list"
  pl_stride :: "u32 list"
  pl_width :: u32
  pl_height :: u32

text \<open>The answers of the table's members during one call of the library.\<close>

record h264_answers =
  a_mode :: int
  a_open :: "bool \<Rightarrow> nat option"
  a_planes :: "vento_video_planes option"
  a_key_frame :: bool
  a_hardware :: int
  a_status :: "bytes option"
  a_now :: u64

datatype h264_event =
    DecoderOpen u32 u32 bool "nat option"
  | DecoderClose nat
  | DecodePlanes nat bytes
  | TableRelease

section \<open>A session's decoders\<close>

record VentoH264 =
  h_table :: vento_video_decoders
  h_available :: bool
  h_hardwareHeld :: int
  h_hardware :: int
  h_restart :: bool
  h_failed :: bool
  h_status :: bytes
  h_trace :: "h264_event list"

definition VENTO_H264_MAX_HARDWARE :: int where "VENTO_H264_MAX_HARDWARE = 4"

definition STATUS_EVERY_US :: u64 where "STATUS_EVERY_US = 500000"

definition h264_emit :: "h264_event \<Rightarrow> VentoH264 \<Rightarrow> VentoH264" where
  "h264_emit e v = v\<lparr>h_trace := h_trace v @ [e]\<rparr>"

definition h264_zero :: VentoH264 where
  "h264_zero = \<lparr>h_table = video_table_zero, h_available = False, h_hardwareHeld = 0, h_hardware = -1,
     h_restart = False, h_failed = False, h_status = [], h_trace = []\<rparr>"

definition vento_h264_init :: "vento_video_decoders option \<Rightarrow> bool \<times> VentoH264" where
  "vento_h264_init tbl =
     (case tbl of
        None \<Rightarrow> (False, h264_zero)
      | Some t \<Rightarrow>
          if \<not> vt_open t \<or> \<not> vt_decode_planes t \<or> \<not> vt_close t
          then (False, if vt_release t then h264_emit TableRelease h264_zero else h264_zero)
          else (True, h264_zero\<lparr>h_table := t, h_available := True\<rparr>))"

definition vento_h264_release :: "VentoH264 \<Rightarrow> VentoH264" where
  "vento_h264_release v =
     (let v = (if h_available v \<and> vt_release (h_table v) then h264_emit TableRelease v else v)
      in v\<lparr>h_available := False\<rparr>)"

text \<open>The status line into a buffer of \<open>len\<close> bytes (\<open>None\<close>: no buffer); \<open>None\<close> for false.\<close>

definition vento_h264_status :: "VentoH264 \<Rightarrow> nat option \<Rightarrow> bytes option" where
  "vento_h264_status v len =
     (case len of
        None \<Rightarrow> None
      | Some n \<Rightarrow> if n < 2 then None else if h_status v \<noteq> [] then Some (snprintf_s n (h_status v)) else None)"

section \<open>One context\<close>

text \<open>\<open>c_video\<close> is whether the context belongs to a session with decoders.\<close>

record h264_context =
  c_video :: bool
  c_decoder :: "nat option"
  c_width :: u32
  c_height :: u32
  c_mode :: int
  c_hardware :: bool
  c_restartAsked :: bool
  c_refused :: bool
  c_lastStatus :: u64

text \<open>
  The exchange is retried until it succeeds or the slots are taken, a failed one only
  reading the count again, so it is one atomic test and increment.
\<close>

definition claimHardware :: "VentoH264 \<Rightarrow> bool \<times> VentoH264" where
  "claimHardware v =
     (if h_hardwareHeld v < VENTO_H264_MAX_HARDWARE
      then (True, v\<lparr>h_hardwareHeld := h_hardwareHeld v + 1\<rparr>) else (False, v))"

definition closeDecoder :: "h264_context \<Rightarrow> VentoH264 \<Rightarrow> h264_context \<times> VentoH264" where
  "closeDecoder c v =
     (if \<not> c_video c then (c, v)
      else let (c, v) = (case c_decoder c of
                           None \<Rightarrow> (c, v)
                         | Some d \<Rightarrow> (c\<lparr>c_decoder := None\<rparr>, h264_emit (DecoderClose d) v))
           in if c_hardware c
              then (c\<lparr>c_hardware := False\<rparr>, v\<lparr>h_hardwareHeld := h_hardwareHeld v - 1\<rparr>)
              else (c, v))"

text \<open>The table is asked for a decoder, in software too when the slot does not help.\<close>

definition open_attempts ::
  "h264_answers \<Rightarrow> u32 \<Rightarrow> u32 \<Rightarrow> h264_context \<Rightarrow> VentoH264 \<Rightarrow> h264_context \<times> VentoH264"
where
  "open_attempts a width height c v =
     (let d = a_open a (c_hardware c);
          v = h264_emit (DecoderOpen width height (c_hardware c) d) v;
          c = c\<lparr>c_decoder := d\<rparr>
      in if d = None \<and> c_hardware c
         then let (c, v) = closeDecoder c v;
                  d = a_open a False
              in (c\<lparr>c_decoder := d\<rparr>, h264_emit (DecoderOpen width height False d) v)
         else (c, v))"

definition openDecoder ::
  "h264_answers \<Rightarrow> u32 \<Rightarrow> u32 \<Rightarrow> h264_context \<Rightarrow> VentoH264 \<Rightarrow> bool \<times> h264_context \<times> VentoH264"
where
  "openDecoder a width height c v =
     (let c = c\<lparr>c_mode := (if vt_mode (h_table v) then a_mode a else 0)\<rparr>;
          (hw, v) = (if c_mode c \<noteq> 0 \<and> \<not> h_failed v then claimHardware v else (False, v));
          (c, v) = open_attempts a width height (c\<lparr>c_hardware := hw\<rparr>) v;
          c = c\<lparr>c_width := width, c_height := height, c_restartAsked := False\<rparr>
      in if c_decoder c = None
         then let (c, v) = closeDecoder c v in (False, c\<lparr>c_refused := True\<rparr>, v)
         else (True, c\<lparr>c_refused := False\<rparr>, v))"

text \<open>
  The context of a decoder the library makes, as long as there is memory; \<open>mine\<close> is whether
  it is made inside this session's surface command (\<open>current\<close>).  An encoder is refused.
\<close>

definition vento_h264_subsystem_init :: "bool \<Rightarrow> bool \<Rightarrow> bool \<Rightarrow> VentoH264 \<Rightarrow> h264_context option" where
  "vento_h264_subsystem_init compressor memory mine v =
     (if compressor \<or> \<not> memory then None
      else Some \<lparr>c_video = (mine \<and> h_available v), c_decoder = None, c_width = 0, c_height = 0, c_mode = 0,
        c_hardware = False, c_restartAsked = False, c_refused = False, c_lastStatus = 0\<rparr>)"

definition vento_h264_subsystem_uninit :: "h264_context \<Rightarrow> VentoH264 \<Rightarrow> VentoH264" where
  "vento_h264_subsystem_uninit c v = snd (closeDecoder c v)"

text \<open>A decoder for the size of the surface, as the frame that is to be decoded finds it.\<close>

definition h264_ready ::
  "h264_answers \<Rightarrow> u32 \<Rightarrow> u32 \<Rightarrow> h264_context \<Rightarrow> VentoH264 \<Rightarrow> bool \<times> h264_context \<times> VentoH264"
where
  "h264_ready a width height c v =
     (if c_refused c \<and> c_width c = width \<and> c_height c = height then (False, c, v)
      else if c_decoder c = None \<or> c_width c \<noteq> width \<or> c_height c \<noteq> height
      then let (c, v) = closeDecoder c v in openDecoder a width height c v
      else if \<not> c_restartAsked c \<and> vt_mode (h_table v) \<and> a_mode a \<noteq> c_mode c
      then (True, c\<lparr>c_restartAsked := True\<rparr>, v\<lparr>h_failed := False, h_restart := True\<rparr>)
      else (True, c, v))"

text \<open>The frame goes to the decoder, which may have lost the pictures it refers to.\<close>

definition h264_feed :: "h264_answers \<Rightarrow> bytes \<Rightarrow> h264_context \<Rightarrow> VentoH264 \<Rightarrow> VentoH264" where
  "h264_feed a frame c v =
     (let v = (case c_decoder c of None \<Rightarrow> v | Some d \<Rightarrow> h264_emit (DecodePlanes d frame) v)
      in if vt_take_key_frame_request (h_table v) \<and> a_key_frame a
         then v\<lparr>h_failed := True, h_restart := True\<rparr> else v)"

definition h264_report :: "h264_answers \<Rightarrow> h264_context \<Rightarrow> VentoH264 \<Rightarrow> h264_context \<times> VentoH264" where
  "h264_report a c v =
     (let v = v\<lparr>h_hardware := (if vt_hardware (h_table v) then a_hardware a else -1)\<rparr>
      in if vt_status (h_table v) \<and> a_now a - c_lastStatus c \<ge> STATUS_EVERY_US
         then (c\<lparr>c_lastStatus := a_now a\<rparr>,
               case a_status a of None \<Rightarrow> v | Some line \<Rightarrow> v\<lparr>h_status := line\<rparr>)
         else (c, v))"

text \<open>The planes the library reads, \<open>None\<close> for a result below zero.\<close>

definition vento_h264_subsystem_decompress ::
  "h264_answers \<Rightarrow> u32 \<Rightarrow> u32 \<Rightarrow> bytes \<Rightarrow> h264_context \<Rightarrow> VentoH264 \<Rightarrow>
   vento_video_planes option \<times> h264_context \<times> VentoH264"
where
  "vento_h264_subsystem_decompress a width height frame c v =
     (if \<not> c_video c then (None, c, v)
      else let (ready, c, v) = h264_ready a width height c v
      in if \<not> ready then (None, c, v)
         else let v = h264_feed a frame c v
              in case a_planes a of
                   None \<Rightarrow> (None, c, v)
                 | Some planes \<Rightarrow> let (c, v) = h264_report a c v in (Some planes, c, v))"

section \<open>All the contexts of a session\<close>

text \<open>What the library does with its contexts, \<open>i\<close> being one of them.\<close>

datatype h264_call =
    H264_Init bool bool bool
  | H264_Uninit nat
  | H264_Decompress nat h264_answers u32 u32 bytes

type_synonym h264_state = "h264_context list \<times> VentoH264"

fun h264_step :: "h264_call \<Rightarrow> h264_state \<Rightarrow> h264_state" where
  "h264_step (H264_Init compressor memory mine) (cs, v) =
     (case vento_h264_subsystem_init compressor memory mine v of
        None \<Rightarrow> (cs, v)
      | Some c \<Rightarrow> (cs @ [c], v))"
| "h264_step (H264_Uninit i) (cs, v) =
     (if i < length cs then (take i cs @ drop (Suc i) cs, vento_h264_subsystem_uninit (cs ! i) v) else (cs, v))"
| "h264_step (H264_Decompress i a width height frame) (cs, v) =
     (if i < length cs
      then let (_, c, v) = vento_h264_subsystem_decompress a width height frame (cs ! i) v in (cs[i := c], v)
      else (cs, v))"

definition slots :: "h264_context list \<Rightarrow> int" where
  "slots cs = int (length (filter c_hardware cs))"

fun opened :: "h264_event list \<Rightarrow> int" where
  "opened [] = 0"
| "opened (DecoderOpen _ _ _ (Some _) # es) = 1 + opened es"
| "opened (DecoderClose _ # es) = opened es - 1"
| "opened (_ # es) = opened es"

definition decoders :: "h264_context list \<Rightarrow> int" where
  "decoders cs = int (length (filter (\<lambda>c. c_decoder c \<noteq> None) cs))"

text \<open>
  A context without the session's decoders never has one; a hardware slot is only held with
  a decoder; the count is the contexts that hold one.
\<close>

definition h264_context_ok :: "h264_context \<Rightarrow> bool" where
  "h264_context_ok c \<longleftrightarrow>
     (c_hardware c \<longrightarrow> c_decoder c \<noteq> None) \<and> (c_decoder c \<noteq> None \<longrightarrow> c_video c)"

fun h264_ok :: "h264_state \<Rightarrow> bool" where
  "h264_ok (cs, v) \<longleftrightarrow>
     list_all h264_context_ok cs \<and> h_hardwareHeld v = slots cs \<and> slots cs \<le> VENTO_H264_MAX_HARDWARE \<and>
     opened (h_trace v) = decoders cs"

section \<open>Properties\<close>

lemma opened_append: "opened (es @ fs) = opened es + opened fs"
  by (induction es rule: opened.induct) simp_all

lemma h264_emit_simps [rdp_simps]:
  "h_hardwareHeld (h264_emit e v) = h_hardwareHeld v" "h_table (h264_emit e v) = h_table v"
  "h_failed (h264_emit e v) = h_failed v" "h_trace (h264_emit e v) = h_trace v @ [e]"
  by (simp_all add: h264_emit_def)

text \<open>What one operation does to the counts, as seen from its context.\<close>

definition h264_counts :: "h264_context \<Rightarrow> VentoH264 \<Rightarrow> int \<times> int" where
  "h264_counts c v =
     (h_hardwareHeld v - of_bool (c_hardware c), opened (h_trace v) - of_bool (c_decoder c \<noteq> None))"

definition h264_kept :: "h264_context \<Rightarrow> VentoH264 \<Rightarrow> h264_context \<Rightarrow> VentoH264 \<Rightarrow> bool" where
  "h264_kept c v c' v' \<longleftrightarrow>
     h264_counts c' v' = h264_counts c v \<and>
     (h_hardwareHeld v \<le> VENTO_H264_MAX_HARDWARE \<longrightarrow> h_hardwareHeld v' \<le> VENTO_H264_MAX_HARDWARE) \<and>
     (h264_context_ok c \<longrightarrow> h264_context_ok c')"

lemma h264_kept_refl: "h264_kept c v c v"
  by (simp add: h264_kept_def)

lemma h264_kept_trans: "h264_kept c v c' v' \<Longrightarrow> h264_kept c' v' c'' v'' \<Longrightarrow> h264_kept c v c'' v''"
  by (simp add: h264_kept_def)

lemma closeDecoder_kept:
  assumes "closeDecoder c v = (c', v')" and "c_video c"
  shows "h264_kept c v c' v' \<and> c_video c' \<and> c_decoder c' = None \<and> \<not> c_hardware c' \<and> h_table v' = h_table v"
  using assms
  by (auto simp: closeDecoder_def h264_kept_def h264_counts_def h264_context_ok_def opened_append rdp_simps
      split: if_splits option.splits)

lemma claimHardware_counts:
  "claimHardware v = (hw, v') \<Longrightarrow>
   h_hardwareHeld v' = h_hardwareHeld v + of_bool hw \<and> h_trace v' = h_trace v \<and> h_table v' = h_table v \<and>
   (h_hardwareHeld v \<le> VENTO_H264_MAX_HARDWARE \<longrightarrow> h_hardwareHeld v' \<le> VENTO_H264_MAX_HARDWARE)"
  by (auto simp: claimHardware_def split: if_splits)

lemma open_attempts_kept:
  assumes "open_attempts a w h c v = (c', v')" and "c_video c" "c_decoder c = None"
  shows "h264_counts c' v' = h264_counts c v \<and> c_video c' \<and> (c_hardware c' \<longrightarrow> c_decoder c' \<noteq> None) \<and>
    h_hardwareHeld v' \<le> h_hardwareHeld v"
  using assms
  by (cases "c_hardware c"; cases "a_open a (c_hardware c)"; cases "a_open a False")
    (auto simp: open_attempts_def closeDecoder_def h264_counts_def opened_append rdp_simps Let_def)

lemma openDecoder_kept:
  assumes "openDecoder a w h c v = (ok, c', v')" and c: "c_video c" "c_decoder c = None" "\<not> c_hardware c"
  shows "h264_kept c v c' v' \<and> c_video c' \<and> (ok \<longleftrightarrow> c_decoder c' \<noteq> None) \<and> (c_refused c' \<longleftrightarrow> \<not> ok) \<and>
    c_width c' = w \<and> c_height c' = h"
proof -
  define m where "m = (if vt_mode (h_table v) then a_mode a else 0)"
  obtain hw v1 where hw: "(if m \<noteq> 0 \<and> \<not> h_failed v then claimHardware v else (False, v)) = (hw, v1)"
    by (metis prod.collapse)
  have v1: "h_hardwareHeld v1 = h_hardwareHeld v + of_bool hw" "h_trace v1 = h_trace v"
    "h_hardwareHeld v \<le> VENTO_H264_MAX_HARDWARE \<longrightarrow> h_hardwareHeld v1 \<le> VENTO_H264_MAX_HARDWARE"
    using hw claimHardware_counts [of v hw v1] by (auto split: if_splits)
  define c1 where "c1 = c\<lparr>c_mode := m, c_hardware := hw\<rparr>"
  obtain c2 v2 where two: "open_attempts a w h c1 v1 = (c2, v2)" by (metis prod.collapse)
  have k: "h264_counts c2 v2 = h264_counts c1 v1" "c_video c2" "c_hardware c2 \<longrightarrow> c_decoder c2 \<noteq> None"
    "h_hardwareHeld v2 \<le> h_hardwareHeld v1"
    using open_attempts_kept [OF two] c by (simp_all add: c1_def)
  define c3 where "c3 = c2\<lparr>c_width := w, c_height := h, c_restartAsked := False\<rparr>"
  have res: "(ok, c', v') = (if c_decoder c2 = None
      then (False, (fst (closeDecoder c3 v2))\<lparr>c_refused := True\<rparr>, snd (closeDecoder c3 v2))
      else (True, c3\<lparr>c_refused := False\<rparr>, v2))"
    using assms(1)
    by (cases "c_decoder c2")
      (simp_all add: openDecoder_def m_def [symmetric] hw c1_def [symmetric] two c3_def Let_def case_prod_unfold)
  have "h264_counts c1 v1 = h264_counts c v" using v1 c by (simp add: h264_counts_def c1_def)
  with k v1(3) c res show ?thesis
    by (cases "c_decoder c2")
      (auto simp: h264_kept_def h264_counts_def h264_context_ok_def closeDecoder_def c3_def)
qed

lemma h264_ready_kept:
  assumes "h264_ready a w h c v = (ok, c', v')" and "c_video c"
  shows "h264_kept c v c' v' \<and> (ok \<longrightarrow> c_decoder c' \<noteq> None)"
proof -
  obtain c1 v1 where close: "closeDecoder c v = (c1, v1)" by (metis prod.collapse)
  note k = closeDecoder_kept [OF close assms(2)]
  consider (same) "c' = c" "v' = v" "ok \<longrightarrow> c_decoder c \<noteq> None"
    | (opens) "openDecoder a w h c1 v1 = (ok, c', v')"
    | (restart) "c' = c\<lparr>c_restartAsked := True\<rparr>" "v' = v\<lparr>h_failed := False, h_restart := True\<rparr>"
        "c_decoder c \<noteq> None"
    using assms(1) by (auto simp: h264_ready_def close split: if_splits)
  then show ?thesis
  proof cases
    case same
    then show ?thesis by (simp add: h264_kept_refl)
  next
    case opens
    then show ?thesis using openDecoder_kept [OF opens] k by (auto intro: h264_kept_trans [of c v c1 v1])
  next
    case restart
    then show ?thesis by (simp add: h264_kept_def h264_counts_def h264_context_ok_def)
  qed
qed

lemma h264_report_kept: "h264_report a c v = (c', v') \<Longrightarrow> h264_kept c v c' v'"
  by (auto simp: h264_report_def h264_kept_def h264_counts_def h264_context_ok_def Let_def
      split: if_splits option.splits)

lemma h264_decompress_kept:
  assumes "vento_h264_subsystem_decompress a w h frame c v = (p, c', v')"
  shows "h264_kept c v c' v'"
proof (cases "c_video c")
  case False
  with assms show ?thesis by (simp add: vento_h264_subsystem_decompress_def h264_kept_refl)
next
  case True
  obtain ok c1 v1 where r: "h264_ready a w h c v = (ok, c1, v1)" by (metis prod.collapse)
  note k = h264_ready_kept [OF r True]
  define v3 where "v3 = h264_feed a frame c1 v1"
  have 3: "h264_kept c1 v1 c1 v3"
    by (auto simp: v3_def h264_feed_def h264_kept_def h264_counts_def opened_append rdp_simps Let_def
        split: option.splits)
  obtain c4 v4 where rep: "h264_report a c1 v3 = (c4, v4)" by (metis prod.collapse)
  have "(c', v') = (if \<not> ok then (c1, v1) else if a_planes a = None then (c1, v3) else (c4, v4))"
    using assms True r rep
    by (cases ok; cases "a_planes a") (auto simp: vento_h264_subsystem_decompress_def v3_def Let_def)
  then show ?thesis
    using k 3 h264_report_kept [OF rep] by (auto split: if_splits intro: h264_kept_trans)
qed

text \<open>Replacing or dropping one context changes the counts by that context's share.\<close>

lemma filter_nth_split:
  "i < length cs \<Longrightarrow>
   int (length (filter P cs)) = int (length (filter P (take i cs @ drop (Suc i) cs))) + of_bool (P (cs ! i))"
proof -
  assume "i < length cs"
  then have "length (filter P cs) = length (filter P (take i cs @ cs ! i # drop (Suc i) cs))"
    using id_take_nth_drop by metis
  then show ?thesis by simp
qed

lemma filter_update_count:
  assumes "i < length cs"
  shows "int (length (filter P (cs[i := c]))) =
    int (length (filter P cs)) - of_bool (P (cs ! i)) + of_bool (P c)"
  using filter_nth_split [OF assms, of P] filter_nth_split [of i "cs[i := c]" P] assms by simp

lemma h264_ok_step: "h264_ok st \<Longrightarrow> h264_ok (h264_step e st)"
proof -
  obtain cs v where st: "st = (cs, v)" by (cases st)
  assume ok: "h264_ok st"
  show ?thesis
  proof (cases e)
    case (H264_Init compressor memory mine)
    with ok show ?thesis
      by (auto simp: st vento_h264_subsystem_init_def slots_def decoders_def h264_context_ok_def)
  next
    case (H264_Uninit i)
    show ?thesis
    proof (cases "i < length cs")
      case True
      let ?c = "cs ! i" and ?cs = "take i cs @ drop (Suc i) cs"
      have c: "h264_context_ok ?c" "list_all h264_context_ok ?cs"
        using ok True by (auto simp: st list_all_iff dest: in_set_takeD in_set_dropD)
      obtain c' v' where close: "closeDecoder ?c v = (c', v')" by (metis prod.collapse)
      have "h_hardwareHeld v' = h_hardwareHeld v - of_bool (c_hardware ?c) \<and>
          opened (h_trace v') = opened (h_trace v) - of_bool (c_decoder ?c \<noteq> None)"
        using c(1) close
        by (auto simp: closeDecoder_def h264_context_ok_def opened_append rdp_simps split: if_splits option.splits)
      then show ?thesis
        using ok True c(2) filter_nth_split [OF True, of c_hardware]
          filter_nth_split [OF True, of "\<lambda>c. c_decoder c \<noteq> None"]
        by (simp add: st H264_Uninit vento_h264_subsystem_uninit_def close slots_def decoders_def)
          (cases "c_hardware ?c"; simp)
    qed (use ok in \<open>simp add: st H264_Uninit\<close>)
  next
    case (H264_Decompress i a w h frame)
    show ?thesis
    proof (cases "i < length cs")
      case True
      obtain p c' v' where d: "vento_h264_subsystem_decompress a w h frame (cs ! i) v = (p, c', v')"
        by (metis prod.collapse)
      have c: "h264_context_ok (cs ! i)" using ok True by (simp add: st list_all_length)
      note k = h264_decompress_kept [OF d]
      have "list_all h264_context_ok (cs[i := c'])"
        using k ok c set_update_subset_insert [of cs i c'] by (auto simp: st h264_kept_def list_all_iff)
      moreover have "h_hardwareHeld v' = slots (cs[i := c'])" "opened (h_trace v') = decoders (cs[i := c'])"
        using k ok by (simp_all add: st h264_kept_def h264_counts_def slots_def decoders_def
            filter_update_count [OF True])
      moreover have "h_hardwareHeld v' \<le> VENTO_H264_MAX_HARDWARE" using k ok by (simp add: st h264_kept_def)
      ultimately show ?thesis using True by (simp add: st H264_Decompress d)
    qed (use ok in \<open>simp add: st H264_Decompress\<close>)
  qed
qed

lemma h264_ok_run: "h264_ok st \<Longrightarrow> h264_ok (fold h264_step es st)"
  by (induction es arbitrary: st) (simp_all add: h264_ok_step)

text \<open>
  C26. Whatever surfaces a server opens, resizes and closes and whatever the platform's decoders
  answer, at most four of a session's surfaces decode in hardware, every slot taken is held by
  a surface whose decoder is open, and no decoder is leaked or closed twice: those opened and
  not closed are the surfaces' own, so when the last surface is gone there is none.
\<close>

theorem h264_slots_bounded:
  assumes "vento_h264_init tbl = (ok, v)" and "fold h264_step es ([], v) = (cs, v')"
  shows "0 \<le> h_hardwareHeld v' \<and> h_hardwareHeld v' \<le> VENTO_H264_MAX_HARDWARE \<and>
    h_hardwareHeld v' = slots cs \<and> (\<forall>c\<in>set cs. c_hardware c \<longrightarrow> c_decoder c \<noteq> None) \<and>
    opened (h_trace v') = decoders cs \<and> (cs = [] \<longrightarrow> h_hardwareHeld v' = 0 \<and> opened (h_trace v') = 0)"
proof -
  have "h264_ok ([], v)"
    using assms(1)
    by (auto simp: vento_h264_init_def h264_zero_def h264_emit_def slots_def decoders_def VENTO_H264_MAX_HARDWARE_def
        split: option.splits if_splits)
  from h264_ok_run [OF this, of es] assms(2) show ?thesis
    by (auto simp: slots_def decoders_def list_all_iff h264_context_ok_def)
qed

text \<open>A platform with every member, whose decoders always open and always have a picture.\<close>

definition example_table :: vento_video_decoders where
  "example_table =
     \<lparr>vt_open = True, vt_mode = True, vt_decode_planes = True, vt_hardware = True, vt_status = True,
      vt_take_key_frame_request = True, vt_close = True, vt_release = True\<rparr>"

definition example_answers :: h264_answers where
  "example_answers =
     \<lparr>a_mode = 1, a_open = (\<lambda>_. Some 7), a_planes = None, a_key_frame = False, a_hardware = 1, a_status = None,
      a_now = 0\<rparr>"

definition example_surfaces :: "h264_call list" where
  "example_surfaces =
     replicate 5 (H264_Init False True True) @
     map (\<lambda>i. H264_Decompress i example_answers 8 8 []) [0, 1, 2, 3, 4]"

theorem h264_slots_bounded_witness:
  "\<exists>cs v. fold h264_step example_surfaces ([], snd (vento_h264_init (Some example_table))) = (cs, v) \<and>
     length cs = 5 \<and> h_hardwareHeld v = 4 \<and> opened (h_trace v) = 5 \<and>
     0 \<le> h_hardwareHeld v \<and> h_hardwareHeld v \<le> VENTO_H264_MAX_HARDWARE"
proof -
  let ?v = "snd (vento_h264_init (Some example_table))"
  obtain cs v where run: "fold h264_step example_surfaces ([], ?v) = (cs, v)" by (metis prod.collapse)
  have "length cs = 5 \<and> h_hardwareHeld v = 4 \<and> opened (h_trace v) = 5"
    using run
    by (auto simp: example_surfaces_def example_answers_def example_table_def numeral_eq_Suc vento_h264_init_def
        h264_zero_def video_table_zero_def vento_h264_subsystem_init_def vento_h264_subsystem_decompress_def
        h264_ready_def closeDecoder_def openDecoder_def open_attempts_def claimHardware_def h264_feed_def
        h264_emit_def VENTO_H264_MAX_HARDWARE_def Let_def)
  with h264_slots_bounded [of "Some example_table" True ?v example_surfaces cs v] run show ?thesis
    by (simp add: vento_h264_init_def example_table_def)
qed

end
