(* ===== verification/Rdp_Session.thy ===== *)
theory Rdp_Session
  imports Backend Command_Ring Framebuffer Text Address Held_Keys Rdp_H264
begin

text \<open>
  The state of a FreeRDP session and its command queue, from
  \<open>src/backends/modules/freerdp/cpp/freerdp_session.c\<close>: \<open>Session\<close>, \<open>Cmd\<close>, what the file reads
  and writes of the library's context and GDI, the queue (\<open>makeRoom\<close>, \<open>post\<close> and the head of
  \<open>drainCommands\<close>), \<open>fireClosed\<close>, \<open>fireClipboard\<close>, \<open>stopStatus\<close> and \<open>vento_freerdp_create\<close>.

  A field of the record \<open>rdp_session\<close> is the C field of that name; an array with a count is a
  list.  What the session tells the platform and what it asks of FreeRDP is appended to
  \<open>rs_trace\<close> as it happens.  Each critical section is atomic, which is what the locks give, so
  a call from another thread is a function on the state.
\<close>

section \<open>What the session uses of the library\<close>

text \<open>The values of \<open>rdpSettings\<close>, by the names of their keys.\<close>

datatype rdp_value = RBool bool | RInt u32 | RStr "string option"

type_synonym rdpSettings = "string \<rightharpoonup> rdp_value"

text \<open>
  The GDI: its size, the rows of its BGRX buffer \<open>gdi_stride\<close> bytes apart (always whole
  pixels), and the damage a paint collects (\<open>invalid->null\<close> and \<open>cinvalid\<close> of \<open>ninvalid\<close>).
\<close>

record rdpGdi =
  gdi_width :: int
  gdi_height :: int
  gdi_stride :: nat
  gdi_buffer :: "u32 list"
  gdi_null :: bool
  gdi_cinvalid :: "rect list"

record gfx_capset =
  cap_version :: u32
  cap_flags :: u32

text \<open>A monitor of a display-control layout; the fields that are always the same are left out.\<close>

record disp_monitor =
  dm_primary :: bool
  dm_left :: int
  dm_top :: int
  dm_width :: int
  dm_height :: int
  dm_scale :: int

text \<open>A monitor as the server sends it, its corners inclusive.\<close>

record monitor_def =
  md_left :: int
  md_top :: int
  md_right :: int
  md_bottom :: int

text \<open>A monitor as the connection asks for it; the physical size and orientation are always 0.\<close>

record rdpMonitor =
  mo_x :: int
  mo_y :: int
  mo_width :: int
  mo_height :: int
  mo_primary :: bool
  mo_orig_screen :: int
  mo_scale :: u32

text \<open>A monitor of the session: x, y, width and height.\<close>

type_synonym quad = "int \<times> int \<times> int \<times> int"

section \<open>Commands and events\<close>

datatype rdp_cmd =
    RDP_POINTER int int int
  | RDP_KEY_DOWN u32 int
  | RDP_KEY_UP int
  | RDP_RELEASE_KEYS
  | RDP_CLIPBOARD "u16 list option"
  | RDP_FOCUS bool
  | RDP_RESIZE int int
  | RDP_LAYOUT

text \<open>What a session does to the outside, in order.\<close>

datatype rdp_event =
    RdpCallback vento_callback
  | KeyboardEvent u16 u8
  | KeyboardPause
  | UnicodeKeyboardEvent u16 u16
  | MouseEvent u16 u16 u16
  | ExtendedMouseEvent u16 u16 u16
  | SuppressOutput bool
  | SendMonitorLayout "disp_monitor list"
  | ClientCapabilities
  | ClientFormatList bool
  | ClientFormatListResponse
  | ClientFormatDataRequest u32
  | ClientFormatDataResponse "u16 list option"
  | GdiSurfaceBits u32
  | GdiResetGraphics
  | GdiSurfaceCommand
  | PipelineInit
  | PipelineUninit
  | CapsAdvertise gfx_capset
  | AddChannel "string list"
  | GdiInit
  | GdiFree
  | AbortConnect
  | ClientStart
  | Connect
  | Disconnect
  | ClientStop
  | ContextFree
  | SetHome string

section \<open>The session\<close>

text \<open>A held key: \<open>k_unicode\<close> is 0 unless the key was sent as a character.\<close>

record rdp_key =
  k_code :: u16
  k_shift :: bool
  k_unicode :: u16

record rdp_session =
  rs_ctx :: bool  \<comment> \<open>whether \<open>ctx\<close> is non-NULL\<close>
  rs_settings :: rdpSettings  \<comment> \<open>\<open>ctx->settings\<close>\<close>
  rs_monitorDefs :: "rdpMonitor list"  \<comment> \<open>\<open>FreeRDP_MonitorDefArray\<close>\<close>
  rs_gdi :: "rdpGdi option"  \<comment> \<open>\<open>ctx->gdi\<close>\<close>
  rs_wake :: bool
  rs_ring :: "rdp_cmd ring"
  rs_dropped :: nat
  rs_quit :: bool
  rs_started :: bool
  rs_connected :: bool
  rs_closedReported :: bool
  rs_sawPointerPosition :: bool
  rs_viewOnly :: bool
  rs_canResize :: bool
  rs_dispMonitors :: u32
  rs_dispArea :: u64
  rs_credAnswered :: bool
  rs_credUser :: "string option"
  rs_credDomain :: "string option"
  rs_credPass :: "string option"
  rs_trustAnswered :: bool
  rs_trustAccepted :: bool
  rs_statusPending :: "string option"
  rs_statusShown :: "string option"
  rs_statusDue :: "int \<times> int"  \<comment> \<open>seconds and nanoseconds\<close>
  rs_statusStarted :: bool
  rs_statusStop :: bool
  rs_statusCalling :: "string option"  \<comment> \<open>a local of \<open>statusThread\<close>: the text it is about to report\<close>
  rs_fb :: shadow
  rs_cliprdr :: "bool option"  \<comment> \<open>the channel, and whether it has \<open>ClientFormatList\<close>\<close>
  rs_disp :: "bool option"  \<comment> \<open>the channel, and whether it has \<open>SendMonitorLayout\<close>\<close>
  rs_gfxOpen :: bool
  rs_gfxVersion :: u32
  rs_gfxH264 :: bool
  rs_lastCodec :: u32
  rs_gdiSurfaceBits :: bool
  rs_gdiResetGraphics :: bool
  rs_gdiSurfaceCommand :: bool
  rs_gfxCaps :: gfx_capset
  rs_gfxRestarting :: bool
  rs_h264 :: VentoH264
  rs_audio :: bool  \<comment> \<open>\<open>audio.available\<close>\<close>
  rs_serverLayout :: "quad list option"  \<comment> \<open>\<open>None\<close> for a \<open>serverCount\<close> of -1\<close>
  rs_askedLayout :: "quad list"
  rs_wantLayout :: "quad list"
  rs_heldWidth :: int
  rs_heldHeight :: int
  rs_clipOut :: "u16 list option"
  rs_keys :: "(int \<times> rdp_key) list"
  rs_shiftHeld :: bool
  rs_buttons :: u16
  rs_host :: "string option"
  rs_port :: int
  rs_addressError :: string
  rs_user :: "string option"
  rs_domain :: "string option"
  rs_password :: "string option"
  rs_nla :: "string option"
  rs_legacyTls :: bool
  rs_experience :: "string option"
  rs_graphics :: "string option"
  rs_sound :: "string option"
  rs_clientName :: "string option"
  rs_osMajorType :: u32
  rs_configPath :: "string option"
  rs_width :: int
  rs_height :: int
  rs_monitors :: int
  rs_keyboardLayout :: int
  rs_scale :: int
  rs_compression :: bool
  rs_connectTimeoutMs :: int
  rs_trace :: "rdp_event list"

definition rdp_emit :: "rdp_event \<Rightarrow> rdp_session \<Rightarrow> rdp_session" where
  "rdp_emit e s = s\<lparr>rs_trace := rs_trace s @ [e]\<rparr>"

text \<open>The callbacks of a trace, which is what the platform sees of it.\<close>

fun rdp_callbacks :: "rdp_event list \<Rightarrow> vento_callback list" where
  "rdp_callbacks [] = []"
| "rdp_callbacks (RdpCallback c # es) = c # rdp_callbacks es"
| "rdp_callbacks (_ # es) = rdp_callbacks es"

section \<open>The command queue\<close>

fun cmd_type :: "rdp_cmd \<Rightarrow> nat" where
  "cmd_type (RDP_POINTER _ _ _) = 1"
| "cmd_type (RDP_KEY_DOWN _ _) = 2"
| "cmd_type (RDP_KEY_UP _) = 3"
| "cmd_type RDP_RELEASE_KEYS = 4"
| "cmd_type (RDP_CLIPBOARD _) = 5"
| "cmd_type (RDP_FOCUS _) = 6"
| "cmd_type (RDP_RESIZE _ _) = 7"
| "cmd_type RDP_LAYOUT = 8"

definition releases :: "nat \<Rightarrow> bool" where
  "releases type \<longleftrightarrow> type = cmd_type (RDP_KEY_UP 0) \<or> type = cmd_type RDP_RELEASE_KEYS"

definition rdp_wake :: "rdp_session \<Rightarrow> rdp_session" where
  "rdp_wake s = s\<lparr>rs_wake := True\<rparr>"

text \<open>
  The search of \<open>makeRoom\<close>, from slot \<open>i\<close> back to the tail; \<open>later\<close> has the bit of every type
  that comes later.  The tail is always an index of the array, which is what makes it end.
\<close>

definition may_drop :: "u32 \<Rightarrow> nat \<Rightarrow> bool" where
  "may_drop later type \<longleftrightarrow> type = 2 \<or> \<not> releases type \<and> later AND push_bit type 1 \<noteq> 0"

function find_victim :: "rdp_cmd ring \<Rightarrow> u32 \<Rightarrow> nat option \<Rightarrow> nat \<Rightarrow> nat option" where
  "find_victim r later victim i =
     (let type = cmd_type (rbuf r i);
          victim = (if may_drop later type then Some i else victim)
      in if rtail r < CMD_RING \<and> i < CMD_RING \<and> i \<noteq> rtail r
         then find_victim r (later OR push_bit type 1) victim ((i + CMD_RING - 1) mod CMD_RING)
         else victim)"
  by pat_completeness auto
termination
  by (relation "measure (\<lambda>(r, later, victim, i). (i + CMD_RING - rtail r) mod CMD_RING)")
    (auto simp: CMD_RING_def mod_if split: if_splits)

declare find_victim.simps [simp del]

definition makeRoom :: "rdp_cmd ring \<Rightarrow> rdp_cmd \<Rightarrow> bool \<times> rdp_cmd ring" where
  "makeRoom r c =
     (let victim = find_victim r (push_bit (cmd_type c) 1) None (ring_last r)
      in if victim = None \<and> \<not> releases (cmd_type c) then (False, r)
         else (True, ring_remove r (case victim of None \<Rightarrow> rtail r | Some v \<Rightarrow> v)))"

fun rdp_same_motion :: "rdp_cmd \<Rightarrow> rdp_cmd \<Rightarrow> bool" where
  "rdp_same_motion (RDP_POINTER _ _ m) (RDP_POINTER _ _ m') \<longleftrightarrow> m = m'"
| "rdp_same_motion _ _ \<longleftrightarrow> False"

definition rdp_post :: "rdp_session \<Rightarrow> rdp_cmd \<Rightarrow> rdp_session" where
  "rdp_post s c =
     (if rs_quit s then s
      else let r = rs_ring s
      in if rhead r \<noteq> rtail r \<and> rdp_same_motion (rbuf r (ring_last r)) c
         then rdp_wake (s\<lparr>rs_ring := ring_set_last r c\<rparr>)
         else let full = ring_full r;
                  (kept, r) = (if full then makeRoom r c else (True, r));
                  s = (if full then s\<lparr>rs_dropped := rs_dropped s + 1\<rparr> else s)
              in rdp_wake (s\<lparr>rs_ring := (if kept then ring_put r c else r)\<rparr>))"

text \<open>The part of \<open>drainCommands\<close> under the lock: the oldest command, if there is one.\<close>

definition rdp_pop :: "rdp_session \<Rightarrow> (rdp_cmd \<times> rdp_session) option" where
  "rdp_pop s =
     (let r = rs_ring s
      in if rhead r = rtail r then None
         else Some (rbuf r (rtail r), s\<lparr>rs_ring := ring_advance r\<rparr>))"

definition rdp_items :: "rdp_session \<Rightarrow> rdp_cmd list" where
  "rdp_items s = ring_items (rs_ring s)"

definition rdp_queue_ok :: "rdp_session \<Rightarrow> bool" where
  "rdp_queue_ok s \<longleftrightarrow> ring_ok (rs_ring s)"

section \<open>Callbacks out\<close>

text \<open>
  Ends the status thread.  The join waits for it to report a text it had already taken, so
  that report is the last of it.
\<close>

definition stopStatus :: "rdp_session \<Rightarrow> rdp_session" where
  "stopStatus s =
     (let started = rs_statusStarted s;
          s = s\<lparr>rs_statusStop := True, rs_statusPending := None\<rparr>
      in if started
         then let s = (case rs_statusCalling s of
                         None \<Rightarrow> s
                       | Some t \<Rightarrow> rdp_emit (RdpCallback (Status (Some t))) (s\<lparr>rs_statusCalling := None\<rparr>))
              in s\<lparr>rs_statusStarted := False\<rparr>
         else s)"

definition rdp_fireClosed :: "(nat \<Rightarrow> bool) \<Rightarrow> bytes option \<Rightarrow> rdp_session \<Rightarrow> rdp_session" where
  "rdp_fireClosed malloc detail s =
     (let already = rs_closedReported s;
          s = s\<lparr>rs_closedReported := True\<rparr>
      in if already then s
         else rdp_emit (RdpCallback (Closed (case vento_utf8_from_bytes malloc detail of
                                               Some utf8 \<Rightarrow> utf8 | None \<Rightarrow> []))) (stopStatus s))"

text \<open>
  \<open>utf8\<close> is what \<open>ConvertWCharNToUtf8Alloc\<close> makes of the text, \<open>None\<close> for NULL; it ends at its
  first NUL, as \<open>vento_text_to_lf\<close> and \<open>strlen\<close> read it.
\<close>

definition fireClipboard :: "(u16 list \<Rightarrow> bytes option) \<Rightarrow> u16 list \<Rightarrow> rdp_session \<Rightarrow> rdp_session" where
  "fireClipboard to_utf8 txt s =
     (case to_utf8 txt of
        None \<Rightarrow> s
      | Some utf8 \<Rightarrow>
          let utf8 = vento_text_to_lf (takeWhile (\<lambda>b. b \<noteq> 0) utf8)
          in if length utf8 > VENTO_MAX_CLIPBOARD then s
             else if length utf8 > 0 then rdp_emit (RdpCallback (Clipboard utf8)) s else s)"

section \<open>A new session\<close>

record vento_freerdp_config =
  fc_address :: "string option"
  fc_user_name :: "string option"
  fc_domain :: "string option"
  fc_password :: "string option"
  fc_nla :: "string option"
  fc_legacy_tls :: bool
  fc_compression :: bool
  fc_graphics :: "string option"
  fc_experience :: "string option"
  fc_sound :: "string option"
  fc_scale :: int
  fc_width :: int
  fc_height :: int
  fc_monitors :: int
  fc_keyboard_layout :: int
  fc_client_name :: "string option"
  fc_platform :: "string option"
  fc_config_path :: "string option"
  fc_connect_timeout_ms :: int
  fc_video :: "vento_video_decoders option"
  fc_audio :: bool  \<comment> \<open>whether \<open>vento_sound_init\<close> accepts the output given\<close>

text \<open>
  The zeroed struct.  A slot of the ring outside \<open>tail\<close>..\<open>head\<close> is never read, so what it
  holds does not matter.
\<close>

definition rdp_calloc :: rdp_session where
  "rdp_calloc =
     \<lparr>rs_ctx = False, rs_settings = (\<lambda>_. None), rs_monitorDefs = [], rs_gdi = None, rs_wake = False,
      rs_ring = \<lparr>rbuf = (\<lambda>_. RDP_RELEASE_KEYS), rhead = 0, rtail = 0\<rparr>,
      rs_dropped = 0, rs_quit = False, rs_started = False, rs_connected = False,
      rs_closedReported = False, rs_sawPointerPosition = False, rs_viewOnly = False,
      rs_canResize = False, rs_dispMonitors = 0, rs_dispArea = 0,
      rs_credAnswered = False, rs_credUser = None, rs_credDomain = None, rs_credPass = None,
      rs_trustAnswered = False, rs_trustAccepted = False,
      rs_statusPending = None, rs_statusShown = None, rs_statusDue = (0, 0),
      rs_statusStarted = False, rs_statusStop = False, rs_statusCalling = None,
      rs_fb = \<lparr>px = None, pw = 0, ph = 0\<rparr>, rs_cliprdr = None, rs_disp = None,
      rs_gfxOpen = False, rs_gfxVersion = 0, rs_gfxH264 = False, rs_lastCodec = 0,
      rs_gdiSurfaceBits = False, rs_gdiResetGraphics = False, rs_gdiSurfaceCommand = False,
      rs_gfxCaps = \<lparr>cap_version = 0, cap_flags = 0\<rparr>, rs_gfxRestarting = False,
      rs_h264 = h264_zero, rs_audio = False,
      rs_serverLayout = Some [], rs_askedLayout = [], rs_wantLayout = [],
      rs_heldWidth = 0, rs_heldHeight = 0, rs_clipOut = None,
      rs_keys = [], rs_shiftHeld = False, rs_buttons = 0,
      rs_host = None, rs_port = 0, rs_addressError = [],
      rs_user = None, rs_domain = None, rs_password = None, rs_nla = None, rs_legacyTls = False,
      rs_experience = None, rs_graphics = None, rs_sound = None, rs_clientName = None,
      rs_osMajorType = 0, rs_configPath = None, rs_width = 0, rs_height = 0, rs_monitors = 0,
      rs_keyboardLayout = 0, rs_scale = 0, rs_compression = False, rs_connectTimeoutMs = 0,
      rs_trace = []\<rparr>"

text \<open>Values of the protocol (MS-RDPBCGR 2.2.7.1.1).\<close>

definition OSMAJORTYPE_UNSPECIFIED :: u32 where "OSMAJORTYPE_UNSPECIFIED = 0"
definition OSMAJORTYPE_UNIX :: u32 where "OSMAJORTYPE_UNIX = 4"
definition OSMAJORTYPE_ANDROID :: u32 where "OSMAJORTYPE_ANDROID = 8"

text \<open>What the options of a configuration become in the session.\<close>

definition rdp_options :: "vento_freerdp_config \<Rightarrow> rdp_session \<Rightarrow> rdp_session" where
  "rdp_options cfg s =
     s\<lparr>rs_user := fc_user_name cfg, rs_domain := fc_domain cfg, rs_password := fc_password cfg,
       rs_nla := fc_nla cfg, rs_legacyTls := fc_legacy_tls cfg, rs_graphics := fc_graphics cfg,
       rs_experience := fc_experience cfg, rs_sound := fc_sound cfg, rs_clientName := fc_client_name cfg,
       rs_osMajorType := (if fc_platform cfg = Some ''android'' then OSMAJORTYPE_ANDROID
                          else if fc_platform cfg = Some ''linux'' then OSMAJORTYPE_UNIX
                          else OSMAJORTYPE_UNSPECIFIED),
       rs_configPath := fc_config_path cfg, rs_compression := fc_compression cfg,
       rs_scale := (if fc_scale cfg = 140 \<or> fc_scale cfg = 180 then fc_scale cfg else 100),
       rs_width := fc_width cfg, rs_height := fc_height cfg, rs_monitors := fc_monitors cfg,
       rs_serverLayout := None, rs_keyboardLayout := fc_keyboard_layout cfg,
       rs_connectTimeoutMs := fc_connect_timeout_ms cfg\<rparr>"

text \<open>
  The arguments say whether memory, the wake event, the library's context, the registration
  of the sound device and the thread could be had, and whether the process has a \<open>HOME\<close>.
\<close>

definition vento_freerdp_create ::
  "bool \<Rightarrow> bool \<Rightarrow> bool \<Rightarrow> bool \<Rightarrow> bool \<Rightarrow> bool \<Rightarrow> vento_freerdp_config \<Rightarrow> rdp_session option"
where
  "vento_freerdp_create memory event context_new register thread home cfg =
     (if \<not> memory then None
      else let s = rdp_calloc\<lparr>rs_h264 := snd (vento_h264_init (fc_video cfg)), rs_audio := fc_audio cfg\<rparr>
      in if \<not> event then None
         else let s = s\<lparr>rs_port := 3389\<rparr>;
                  s = (case fc_address cfg of
                         None \<Rightarrow> s
                       | Some addr \<Rightarrow>
                           let (host, port, why) = rdp_splitAddress 160 addr 3389
                           in s\<lparr>rs_host := Some host, rs_port := port, rs_addressError := why\<rparr>);
                  s = rdp_options cfg s;
                  s = (case rs_configPath s of
                         None \<Rightarrow> s
                       | Some dir \<Rightarrow> if home then s else rdp_emit (SetHome dir) s)
              in if \<not> context_new then None
                 else let s = s\<lparr>rs_ctx := True\<rparr>;
                          s = (if rs_audio s \<and> \<not> register then s\<lparr>rs_audio := False\<rparr> else s)
                      in if thread then Some s else None)"

end
