(* ===== verification/Rdp_Queue.thy ===== *)
theory Rdp_Queue
  imports Rdp_Session
begin

text \<open>
  What the command queue of a FreeRDP session promises: the contract of every command queue
  (\<open>command_queue\<close>), and which command goes when the ring is full (\<open>makeRoom\<close> of
  \<open>src/backends/modules/freerdp/cpp/freerdp_session.c\<close>).
\<close>

section \<open>The types as bits\<close>

lemma cmd_type_range: "1 \<le> cmd_type c \<and> cmd_type c \<le> 8"
  by (cases c) simp_all

lemma later_bit:
  assumes "t < 32"
  shows "(later :: u32) AND push_bit t 1 \<noteq> 0 \<longleftrightarrow> bit later t"
proof -
  have "bit (later AND push_bit t 1) n \<longleftrightarrow> n = t \<and> bit later t" for n
    using assms by (auto simp: bit_simps)
  then show ?thesis by (metis bit_0_eq bot_apply bot_bool_def bit_eq_iff)
qed

text \<open>\<open>later\<close> has the bits of the types in a list of commands.\<close>

definition later_of :: "u32 \<Rightarrow> rdp_cmd list \<Rightarrow> bool" where
  "later_of later cs \<longleftrightarrow> (\<forall>t<32. bit later t \<longleftrightarrow> (\<exists>d\<in>set cs. cmd_type d = t))"

lemma bit_type: "t < 32 \<Longrightarrow> bit (push_bit (cmd_type c) 1 :: u32) t \<longleftrightarrow> cmd_type c = t"
  by (auto simp: bit_simps)

lemma bit_type_exp [simp]: "t < 32 \<Longrightarrow> bit (2 ^ cmd_type c :: u32) t \<longleftrightarrow> cmd_type c = t"
  using bit_type [of t c] by simp

lemma find_append:
  "List.find P (xs @ ys) = (case List.find P xs of None \<Rightarrow> List.find P ys | Some x \<Rightarrow> Some x)"
  by (induction xs) simp_all

lemma later_of_one: "later_of (push_bit (cmd_type c) 1) [c]"
  by (simp add: later_of_def)

lemma later_of_Cons: "later_of later cs \<Longrightarrow> later_of (later OR push_bit (cmd_type d) 1) (d # cs)"
  by (auto simp: later_of_def bit_or_iff)

section \<open>Which command can go\<close>

text \<open>
  A key press, or a command restated by a later one of its type, the new one included; never
  a release.
\<close>

definition droppable :: "rdp_cmd list \<Rightarrow> rdp_cmd \<Rightarrow> nat \<Rightarrow> bool" where
  "droppable cs c k \<longleftrightarrow>
     (case cs ! k of
        RDP_KEY_DOWN _ _ \<Rightarrow> True
      | RDP_KEY_UP _ \<Rightarrow> False
      | RDP_RELEASE_KEYS \<Rightarrow> False
      | d \<Rightarrow> \<exists>e\<in>set (drop (Suc k) cs @ [c]). cmd_type e = cmd_type d)"

lemma may_drop_iff:
  assumes "later_of later (drop (Suc k) cs @ [c])"
  shows "may_drop later (cmd_type (cs ! k)) \<longleftrightarrow> droppable cs c k"
proof -
  have "cmd_type (cs ! k) < 32" using cmd_type_range [of "cs ! k"] by simp
  then have "later AND push_bit (cmd_type (cs ! k)) 1 \<noteq> 0 \<longleftrightarrow>
      (\<exists>e\<in>set (drop (Suc k) cs @ [c]). cmd_type e = cmd_type (cs ! k))"
    using assms unfolding later_of_def by (simp only: later_bit)
  then show ?thesis
    by (cases "cs ! k") (simp_all add: may_drop_def releases_def droppable_def)
qed

text \<open>The search finds the oldest of them.\<close>

lemma find_victim_spec:
  assumes "ring_ok r" and "k < ring_len r" and "cs = ring_items r"
    and "later_of later (drop (Suc k) cs @ [c])"
  shows "find_victim r later v (ring_slot r k) =
    (case find (droppable cs c) [0..<Suc k] of None \<Rightarrow> v | Some j \<Rightarrow> Some (ring_slot r j))"
  using assms(2,4)
proof (induction k arbitrary: later v)
  case 0
  have "ring_slot r 0 = rtail r" using assms(1) by (simp add: ring_slot_def ring_ok_def)
  moreover have "rbuf r (rtail r) = cs ! 0"
    using nth_ring_items [of 0 r] 0 assms(3) by (simp add: calculation)
  ultimately show ?case
    using may_drop_iff [OF "0.prems"(2)] by (simp add: find_victim.simps Let_def)
next
  case (Suc k)
  have len: "ring_len r < CMD_RING" by (rule ring_len_less)
  have slot: "rbuf r (ring_slot r (Suc k)) = cs ! Suc k"
    using nth_ring_items [of "Suc k" r] Suc.prems(1) assms(3) by simp
  have ne: "ring_slot r (Suc k) \<noteq> rtail r"
    using ring_slot_inj [OF assms(1), of "Suc k" 0] Suc.prems(1) len assms(1)
    by (simp add: ring_slot_def [of r 0] ring_ok_def)
  have prev: "(ring_slot r (Suc k) + CMD_RING - 1) mod CMD_RING = ring_slot r k"
    using ring_slot_if [OF assms(1), of "Suc k"] ring_slot_if [OF assms(1), of k] Suc.prems(1) len assms(1)
    by (auto simp: ring_ok_def mod_lap split: if_splits)
  have "drop (Suc k) cs = cs ! Suc k # drop (Suc (Suc k)) cs"
    using Suc.prems(1) assms(3) by (simp add: Cons_nth_drop_Suc)
  then have later: "later_of (later OR push_bit (cmd_type (cs ! Suc k)) 1) (drop (Suc k) cs @ [c])"
    using later_of_Cons [OF Suc.prems(2), of "cs ! Suc k"] by simp
  show ?case
    using Suc.IH [OF _ later] Suc.prems(1) may_drop_iff [OF Suc.prems(2)] ne ring_slot_less [of r "Suc k"] assms(1)
    by (subst find_victim.simps)
      (auto simp: slot prev [simplified] Let_def ring_ok_def find_append split: option.splits)
qed

text \<open>What is left of a full ring, and whether the new command has room.\<close>

definition room :: "rdp_cmd list \<Rightarrow> rdp_cmd \<Rightarrow> rdp_cmd list option" where
  "room cs c =
     (case List.find (droppable cs c) [0..<length cs] of
        Some k \<Rightarrow> Some (take k cs @ drop (Suc k) cs)
      | None \<Rightarrow> if releases (cmd_type c) then Some (tl cs) else None)"

lemma find_upt_less: "List.find P [0..<n] = Some k \<Longrightarrow> k < n"
  by (auto simp: find_Some_iff)

lemma makeRoom_spec:
  assumes "ring_ok r" and "ring_len r \<noteq> 0"
  shows "makeRoom r c = (kept, r') \<Longrightarrow> ring_ok r' \<and>
    (case room (ring_items r) c of
       None \<Rightarrow> \<not> kept \<and> r' = r
     | Some cs \<Rightarrow> kept \<and> ring_items r' = cs \<and> ring_len r' = ring_len r - 1)"
proof -
  assume m: "makeRoom r c = (kept, r')"
  let ?cs = "ring_items r" and ?n = "ring_len r"
  have last: "ring_last r = ring_slot r (?n - 1)" "?n - 1 < ?n" "Suc (?n - 1) = ?n"
    using ring_last_slot [OF assms] assms(2) by simp_all
  have v: "find_victim r (push_bit (cmd_type c) 1) None (ring_last r) =
      map_option (ring_slot r) (List.find (droppable ?cs c) [0..<?n])"
    using find_victim_spec [OF assms(1) last(2) refl, of "push_bit (cmd_type c) 1" c None] later_of_one [of c]
    unfolding last(1,3) by (simp add: map_option_case)
  have tail: "rtail r = ring_slot r 0" using assms(1) by (simp add: ring_slot_def ring_ok_def)
  have remove: "ring_ok (ring_remove r (ring_slot r k))" "ring_len (ring_remove r (ring_slot r k)) = ?n - 1"
    "k < ?n \<Longrightarrow> ring_items (ring_remove r (ring_slot r k)) = take k ?cs @ drop (Suc k) ?cs" for k
    using ring_len_remove [OF assms] ring_items_remove [OF assms(1)] by blast+
  show ?thesis
  proof (cases "List.find (droppable ?cs c) [0..<?n]")
    case (Some k)
    then show ?thesis
      using m remove [of k] find_upt_less [OF Some]
      by (auto simp: makeRoom_def v room_def Let_def simp del: push_bit_of_1)
  next
    case None
    have "ring_items (ring_remove r (rtail r)) = tl ?cs"
      using remove(3) [of 0] assms(2) by (simp add: tail drop_Suc)
    with None show ?thesis
      using m remove [of 0] assms(1)
      by (auto simp: makeRoom_def v room_def tail Let_def simp del: push_bit_of_1 split: if_splits)
  qed
qed

section \<open>Posting\<close>

lemma rdp_wake_simps [rdp_simps]:
  "rs_ring (rdp_wake s) = rs_ring s" "rs_quit (rdp_wake s) = rs_quit s" "rs_wake (rdp_wake s)"
  "rs_trace (rdp_wake s) = rs_trace s"
  by (simp_all add: rdp_wake_def)

lemma rdp_items_Nil: "rdp_queue_ok s \<Longrightarrow> rhead (rs_ring s) = rtail (rs_ring s) \<longleftrightarrow> rdp_items s = []"
  using ring_empty_iff [of "rs_ring s"] length_0_conv [of "rdp_items s"]
  by (simp add: rdp_queue_ok_def rdp_items_def)

text \<open>The queue a post leaves.\<close>

definition posted_items :: "rdp_cmd list \<Rightarrow> rdp_cmd \<Rightarrow> rdp_cmd list" where
  "posted_items cs c =
     (if cs \<noteq> [] \<and> rdp_same_motion (last cs) c then butlast cs @ [c]
      else if length cs < CMD_RING - 1 then cs @ [c]
      else case room cs c of None \<Rightarrow> cs | Some cs' \<Rightarrow> cs' @ [c])"

lemma rdp_post_items:
  assumes "rdp_queue_ok s"
  shows "rdp_items (rdp_post s c) = (if rs_quit s then rdp_items s else posted_items (rdp_items s) c)"
    and "rdp_queue_ok (rdp_post s c)"
proof -
  let ?r = "rs_ring s" and ?cs = "rdp_items s"
  have ok: "ring_ok ?r" using assms by (simp add: rdp_queue_ok_def)
  have len: "ring_len ?r = length ?cs" by (simp add: rdp_items_def)
  have full: "ring_full ?r \<longleftrightarrow> \<not> length ?cs < CMD_RING - 1"
    using ring_full_iff [OF ok] ring_len_less [of ?r] by (auto simp: len)
  have motion: "rhead ?r \<noteq> rtail ?r \<and> rdp_same_motion (rbuf ?r (ring_last ?r)) c \<longleftrightarrow>
      ?cs \<noteq> [] \<and> rdp_same_motion (last ?cs) c"
    using rdp_items_Nil [OF assms] last_ring_items [OF ok] by (auto simp: rdp_items_def)
  have "(rs_quit s \<longrightarrow> rdp_post s c = s) \<and>
    (\<not> rs_quit s \<longrightarrow> rdp_items (rdp_post s c) = posted_items ?cs c \<and> rdp_queue_ok (rdp_post s c))"
  proof (cases "?cs \<noteq> [] \<and> rdp_same_motion (last ?cs) c")
    case True
    then have "ring_len ?r \<noteq> 0" by (simp add: len)
    from ring_items_set_last [OF ok this, of c] True show ?thesis
      unfolding rdp_post_def Let_def motion
      by (simp add: rdp_items_def rdp_queue_ok_def posted_items_def rdp_simps ring_ok_set_last ok)
  next
    case False
    have fits: "ring_items (ring_put ?r c) = ?cs @ [c]" "ring_ok (ring_put ?r c)" if "\<not> ring_full ?r"
      using ring_items_put [OF ok that] ring_ok_put [OF ok] by (simp_all add: rdp_items_def)
    obtain kept r' where m: "makeRoom ?r c = (kept, r')" by (metis prod.collapse)
    have put: "ring_ok r'" "case room ?cs c of None \<Rightarrow> \<not> kept \<and> r' = ?r
        | Some cs \<Rightarrow> kept \<and> ring_items (ring_put r' c) = cs @ [c] \<and> ring_ok (ring_put r' c)" if "ring_full ?r"
    proof -
      have n: "ring_len ?r = CMD_RING - 1" using ring_full_iff [OF ok] that by simp
      then have "ring_len ?r \<noteq> 0" by (simp add: CMD_RING_def)
      note spec = makeRoom_spec [OF ok this m]
      from spec show "ring_ok r'" by simp
      from spec have "\<not> ring_full r'" if "room ?cs c = Some cs" for cs
        using that n ring_full_iff [of r'] by (auto simp: rdp_items_def CMD_RING_def)
      with spec show "case room ?cs c of None \<Rightarrow> \<not> kept \<and> r' = ?r
        | Some cs \<Rightarrow> kept \<and> ring_items (ring_put r' c) = cs @ [c] \<and> ring_ok (ring_put r' c)"
        by (auto simp: rdp_items_def ring_items_put ring_ok_put split: option.splits)
    qed
    show ?thesis
    proof (cases "ring_full ?r")
      case True
      with False put [OF True] m full ok show ?thesis
        unfolding rdp_post_def Let_def motion
        by (cases "room ?cs c") (auto simp: rdp_items_def rdp_queue_ok_def posted_items_def rdp_simps)
    next
      case full': False
      with False fits [OF full'] full show ?thesis
        unfolding rdp_post_def Let_def motion
        by (auto simp: rdp_items_def rdp_queue_ok_def posted_items_def rdp_simps)
    qed
  qed
  then show "rdp_items (rdp_post s c) = (if rs_quit s then ?cs else posted_items ?cs c)"
    and "rdp_queue_ok (rdp_post s c)"
    using assms by auto
qed

text \<open>A post touches the queue, the wake event and the count of what was dropped, nothing else.\<close>

lemma rdp_post_eq:
  "rdp_post s c = s\<lparr>rs_ring := rs_ring (rdp_post s c), rs_wake := rs_wake (rdp_post s c),
     rs_dropped := rs_dropped (rdp_post s c)\<rparr>"
proof -
  obtain kept r where p: "(if ring_full (rs_ring s) then makeRoom (rs_ring s) c else (True, rs_ring s)) = (kept, r)"
    by (metis prod.collapse)
  show ?thesis
    by (cases "rs_quit s"; cases "ring_full (rs_ring s)"; cases kept)
      (use p in \<open>simp_all add: rdp_post_def rdp_wake_def Let_def\<close>)
qed

lemma rdp_pop_None: "rdp_queue_ok s \<Longrightarrow> rdp_pop s = None \<longleftrightarrow> rdp_items s = []"
  using rdp_items_Nil [of s] by (simp add: rdp_pop_def Let_def)

lemma rdp_pop_Some:
  assumes "rdp_queue_ok s" and "rdp_pop s = Some (c, s')"
  shows "rdp_items s = c # rdp_items s' \<and> rdp_queue_ok s' \<and> s' = s\<lparr>rs_ring := rs_ring s'\<rparr>"
proof -
  have ok: "ring_ok (rs_ring s)" using assms by (simp add: rdp_queue_ok_def)
  have ne: "rhead (rs_ring s) \<noteq> rtail (rs_ring s)"
    and c: "c = rbuf (rs_ring s) (rtail (rs_ring s))"
    and s': "s' = s\<lparr>rs_ring := ring_advance (rs_ring s)\<rparr>"
    using assms(2) by (auto simp: rdp_pop_def Let_def split: if_splits)
  have "ring_len (rs_ring s) \<noteq> 0" using ring_empty_iff [OF ok] ne by metis
  from ring_items_advance [OF ok this] show ?thesis
    using ok by (simp add: c s' rdp_items_def rdp_queue_ok_def ring_ok_advance)
qed

lemma subseq_remove: "subseq (take k xs @ drop (Suc k) xs) xs"
proof -
  have "subseq (drop (Suc k) xs) (drop k xs)"
    using suffix_imp_subseq [OF suffix_drop, of 1 "drop k xs"] by simp
  then have "subseq (take k xs @ drop (Suc k) xs) (take k xs @ drop k xs)"
    by (intro list_emb_append_mono) simp_all
  then show ?thesis by simp
qed

lemma subseq_posted: "subseq (posted_items cs c) (cs @ [c])"
  by (auto simp: posted_items_def room_def subseq_remove intro!: list_emb_append_mono split: option.splits)

interpretation rq: command_queue rdp_queue_ok rdp_items rdp_post rdp_pop
proof
  fix q :: rdp_session and c
  assume q: "rdp_queue_ok q"
  show "rdp_queue_ok (rdp_post q c)" by (rule rdp_post_items(2) [OF q])
  show "subseq (rdp_items (rdp_post q c)) (rdp_items q @ [c])"
    unfolding rdp_post_items(1) [OF q] using subseq_posted [of "rdp_items q" c] subseq_snoc [of "rdp_items q"] by simp
  show "length (rdp_items q) < CMD_RING" by (simp add: rdp_items_def ring_len_less)
  show "rdp_pop q = None \<longleftrightarrow> rdp_items q = []" by (rule rdp_pop_None [OF q])
next
  fix q q' :: rdp_session and c
  assume "rdp_queue_ok q" "rdp_pop q = Some (c, q')"
  from rdp_pop_Some [OF this] show "rdp_queue_ok q'" "rdp_items q = c # rdp_items q'"
    by blast+
qed

text \<open>
  C20. Whatever the interleaving of posts and takes, the protocol thread of a FreeRDP session
  executes commands in the order they were posted, each at most once, and a queue left alone
  is emptied: the commands taken followed by those still queued are a subsequence of those
  queued before followed by those posted.
\<close>

theorem rdp_commands_in_order:
  assumes "rdp_queue_ok s" and "queue_run rdp_post rdp_pop s es = (taken, s')"
  shows "subseq (taken @ rdp_items s') (rdp_items s @ posted es) \<and> rdp_queue_ok s' \<and>
    length (rdp_items s') < CMD_RING \<and>
    (\<exists>s''. queue_run rdp_post rdp_pop s' (replicate CMD_RING Take) = (rdp_items s', s'') \<and> rdp_items s'' = [])"
proof -
  have ok: "rdp_queue_ok s'" by (rule rq.run_invar [OF assms])
  have "length (rdp_items s') < CMD_RING" by (rule rq.items_bound [OF ok])
  with ok rq.run_drains [OF ok, of CMD_RING] show ?thesis
    by (simp add: rq.run_in_order [OF assms])
qed

lemma rdp_calloc_queue [simp]: "rdp_queue_ok rdp_calloc" "rdp_items rdp_calloc = []" "\<not> rs_quit rdp_calloc"
  by (simp_all add: rdp_queue_ok_def rdp_items_def rdp_calloc_def ring_ok_def ring_items_def ring_len_def
      CMD_RING_def)

theorem rdp_commands_in_order_witness:
  "\<exists>taken s'. queue_run rdp_post rdp_pop rdp_calloc [Post (RDP_KEY_UP 1), Take, Post RDP_LAYOUT] = (taken, s') \<and>
     subseq (taken @ rdp_items s') [RDP_KEY_UP 1, RDP_LAYOUT]"
proof -
  let ?es = "[Post (RDP_KEY_UP 1), Take, Post RDP_LAYOUT]"
  obtain taken s' where r: "queue_run rdp_post rdp_pop rdp_calloc ?es = (taken, s')"
    by (cases "queue_run rdp_post rdp_pop rdp_calloc ?es")
  with rdp_commands_in_order [OF rdp_calloc_queue(1) r] show ?thesis by simp
qed

section \<open>A full ring\<close>

text \<open>The last command of each type that restates what came before it.\<close>

fun restates :: "rdp_cmd \<Rightarrow> bool" where
  "restates (RDP_KEY_DOWN _ _) = False"
| "restates (RDP_KEY_UP _) = False"
| "restates RDP_RELEASE_KEYS = False"
| "restates _ = True"

definition newest :: "rdp_cmd \<Rightarrow> rdp_cmd list \<Rightarrow> rdp_cmd option" where
  "newest c cs = List.find (\<lambda>d. cmd_type d = cmd_type c) (rev cs)"

lemma filter_remove:
  "k < length cs \<Longrightarrow> \<not> P (cs ! k) \<Longrightarrow> filter P (take k cs @ drop (Suc k) cs) = filter P cs"
  using id_take_nth_drop [of k cs] by (metis filter.simps(2) filter_append)

lemma find_rev_remove:
  assumes "k < length cs" and "P (cs ! k) \<Longrightarrow> \<exists>d\<in>set (drop (Suc k) cs). P d"
  shows "List.find P (rev (take k cs @ drop (Suc k) cs)) = List.find P (rev cs)"
proof -
  have "rev cs = rev (drop (Suc k) cs) @ cs ! k # rev (take k cs)"
    using id_take_nth_drop [OF assms(1)] by (metis append_assoc append_Cons append_Nil rev.simps(2) rev_append)
  moreover have "List.find P (rev (drop (Suc k) cs)) \<noteq> None" if "P (cs ! k)"
    using assms(2) [OF that] by (auto simp: find_None_iff)
  ultimately show ?thesis
    by (cases "List.find P (rev (drop (Suc k) cs))") (auto simp: find_append)
qed

text \<open>
  C7. When the ring is full, exactly one command is lost, and the far end cannot tell its loss
  from slow input as long as anything in the ring can go: no release is lost, the newest
  pointer position, focus, size, layout and clipboard are all still there, and so is the new
  command.  With nothing that can go, the new command is refused, unless it is a release,
  which takes the place of the oldest command.
\<close>

theorem rdp_full_ring:
  assumes "rdp_queue_ok s" and "\<not> rs_quit s" and "length (rdp_items s) = CMD_RING - 1"
    and "\<not> rdp_same_motion (last (rdp_items s)) c"
  shows "let cs = rdp_items s; cs' = rdp_items (rdp_post s c) in
     if \<exists>k<length cs. droppable cs c k
     then length cs' = length cs \<and> last cs' = c \<and>
       filter (releases \<circ> cmd_type) cs' = filter (releases \<circ> cmd_type) (cs @ [c]) \<and>
       (\<forall>d. restates d \<longrightarrow> newest d cs' = newest d (cs @ [c]))
     else cs' = (if releases (cmd_type c) then tl cs @ [c] else cs)"
proof -
  let ?cs = "rdp_items s"
  have cs': "rdp_items (rdp_post s c) = (case room ?cs c of None \<Rightarrow> ?cs | Some cs \<Rightarrow> cs @ [c])"
    using assms by (simp add: rdp_post_items(1) posted_items_def)
  show ?thesis
  proof (cases "List.find (droppable ?cs c) [0..<length ?cs]")
    case None
    then have "\<not> (\<exists>k<length ?cs. droppable ?cs c k)" by (auto simp: find_None_iff)
    with None show ?thesis by (auto simp: cs' room_def Let_def)
  next
    case (Some k)
    then have k: "k < length ?cs" "droppable ?cs c k" by (auto simp: find_Some_iff)
    let ?rest = "take k ?cs @ drop (Suc k) ?cs"
    have new: "rdp_items (rdp_post s c) = ?rest @ [c]" using Some by (simp add: cs' room_def)
    have "filter (releases \<circ> cmd_type) ?rest = filter (releases \<circ> cmd_type) ?cs"
      using k by (intro filter_remove) (auto simp: droppable_def releases_def split: rdp_cmd.splits)
    moreover have "newest d (?rest @ [c]) = newest d (?cs @ [c])" if "restates d" for d
    proof (cases "cmd_type c = cmd_type d")
      case False
      have "\<exists>e\<in>set (drop (Suc k) ?cs). cmd_type e = cmd_type d" if "cmd_type (?cs ! k) = cmd_type d"
        using k(2) that \<open>restates d\<close> False
        by (cases "?cs ! k"; cases d) (auto simp: droppable_def)
      from find_rev_remove [of k ?cs "\<lambda>e. cmd_type e = cmd_type d", OF k(1) this] False show ?thesis
        by (simp add: newest_def)
    qed (simp add: newest_def)
    ultimately show ?thesis using k by (auto simp: new Let_def)
  qed
qed

text \<open>A ring with room for no more, all of it presses.\<close>

definition example_full :: rdp_session where
  "example_full = rdp_calloc\<lparr>rs_ring := \<lparr>rbuf = (\<lambda>_. RDP_KEY_DOWN 97 1), rhead = 511, rtail = 0\<rparr>\<rparr>"

lemma example_full_items: "rdp_items example_full = replicate 511 (RDP_KEY_DOWN 97 1)" "rdp_queue_ok example_full"
  by (simp_all add: example_full_def rdp_items_def ring_items_def ring_len_def CMD_RING_def rdp_queue_ok_def
      ring_ok_def map_replicate_const)

theorem rdp_full_ring_witness:
  "let cs' = rdp_items (rdp_post example_full (RDP_KEY_UP 1)) in
     length cs' = 511 \<and> filter (releases \<circ> cmd_type) cs' = [RDP_KEY_UP 1]"
proof -
  have "\<exists>k<length (rdp_items example_full). droppable (rdp_items example_full) (RDP_KEY_UP 1) k"
    unfolding example_full_items(1) by (rule exI [of _ 0]) (simp add: droppable_def)
  moreover have "\<not> rs_quit example_full" by (simp add: example_full_def)
  ultimately show ?thesis
    using rdp_full_ring [OF example_full_items(2), of "RDP_KEY_UP 1"]
    by (simp add: example_full_items(1) Let_def CMD_RING_def releases_def comp_def filter_replicate)
qed

text \<open>
  The queue is not a place where a release is always safe: when all it holds is releases, one
  more displaces the oldest of them.
\<close>

theorem rdp_release_displaced:
  assumes "rdp_queue_ok s" and "\<not> rs_quit s" and "length (rdp_items s) = CMD_RING - 1"
    and "list_all (releases \<circ> cmd_type) (rdp_items s)" and "releases (cmd_type c)"
  shows "rdp_items (rdp_post s c) = tl (rdp_items s) @ [c]"
proof -
  let ?cs = "rdp_items s"
  have "List.find (droppable ?cs c) [0..<length ?cs] = None"
    using assms(4)
    by (auto simp: find_None_iff list_all_length droppable_def releases_def split: rdp_cmd.splits)
  moreover have "\<not> rdp_same_motion d c" for d
    using assms(5) by (cases c; cases d) (auto simp: releases_def)
  ultimately show ?thesis
    using assms by (simp add: rdp_post_items(1) posted_items_def room_def)
qed

end
