(* ===== verification/Rdp_Display.thy ===== *)
theory Rdp_Display
  imports Rdp_Queue
begin

text \<open>
  The picture and the cursor of a FreeRDP session (\<open>src/backends/modules/freerdp/cpp/freerdp_session.c\<close>):
  the copy of the library's GDI buffer that regions are read from (\<open>allocFramebuffer\<close>,
  \<open>onBeginPaint\<close>, \<open>onEndPaint\<close>, \<open>onDesktopResize\<close>, \<open>op_read_region\<close>, \<open>op_read_thumbnail\<close>), the
  codec last seen (\<open>onSurfaceBits\<close>) and the pointer's handlers.  The lemmas show that a paint
  copies exactly the damage both buffers have, whatever their sizes at that moment, and that
  no transparent pixel is ever handed out.
\<close>

section \<open>The framebuffer\<close>

definition setting_uint32 :: "rdp_session \<Rightarrow> string \<Rightarrow> u32" where
  "setting_uint32 s key = (case rs_settings s key of Some (RInt v) \<Rightarrow> v | _ \<Rightarrow> 0)"

definition allocFramebuffer :: "bool \<Rightarrow> int \<Rightarrow> int \<Rightarrow> rdp_session \<Rightarrow> bool \<times> rdp_session" where
  "allocFramebuffer memory w h s =
     (if w \<le> 0 \<or> h \<le> 0 \<or> \<not> memory then (False, s) else (True, s\<lparr>rs_fb := shadow_alloc w h\<rparr>))"

definition onBeginPaint :: "rdp_session \<Rightarrow> rdp_session" where
  "onBeginPaint s = s\<lparr>rs_gdi := map_option (\<lambda>g. g\<lparr>gdi_null := True, gdi_cinvalid := []\<rparr>) (rs_gdi s)\<rparr>"

text \<open>BGRX to RGBX: red and blue are swapped and the alpha is set.\<close>

definition rgbx_of :: "u32 \<Rightarrow> u32" where
  "rgbx_of p = ALPHA OR drop_bit 16 (p AND 0x00FF0000) OR (p AND 0x0000FF00) OR push_bit 16 (p AND 0x000000FF)"

text \<open>The copy under the lock: the damage is cut to the smaller of the two buffers.\<close>

definition rdp_copy :: "shadow \<Rightarrow> rdpGdi \<Rightarrow> u32 list \<times> rect list" where
  "rdp_copy fb gdi =
     (let stride = pw fb;
          fw = (if px fb \<noteq> None then (if stride < gdi_width gdi then stride else gdi_width gdi) else 0);
          fh = (if px fb \<noteq> None then (if ph fb < gdi_height gdi then ph fb else gdi_height gdi) else 0)
      in copy_damage rgbx_of (gdi_buffer gdi) (gdi_stride gdi div 4) (nat stride) fw fh (gdi_cinvalid gdi)
           (case px fb of None \<Rightarrow> [] | Some p \<Rightarrow> p))"

definition onEndPaint :: "rdp_session \<Rightarrow> rdp_session" where
  "onEndPaint s =
     (case rs_gdi s of
        None \<Rightarrow> s
      | Some gdi \<Rightarrow>
          if gdi_null gdi \<or> gdi_cinvalid gdi = [] then s
          else let (p, rects) = rdp_copy (rs_fb s) gdi;
                   s = s\<lparr>rs_fb := (rs_fb s)\<lparr>px := map_option (\<lambda>_. p) (px (rs_fb s))\<rparr>\<rparr>;
                   s = fold (\<lambda>r. rdp_emit (RdpCallback (damage_callback r))) rects s;
                   s = rdp_emit (RdpCallback Frame_end) s
               in s\<lparr>rs_gdi := Some (gdi\<lparr>gdi_null := True, gdi_cinvalid := []\<rparr>)\<rparr>)"

text \<open>\<open>cmd\<close> is the codec of the command, \<open>draws\<close> what the library's handler returns.\<close>

definition onSurfaceBits :: "bool \<Rightarrow> u32 option \<Rightarrow> rdp_session \<Rightarrow> bool \<times> rdp_session" where
  "onSurfaceBits draws cmd s =
     (let s = (case cmd of None \<Rightarrow> s | Some codec \<Rightarrow> s\<lparr>rs_lastCodec := codec\<rparr>)
      in if rs_gdiSurfaceBits s
         then (draws, rdp_emit (GdiSurfaceBits (case cmd of None \<Rightarrow> 0 | Some c \<Rightarrow> c)) s) else (True, s))"

text \<open>
  \<open>codecs\<close> is whether there are codecs to resize and whether they could be, \<open>resized\<close> the GDI
  \<open>gdi_resize\<close> makes, \<open>None\<close> when it fails.  The library ends a paint of its own first, with
  the copy already at the new size and the GDI still at the old one.
\<close>

definition onDesktopResize ::
  "bool \<Rightarrow> bool option \<Rightarrow> (rdpGdi option \<Rightarrow> u32 \<Rightarrow> u32 \<Rightarrow> rdpGdi option) \<Rightarrow> rdp_session \<Rightarrow> bool \<times> rdp_session"
where
  "onDesktopResize memory codecs gdi_resize s =
     (let w = setting_uint32 s ''DesktopWidth'';
          h = setting_uint32 s ''DesktopHeight'';
          resized = (rs_gfxOpen s \<or> codecs = None \<or> codecs = Some True)
      in if \<not> resized then (False, s)
         else let (ok, s) = allocFramebuffer memory (sint w) (sint h) s
              in if \<not> ok then (False, s)
                 else let s = onEndPaint s
                      in case gdi_resize (rs_gdi s) w h of
                           None \<Rightarrow> (False, s)
                         | Some gdi \<Rightarrow>
                             (True, rdp_emit (RdpCallback (Desktop_size (sint w) (sint h)))
                                      (s\<lparr>rs_gdi := Some gdi\<rparr>)))"

definition rdp_op_read_region ::
  "rdp_session \<Rightarrow> int \<Rightarrow> int \<Rightarrow> int \<Rightarrow> int \<Rightarrow> mem \<Rightarrow> nat \<Rightarrow> int \<Rightarrow> int \<Rightarrow> bool \<times> mem"
where
  "rdp_op_read_region s = fb_read_region (rs_fb s)"

definition rdp_op_read_thumbnail :: "rdp_session \<Rightarrow> int \<Rightarrow> mem \<Rightarrow> nat \<Rightarrow> int \<Rightarrow> int \<Rightarrow> bool \<times> mem" where
  "rdp_op_read_thumbnail s = fb_read_thumbnail (rs_fb s)"

section \<open>The remote cursor\<close>

definition fireCursor :: "u32 list option \<Rightarrow> int \<Rightarrow> int \<Rightarrow> int \<Rightarrow> int \<Rightarrow> rdp_session \<Rightarrow> rdp_session" where
  "fireCursor rgba w h hotX hotY s = rdp_emit (RdpCallback (Cursor rgba w h hotX hotY)) s"

record rdpPointer =
  pt_width :: u32
  pt_height :: u32
  pt_xPos :: u32
  pt_yPos :: u32

text \<open>\<open>shape\<close> is what the library converts to RGBA, \<open>None\<close> when it cannot.\<close>

definition onPointerSet :: "bool \<Rightarrow> u32 list option \<Rightarrow> rdpPointer \<Rightarrow> rdp_session \<Rightarrow> rdp_session" where
  "onPointerSet memory shape p s =
     (let w = pt_width p; h = pt_height p
      in if w = 0 \<or> h = 0 \<or> w > 384 \<or> h > 384 \<or> \<not> memory then s
         else case shape of
                None \<Rightarrow> s
              | Some rgba \<Rightarrow> fireCursor (Some rgba) (sint w) (sint h) (sint (pt_xPos p)) (sint (pt_yPos p)) s)"

definition onPointerSetNull :: "rdp_session \<Rightarrow> rdp_session" where
  "onPointerSetNull s = fireCursor None 0 0 0 0 s"

definition onPointerSetDefault :: "rdp_session \<Rightarrow> rdp_session" where
  "onPointerSetDefault s = fireCursor None 0 0 0 0 s"

definition onPointerPosition :: "rdp_session \<Rightarrow> rdp_session" where
  "onPointerPosition s = (if rs_sawPointerPosition s then s else s\<lparr>rs_sawPointerPosition := True\<rparr>)"

section \<open>What happens to the picture\<close>

text \<open>
  The library paints into its buffer (\<open>Paint\<close>: the buffer and the damage a decoder leaves),
  begins and ends paints, and is resized.
\<close>

datatype rdp_display =
    Begin_paint
  | Paint "u32 list" "rect list"
  | End_paint
  | Desktop_resize bool "bool option" u32 u32 nat bool

text \<open>
  What \<open>gdi_resize\<close> does: a new buffer of the size, its rows a stride apart that has at least
  the width in it.
\<close>

definition new_gdi :: "nat \<Rightarrow> u32 \<Rightarrow> u32 \<Rightarrow> rdpGdi" where
  "new_gdi pad w h =
     \<lparr>gdi_width = sint w, gdi_height = sint h, gdi_stride = 4 * (nat (sint w) + pad),
      gdi_buffer = replicate ((nat (sint w) + pad) * nat (sint h)) 0, gdi_null = True, gdi_cinvalid = []\<rparr>"

fun rdp_display_step :: "rdp_session \<Rightarrow> rdp_display \<Rightarrow> rdp_session" where
  "rdp_display_step s Begin_paint = onBeginPaint s"
| "rdp_display_step s (Paint buf damage) =
     s\<lparr>rs_gdi := map_option (\<lambda>g. if length buf = length (gdi_buffer g)
                                   then g\<lparr>gdi_buffer := buf, gdi_null := False, gdi_cinvalid := damage\<rparr> else g)
                   (rs_gdi s)\<rparr>"
| "rdp_display_step s End_paint = onEndPaint s"
| "rdp_display_step s (Desktop_resize memory codecs w h pad ok) =
     snd (onDesktopResize memory codecs (\<lambda>_ w h. if ok then Some (new_gdi pad w h) else None)
       (s\<lparr>rs_settings := (rs_settings s)(''DesktopWidth'' \<mapsto> RInt w, ''DesktopHeight'' \<mapsto> RInt h)\<rparr>))"

text \<open>The GDI's buffer has its rows, and a row has the width in it.\<close>

definition gdi_ok :: "rdpGdi \<Rightarrow> bool" where
  "gdi_ok g \<longleftrightarrow>
     gdi_width g \<le> int (gdi_stride g div 4) \<and>
     (gdi_stride g div 4) * nat (gdi_height g) \<le> length (gdi_buffer g)"

definition rdp_display_ok :: "rdp_session \<Rightarrow> bool" where
  "rdp_display_ok s \<longleftrightarrow> shadow_ok (rs_fb s) \<and> pred_option gdi_ok (rs_gdi s)"

section \<open>Lemmas\<close>

lemma rdp_emit_simps [rdp_simps]:
  "rs_fb (rdp_emit e s) = rs_fb s" "rs_gdi (rdp_emit e s) = rs_gdi s" "rs_trace (rdp_emit e s) = rs_trace s @ [e]"
  "rs_ring (rdp_emit e s) = rs_ring s" "rs_keys (rdp_emit e s) = rs_keys s" "rs_quit (rdp_emit e s) = rs_quit s"
  "rs_viewOnly (rdp_emit e s) = rs_viewOnly s" "rs_connected (rdp_emit e s) = rs_connected s"
  "rs_shiftHeld (rdp_emit e s) = rs_shiftHeld s" "rs_wake (rdp_emit e s) = rs_wake s"
  by (simp_all add: rdp_emit_def)

lemma fold_rdp_emit: "fold (\<lambda>r. rdp_emit (f r)) rs s = s\<lparr>rs_trace := rs_trace s @ map f rs\<rparr>"
  by (induction rs arbitrary: s) (simp_all add: rdp_emit_def)

lemma rgbx_opaque [simp]: "opaque_px (rgbx_of p)"
  by (simp add: rgbx_of_def or.assoc)

lemma length_rdp_copy: "px fb = Some p \<Longrightarrow> length (fst (rdp_copy fb g)) = length p"
  by (simp add: rdp_copy_def Let_def)

lemma rdp_copy_opaque:
  assumes "shadow_ok fb" and "px fb = Some p"
  shows "list_all opaque_px (fst (rdp_copy fb g))"
  using assms unfolding rdp_copy_def Let_def
  by (intro copy_damage_opaque)
    (auto simp: shadow_ok_def mult.commute intro!: mult_le_mono)

lemma onEndPaint_sel:
  "rs_fb (onEndPaint s) =
     (case rs_gdi s of
        None \<Rightarrow> rs_fb s
      | Some g \<Rightarrow> if gdi_null g \<or> gdi_cinvalid g = [] then rs_fb s
          else (rs_fb s)\<lparr>px := map_option (\<lambda>_. fst (rdp_copy (rs_fb s) g)) (px (rs_fb s))\<rparr>)"
  "rs_gdi (onEndPaint s) =
     map_option (\<lambda>g. if gdi_null g \<or> gdi_cinvalid g = [] then g else g\<lparr>gdi_null := True, gdi_cinvalid := []\<rparr>)
       (rs_gdi s)"
  "rs_trace (onEndPaint s) = rs_trace s @
     (case rs_gdi s of
        None \<Rightarrow> []
      | Some g \<Rightarrow> if gdi_null g \<or> gdi_cinvalid g = [] then []
          else map (\<lambda>r. RdpCallback (damage_callback r)) (snd (rdp_copy (rs_fb s) g)) @ [RdpCallback Frame_end])"
  by (cases "rs_gdi s"; simp add: onEndPaint_def fold_rdp_emit rdp_simps Let_def case_prod_unfold)+

lemma onEndPaint_ok:
  assumes "rdp_display_ok s"
  shows "rdp_display_ok (onEndPaint s)"
proof -
  have "shadow_ok (rs_fb (onEndPaint s))"
  proof (cases "px (rs_fb s)")
    case None
    then show ?thesis by (auto simp: onEndPaint_sel shadow_ok_def split: option.splits)
  next
    case (Some p)
    then show ?thesis
      using assms rdp_copy_opaque [OF _ Some] length_rdp_copy [OF Some]
      by (auto simp: onEndPaint_sel rdp_display_ok_def shadow_ok_def split: option.splits)
  qed
  moreover have "pred_option gdi_ok (rs_gdi (onEndPaint s))"
    using assms by (cases "rs_gdi s") (auto simp: onEndPaint_sel rdp_display_ok_def gdi_ok_def)
  ultimately show ?thesis by (simp add: rdp_display_ok_def)
qed

lemma new_gdi_ok: "gdi_ok (new_gdi pad w h)"
  by (simp add: gdi_ok_def new_gdi_def)

lemma onDesktopResize_ok:
  assumes "rdp_display_ok s" and "\<And>g w h g'. gdi_resize g w h = Some g' \<Longrightarrow> gdi_ok g'"
  shows "rdp_display_ok (snd (onDesktopResize memory codecs gdi_resize s))"
proof -
  define w h where "w = sint (setting_uint32 s ''DesktopWidth'')" and "h = sint (setting_uint32 s ''DesktopHeight'')"
  have "rdp_display_ok (s\<lparr>rs_fb := shadow_alloc w h\<rparr>)" if "0 < w" "0 < h"
    using assms(1) shadow_ok_alloc [OF that] by (simp add: rdp_display_ok_def)
  from onEndPaint_ok [OF this] assms show ?thesis
    by (auto simp: onDesktopResize_def allocFramebuffer_def rdp_display_ok_def rdp_simps w_def [symmetric]
        h_def [symmetric] Let_def split: option.splits)
qed

lemma rdp_display_ok_step:
  assumes "rdp_display_ok s"
  shows "rdp_display_ok (rdp_display_step s e)"
proof (cases e)
  case Begin_paint
  with assms show ?thesis
    by (cases "rs_gdi s") (auto simp: rdp_display_ok_def onBeginPaint_def gdi_ok_def)
next
  case (Paint buf damage)
  with assms show ?thesis by (cases "rs_gdi s") (auto simp: rdp_display_ok_def gdi_ok_def)
next
  case End_paint
  with assms show ?thesis by (simp add: onEndPaint_ok)
next
  case (Desktop_resize memory codecs w h pad ok)
  then show ?thesis
    using assms
    by (auto simp: rdp_display_ok_def [of "s\<lparr>rs_settings := _\<rparr>"] rdp_display_ok_def [of s] new_gdi_ok
        intro!: onDesktopResize_ok split: if_splits)
qed

interpretation rd: opaque_framebuffer rdp_display_ok rs_fb rdp_display_step
  by unfold_locales (simp_all add: rdp_display_ok_step, simp add: rdp_display_ok_def)


lemma rdp_calloc_display: "rdp_display_ok rdp_calloc"
  by (simp add: rdp_display_ok_def shadow_ok_def rdp_calloc_def)


section \<open>A paint\<close>

text \<open>The bytes of a converted pixel: R, G and B of the BGRX pixel, and an opaque alpha.\<close>

lemma rgbx_bytes:
  "(ucast (rgbx_of p) :: u8) = ucast (drop_bit 16 p)"
  "(ucast (drop_bit 8 (rgbx_of p)) :: u8) = ucast (drop_bit 8 p)"
  "(ucast (drop_bit 16 (rgbx_of p)) :: u8) = ucast p"
proof -
  have b: "(0x00FF0000 :: u32) = push_bit 16 (mask 8)" "(0x0000FF00 :: u32) = push_bit 8 (mask 8)"
    "(0x000000FF :: u32) = mask 8"
    by (simp_all add: mask_eq_exp_minus_1)
  have bits: "bit (rgbx_of p) n \<longleftrightarrow> n < 32 \<and>
      (24 \<le> n \<or> n < 8 \<and> bit p (16 + n) \<or> 8 \<le> n \<and> n < 16 \<and> bit p n \<or> 16 \<le> n \<and> n < 24 \<and> bit p (n - 16))" for n
    unfolding rgbx_of_def b by (auto simp: bit_simps bit_ALPHA)
  show "(ucast (rgbx_of p) :: u8) = ucast (drop_bit 16 p)"
    "(ucast (drop_bit 8 (rgbx_of p)) :: u8) = ucast (drop_bit 8 p)"
    "(ucast (drop_bit 16 (rgbx_of p)) :: u8) = ucast p"
    by (auto simp: bit_eq_iff bit_simps bits)
qed

text \<open>A damaged pixel both buffers have.\<close>

definition painted :: "rdpGdi \<Rightarrow> nat \<Rightarrow> nat \<Rightarrow> bool" where
  "painted g a b \<longleftrightarrow>
     (\<exists>r\<in>set (gdi_cinvalid g). in_rect r (int a, int b)) \<and> int a < gdi_width g \<and> int b < gdi_height g"

lemma rdp_copy_nth:
  assumes "shadow_ok fb" and "px fb = Some p" and "a < nat (pw fb)" and "b < nat (ph fb)"
  shows "fst (rdp_copy fb g) ! (b * nat (pw fb) + a) =
    (if painted g a b then rgbx_of (gdi_buffer g ! (b * (gdi_stride g div 4) + a)) else p ! (b * nat (pw fb) + a))"
proof -
  let ?fw = "if pw fb < gdi_width g then pw fb else gdi_width g"
  let ?fh = "if ph fb < gdi_height g then ph fb else gdi_height g"
  have p: "length p = nat (pw fb) * nat (ph fb)" using assms(1,2) by (simp add: shadow_ok_def)
  have i: "b * nat (pw fb) + a < length p"
    using row_in_length [OF assms(3,4), of "length p"] p by (simp add: mult.commute)
  have "nat ?fh * nat (pw fb) \<le> length p"
    by (auto simp: p mult.commute [of "nat (pw fb)"] intro!: mult_le_mono1)
  moreover have "?fw \<le> int (nat (pw fb))" using assms(1,2) by (simp add: shadow_ok_def)
  moreover have "in_buffer ?fw ?fh (int a, int b) \<longleftrightarrow> int a < gdi_width g \<and> int b < gdi_height g"
    using assms(3,4) by (auto simp: in_buffer_def)
  ultimately show ?thesis
    using copy_damage_nth [of ?fw "nat (pw fb)" ?fh p a b rgbx_of "gdi_buffer g" "gdi_stride g div 4"
        "gdi_cinvalid g"] assms(2,3) i
    by (simp add: rdp_copy_def Let_def painted_def)
qed

text \<open>
  C14. A paint that ends copies exactly the damage that both buffers have, whatever sizes they
  have at that moment: a damaged pixel inside both becomes the GDI's, with red and blue
  swapped and the alpha set, every other pixel of the copy is what it was, the copy keeps its
  size, no read leaves the GDI's buffer, and what is reported is that damage, cut to the
  smaller of the two, followed by one end of frame.
\<close>

theorem rdp_end_paint:
  assumes "rdp_display_ok s" and "rs_gdi s = Some g" and "px (rs_fb s) = Some p"
    and "\<not> gdi_null g" and "gdi_cinvalid g \<noteq> []"
    and "a < nat (pw (rs_fb s))" and "b < nat (ph (rs_fb s))"
  shows "let s' = onEndPaint s; i = b * nat (pw (rs_fb s)) + a; j = b * (gdi_stride g div 4) + a in
     (\<exists>p'. rs_fb s' = (rs_fb s)\<lparr>px := Some p'\<rparr> \<and> length p' = length p \<and> i < length p \<and>
        (if painted g a b
         then j < length (gdi_buffer g) \<and> (ucast (p' ! i) :: u8) = ucast (drop_bit 16 (gdi_buffer g ! j)) \<and>
           (ucast (drop_bit 8 (p' ! i)) :: u8) = ucast (drop_bit 8 (gdi_buffer g ! j)) \<and>
           (ucast (drop_bit 16 (p' ! i)) :: u8) = ucast (gdi_buffer g ! j) \<and> opaque_px (p' ! i)
         else p' ! i = p ! i)) \<and>
     rs_trace s' = rs_trace s @
       map (\<lambda>r. RdpCallback (damage_callback r))
         (List.map_filter (clip_rect (min (pw (rs_fb s)) (gdi_width g)) (min (ph (rs_fb s)) (gdi_height g)))
           (gdi_cinvalid g)) @ [RdpCallback Frame_end] \<and>
     rs_gdi s' = Some (g\<lparr>gdi_null := True, gdi_cinvalid := []\<rparr>)"
proof -
  let ?fb = "rs_fb s" and ?j = "b * (gdi_stride g div 4) + a"
  have ok: "shadow_ok ?fb" and g: "gdi_ok g" using assms(1,2) by (simp_all add: rdp_display_ok_def)
  have len: "b * nat (pw ?fb) + a < length p"
    using row_in_length [OF assms(6,7), of "length p"] ok assms(3) by (simp add: shadow_ok_def mult.commute)
  have "?j < length (gdi_buffer g)" if "painted g a b"
    using that g by (intro row_in_length [of _ _ _ "nat (gdi_height g)"]) (auto simp: painted_def gdi_ok_def mult.commute)
  moreover have "snd (rdp_copy ?fb g) = List.map_filter (clip_rect (min (pw ?fb) (gdi_width g))
      (min (ph ?fb) (gdi_height g))) (gdi_cinvalid g)"
    by (simp add: rdp_copy_def Let_def copy_damage_rects assms(3) min_def)
  ultimately show ?thesis
    using assms(2-5) len length_rdp_copy [OF assms(3), of g] rdp_copy_nth [OF ok assms(3,6,7), of g]
    unfolding Let_def
    by (intro conjI exI [of _ "fst (rdp_copy ?fb g)"]) (simp_all add: onEndPaint_sel rgbx_bytes)
qed

definition example_painted :: rdp_session where
  "example_painted =
     fold (\<lambda>e s. rdp_display_step s e)
       [Desktop_resize True None 1 1 0 True, Paint [0x00112233] [\<lparr>rx = 0, ry = 0, rw = 5, rh = 5\<rparr>]] rdp_calloc"

theorem rdp_end_paint_witness:
  "\<exists>p. px (rs_fb (onEndPaint example_painted)) = Some p \<and> (ucast (p ! 0) :: u8) = 0x11 \<and> opaque_px (p ! 0)"
proof -
  let ?r = "\<lparr>rx = 0, ry = 0, rw = 5, rh = 5\<rparr>"
  have ok: "rdp_display_ok example_painted"
    unfolding example_painted_def by (rule rd.invar_run [OF rdp_calloc_display])
  define g where "g = (new_gdi 0 1 1)\<lparr>gdi_buffer := [0x00112233], gdi_null := False, gdi_cinvalid := [?r]\<rparr>"
  have fb: "rs_fb example_painted = shadow_alloc 1 1" and gdi: "rs_gdi example_painted = Some g"
    by (simp_all add: example_painted_def g_def onDesktopResize_def setting_uint32_def allocFramebuffer_def
        onEndPaint_def rdp_calloc_def rdp_emit_def new_gdi_def Let_def)
  obtain p where p: "px (rs_fb example_painted) = Some p" using fb by (simp add: shadow_alloc_def)
  have "painted g 0 0" "gdi_buffer g ! 0 = 0x00112233" by (simp_all add: painted_def g_def new_gdi_def in_rect_def)
  with rdp_end_paint [OF ok gdi p, of 0 0] show ?thesis
    by (auto simp: fb g_def Let_def)
qed

end
