(* ===== verification/Rdp_Layout.thy ===== *)
theory Rdp_Layout
  imports Rdp_Display
begin

text \<open>
  The monitors of a FreeRDP session (\<open>src/backends/modules/freerdp/cpp/freerdp_session.c\<close>): the
  layouts the server sends (\<open>flattenLayout\<close>, \<open>heardLayout\<close> and its two callers), the layouts
  this end asks for (\<open>buildLayout\<close>, \<open>sendLayout\<close>, \<open>doResize\<close>, \<open>doLayout\<close>), the server's limits
  (\<open>onDisplayControlCaps\<close>) with the requests that wait for them (\<open>holdUntilCaps\<close>), and what the
  platform is told (\<open>op_monitors\<close>).

  A coordinate is an unbounded integer; the 64-bit sums of \<open>covers\<close> and \<open>flattenLayout\<close> cannot
  overflow on 32-bit values, and the 32-bit sums of \<open>buildLayout\<close> are exact for screens within
  the desktop size of the protocol.  The area is kept at its 64 bits.
\<close>

section \<open>The layouts the server sends\<close>

text \<open>The bounding box so far, \<open>None\<close> once a screen starts left of or above the desktop.\<close>

fun covers_box :: "quad list \<Rightarrow> int \<times> int \<Rightarrow> (int \<times> int) option" where
  "covers_box [] box = Some box"
| "covers_box ((x, y, w, h) # ms) (right, bottom) =
     (if x < 0 \<or> y < 0 then None
      else covers_box ms (if x + w > right then x + w else right, if y + h > bottom then y + h else bottom))"

definition covers :: "quad list \<Rightarrow> int \<Rightarrow> int \<Rightarrow> bool" where
  "covers flat w h \<longleftrightarrow> flat \<noteq> [] \<and> covers_box flat (0, 0) = Some (w, h)"

definition MAX_DESKTOP_SIDE :: int where "MAX_DESKTOP_SIDE = 32766"

text \<open>The smallest of the values, 0 of none.\<close>

definition least_of :: "int list \<Rightarrow> int" where
  "least_of vs = (case vs of [] \<Rightarrow> 0 | v # vs \<Rightarrow> fold (\<lambda>v l. if v < l then v else l) vs v)"

definition flatten_one :: "int \<Rightarrow> int \<Rightarrow> monitor_def \<Rightarrow> quad option" where
  "flatten_one left upper d =
     (let x = md_left d - left;
          y = md_top d - upper;
          w = md_right d - md_left d + 1;
          h = md_bottom d - md_top d + 1
      in if w < 1 \<or> h < 1 \<or> x + w > MAX_DESKTOP_SIDE \<or> y + h > MAX_DESKTOP_SIDE then None
         else Some (x, y, w, h))"

definition flattenLayout :: "monitor_def list \<Rightarrow> quad list option" where
  "flattenLayout defs =
     those (map (flatten_one (least_of (map md_left defs)) (least_of (map md_top defs))) defs)"

definition heardLayout :: "monitor_def list \<Rightarrow> rdp_session \<Rightarrow> rdp_session" where
  "heardLayout defs s =
     (case flattenLayout (take VENTO_MAX_MONITORS defs) of
        None \<Rightarrow> s\<lparr>rs_serverLayout := Some []\<rparr>
      | Some flat \<Rightarrow> s\<lparr>rs_serverLayout := Some flat\<rparr>)"

definition onRemoteMonitors :: "monitor_def list \<Rightarrow> rdp_session \<Rightarrow> rdp_session" where
  "onRemoteMonitors monitors s = heardLayout monitors s"

text \<open>\<open>monitors\<close> is \<open>None\<close> for no array; \<open>rc\<close> is what the GDI's own handler returns.\<close>

definition onGfxResetGraphics :: "u32 \<Rightarrow> monitor_def list option \<Rightarrow> rdp_session \<Rightarrow> u32 \<times> rdp_session" where
  "onGfxResetGraphics rc monitors s =
     (let s = (case monitors of
                 None \<Rightarrow> s
               | Some defs \<Rightarrow> if length defs > 0 then heardLayout defs s else s)
      in if rs_gdiResetGraphics s then (rc, rdp_emit GdiResetGraphics s) else (0, s))"

section \<open>The layouts this end asks for\<close>

definition clamp_side :: "int \<Rightarrow> int" where
  "clamp_side v = (if v < 200 then 200 else if v > 8192 then 8192 else v)"

definition layout_w :: "quad \<Rightarrow> int" where
  "layout_w r = (case r of (x, y, w, h) \<Rightarrow> clamp_side w - clamp_side w mod 2)"

definition layout_h :: "quad \<Rightarrow> int" where
  "layout_h r = (case r of (x, y, w, h) \<Rightarrow> clamp_side h)"

text \<open>A screen moves by what the screens that end at or before it, in that direction, lost.\<close>

definition layout_x :: "quad list \<Rightarrow> quad \<Rightarrow> int" where
  "layout_x rects r =
     (case r of (x, y, w, h) \<Rightarrow>
        fold (\<lambda>p acc. case p of (ox, oy, ow, oh) \<Rightarrow> if ox + ow \<le> x then acc - (ow - layout_w p) else acc) rects x)"

definition layout_y :: "quad list \<Rightarrow> quad \<Rightarrow> int" where
  "layout_y rects r =
     (case r of (x, y, w, h) \<Rightarrow>
        fold (\<lambda>p acc. case p of (ox, oy, ow, oh) \<Rightarrow> if oy + oh \<le> y then acc - (oh - layout_h p) else acc) rects y)"

definition rdp_buildLayout :: "quad list \<Rightarrow> int \<Rightarrow> disp_monitor list \<times> quad list" where
  "rdp_buildLayout rects scale =
     (let rects = take VENTO_MAX_MONITORS rects;
          xs = map (layout_x rects) rects;
          ys = map (layout_y rects) rects;
          left = least_of xs;
          upper = least_of ys;
          monitor = (\<lambda>i. \<lparr>dm_primary = (i = 0), dm_left = xs ! i - xs ! 0, dm_top = ys ! i - ys ! 0,
             dm_width = layout_w (rects ! i), dm_height = layout_h (rects ! i), dm_scale = scale\<rparr>);
          asked = (\<lambda>i. (xs ! i - left, ys ! i - upper, layout_w (rects ! i), layout_h (rects ! i)))
      in (map monitor [0..<length rects], map asked [0..<length rects]))"

definition layout_area :: "disp_monitor list \<Rightarrow> u64" where
  "layout_area ms = fold (\<lambda>m area. area + word_of_int (dm_width m) * word_of_int (dm_height m)) ms 0"

definition rdp_sendLayout :: "quad list \<Rightarrow> rdp_session \<Rightarrow> rdp_session" where
  "rdp_sendLayout rects s =
     (if rs_disp s \<noteq> Some True \<or> \<not> rs_canResize s \<or> rects = [] then s
      else let most = sint (rs_dispMonitors s);
               rects = (if int (length rects) > most then take (nat most) rects else rects);
               (layout, asked) = rdp_buildLayout rects (rs_scale s)
           in if layout_area layout > rs_dispArea s then s
              else rdp_emit (SendMonitorLayout layout) (s\<lparr>rs_askedLayout := asked\<rparr>))"

section \<open>The server's limits\<close>

definition caps_monitors :: "u32 \<Rightarrow> u32" where
  "caps_monitors maxMonitors =
     (if maxMonitors > word_of_nat VENTO_MAX_MONITORS then word_of_nat VENTO_MAX_MONITORS else maxMonitors)"

definition caps_area :: "u32 \<Rightarrow> u32 \<Rightarrow> u32 \<Rightarrow> u64" where
  "caps_area most factorA factorB =
     (let each = (ucast factorA * ucast factorB :: u64)
      in if most > 0 \<and> each > (- 1) div ucast most then - 1 else each * ucast most)"

text \<open>The request that waited, to be posted now that the limits are known.\<close>

definition held_request :: "rdp_session \<Rightarrow> rdp_cmd option" where
  "held_request s =
     (if rs_canResize s \<and> rs_heldWidth s > 0 then Some (RDP_RESIZE (rs_heldWidth s) (rs_heldHeight s))
      else if rs_canResize s \<and> length (rs_wantLayout s) > 0 then Some RDP_LAYOUT
      else None)"

definition onDisplayControlCaps :: "u32 \<Rightarrow> u32 \<Rightarrow> u32 \<Rightarrow> rdp_session \<Rightarrow> rdp_session" where
  "onDisplayControlCaps maxMonitors factorA factorB s =
     (let most = caps_monitors maxMonitors;
          s = s\<lparr>rs_dispMonitors := most, rs_dispArea := caps_area most factorA factorB, rs_canResize := most > 0\<rparr>;
          held = held_request s;
          s = s\<lparr>rs_heldWidth := 0, rs_heldHeight := 0\<rparr>
      in case held of None \<Rightarrow> s | Some c \<Rightarrow> rdp_post s c)"

definition holdUntilCaps :: "int \<Rightarrow> int \<Rightarrow> rdp_session \<Rightarrow> bool \<times> rdp_session" where
  "holdUntilCaps width height s =
     (if \<not> rs_canResize s
      then let s = s\<lparr>rs_heldWidth := width, rs_heldHeight := height\<rparr>
           in (True, if width > 0 then s\<lparr>rs_wantLayout := []\<rparr> else s)
      else (False, s))"

text \<open>The monitors that divide a width, the last taking the remainder of the C division.\<close>

definition resize_rects :: "int \<Rightarrow> int \<Rightarrow> int \<Rightarrow> quad list" where
  "resize_rects n width height =
     (let each = (if width < 0 then - (- width div n) else width div n)
      in map (\<lambda>i. (int i * each, 0, if int i = n - 1 then width - each * (n - 1) else each, height))
           [0..<nat n])"

text \<open>No more monitors than the session has, and no more than the server takes.\<close>

definition resize_count :: "rdp_session \<Rightarrow> int" where
  "resize_count s =
     (let most = sint (rs_dispMonitors s);
          n = (if rs_monitors s < 1 then 1
               else if rs_monitors s > int VENTO_MAX_MONITORS then int VENTO_MAX_MONITORS
               else rs_monitors s)
      in if most > 0 \<and> n > most then most else n)"

definition doResize :: "int \<Rightarrow> int \<Rightarrow> rdp_session \<Rightarrow> rdp_session" where
  "doResize width height s =
     (let (held, s) = holdUntilCaps width height s
      in if held then s
         else rdp_sendLayout (resize_rects (resize_count s) width height) s)"

definition doLayout :: "rdp_session \<Rightarrow> rdp_session" where
  "doLayout s =
     (let (held, s) = holdUntilCaps 0 0 s
      in if held then s
         else let rects = rs_wantLayout s in rdp_sendLayout rects (s\<lparr>rs_wantLayout := []\<rparr>))"

section \<open>The platform's side\<close>

definition rdp_op_monitors :: "rdp_session \<Rightarrow> quad list" where
  "rdp_op_monitors s =
     (if \<not> rs_connected s then []
      else let w = pw (rs_fb s);
               h = ph (rs_fb s);
               heard = (case rs_serverLayout s of None \<Rightarrow> [] | Some l \<Rightarrow> l);
               from = (if covers heard w h then heard
                       else if covers (rs_askedLayout s) w h then rs_askedLayout s else [])
           in if length from < 2 then [] else from)"

text \<open>\<open>screens\<close> has five numbers each, the id first.\<close>

definition rdp_op_request_layout :: "(int \<times> quad) list \<Rightarrow> rdp_session \<Rightarrow> rdp_session" where
  "rdp_op_request_layout screens s =
     (if screens = [] then s
      else rdp_post (s\<lparr>rs_wantLayout := map snd (take VENTO_MAX_MONITORS screens)\<rparr>) RDP_LAYOUT)"

definition rdp_op_can_resize :: "rdp_session \<Rightarrow> bool" where
  "rdp_op_can_resize s = rs_canResize s"

definition rdp_op_request_desktop_size :: "int \<Rightarrow> int \<Rightarrow> rdp_session \<Rightarrow> rdp_session" where
  "rdp_op_request_desktop_size width height s = rdp_post s (RDP_RESIZE width height)"

definition vento_freerdp_set_monitor_count :: "int \<Rightarrow> rdp_session \<Rightarrow> rdp_session" where
  "vento_freerdp_set_monitor_count n s = s\<lparr>rs_monitors := (if n < 1 then 1 else if n > 16 then 16 else n)\<rparr>"

section \<open>The layouts the server sends: lemmas\<close>

lemma least_of_le: "v \<in> set vs \<Longrightarrow> least_of vs \<le> v"
proof -
  have "fold (\<lambda>v l. if v < l then v else l) vs l \<le> l \<and> (\<forall>v\<in>set vs. fold (\<lambda>v l. if v < l then v else l) vs l \<le> v)"
    for l :: int and vs
    by (induction vs arbitrary: l) (auto, (meson le_less_trans less_imp_le order_trans linorder_not_less)+)
  then show "v \<in> set vs \<Longrightarrow> least_of vs \<le> v" by (auto simp: least_of_def split: list.splits)
qed

lemma least_of_in: "vs \<noteq> [] \<Longrightarrow> least_of vs \<in> set vs"
proof -
  have "fold (\<lambda>v l. if v < l then v else l) vs l \<in> insert l (set vs)" for l :: int and vs
  proof (induction vs arbitrary: l)
    case (Cons v vs)
    show ?case using Cons.IH [of v] Cons.IH [of l] by auto
  qed simp
  then show "vs \<noteq> [] \<Longrightarrow> least_of vs \<in> set vs" by (auto simp: least_of_def split: list.splits)
qed

lemma those_map_Some: "those (map f xs) = Some ys \<longleftrightarrow> map f xs = map Some ys"
proof (induction xs arbitrary: ys)
  case Nil
  then show ?case by auto
next
  case (Cons x xs)
  show ?case by (cases ys) (auto simp: Cons.IH split: option.splits)
qed

lemma those_map_None: "those (map f xs) = None \<longleftrightarrow> (\<exists>x\<in>set xs. f x = None)"
  by (induction xs) (auto split: option.splits)

text \<open>The bounding box of a layout that starts at or after the corner of the desktop.\<close>

fun quad_right :: "quad \<Rightarrow> int" where "quad_right (x, y, w, h) = x + w"
fun quad_bottom :: "quad \<Rightarrow> int" where "quad_bottom (x, y, w, h) = y + h"
fun quad_starts :: "quad \<Rightarrow> bool" where "quad_starts (x, y, w, h) \<longleftrightarrow> 0 \<le> x \<and> 0 \<le> y"

definition box_right :: "quad list \<Rightarrow> int" where "box_right ms = Max (set (0 # map quad_right ms))"
definition box_bottom :: "quad list \<Rightarrow> int" where "box_bottom ms = Max (set (0 # map quad_bottom ms))"

lemma covers_box_fold:
  "covers_box ms (r, b) =
     (if list_all quad_starts ms then Some (fold max (map quad_right ms) r, fold max (map quad_bottom ms) b) else None)"
proof (induction ms arbitrary: r b)
  case (Cons m ms)
  obtain x y w h where m: "m = (x, y, w, h)" by (cases m)
  have "(if x + w > r then x + w else r) = max (x + w) r" "(if y + h > b then y + h else b) = max (y + h) b"
    by (auto simp: max_def)
  then show ?case by (simp add: m Cons.IH)
qed simp

lemma covers_iff:
  "covers ms w h \<longleftrightarrow> ms \<noteq> [] \<and> list_all quad_starts ms \<and> w = box_right ms \<and> h = box_bottom ms"
  by (auto simp: covers_def covers_box_fold box_right_def box_bottom_def Max.set_eq_fold simp del: list.set)

lemma in_box:
  "covers ms w h \<Longrightarrow> m \<in> set ms \<Longrightarrow> quad_starts m \<and> quad_right m \<le> w \<and> quad_bottom m \<le> h"
  by (auto simp: covers_iff list_all_iff box_right_def box_bottom_def intro!: max.coboundedI2 Max_ge)

lemma flatten_one_Some:
  "flatten_one left upper d = Some m \<longleftrightarrow>
     m = (md_left d - left, md_top d - upper, md_right d - md_left d + 1, md_bottom d - md_top d + 1) \<and>
     md_left d \<le> md_right d \<and> md_top d \<le> md_bottom d \<and>
     quad_right m \<le> MAX_DESKTOP_SIDE \<and> quad_bottom m \<le> MAX_DESKTOP_SIDE"
  by (auto simp: flatten_one_def Let_def split: if_splits)

text \<open>A monitor of the server that is part of a desktop whose corner is \<open>left\<close>, \<open>upper\<close>.\<close>

definition monitor_valid :: "int \<Rightarrow> int \<Rightarrow> monitor_def \<Rightarrow> bool" where
  "monitor_valid left upper d \<longleftrightarrow>
     md_left d \<le> md_right d \<and> md_top d \<le> md_bottom d \<and>
     md_right d - left < MAX_DESKTOP_SIDE \<and> md_bottom d - upper < MAX_DESKTOP_SIDE"

definition from_corner :: "int \<Rightarrow> int \<Rightarrow> monitor_def \<Rightarrow> quad" where
  "from_corner left upper d =
     (md_left d - left, md_top d - upper, md_right d - md_left d + 1, md_bottom d - md_top d + 1)"

lemma flattenLayout_eq:
  "flattenLayout defs =
     (let left = least_of (map md_left defs); upper = least_of (map md_top defs)
      in if list_all (monitor_valid left upper) defs then Some (map (from_corner left upper) defs) else None)"
proof -
  have one: "flatten_one l u d = (if monitor_valid l u d then Some (from_corner l u d) else None)" for l u d
    by (auto simp: flatten_one_def monitor_valid_def from_corner_def Let_def)
  define l u where "l = least_of (map md_left defs)" and "u = least_of (map md_top defs)"
  show ?thesis
  proof (cases "list_all (monitor_valid l u) defs")
    case True
    then have "map (flatten_one l u) defs = map Some (map (from_corner l u) defs)"
      by (auto simp: list_all_iff one)
    with True show ?thesis
      by (simp add: flattenLayout_def l_def [symmetric] u_def [symmetric] Let_def those_map_Some)
  next
    case False
    then have "those (map (flatten_one l u) defs) = None"
      by (auto simp: those_map_None list_all_iff one)
    with False show ?thesis
      by (simp add: flattenLayout_def l_def [symmetric] u_def [symmetric] Let_def)
  qed
qed

text \<open>
  A server's layout is taken as a whole or not at all.  It is taken exactly when every one
  of its first sixteen monitors has at least a pixel and none is further than the protocol's
  32766 from their common corner, whatever 32-bit corners they came with; then the monitors
  are kept in order with their sizes and relative positions, the corner at the origin.  A
  layout that is not taken is forgotten together with the one before it.
\<close>

theorem rdp_server_layout:
  "let ds = take 16 defs;
       left = least_of (map md_left ds); upper = least_of (map md_top ds);
       s' = heardLayout defs s
   in (if list_all (monitor_valid left upper) ds
       then \<exists>flat. rs_serverLayout s' = Some flat \<and> flat = map (from_corner left upper) ds \<and>
         list_all (\<lambda>m. quad_starts m \<and> quad_right m \<le> 32766 \<and> quad_bottom m \<le> 32766) flat \<and>
         (ds \<noteq> [] \<longrightarrow> (\<exists>m\<in>set flat. fst m = 0) \<and> (\<exists>m\<in>set flat. fst (snd m) = 0))
       else rs_serverLayout s' = Some []) \<and>
      rs_askedLayout s' = rs_askedLayout s \<and> rs_trace s' = rs_trace s"
proof -
  define ds where "ds = take 16 defs"
  define l u where "l = least_of (map md_left ds)" and "u = least_of (map md_top ds)"
  have heard: "rs_serverLayout (heardLayout defs s) =
      (if list_all (monitor_valid l u) ds then Some (map (from_corner l u) ds) else Some [])"
    by (simp add: heardLayout_def VENTO_MAX_MONITORS_def ds_def [symmetric] flattenLayout_eq l_def [symmetric]
        u_def [symmetric] Let_def)
  have corner: "l \<le> md_left d" "u \<le> md_top d" if "d \<in> set ds" for d
    using that by (auto simp: l_def u_def intro!: least_of_le)
  have attained: "\<exists>d\<in>set ds. md_left d = l" "\<exists>d\<in>set ds. md_top d = u" if "ds \<noteq> []"
    using least_of_in [of "map md_left ds"] least_of_in [of "map md_top ds"] that by (auto simp: l_def u_def)
  have rest: "rs_askedLayout (heardLayout defs s) = rs_askedLayout s \<and> rs_trace (heardLayout defs s) = rs_trace s"
    by (simp add: heardLayout_def split: option.splits)
  show ?thesis
    unfolding Let_def ds_def [symmetric] l_def [symmetric] u_def [symmetric] heard
    using corner attained rest
    by (auto simp: list_all_iff from_corner_def monitor_valid_def MAX_DESKTOP_SIDE_def)
qed

theorem rdp_server_layout_witness:
  "rs_serverLayout (heardLayout
       [\<lparr>md_left = 0, md_top = 0, md_right = 99, md_bottom = 49\<rparr>,
        \<lparr>md_left = -100, md_top = 10, md_right = -1, md_bottom = 59\<rparr>] rdp_calloc) =
     Some [(100, 0, 100, 50), (0, 10, 100, 50)]"
  using rdp_server_layout [of "[\<lparr>md_left = 0, md_top = 0, md_right = 99, md_bottom = 49\<rparr>,
        \<lparr>md_left = -100, md_top = 10, md_right = -1, md_bottom = 59\<rparr>]" rdp_calloc]
  by (simp add: Let_def least_of_def monitor_valid_def from_corner_def MAX_DESKTOP_SIDE_def)

text \<open>
  The monitors a session reports divide the desktop it has: none while it is not
  connected, otherwise none or at least two, which all lie inside the current framebuffer and
  whose bounding box is the framebuffer.  They are the server's when the server's layout is
  for a desktop of this size, and otherwise the ones last asked for.
\<close>

theorem rdp_monitors_divide:
  "let ms = rdp_op_monitors s; w = pw (rs_fb s); h = ph (rs_fb s) in
     (ms = [] \<or> rs_connected s \<and> 2 \<le> length ms \<and> covers ms w h \<and> (Some ms = rs_serverLayout s \<or> ms = rs_askedLayout s)) \<and>
     (\<forall>m\<in>set ms. quad_starts m \<and> quad_right m \<le> w \<and> quad_bottom m \<le> h) \<and>
     (\<forall>l. rs_connected s \<longrightarrow> rs_serverLayout s = Some l \<longrightarrow> covers l w h \<longrightarrow> 2 \<le> length l \<longrightarrow> ms = l)"
proof -
  define w h where "w = pw (rs_fb s)" and "h = ph (rs_fb s)"
  have report: "rdp_op_monitors s = [] \<or> rs_connected s \<and> 2 \<le> length (rdp_op_monitors s) \<and>
      covers (rdp_op_monitors s) w h \<and>
      (Some (rdp_op_monitors s) = rs_serverLayout s \<or> rdp_op_monitors s = rs_askedLayout s)"
    by (auto simp: rdp_op_monitors_def w_def h_def Let_def covers_def split: option.splits)
  moreover have "quad_starts m \<and> quad_right m \<le> w \<and> quad_bottom m \<le> h" if "m \<in> set (rdp_op_monitors s)" for m
    using report that in_box [of "rdp_op_monitors s" w h m] by auto
  ultimately show ?thesis
    by (auto simp: Let_def w_def h_def) (auto simp: rdp_op_monitors_def Let_def)
qed

theorem rdp_monitors_divide_witness:
  "rdp_op_monitors (rdp_calloc\<lparr>rs_connected := True, rs_fb := shadow_alloc 4 1,
      rs_serverLayout := Some [(0, 0, 2, 1), (2, 0, 2, 1)]\<rparr>) = [(0, 0, 2, 1), (2, 0, 2, 1)]"
  using rdp_monitors_divide [of "rdp_calloc\<lparr>rs_connected := True, rs_fb := shadow_alloc 4 1,
      rs_serverLayout := Some [(0, 0, 2, 1), (2, 0, 2, 1)]\<rparr>"]
  by (simp add: Let_def covers_def)

section \<open>The layouts this end asks for: lemmas\<close>

lemma layout_w_range: "200 \<le> layout_w r \<and> layout_w r \<le> 8192 \<and> layout_w r mod 2 = 0"
proof -
  obtain x y w h where r: "r = (x, y, w, h)" by (cases r)
  let ?c = "clamp_side w"
  have "200 \<le> ?c \<and> ?c \<le> 8192" by (simp add: clamp_side_def)
  moreover have "?c - ?c mod 2 = 2 * (?c div 2)" by (simp add: minus_mod_eq_mult_div)
  ultimately show ?thesis by (simp add: layout_w_def r) presburger
qed

lemma layout_w_pos [simp]: "0 < layout_w r" "0 \<le> layout_w r"
  using layout_w_range [of r] by linarith+

lemma layout_h_range: "200 \<le> layout_h r \<and> layout_h r \<le> 8192"
  by (cases r) (simp add: layout_h_def clamp_side_def)

text \<open>What a screen loses to the limits.\<close>

fun quad_w :: "quad \<Rightarrow> int" where "quad_w (x, y, w, h) = w"
fun quad_h :: "quad \<Rightarrow> int" where "quad_h (x, y, w, h) = h"

lemma fold_shift:
  "fold (\<lambda>p acc. if P p then acc - f p else acc) ps (x :: int) = x - sum_list (map f (filter P ps))"
  by (induction ps arbitrary: x) simp_all

lemma layout_x_sum:
  "layout_x rects r = fst r - sum_list (map (\<lambda>p. quad_w p - layout_w p) (filter (\<lambda>p. quad_right p \<le> fst r) rects))"
proof -
  have "(\<lambda>p acc. case p of (ox, oy, ow, oh) \<Rightarrow> if ox + ow \<le> x then acc - (ow - layout_w p) else acc) =
      (\<lambda>p acc. if quad_right p \<le> x then acc - (quad_w p - layout_w p) else acc)" for x
    by (intro ext) auto
  then show ?thesis by (cases r) (simp add: layout_x_def fold_shift)
qed

lemma layout_y_sum:
  "layout_y rects r =
     fst (snd r) - sum_list (map (\<lambda>p. quad_h p - layout_h p) (filter (\<lambda>p. quad_bottom p \<le> fst (snd r)) rects))"
proof -
  have "(\<lambda>p acc. case p of (ox, oy, ow, oh) \<Rightarrow> if oy + oh \<le> y then acc - (oh - layout_h p) else acc) =
      (\<lambda>p acc. if quad_bottom p \<le> y then acc - (quad_h p - layout_h p) else acc)" for y
    by (intro ext) auto
  then show ?thesis by (cases r) (simp add: layout_y_def fold_shift)
qed

text \<open>A screen the limits leave alone.\<close>

definition screen_fits :: "quad \<Rightarrow> bool" where
  "screen_fits r \<longleftrightarrow> layout_w r = quad_w r \<and> layout_h r = quad_h r"

lemma layout_fits:
  "list_all screen_fits rects \<Longrightarrow> layout_x rects r = fst r \<and> layout_y rects r = fst (snd r)"
proof -
  assume "list_all screen_fits rects"
  then have "sum_list (map (\<lambda>p. quad_w p - layout_w p) (filter P rects)) = 0"
    "sum_list (map (\<lambda>p. quad_h p - layout_h p) (filter P rects)) = 0" for P
    by (induction rects) (auto simp: screen_fits_def)
  then show ?thesis by (simp add: layout_x_sum layout_y_sum)
qed

lemma buildLayout_sel:
  fixes rects :: "quad list" and scale :: int
  defines "rs \<equiv> take VENTO_MAX_MONITORS rects"
  defines "xs \<equiv> map (layout_x rs) rs" and "ys \<equiv> map (layout_y rs) rs"
  assumes "rdp_buildLayout rects scale = (layout, asked)"
  shows "length layout = length rs" "length asked = length rs"
    "i < length rs \<Longrightarrow> layout ! i = \<lparr>dm_primary = (i = 0), dm_left = xs ! i - xs ! 0, dm_top = ys ! i - ys ! 0,
       dm_width = layout_w (rs ! i), dm_height = layout_h (rs ! i), dm_scale = scale\<rparr>"
    "i < length rs \<Longrightarrow> asked ! i = (xs ! i - least_of xs, ys ! i - least_of ys, layout_w (rs ! i), layout_h (rs ! i))"
  using assms(4) by (auto simp: rdp_buildLayout_def rs_def xs_def ys_def Let_def)

text \<open>
  Every layout this end asks for obeys the protocol: as many monitors as screens, at most
  sixteen; each 200 to 8192 pixels each way with an even width, at the session's scale; the
  first one, and only that one, the primary, and at the origin.  What the session remembers
  having asked for is the same monitors with the corner of their box at the origin, so the
  desktop it expects is the one that layout makes.  Screens the limits leave alone keep their
  sizes and relative positions.
\<close>

theorem rdp_buildLayout_spec:
  assumes "rdp_buildLayout rects scale = (layout, asked)"
  shows "length layout = min 16 (length rects) \<and> length asked = length layout \<and>
    (\<forall>i<length layout.
       let m = layout ! i; q = asked ! i in
       (dm_primary m \<longleftrightarrow> i = 0) \<and> dm_left (layout ! 0) = 0 \<and> dm_top (layout ! 0) = 0 \<and> dm_scale m = scale \<and>
       200 \<le> dm_width m \<and> dm_width m \<le> 8192 \<and> dm_width m mod 2 = 0 \<and> 200 \<le> dm_height m \<and> dm_height m \<le> 8192 \<and>
       quad_starts q \<and> quad_w q = dm_width m \<and> quad_h q = dm_height m \<and>
       fst q - fst (asked ! 0) = dm_left m \<and> fst (snd q) - fst (snd (asked ! 0)) = dm_top m \<and>
       (list_all screen_fits (take 16 rects) \<longrightarrow>
          dm_left m = fst (rects ! i) - fst (rects ! 0) \<and> dm_top m = fst (snd (rects ! i)) - fst (snd (rects ! 0)) \<and>
          dm_width m = quad_w (rects ! i) \<and> dm_height m = quad_h (rects ! i))) \<and>
    (layout \<noteq> [] \<longrightarrow> (\<exists>q\<in>set asked. fst q = 0) \<and> (\<exists>q\<in>set asked. fst (snd q) = 0))"
proof -
  define rs where "rs = take 16 rects"
  define xs ys where "xs = map (layout_x rs) rs" and "ys = map (layout_y rs) rs"
  note sel = buildLayout_sel [OF assms, unfolded VENTO_MAX_MONITORS_def, folded rs_def, folded xs_def ys_def]
  have len: "length layout = length rs" "length asked = length rs" by (rule sel(1,2))+
  have "least_of xs \<le> xs ! i" "least_of ys \<le> ys ! i" if "i < length rs" for i
    using that by (auto simp: xs_def ys_def intro!: least_of_le)
  then have each: "let m = layout ! i; q = asked ! i in
       (dm_primary m \<longleftrightarrow> i = 0) \<and> dm_left (layout ! 0) = 0 \<and> dm_top (layout ! 0) = 0 \<and> dm_scale m = scale \<and>
       200 \<le> dm_width m \<and> dm_width m \<le> 8192 \<and> dm_width m mod 2 = 0 \<and> 200 \<le> dm_height m \<and> dm_height m \<le> 8192 \<and>
       quad_starts q \<and> quad_w q = dm_width m \<and> quad_h q = dm_height m \<and>
       fst q - fst (asked ! 0) = dm_left m \<and> fst (snd q) - fst (snd (asked ! 0)) = dm_top m"
    if "i < length rs" for i
    using that sel(3) [of i] sel(4) [of i] sel(3) [of 0] sel(4) [of 0]
      layout_w_range [of "rs ! i"] layout_h_range [of "rs ! i"]
    by (cases "rs = []") (simp_all add: Let_def)
  have fits: "dm_left (layout ! i) = fst (rects ! i) - fst (rects ! 0) \<and>
      dm_top (layout ! i) = fst (snd (rects ! i)) - fst (snd (rects ! 0)) \<and>
      dm_width (layout ! i) = quad_w (rects ! i) \<and> dm_height (layout ! i) = quad_h (rects ! i)"
    if "i < length rs" "list_all screen_fits rs" for i
  proof -
    have i: "0 < length rs" "rs ! i = rects ! i" "rs ! 0 = rects ! 0" using that(1) by (auto simp: rs_def)
    have "screen_fits (rs ! i)" using that by (simp add: list_all_length)
    then show ?thesis
      using sel(3) [OF that(1)] layout_fits [OF that(2)] that(1) i
      by (simp add: xs_def ys_def screen_fits_def)
  qed
  have corner: "(\<exists>q\<in>set asked. fst q = 0) \<and> (\<exists>q\<in>set asked. fst (snd q) = 0)" if "layout \<noteq> []"
  proof -
    have "xs \<noteq> []" "ys \<noteq> []" using that len(1) by (auto simp: xs_def ys_def)
    then obtain i j where "i < length xs" "xs ! i = least_of xs" "j < length ys" "ys ! j = least_of ys"
      using least_of_in [of xs] least_of_in [of ys] by (auto simp: in_set_conv_nth)
    moreover have "length xs = length rs" "length ys = length rs" by (simp_all add: xs_def ys_def)
    ultimately have "fst (asked ! i) = 0" "fst (snd (asked ! j)) = 0" "asked ! i \<in> set asked" "asked ! j \<in> set asked"
      using sel(4) [of i] sel(4) [of j] len nth_mem [of i asked] nth_mem [of j asked] by auto
    then show ?thesis by blast
  qed
  have "length rs = min 16 (length rects)" by (simp add: rs_def)
  with len each fits corner show ?thesis
    unfolding rs_def [symmetric] by (auto simp: Let_def)
qed

theorem rdp_buildLayout_spec_witness:
  "let (layout, asked) = rdp_buildLayout [(100, 0, 300, 300), (0, 0, 101, 300)] 140 in
     length layout = 2 \<and> dm_primary (layout ! 0) \<and> \<not> dm_primary (layout ! 1) \<and>
     dm_width (layout ! 1) mod 2 = 0 \<and> quad_starts (asked ! 1)"
proof -
  obtain layout asked where b: "rdp_buildLayout [(100, 0, 300, 300), (0, 0, 101, 300)] 140 = (layout, asked)"
    by (metis prod.collapse)
  from rdp_buildLayout_spec [OF b] have "length layout = 2"
    and "\<forall>i<2. (dm_primary (layout ! i) \<longleftrightarrow> i = 0) \<and> dm_width (layout ! i) mod 2 = 0 \<and> quad_starts (asked ! i)"
    by (simp_all add: Let_def)
  then show ?thesis by (simp add: b)
qed

section \<open>Sending a layout\<close>

text \<open>The area as a number: sixteen monitors cannot overflow 64 bits.\<close>

definition true_area :: "disp_monitor list \<Rightarrow> int" where
  "true_area ms = sum_list (map (\<lambda>m. dm_width m * dm_height m) ms)"

lemma layout_area_word: "layout_area ms = word_of_int (true_area ms)"
proof -
  have "fold (\<lambda>m area. area + word_of_int (dm_width m) * word_of_int (dm_height m)) ms a =
      a + (word_of_int (true_area ms) :: u64)" for a
    by (induction ms arbitrary: a) (simp_all add: true_area_def wi_hom_syms algebra_simps)
  then show ?thesis by (simp add: layout_area_def)
qed

lemma true_area_bound:
  assumes "\<forall>m\<in>set ms. 0 \<le> dm_width m \<and> dm_width m \<le> 8192 \<and> 0 \<le> dm_height m \<and> dm_height m \<le> 8192"
  shows "0 \<le> true_area ms \<and> true_area ms \<le> int (length ms) * 67108864"
  using assms
proof (induction ms)
  case (Cons m ms)
  have "dm_width m * dm_height m \<le> 8192 * 8192" using Cons.prems by (intro mult_mono) auto
  moreover have "0 \<le> dm_width m * dm_height m" using Cons.prems by simp
  ultimately show ?case using Cons by (simp add: true_area_def algebra_simps)
qed (simp add: true_area_def)

lemma uint_layout_area:
  assumes "rdp_buildLayout rects scale = (layout, asked)"
  shows "uint (layout_area layout) = true_area layout"
proof -
  note sel = buildLayout_sel [OF assms]
  have "0 \<le> true_area layout \<and> true_area layout \<le> int (length layout) * 67108864"
  proof (rule true_area_bound, intro ballI)
    fix m assume "m \<in> set layout"
    then obtain i where "i < length layout" "m = layout ! i" by (auto simp: in_set_conv_nth)
    then show "0 \<le> dm_width m \<and> dm_width m \<le> 8192 \<and> 0 \<le> dm_height m \<and> dm_height m \<le> 8192"
      using sel(1,3) layout_w_range [of "take VENTO_MAX_MONITORS rects ! i"]
        layout_h_range [of "take VENTO_MAX_MONITORS rects ! i"] by auto
  qed
  moreover have "length layout \<le> 16" using sel(1) by (simp add: VENTO_MAX_MONITORS_def)
  then have "int (length layout) * 67108864 \<le> 1073741824" by simp
  ultimately show ?thesis
    by (simp add: layout_area_word uint_word_of_int take_bit_int_eq_self)
qed

lemma rdp_sendLayout_cases:
  fixes rects :: "quad list" and s :: rdp_session
  defines "kept \<equiv> take (nat (sint (rs_dispMonitors s))) rects"
  shows "rdp_sendLayout rects s = s \<or>
    (\<exists>layout asked. rdp_buildLayout kept (rs_scale s) = (layout, asked) \<and> rs_disp s = Some True \<and> rs_canResize s \<and>
       true_area layout \<le> uint (rs_dispArea s) \<and>
       rdp_sendLayout rects s = rdp_emit (SendMonitorLayout layout) (s\<lparr>rs_askedLayout := asked\<rparr>))"
proof -
  obtain layout asked where b: "rdp_buildLayout kept (rs_scale s) = (layout, asked)" by (metis prod.collapse)
  have "(if int (length rects) > sint (rs_dispMonitors s) then kept else rects) = kept"
    by (simp add: kept_def)
  then show ?thesis
    using b uint_layout_area [OF b]
    by (auto simp: rdp_sendLayout_def kept_def [symmetric] Let_def word_less_def not_less)
qed

text \<open>
  C31. A layout goes out only on a display-control channel whose limits are known, and within
  them: at most as many monitors as the server takes, at most its area, counted without
  overflow.  It is then remembered as the one asked for; in every other case nothing is sent
  and nothing changes.
\<close>

theorem rdp_sendLayout_within_limits:
  assumes "0 \<le> sint (rs_dispMonitors s)"
  shows "let s' = rdp_sendLayout rects s in
     s' = s \<or>
     (\<exists>layout. rs_trace s' = rs_trace s @ [SendMonitorLayout layout] \<and>
        s' = s\<lparr>rs_askedLayout := rs_askedLayout s', rs_trace := rs_trace s'\<rparr> \<and>
        rs_disp s = Some True \<and> rs_canResize s \<and> length (rs_askedLayout s') = length layout \<and>
        length layout \<le> 16 \<and> int (length layout) \<le> sint (rs_dispMonitors s) \<and>
        true_area layout \<le> uint (rs_dispArea s))"
proof -
  let ?kept = "take (nat (sint (rs_dispMonitors s))) rects"
  from rdp_sendLayout_cases [of rects s] show ?thesis
  proof (elim disjE exE conjE)
    fix layout asked
    assume b: "rdp_buildLayout ?kept (rs_scale s) = (layout, asked)"
      and s': "rdp_sendLayout rects s = rdp_emit (SendMonitorLayout layout) (s\<lparr>rs_askedLayout := asked\<rparr>)"
      and "rs_disp s = Some True" "rs_canResize s" "true_area layout \<le> uint (rs_dispArea s)"
    then show ?thesis
      using buildLayout_sel(1,2) [OF b] assms
      by (auto simp: Let_def rdp_emit_def VENTO_MAX_MONITORS_def)
  qed simp
qed

definition example_resizable :: rdp_session where
  "example_resizable =
     rdp_calloc\<lparr>rs_disp := Some True, rs_canResize := True, rs_dispMonitors := 2, rs_dispArea := 1000000,
       rs_scale := 100\<rparr>"

theorem rdp_sendLayout_within_limits_witness:
  "let s' = rdp_sendLayout [(0, 0, 300, 300)] example_resizable in
     \<exists>layout. rs_trace s' = [SendMonitorLayout layout] \<and> length layout \<le> 2"
proof -
  have "rdp_sendLayout [(0, 0, 300, 300)] example_resizable \<noteq> example_resizable"
    by (simp add: rdp_sendLayout_def example_resizable_def rdp_buildLayout_def VENTO_MAX_MONITORS_def
        layout_area_word true_area_def layout_w_def layout_h_def clamp_side_def rdp_emit_def rdp_calloc_def Let_def)
  then show ?thesis
    using rdp_sendLayout_within_limits [of example_resizable "[(0, 0, 300, 300)]"]
    by (auto simp: Let_def example_resizable_def rdp_calloc_def)
qed

section \<open>Resizing\<close>

text \<open>Screens side by side from \<open>x\<close>, each at least a pixel wide.\<close>

fun side_by_side :: "int \<Rightarrow> quad list \<Rightarrow> bool" where
  "side_by_side x [] \<longleftrightarrow> True"
| "side_by_side x ((x', y, w, h) # rs) \<longleftrightarrow> x' = x \<and> y = 0 \<and> 0 < w \<and> side_by_side (x + w) rs"

lemma side_by_side_append:
  "side_by_side x (as @ bs) \<longleftrightarrow> side_by_side x as \<and> side_by_side (x + sum_list (map quad_w as)) bs"
  by (induction as arbitrary: x) (auto simp: algebra_simps)

lemma side_by_side_right: "side_by_side x rs \<Longrightarrow> r \<in> set rs \<Longrightarrow> x < quad_right r \<and> quad_right r \<le> x + sum_list (map quad_w rs)"
proof (induction rs arbitrary: x)
  case (Cons a rs)
  obtain x' y w h where a: "a = (x', y, w, h)" by (cases a)
  have "0 \<le> sum_list (map quad_w rs)"
    using Cons.prems(1) by (intro sum_list_nonneg) (auto simp: a dest!: split_list simp: side_by_side_append)
  with Cons show ?case by (fastforce simp: a)
qed simp

text \<open>Screens side by side stay side by side: none overlaps another and no gap opens.\<close>

lemma layout_x_row:
  assumes "side_by_side 0 (as @ r # bs)"
  shows "layout_x (as @ r # bs) r = sum_list (map layout_w as)"
proof -
  obtain x y w h where r: "r = (x, y, w, h)" by (cases r)
  have as: "side_by_side 0 as" and x: "x = sum_list (map quad_w as)" and rb: "side_by_side x (r # bs)"
    using assms by (auto simp: side_by_side_append r)
  have "filter (\<lambda>p. quad_right p \<le> x) as = as"
    using side_by_side_right [OF as] x by (intro filter_True) auto
  moreover have "filter (\<lambda>p. quad_right p \<le> x) (r # bs) = []"
    using side_by_side_right [OF rb] by (intro filter_False) force
  ultimately have f: "filter (\<lambda>p. quad_right p \<le> x) (as @ r # bs) = as" by (simp only: filter_append append_Nil2)
  have "sum_list (map (\<lambda>p. quad_w p - layout_w p) as) = sum_list (map quad_w as) - sum_list (map layout_w as)"
    by (induction as) simp_all
  then show ?thesis unfolding layout_x_sum using f x by (simp add: r)
qed

lemma side_by_side_nth:
  "side_by_side x rs \<longleftrightarrow>
     (\<forall>i<length rs. fst (rs ! i) = x + sum_list (map quad_w (take i rs)) \<and> fst (snd (rs ! i)) = 0 \<and> 0 < quad_w (rs ! i))"
proof (induction rs arbitrary: x)
  case (Cons r rs)
  obtain x' y w h where r: "r = (x', y, w, h)" by (cases r)
  show ?case by (auto simp: r Cons.IH less_Suc_eq_0_disj algebra_simps)
qed simp

lemma resize_rects_row:
  assumes "1 \<le> n" and "n \<le> width"
  shows "side_by_side 0 (resize_rects n width height)" "sum_list (map quad_w (resize_rects n width height)) = width"
    "length (resize_rects n width height) = nat n" "\<forall>r\<in>set (resize_rects n width height). quad_h r = height"
proof -
  define each where "each = width div n"
  define f where "f = (\<lambda>i. (int i * each, 0, if int i = n - 1 then width - each * (n - 1) else each, height) :: quad)"
  have each: "1 \<le> each" "each * (n - 1) < width"
  proof -
    show "1 \<le> each" using assms by (simp add: each_def pos_imp_zdiv_pos_iff int_one_le_iff_zero_less)
    then have "each * (n - 1) < each * n" by simp
    also have "each * n \<le> width"
      unfolding each_def using pos_mod_sign [of n width] assms(1) div_mult_mod_eq [of width n] by linarith
    finally show "each * (n - 1) < width" .
  qed
  have rects: "resize_rects n width height = map f [0..<nat n]"
    using assms by (simp add: resize_rects_def each_def f_def Let_def)
  have row: "side_by_side 0 (map f [0..<k]) \<and> sum_list (map quad_w (map f [0..<k])) = each * int k" if "int k \<le> n - 1" for k
    using that each(1) by (induction k) (auto simp: side_by_side_append f_def algebra_simps)
  have n: "nat n = Suc (nat (n - 1))" "int (nat (n - 1)) = n - 1" using assms(1) by simp_all
  from row [of "nat (n - 1)"] each
  show "side_by_side 0 (resize_rects n width height)" "sum_list (map quad_w (resize_rects n width height)) = width"
    unfolding rects n(1) using n(2) by (auto simp: side_by_side_append f_def algebra_simps)
  show "length (resize_rects n width height) = nat n" by (simp add: rects)
  show "\<forall>r\<in>set (resize_rects n width height). quad_h r = height" by (auto simp: rects f_def)
qed

text \<open>What is asked for when screens side by side are.\<close>

lemma buildLayout_row:
  assumes "side_by_side 0 rects" and "\<forall>r\<in>set rects. 0 < quad_h r" and "length rects \<le> VENTO_MAX_MONITORS"
    and "rdp_buildLayout rects scale = (layout, asked)"
  shows "side_by_side 0 asked \<and> map quad_w asked = map layout_w rects \<and> map quad_h asked = map layout_h rects"
proof -
  have rs: "take VENTO_MAX_MONITORS rects = rects" using assms(3) by simp
  note sel = buildLayout_sel [OF assms(4), unfolded rs]
  have x: "layout_x rects (rects ! i) = sum_list (map layout_w (take i rects))" if "i < length rects" for i
    using layout_x_row [of "take i rects" "rects ! i" "drop (Suc i) rects"] assms(1) id_take_nth_drop [OF that] by simp
  have top: "fst (snd r) = 0" if "r \<in> set rects" for r
    using assms(1) that by (auto simp: side_by_side_nth in_set_conv_nth)
  have "quad_bottom r = fst (snd r) + quad_h r" for r by (cases r) simp
  then have none: "filter (\<lambda>p. quad_bottom p \<le> 0) rects = []"
    using assms(2) top by (intro filter_False) force
  have y: "layout_y rects r = 0" if "r \<in> set rects" for r
    unfolding layout_y_sum using that none by (simp add: top)
  have pos: "0 \<le> sum_list (map layout_w rs)" for rs
    by (intro sum_list_nonneg) auto
  have "0 \<le> layout_x rects r" if "r \<in> set rects" for r
    using that x pos by (auto simp: in_set_conv_nth)
  then have least: "least_of (map (layout_x rects) rects) = 0" if "rects \<noteq> []"
    using least_of_in [of "map (layout_x rects) rects"] least_of_le [of "layout_x rects (rects ! 0)" "map (layout_x rects) rects"]
      x [of 0] that by fastforce
  have "least_of (map (layout_y rects) rects) = 0" if "rects \<noteq> []"
    using least_of_in [of "map (layout_y rects) rects"] that y by auto
  note least = least this
  have at: "asked ! i = (sum_list (map layout_w (take i rects)), 0, layout_w (rects ! i), layout_h (rects ! i))"
    if "i < length rects" for i
    using sel(4) [OF that] x [OF that] y [of "rects ! i"] least that by (cases "rects = []") auto
  have maps: "map quad_w asked = map layout_w rects" "map quad_h asked = map layout_h rects"
    using sel(2) at by (auto intro!: nth_equalityI)
  then have "map quad_w (take i asked) = map layout_w (take i rects)" for i
    by (metis take_map)
  then have "side_by_side 0 asked"
    using at sel(2) by (auto simp: side_by_side_nth)
  with maps show ?thesis by blast
qed

lemma box_right_row: "side_by_side 0 rs \<Longrightarrow> box_right rs = sum_list (map quad_w rs)"
proof (induction rs rule: rev_induct)
  case Nil
  then show ?case by (simp add: box_right_def)
next
  case (snoc r rs)
  have r: "quad_right r = sum_list (map quad_w rs) + quad_w r" "0 < quad_w r"
    using snoc.prems by (cases r; simp add: side_by_side_append)+
  have "box_right (rs @ [r]) = max (box_right rs) (quad_right r)"
    unfolding box_right_def Max.set_eq_fold by (simp add: max.commute)
  with snoc r show ?case by (simp add: side_by_side_append)
qed

lemma covers_row:
  assumes "side_by_side 0 rs" and "rs \<noteq> []" and "\<forall>r\<in>set rs. quad_h r = height" and "0 < height"
  shows "covers rs (sum_list (map quad_w rs)) height"
proof -
  have sums: "0 \<le> sum_list (map quad_w (take i rs))" for i
    using assms(1) by (intro sum_list_nonneg) (force simp: side_by_side_nth in_set_conv_nth)
  have at: "fst r \<ge> 0 \<and> fst (snd r) = 0" if "r \<in> set rs" for r
    using that assms(1) sums by (auto simp: side_by_side_nth in_set_conv_nth)
  then have "list_all quad_starts rs" by (force simp: list_all_iff)
  moreover have "quad_bottom r = height" if "r \<in> set rs" for r
    using at [OF that] assms(3) that by (cases r) auto
  then have "set (map quad_bottom rs) = {height}" using assms(2) by (cases rs) auto
  then have "box_bottom rs = height" using assms(4) by (simp add: box_bottom_def)
  ultimately show ?thesis using assms(1,2) by (simp add: covers_iff box_right_row)
qed

text \<open>
  A size asked for is the size of the whole desktop: the session's monitors, no more than
  the server takes, divide it side by side without a gap or an overlap, and when the limits of
  the protocol leave them alone they cover exactly the size asked for, remainder included.  The
  only alternative is that nothing is sent, because the channel is gone or the area too big.
\<close>

theorem rdp_resize_divides:
  assumes "rs_canResize s" and "0 < sint (rs_dispMonitors s)" and "resize_count s \<le> width" and "0 < height"
  shows "let s' = doResize width height s; asked = rs_askedLayout s' in
     s' = s \<or>
     (\<exists>layout. rs_trace s' = rs_trace s @ [SendMonitorLayout layout] \<and> length layout = length asked \<and>
        int (length asked) = resize_count s \<and> side_by_side 0 asked \<and>
        (list_all screen_fits (resize_rects (resize_count s) width height) \<longrightarrow> covers asked width height))"
proof -
  define n where "n = resize_count s"
  have n: "1 \<le> n" "n \<le> sint (rs_dispMonitors s)" "n \<le> int VENTO_MAX_MONITORS"
    using assms(2) by (auto simp: n_def resize_count_def VENTO_MAX_MONITORS_def Let_def)
  note row = resize_rects_row [OF n(1) assms(3) [folded n_def], of height]
  let ?rects = "resize_rects n width height"
  have do: "doResize width height s = rdp_sendLayout ?rects s"
    using assms(1) by (simp add: doResize_def holdUntilCaps_def n_def)
  have kept: "take (nat (sint (rs_dispMonitors s))) ?rects = ?rects" using row(3) n(2) by simp
  have most: "length ?rects \<le> VENTO_MAX_MONITORS" using row(3) n(3) by simp
  from rdp_sendLayout_cases [of ?rects s] show ?thesis
    unfolding do kept n_def [symmetric]
  proof (elim disjE exE conjE)
    fix layout asked
    assume b: "rdp_buildLayout ?rects (rs_scale s) = (layout, asked)"
      and s': "rdp_sendLayout ?rects s = rdp_emit (SendMonitorLayout layout) (s\<lparr>rs_askedLayout := asked\<rparr>)"
    have r: "side_by_side 0 asked" "map quad_w asked = map layout_w ?rects" "map quad_h asked = map layout_h ?rects"
      using buildLayout_row [OF row(1) _ most b] row(4) assms(4) by auto
    have len: "length asked = nat n" "length layout = nat n"
      using buildLayout_sel(1,2) [OF b] most row(3) by simp_all
    have "covers asked width height" if fits: "list_all screen_fits ?rects"
    proof -
      have "map quad_w asked = map quad_w ?rects" "map quad_h asked = map quad_h ?rects"
        using fits by (auto simp: r list_all_iff screen_fits_def)
      then have "sum_list (map quad_w asked) = width" and "set (map quad_h asked) \<subseteq> {height}"
        using row(2,4) by (metis, auto)
      moreover have "asked \<noteq> []" using len(1) n(1) by auto
      ultimately show ?thesis using covers_row [OF r(1), of height] assms(4) by auto
    qed
    then show "let s' = rdp_sendLayout ?rects s; asked = rs_askedLayout s' in s' = s \<or>
      (\<exists>layout. rs_trace s' = rs_trace s @ [SendMonitorLayout layout] \<and> length layout = length asked \<and>
        int (length asked) = n \<and> side_by_side 0 asked \<and>
        (list_all screen_fits ?rects \<longrightarrow> covers asked width height))"
      using r(1) len n(1) by (simp add: s' rdp_emit_def)
  qed simp
qed

theorem rdp_resize_divides_witness:
  "let s' = doResize 801 300 example_resizable in
     rs_trace s' \<noteq> [] \<and> side_by_side 0 (rs_askedLayout s') \<and> length (rs_askedLayout s') = 1"
proof -
  have n: "resize_count example_resizable = 1"
    by (simp add: resize_count_def example_resizable_def rdp_calloc_def Let_def)
  have r: "resize_rects 1 801 300 = [(0, 0, 801, 300)]" by (simp add: resize_rects_def)
  have "doResize 801 300 example_resizable = rdp_sendLayout [(0, 0, 801, 300)] example_resizable"
    by (simp add: doResize_def holdUntilCaps_def n r) (simp add: example_resizable_def)
  then have "rs_trace (doResize 801 300 example_resizable) \<noteq> []"
    by (simp add: rdp_sendLayout_def example_resizable_def rdp_buildLayout_def VENTO_MAX_MONITORS_def
        layout_area_word true_area_def layout_w_def layout_h_def clamp_side_def rdp_emit_def Let_def)
  then show ?thesis
    using rdp_resize_divides [of example_resizable 801 300] n
    by (auto simp: Let_def example_resizable_def rdp_calloc_def)
qed

section \<open>Limits and early requests\<close>

lemma rdp_post_simps [rdp_simps]:
  "rs_dispMonitors (rdp_post s c) = rs_dispMonitors s" "rs_dispArea (rdp_post s c) = rs_dispArea s"
  "rs_canResize (rdp_post s c) = rs_canResize s" "rs_trace (rdp_post s c) = rs_trace s"
  "rs_wantLayout (rdp_post s c) = rs_wantLayout s" "rs_heldWidth (rdp_post s c) = rs_heldWidth s"
  "rs_viewOnly (rdp_post s c) = rs_viewOnly s" "rs_quit (rdp_post s c) = rs_quit s"
  "rs_connected (rdp_post s c) = rs_connected s" "rs_keys (rdp_post s c) = rs_keys s"
  by (simp_all add: rdp_post_def rdp_wake_def Let_def case_prod_unfold)

lemma unat_u32: "unat (w :: u32) < 2 ^ 32"
  using unsigned_less [of w, where ?'a = nat] by simp

lemma unat_ucast_u64: "unat (ucast (w :: u32) :: u64) = unat w"
  using unat_u32 [of w] by (simp add: unsigned_ucast_eq take_bit_nat_eq_self_iff)

lemma caps_monitors_unat: "unat (caps_monitors m) = min 16 (unat m)"
  by (auto simp: caps_monitors_def VENTO_MAX_MONITORS_def word_less_nat_alt min_def)

lemma caps_area_unat:
  "unat (caps_area most a b) = min (2 ^ 64 - 1) (unat a * unat b * unat most)"
proof (cases "most = 0")
  case True
  then show ?thesis by (simp add: caps_area_def Let_def)
next
  case False
  define n where "n = unat most"
  define each :: u64 where "each = ucast a * ucast b"
  have "unat a * unat b < 2 ^ 32 * 2 ^ 32" by (intro mult_strict_mono unat_u32) simp_all
  then have each: "unat each = unat a * unat b" by (simp add: each_def unat_word_ariths unat_ucast_u64)
  have n: "0 < n" "unat (ucast most :: u64) = n" using False by (auto simp: n_def unat_gt_0 unat_ucast_u64)
  have all_ones: "unat (- 1 :: u64) = 2 ^ 64 - 1" by (simp add: unsigned_minus_1_eq_mask mask_eq_exp_minus_1)
  have "each > (- 1) div ucast most \<longleftrightarrow> (2 ^ 64 - 1) div n < unat each"
    by (simp only: word_less_nat_alt unat_div all_ones n)
  also have "\<dots> \<longleftrightarrow> 2 ^ 64 - 1 < unat each * n"
    by (rule div_less_iff_less_mult [OF n(1)])
  finally have c: "each > (- 1) div ucast most \<longleftrightarrow> 2 ^ 64 - 1 < unat each * n" .
  show ?thesis
  proof (cases "2 ^ 64 - 1 < unat each * n")
    case True
    then show ?thesis
      using False c by (simp add: caps_area_def each_def [symmetric] word_gt_0 all_ones each [symmetric] n_def [symmetric])
  next
    case less: False
    then have "unat (each * ucast most) = unat each * n" by (simp add: unat_word_ariths n)
    with less False c show ?thesis
      by (simp add: caps_area_def each_def [symmetric] word_gt_0 each [symmetric] n_def [symmetric])
  qed
qed

text \<open>
  The server's limits are taken as they are meant whatever numbers it sends: at most
  sixteen monitors, and an area that is the product of the two factors and the monitors,
  stopping at the largest 64-bit number instead of wrapping around; the desktop can be resized
  exactly when the server takes a monitor at all.
\<close>

theorem rdp_caps_saturate:
  "let s' = onDisplayControlCaps maxMonitors factorA factorB s; n = min 16 (unat maxMonitors) in
     unat (rs_dispMonitors s') = n \<and> unat (rs_dispArea s') = min (2 ^ 64 - 1) (unat factorA * unat factorB * n) \<and>
     (rs_canResize s' \<longleftrightarrow> maxMonitors \<noteq> 0) \<and> rs_heldWidth s' = 0"
proof -
  define most where "most = caps_monitors maxMonitors"
  have "rs_dispMonitors (onDisplayControlCaps maxMonitors factorA factorB s) = most"
    "rs_dispArea (onDisplayControlCaps maxMonitors factorA factorB s) = caps_area most factorA factorB"
    "rs_canResize (onDisplayControlCaps maxMonitors factorA factorB s) \<longleftrightarrow> most > 0"
    "rs_heldWidth (onDisplayControlCaps maxMonitors factorA factorB s) = 0"
    by (simp_all add: onDisplayControlCaps_def most_def [symmetric] rdp_simps Let_def split: option.splits)
  moreover have "most > 0 \<longleftrightarrow> maxMonitors \<noteq> 0"
    by (simp add: most_def word_gt_0 unat_eq_zero [symmetric] caps_monitors_unat)
  ultimately show ?thesis by (simp add: Let_def most_def caps_monitors_unat caps_area_unat)
qed

text \<open>
  A size or a layout asked for before the server has sent its limits is sent once they
  arrive: the command is queued then, with the size or with the layout still in place, and
  the later of a layout followed by a size is the one that counts.
\<close>

theorem rdp_early_request_sent:
  assumes "\<not> rs_canResize s" and "\<not> rs_quit s" and "rdp_queue_ok s" and "maxMonitors \<noteq> 0" and "0 < width"
  shows "rdp_items (onDisplayControlCaps maxMonitors a b (doResize width height s)) =
      posted_items (rdp_items s) (RDP_RESIZE width height) \<and>
    (rs_wantLayout s \<noteq> [] \<longrightarrow>
      rdp_items (onDisplayControlCaps maxMonitors a b (doLayout s)) = posted_items (rdp_items s) RDP_LAYOUT \<and>
      rs_wantLayout (onDisplayControlCaps maxMonitors a b (doLayout s)) = rs_wantLayout s) \<and>
    rdp_items (onDisplayControlCaps maxMonitors a b (doResize width height (doLayout s))) =
      posted_items (rdp_items s) (RDP_RESIZE width height)"
proof -
  have most: "caps_monitors maxMonitors > 0"
    using assms(4) by (simp add: word_gt_0 unat_eq_zero [symmetric] caps_monitors_unat)
  have post: "rdp_items (rdp_post t c) = posted_items (rdp_items s) c"
    if "rs_ring t = rs_ring s" "rs_quit t = rs_quit s" for t c
    using that assms(2,3) rdp_post_items(1) [of t c] by (simp add: rdp_items_def rdp_queue_ok_def)
  note simps = doResize_def doLayout_def holdUntilCaps_def onDisplayControlCaps_def held_request_def Let_def
  have "rdp_items (onDisplayControlCaps maxMonitors a b (doResize width height s)) =
      posted_items (rdp_items s) (RDP_RESIZE width height)"
    "rdp_items (onDisplayControlCaps maxMonitors a b (doResize width height (doLayout s))) =
      posted_items (rdp_items s) (RDP_RESIZE width height)"
    using assms(1,5) most by (simp_all add: simps post)
  moreover have "rdp_items (onDisplayControlCaps maxMonitors a b (doLayout s)) = posted_items (rdp_items s) RDP_LAYOUT"
    "rs_wantLayout (onDisplayControlCaps maxMonitors a b (doLayout s)) = rs_wantLayout s"
    if "rs_wantLayout s \<noteq> []"
    using assms(1) most that by (simp_all add: simps post rdp_simps)
  ultimately show ?thesis by blast
qed

theorem rdp_early_request_sent_witness:
  "rdp_items (onDisplayControlCaps 1 1920 1080 (doResize 800 600 rdp_calloc)) = [RDP_RESIZE 800 600]"
  using rdp_early_request_sent [of rdp_calloc 1 800 1920 1080 600]
  by (simp add: posted_items_def CMD_RING_def) (simp add: rdp_calloc_def)

text \<open>
  A size followed by a layout, both asked for before the limits arrive and both taken from
  the queue before them, is forgotten altogether: the size drops the layout that is already
  stored, the layout's turn drops the size, and the limits find nothing to send.
\<close>

theorem rdp_early_requests_lost:
  assumes "\<not> rs_canResize s" and "0 < width" and "rdp_queue_ok s"
  shows "let s1 = rdp_op_request_layout screens s; s2 = doLayout (doResize width height s1) in
     rs_wantLayout s2 = [] \<and>
     rdp_items (onDisplayControlCaps maxMonitors a b s2) = rdp_items s2 \<and> rs_trace s2 = rs_trace s"
  using assms
  by (simp add: rdp_op_request_layout_def doResize_def doLayout_def holdUntilCaps_def onDisplayControlCaps_def
      held_request_def rdp_items_def rdp_simps Let_def)

theorem rdp_early_requests_lost_witness:
  "let s = doLayout (doResize 800 600 (rdp_op_request_layout [(0, 0, 0, 500, 400)] rdp_calloc)) in
     rs_wantLayout s = [] \<and> rdp_items (onDisplayControlCaps 1 1920 1080 s) = rdp_items s"
  using rdp_early_requests_lost [of rdp_calloc 800 "[(0, 0, 0, 500, 400)]" 600 1 1920 1080]
  by (simp add: Let_def) (simp add: rdp_calloc_def)

text \<open>
  Screens that do not overlap can overlap in the layout asked for: two stacked screens of an
  odd width both move their common neighbour, by one pixel each, where the edge between them
  and the neighbour moved only once.
\<close>

theorem rdp_buildLayout_overlaps:
  "snd (rdp_buildLayout [(0, 0, 1001, 500), (0, 500, 1001, 500), (1001, 0, 1000, 500)] 100) =
     [(0, 0, 1000, 500), (0, 500, 1000, 500), (999, 0, 1000, 500)]"
  by (simp add: rdp_buildLayout_def VENTO_MAX_MONITORS_def layout_x_def layout_y_def layout_w_def layout_h_def
      clamp_side_def least_of_def upt_rec Let_def)

end
