(* ===== verification/Rdp_Input.thy ===== *)
theory Rdp_Input
  imports Rdp_Layout
begin

text \<open>
  Input on the protocol thread of a FreeRDP session
  (\<open>src/backends/modules/freerdp/cpp/freerdp_session.c\<close>): keysyms to scancodes (\<open>namedScancode\<close>,
  \<open>US_LAYOUT\<close>, \<open>mapKeysym\<close>), the keys held (\<open>doKeyDown\<close>, \<open>doKeyUp\<close>, \<open>doReleaseAll\<close>), the pointer
  (\<open>doPointer\<close>), the clipboard and the focus, and the drain that executes the queue
  (\<open>drainCommands\<close>).

  The flags are those of MS-RDPBCGR as FreeRDP's \<open>freerdp/input.h\<close> names them.
\<close>

section \<open>Keysyms to scancodes\<close>

definition KEY_EXT :: u16 where "KEY_EXT = 0xE000"
definition KEY_NONE :: u16 where "KEY_NONE = 0xFFFF"
definition KEY_PAUSE :: u16 where "KEY_PAUSE = 0xFFFE"

text \<open>The cases of the switch, in its order.\<close>

definition NAMED :: "(u32 \<times> u16) list" where
  "NAMED =
     [(0xffe1, 0x2a), (0xffe2, 0x36), (0xffe3, 0x1d), (0xffe4, 0xE01d), (0xffe9, 0x38),
      (0xffea, 0xE038), (0xfe03, 0xE038), (0xffeb, 0xE05b), (0xffe7, 0xE05b), (0xffec, 0xE05c), (0xffe8, 0xE05c),
      (0xff67, 0xE05d), (0xffe5, 0x3a), (0xff7f, 0x45), (0xff14, 0x46), (0xff08, 0x0e), (0xff09, 0x0f),
      (0xff0d, 0x1c), (0xff1b, 0x01), (0xffff, 0xE053), (0xff63, 0xE052), (0xff50, 0xE047), (0xff57, 0xE04f),
      (0xff55, 0xE049), (0xff56, 0xE051), (0xff51, 0xE04b), (0xff52, 0xE048), (0xff53, 0xE04d), (0xff54, 0xE050),
      (0xff61, 0xE037), (0xff13, 0xFFFE), (0xffc8, 0x57), (0xffc9, 0x58),
      (0xffb7, 0x47), (0xff95, 0x47), (0xffb8, 0x48), (0xff97, 0x48), (0xffb9, 0x49), (0xff9a, 0x49),
      (0xffb4, 0x4b), (0xff96, 0x4b), (0xffb5, 0x4c), (0xff9d, 0x4c), (0xffb6, 0x4d), (0xff98, 0x4d),
      (0xffb1, 0x4f), (0xff9c, 0x4f), (0xffb2, 0x50), (0xff99, 0x50), (0xffb3, 0x51), (0xff9b, 0x51),
      (0xffb0, 0x52), (0xff9e, 0x52), (0xffae, 0x53), (0xff9f, 0x53), (0xffaa, 0x37), (0xffad, 0x4a),
      (0xffab, 0x4e), (0xffaf, 0xE035), (0xff8d, 0xE01c), (0xffac, 0x7e),
      (0xff27, 0x70), (0xff23, 0x79), (0xff22, 0x7b)]"

definition namedScancode :: "u32 \<Rightarrow> u16" where
  "namedScancode keysym =
     (case map_of NAMED keysym of
        Some code \<Rightarrow> code
      | None \<Rightarrow>
          if keysym \<ge> 0xffbe \<and> keysym \<le> 0xffc7 then ucast (0x3b + (keysym - 0xffbe))
          else if keysym \<ge> 0xffca \<and> keysym \<le> 0xffd4 then ucast (0x64 + (keysym - 0xffca))
          else if keysym = 0xffd5 then 0x76
          else KEY_NONE)"

text \<open>A key: its code, and the characters it types without and with Shift.\<close>

definition us_key :: "u16 \<Rightarrow> char \<Rightarrow> char \<Rightarrow> u16 \<times> u16 \<times> u16" where
  "us_key code plain shifted = (code, of_char plain, of_char shifted)"

definition US_LAYOUT :: "(u16 \<times> u16 \<times> u16) list" where
  "US_LAYOUT =
     [us_key 0x29 CHR 0x60 CHR ''~'', us_key 0x02 CHR ''1'' CHR ''!'', us_key 0x03 CHR ''2'' CHR 0x40,
      us_key 0x04 CHR ''3'' CHR ''#'', us_key 0x05 CHR ''4'' CHR ''$'', us_key 0x06 CHR ''5'' CHR ''%'',
      us_key 0x07 CHR ''6'' CHR ''^'', us_key 0x08 CHR ''7'' CHR ''&'', us_key 0x09 CHR ''8'' CHR ''*'',
      us_key 0x0a CHR ''9'' CHR ''('', us_key 0x0b CHR ''0'' CHR '')'', us_key 0x0c CHR ''-'' CHR ''_'',
      us_key 0x0d CHR ''='' CHR ''+'',
      us_key 0x10 CHR ''q'' CHR ''Q'', us_key 0x11 CHR ''w'' CHR ''W'', us_key 0x12 CHR ''e'' CHR ''E'',
      us_key 0x13 CHR ''r'' CHR ''R'', us_key 0x14 CHR ''t'' CHR ''T'', us_key 0x15 CHR ''y'' CHR ''Y'',
      us_key 0x16 CHR ''u'' CHR ''U'', us_key 0x17 CHR ''i'' CHR ''I'', us_key 0x18 CHR ''o'' CHR ''O'',
      us_key 0x19 CHR ''p'' CHR ''P'', us_key 0x1a CHR ''['' CHR ''{'', us_key 0x1b CHR '']'' CHR ''}'',
      us_key 0x2b CHR 0x5C CHR ''|'',
      us_key 0x1e CHR ''a'' CHR ''A'', us_key 0x1f CHR ''s'' CHR ''S'', us_key 0x20 CHR ''d'' CHR ''D'',
      us_key 0x21 CHR ''f'' CHR ''F'', us_key 0x22 CHR ''g'' CHR ''G'', us_key 0x23 CHR ''h'' CHR ''H'',
      us_key 0x24 CHR ''j'' CHR ''J'', us_key 0x25 CHR ''k'' CHR ''K'', us_key 0x26 CHR ''l'' CHR ''L'',
      us_key 0x27 CHR '';'' CHR '':'', us_key 0x28 CHR 0x27 CHR 0x22,
      us_key 0x2c CHR ''z'' CHR ''Z'', us_key 0x2d CHR ''x'' CHR ''X'', us_key 0x2e CHR ''c'' CHR ''C'',
      us_key 0x2f CHR ''v'' CHR ''V'', us_key 0x30 CHR ''b'' CHR ''B'', us_key 0x31 CHR ''n'' CHR ''N'',
      us_key 0x32 CHR ''m'' CHR ''M'', us_key 0x33 CHR '','' CHR ''<'', us_key 0x34 CHR ''.'' CHR ''>'',
      us_key 0x35 CHR ''/'' CHR ''?'', us_key 0x39 CHR '' '' CHR '' '']"

definition keysymToUnicode :: "u32 \<Rightarrow> u32" where
  "keysymToUnicode keysym =
     (if keysym AND 0xff000000 = 0x01000000 then keysym AND 0x00ffffff
      else if (keysym \<ge> 0x20 \<and> keysym \<le> 0x7e) \<or> (keysym \<ge> 0xa0 \<and> keysym \<le> 0xff) then keysym
      else 0)"

fun us_find :: "u32 \<Rightarrow> (u16 \<times> u16 \<times> u16) list \<Rightarrow> (u16 \<times> bool) option" where
  "us_find cp [] = None"
| "us_find cp ((code, plain, shifted) # ks) =
     (if ucast plain = cp then Some (code, False)
      else if ucast shifted = cp then Some (code, True)
      else us_find cp ks)"

text \<open>The code, whether it needs Shift, and the character when there is no code.\<close>

definition mapKeysym :: "u32 \<Rightarrow> u16 \<times> bool \<times> u16" where
  "mapKeysym keysym =
     (let named = namedScancode keysym
      in if named \<noteq> KEY_NONE then (named, False, 0)
         else if keysym = 0xffbd then (KEY_NONE, False, of_char CHR ''='')
         else let cp = keysymToUnicode keysym
              in if cp = 0 \<or> cp > 0xFFFF then (KEY_NONE, False, 0)
                 else case us_find cp US_LAYOUT of
                        Some (code, shift) \<Rightarrow> (code, shift, 0)
                      | None \<Rightarrow> (KEY_NONE, False, ucast cp))"

section \<open>Keys\<close>

definition KBD_FLAGS_EXTENDED :: u16 where "KBD_FLAGS_EXTENDED = 0x0100"
definition KBD_FLAGS_DOWN :: u16 where "KBD_FLAGS_DOWN = 0x4000"
definition KBD_FLAGS_RELEASE :: u16 where "KBD_FLAGS_RELEASE = 0x8000"

definition sendScancode :: "u16 \<Rightarrow> bool \<Rightarrow> rdp_session \<Rightarrow> rdp_session" where
  "sendScancode code down s =
     (if code = KEY_PAUSE then (if down then rdp_emit KeyboardPause s else s)
      else let flags = (if down then KBD_FLAGS_DOWN else KBD_FLAGS_RELEASE);
               flags = (if code AND KEY_EXT \<noteq> 0 then flags OR KBD_FLAGS_EXTENDED else flags)
           in rdp_emit (KeyboardEvent flags (ucast (code AND 0xFF))) s)"

definition rdp_sends :: "rdp_session \<Rightarrow> bool" where
  "rdp_sends s \<longleftrightarrow> \<not> rs_viewOnly s \<and> rs_connected s"

definition doKeyDown :: "u32 \<Rightarrow> int \<Rightarrow> rdp_session \<Rightarrow> rdp_session" where
  "doKeyDown keysym keyId s =
     (if \<not> rdp_sends s then s
      else let (code, shift, unicode) = mapKeysym keysym
      in if code = KEY_NONE \<and> unicode = 0 then s
         else case key_slot keyId (rs_keys s) of
           Some i \<Rightarrow>
             let k = snd (rs_keys s ! i)
             in if k_unicode k \<noteq> 0 then rdp_emit (UnicodeKeyboardEvent 0 (k_unicode k)) s
                else sendScancode (k_code k) True s
         | None \<Rightarrow>
             if length (rs_keys s) \<ge> MAX_HELD_KEYS then s
             else let s = (if unicode \<noteq> 0 then rdp_emit (UnicodeKeyboardEvent 0 unicode) s
                           else let s = (if shift \<and> \<not> rs_shiftHeld s then sendScancode 0x2a True s else s);
                                    s = sendScancode code True s
                                in if keysym = 0xffe1 \<or> keysym = 0xffe2 then s\<lparr>rs_shiftHeld := True\<rparr> else s)
                  in s\<lparr>rs_keys := rs_keys s @
                         [(keyId, \<lparr>k_code = code, k_shift = (shift \<and> \<not> rs_shiftHeld s), k_unicode = unicode\<rparr>)]\<rparr>)"

definition releaseAt :: "nat \<Rightarrow> rdp_session \<Rightarrow> rdp_session" where
  "releaseAt i s =
     (let k = snd (rs_keys s ! i);
          s = (if k_unicode k \<noteq> 0 then rdp_emit (UnicodeKeyboardEvent KBD_FLAGS_RELEASE (k_unicode k)) s
               else let s = sendScancode (k_code k) False s;
                        s = (if k_shift k then sendScancode 0x2a False s else s)
                    in if k_code k = 0x2a \<or> k_code k = 0x36 then s\<lparr>rs_shiftHeld := False\<rparr> else s)
      in s\<lparr>rs_keys := key_remove i (rs_keys s)\<rparr>)"

definition doKeyUp :: "int \<Rightarrow> rdp_session \<Rightarrow> rdp_session" where
  "doKeyUp keyId s =
     (case key_slot keyId (rs_keys s) of
        None \<Rightarrow> s
      | Some i \<Rightarrow>
          if rdp_sends s then releaseAt i s else s\<lparr>rs_keys := key_remove i (rs_keys s)\<rparr>)"

text \<open>The loop, newest key first; \<open>n\<close> is \<open>nkeys\<close>.\<close>

fun release_loop :: "nat \<Rightarrow> rdp_session \<Rightarrow> rdp_session" where
  "release_loop 0 s = s"
| "release_loop (Suc n) s =
     release_loop n (if rdp_sends s then releaseAt n s else s\<lparr>rs_keys := butlast (rs_keys s)\<rparr>)"

definition doReleaseAll :: "rdp_session \<Rightarrow> rdp_session" where
  "doReleaseAll s = (release_loop (length (rs_keys s)) s)\<lparr>rs_shiftHeld := False\<rparr>"

section \<open>The pointer\<close>

definition PTR_FLAGS_MOVE :: u16 where "PTR_FLAGS_MOVE = 0x0800"
definition PTR_FLAGS_DOWN :: u16 where "PTR_FLAGS_DOWN = 0x8000"
definition PTR_FLAGS_BUTTON1 :: u16 where "PTR_FLAGS_BUTTON1 = 0x1000"
definition PTR_FLAGS_BUTTON2 :: u16 where "PTR_FLAGS_BUTTON2 = 0x2000"
definition PTR_FLAGS_BUTTON3 :: u16 where "PTR_FLAGS_BUTTON3 = 0x4000"
definition PTR_FLAGS_WHEEL :: u16 where "PTR_FLAGS_WHEEL = 0x0200"
definition PTR_FLAGS_HWHEEL :: u16 where "PTR_FLAGS_HWHEEL = 0x0400"
definition PTR_FLAGS_WHEEL_NEGATIVE :: u16 where "PTR_FLAGS_WHEEL_NEGATIVE = 0x0100"
definition PTR_XFLAGS_DOWN :: u16 where "PTR_XFLAGS_DOWN = 0x8000"
definition PTR_XFLAGS_BUTTON1 :: u16 where "PTR_XFLAGS_BUTTON1 = 0x0001"
definition PTR_XFLAGS_BUTTON2 :: u16 where "PTR_XFLAGS_BUTTON2 = 0x0002"

definition BUTTONS :: "(u16 \<times> u16) list" where
  "BUTTONS = [(0x01, PTR_FLAGS_BUTTON1), (0x02, PTR_FLAGS_BUTTON3), (0x04, PTR_FLAGS_BUTTON2)]"

definition EXTENDED :: "(u16 \<times> u16) list" where
  "EXTENDED = [(0x80, PTR_XFLAGS_BUTTON1), (0x100, PTR_XFLAGS_BUTTON2)]"

definition WHEEL :: "(u16 \<times> u16) list" where
  "WHEEL =
     [(0x08, PTR_FLAGS_WHEEL OR 120), (0x10, PTR_FLAGS_WHEEL OR PTR_FLAGS_WHEEL_NEGATIVE OR 0x88),
      (0x20, PTR_FLAGS_HWHEEL OR PTR_FLAGS_WHEEL_NEGATIVE OR 0x88), (0x40, PTR_FLAGS_HWHEEL OR 120)]"

definition bit_set :: "u16 \<Rightarrow> u16 \<Rightarrow> bool" where
  "bit_set m b \<longleftrightarrow> m AND b \<noteq> 0"

text \<open>The loops over the tables: a button on every change, a notch when its bit is newly set.\<close>

definition send_buttons ::
  "(u16 \<Rightarrow> rdp_event) \<Rightarrow> u16 \<Rightarrow> (u16 \<times> u16) list \<Rightarrow> u16 \<Rightarrow> u16 \<Rightarrow> rdp_session \<Rightarrow> rdp_session"
where
  "send_buttons event down table previous m s =
     fold (\<lambda>(b, flag) s.
         if bit_set m b \<noteq> bit_set previous b
         then rdp_emit (event (flag OR (if bit_set m b then down else 0))) s else s) table s"

definition send_wheel :: "u16 \<Rightarrow> u16 \<Rightarrow> u16 \<Rightarrow> u16 \<Rightarrow> rdp_session \<Rightarrow> rdp_session" where
  "send_wheel x y previous m s =
     fold (\<lambda>(b, flags) s.
         if bit_set m b \<and> \<not> bit_set previous b then rdp_emit (MouseEvent flags x y) s else s) WHEEL s"

definition doPointer :: "int \<Rightarrow> int \<Rightarrow> u16 \<Rightarrow> rdp_session \<Rightarrow> rdp_session" where
  "doPointer ax ay m s =
     (if \<not> rdp_sends s then s
      else let previous = rs_buttons s;
               x = word_of_int ax;
               y = word_of_int ay;
               s = s\<lparr>rs_buttons := m\<rparr>;
               s = rdp_emit (MouseEvent PTR_FLAGS_MOVE x y) s;
               s = send_buttons (\<lambda>f. MouseEvent f x y) PTR_FLAGS_DOWN BUTTONS previous m s;
               s = send_buttons (\<lambda>f. ExtendedMouseEvent f x y) PTR_XFLAGS_DOWN EXTENDED previous m s
           in send_wheel x y previous m s)"

section \<open>The clipboard and the focus\<close>

definition ERROR_INTERNAL_ERROR :: u32 where "ERROR_INTERNAL_ERROR = 1359"

text \<open>\<open>rc\<close> is what the channel's \<open>ClientFormatList\<close> returns.\<close>

definition sendFormatList :: "u32 \<Rightarrow> bool \<Rightarrow> rdp_session \<Rightarrow> u32 \<times> rdp_session" where
  "sendFormatList rc haveText s =
     (if rs_cliprdr s \<noteq> Some True then (ERROR_INTERNAL_ERROR, s)
      else (rc, rdp_emit (ClientFormatList haveText) s))"

definition doClipboard :: "u32 \<Rightarrow> u16 list option \<Rightarrow> rdp_session \<Rightarrow> rdp_session" where
  "doClipboard rc txt s =
     (let s = s\<lparr>rs_clipOut := txt\<rparr>
      in if rs_cliprdr s \<noteq> None \<and> \<not> rs_viewOnly s then snd (sendFormatList rc (txt \<noteq> None) s) else s)"

definition doFocus :: "bool \<Rightarrow> rdp_session \<Rightarrow> rdp_session" where
  "doFocus focused s =
     (if \<not> rs_connected s \<or> rs_gdi s = None then s else rdp_emit (SuppressOutput (\<not> focused)) s)"

definition rdp_op_view_only :: "bool \<Rightarrow> rdp_session \<Rightarrow> rdp_session" where
  "rdp_op_view_only viewOnly s =
     (let s = s\<lparr>rs_viewOnly := viewOnly\<rparr> in if viewOnly then rdp_post s RDP_RELEASE_KEYS else s)"

section \<open>Executing the queue\<close>

fun rdp_runCmd :: "u32 \<Rightarrow> rdp_cmd \<Rightarrow> rdp_session \<Rightarrow> rdp_session" where
  "rdp_runCmd rc (RDP_POINTER x y m) s = doPointer x y (word_of_int m) s"
| "rdp_runCmd rc (RDP_KEY_DOWN keysym k) s = doKeyDown keysym k s"
| "rdp_runCmd rc (RDP_KEY_UP k) s = doKeyUp k s"
| "rdp_runCmd rc RDP_RELEASE_KEYS s = doReleaseAll s"
| "rdp_runCmd rc (RDP_CLIPBOARD txt) s = doClipboard rc txt s"
| "rdp_runCmd rc (RDP_FOCUS focused) s = doFocus focused s"
| "rdp_runCmd rc (RDP_RESIZE w h) s = doResize w h s"
| "rdp_runCmd rc RDP_LAYOUT s = doLayout s"

text \<open>
  The loop of the drain.  \<open>others n\<close> is what the other threads do to the session before the
  \<open>n\<close>th time the lock is taken; they can keep it going, hence the fuel.
\<close>

fun drainCommands :: "u32 \<Rightarrow> nat \<Rightarrow> (nat \<Rightarrow> rdp_session \<Rightarrow> rdp_session) \<Rightarrow> rdp_session \<Rightarrow> rdp_session option" where
  "drainCommands rc 0 others s = None"
| "drainCommands rc (Suc fuel) others s =
     (case rdp_pop (others fuel s) of
        None \<Rightarrow> Some ((others fuel s)\<lparr>rs_dropped := 0\<rparr>)
      | Some (c, s) \<Rightarrow> drainCommands rc fuel others (rdp_runCmd rc c s))"

section \<open>The mapping of keysyms: lemmas\<close>

lemma NAMED_range: "list_all (\<lambda>p. 0xfe03 \<le> fst p \<and> fst p \<le> 0xffff) NAMED"
  by (simp add: NAMED_def)

lemma namedScancode_None: "keysym < 0xfe03 \<or> keysym > 0xffff \<Longrightarrow> namedScancode keysym = KEY_NONE"
proof -
  assume k: "keysym < 0xfe03 \<or> keysym > 0xffff"
  have "map_of NAMED keysym = None"
    using NAMED_range k by (auto simp: map_of_eq_None_iff list_all_iff)
  moreover have "\<not> (keysym \<ge> 0xffbe \<and> keysym \<le> 0xffc7)" "\<not> (keysym \<ge> 0xffca \<and> keysym \<le> 0xffd4)" "keysym \<noteq> 0xffd5"
    using k by (auto simp: word_less_nat_alt word_le_nat_alt)
  ultimately show ?thesis by (auto simp: namedScancode_def)
qed

lemma us_find_Some:
  "us_find cp ks = Some (code, shift) \<Longrightarrow> \<exists>p q. (code, p, q) \<in> set ks \<and> ucast (if shift then q else p) = cp"
  by (induction cp ks rule: us_find.induct) (auto split: if_splits)

lemma us_find_None: "us_find cp ks = None \<Longrightarrow> (code, p, q) \<in> set ks \<Longrightarrow> ucast p \<noteq> cp \<and> ucast q \<noteq> cp"
  by (induction cp ks rule: us_find.induct) (auto split: if_splits)

lemma us_find_ascii: "0x20 \<le> cp \<Longrightarrow> cp \<le> 0x7e \<Longrightarrow> us_find cp US_LAYOUT \<noteq> None"
proof -
  have all: "list_all (\<lambda>n. us_find (word_of_nat n) US_LAYOUT \<noteq> None) [32..<127]"
    by code_simp
  assume "0x20 \<le> cp" "cp \<le> 0x7e"
  then have "unat cp \<in> {32..<127}" by (simp add: word_le_nat_alt)
  moreover have "\<forall>n\<in>{32..<127}. us_find (word_of_nat n) US_LAYOUT \<noteq> None"
    using all by (simp only: list_all_iff set_upt)
  ultimately have "us_find (word_of_nat (unat cp)) US_LAYOUT \<noteq> None" by blast
  then show ?thesis by simp
qed

lemma US_LAYOUT_codes: "distinct (map fst US_LAYOUT)" "list_all (\<lambda>k. fst k \<noteq> 0x2a \<and> fst k \<noteq> 0x36 \<and> fst k \<noteq> KEY_NONE) US_LAYOUT"
  by (simp_all add: US_LAYOUT_def us_key_def KEY_NONE_def)

lemma high_byte_large: "(keysym :: u32) AND 0xff000000 = 0x01000000 \<Longrightarrow> 0xffff < keysym"
proof -
  assume a: "keysym AND 0xff000000 = 0x01000000"
  have "keysym AND 0xff000000 \<le> keysym" by (rule word_and_le2)
  then have "0x01000000 \<le> keysym" by (simp only: a)
  then show "0xffff < keysym" by (simp add: word_less_nat_alt word_le_nat_alt)
qed

lemma keysymToUnicode_range: "keysymToUnicode keysym \<noteq> 0 \<Longrightarrow> keysym < 0xfe03 \<or> keysym > 0xffff"
proof (cases "keysym AND 0xff000000 = 0x01000000")
  case True
  then show ?thesis using high_byte_large by blast
next
  case False
  moreover assume "keysymToUnicode keysym \<noteq> 0"
  ultimately have "keysym \<le> 0x7e \<or> keysym \<le> 0xff" by (auto simp: keysymToUnicode_def split: if_splits)
  then show ?thesis by (auto simp: word_less_nat_alt word_le_nat_alt)
qed

lemma ascii_unicode: "0x20 \<le> keysym \<Longrightarrow> keysym \<le> 0x7e \<Longrightarrow> keysymToUnicode keysym = keysym \<and> keysym \<noteq> 0 \<and> keysym \<le> 0xFFFF"
proof -
  assume k: "0x20 \<le> keysym" "keysym \<le> 0x7e"
  then have small: "keysym \<noteq> 0 \<and> keysym \<le> 0xFFFF" by (auto simp: word_le_nat_alt)
  then have "keysym AND 0xff000000 \<noteq> 0x01000000" using high_byte_large [of keysym] by auto
  with k small show ?thesis by (simp add: keysymToUnicode_def)
qed

lemma ucast_u16_u32: "cp \<le> 0xFFFF \<Longrightarrow> ucast (ucast (cp :: u32) :: u16) = cp"
proof -
  assume "cp \<le> 0xFFFF"
  then have "unat cp < 65536" by (simp add: word_le_nat_alt)
  then show ?thesis by (simp add: word_unat_eq_iff unsigned_ucast_eq unsigned_take_bit_eq take_bit_nat_eq_self_iff)
qed

text \<open>
  A keysym becomes a scancode, a scancode with Shift or a character, never two of them.
  Every printable ASCII character becomes the key of the US layout that types it, with Shift
  exactly when that is the shifted one; any other character of the basic plane becomes that
  key if the layout has it and the character itself otherwise; Shift is only ever asked for
  with a key of the layout, which is never a Shift key itself.
\<close>

theorem rdp_keysym_map:
  "case mapKeysym keysym of (code, shift, unicode) \<Rightarrow>
     (code = KEY_NONE \<or> unicode = 0) \<and>
     (shift \<longrightarrow> code \<in> set (map fst US_LAYOUT) \<and> code \<noteq> 0x2a \<and> code \<noteq> 0x36) \<and>
     (0x20 \<le> keysym \<and> keysym \<le> 0x7e \<longrightarrow> code \<noteq> KEY_NONE) \<and>
     (let cp = keysymToUnicode keysym in
      cp \<noteq> 0 \<and> cp \<le> 0xFFFF \<longrightarrow>
        (if code \<noteq> KEY_NONE then \<exists>p q. (code, p, q) \<in> set US_LAYOUT \<and> ucast (if shift then q else p) = cp
         else ucast unicode = cp \<and> (\<forall>k p q. (k, p, q) \<in> set US_LAYOUT \<longrightarrow> ucast p \<noteq> cp \<and> ucast q \<noteq> cp)))"
proof -
  define cp where "cp = keysymToUnicode keysym"
  obtain code shift unicode where m: "mapKeysym keysym = (code, shift, unicode)" by (cases "mapKeysym keysym") auto
  have codes: "code' \<noteq> KEY_NONE \<and> code' \<noteq> 0x2a \<and> code' \<noteq> 0x36 \<and> code' \<in> set (map fst US_LAYOUT)"
    if "(code', p, q) \<in> set US_LAYOUT" for code' p q
    using that US_LAYOUT_codes(2) by (force simp: list_all_iff)
  show ?thesis
  proof (cases "cp = 0 \<or> cp > 0xFFFF")
    case True
    then have "\<not> (0x20 \<le> keysym \<and> keysym \<le> 0x7e)" using ascii_unicode [of keysym] by (auto simp: cp_def)
    with True m show ?thesis
      by (auto simp: mapKeysym_def cp_def [symmetric] Let_def not_le [symmetric] split: if_splits)
  next
    case False
    then have named: "namedScancode keysym = KEY_NONE" "keysym \<noteq> 0xffbd"
      using keysymToUnicode_range [of keysym] namedScancode_None by (auto simp: cp_def)
    have small: "ucast (ucast cp :: u16) = cp" using False by (intro ucast_u16_u32) (simp add: not_less)
    show ?thesis
    proof (cases "us_find cp US_LAYOUT")
      case None
      then have "\<not> (0x20 \<le> keysym \<and> keysym \<le> 0x7e)"
        using ascii_unicode [of keysym] us_find_ascii [of cp] by (auto simp: cp_def)
      with None m False named small us_find_None [OF None] show ?thesis
        by (auto simp: mapKeysym_def cp_def [symmetric])
    next
      case (Some k)
      obtain code' shift' where k: "k = (code', shift')" by (cases k)
      from us_find_Some [OF Some [unfolded k]] obtain p q where
        pq: "(code', p, q) \<in> set US_LAYOUT" "ucast (if shift' then q else p) = cp" by blast
      have "code = code'" "shift = shift'" "unicode = 0"
        using m named False Some k by (auto simp: mapKeysym_def cp_def [symmetric])
      moreover have "\<exists>p q. (code', p, q) \<in> set US_LAYOUT \<and> ucast (if shift' then q else p) = cp" using pq by blast
      ultimately show ?thesis using m codes [OF pq(1)] by (simp add: cp_def [symmetric])
    qed
  qed
qed

theorem rdp_keysym_map_witness:
  "mapKeysym 0x21 = (0x02, True, 0) \<and> (0x02, 0x31, 0x21) \<in> set US_LAYOUT"
proof -
  have m: "mapKeysym 0x21 = (0x02, True, 0)" by code_simp
  then have "\<exists>p q. (0x02, p, q) \<in> set US_LAYOUT \<and> ucast q = (0x21 :: u32)"
    using rdp_keysym_map [of "0x21"] by (simp add: keysymToUnicode_def KEY_NONE_def Let_def)
  then have "(0x02, 0x31, 0x21) \<in> set US_LAYOUT" by (simp add: US_LAYOUT_def us_key_def)
  with m show ?thesis by simp
qed

section \<open>Keys: lemmas\<close>

lemma sendScancode_sel [rdp_simps]:
  "rs_keys (sendScancode c d s) = rs_keys s" "rs_viewOnly (sendScancode c d s) = rs_viewOnly s"
  "rs_connected (sendScancode c d s) = rs_connected s" "rs_shiftHeld (sendScancode c d s) = rs_shiftHeld s"
  "rs_ring (sendScancode c d s) = rs_ring s" "rs_quit (sendScancode c d s) = rs_quit s"
  by (simp_all add: sendScancode_def rdp_simps Let_def)

lemma doKeyDown_keys:
  "rs_keys (doKeyDown keysym k s) = rs_keys s \<or>
   (key_slot k (rs_keys s) = None \<and> length (rs_keys s) < MAX_HELD_KEYS \<and>
    (\<exists>v. rs_keys (doKeyDown keysym k s) = rs_keys s @ [(k, v)]))"
  by (auto simp: doKeyDown_def rdp_simps Let_def split: option.splits prod.splits)

lemma releaseAt_keys: "rs_keys (releaseAt i s) = key_remove i (rs_keys s)"
  by (simp add: releaseAt_def rdp_simps Let_def)

lemma doKeyUp_keys:
  "rs_keys (doKeyUp k s) = (case key_slot k (rs_keys s) of None \<Rightarrow> rs_keys s | Some i \<Rightarrow> key_remove i (rs_keys s))"
  by (auto simp: doKeyUp_def releaseAt_keys split: option.splits)

lemma key_remove_last: "length es = Suc n \<Longrightarrow> key_remove n es = butlast es"
  by (cases es rule: rev_cases) (auto simp: key_remove_def)

lemma release_loop_keys: "length (rs_keys s) = n \<Longrightarrow> rs_keys (release_loop n s) = []"
  by (induction n arbitrary: s) (simp_all add: releaseAt_keys)

lemma doReleaseAll_keys: "rs_keys (doReleaseAll s) = []"
  by (simp add: doReleaseAll_def release_loop_keys)

interpretation rk: held_keys rs_keys "\<lambda>k keysym. doKeyDown keysym k" doKeyUp doReleaseAll
proof
  fix s :: rdp_session and k keysym
  assume ok: "keys_ok (rs_keys s)"
  show "keys_ok (rs_keys (doKeyDown keysym k s))"
    and "set (key_ids (rs_keys (doKeyDown keysym k s))) \<subseteq> insert k (set (key_ids (rs_keys s)))"
    using ok doKeyDown_keys [of keysym k s] key_slot_None [of k "rs_keys s"] by (auto simp: keys_ok_def)
next
  fix s :: rdp_session and k
  assume ok: "keys_ok (rs_keys s)"
  show "keys_ok (rs_keys (doKeyUp k s))"
    and "set (key_ids (rs_keys (doKeyUp k s))) = set (key_ids (rs_keys s)) - {k}"
    using ok key_remove_ok [OF ok] key_slot_Some [of k "rs_keys s"] key_slot_None [of k "rs_keys s"]
    by (auto simp: doKeyUp_keys split: option.splits)
qed (rule doReleaseAll_keys)


definition rdp_example_connected :: rdp_session where
  "rdp_example_connected = rdp_calloc\<lparr>rs_connected := True\<rparr>"

lemma rdp_example_connected_ok:
  "keys_ok (rs_keys rdp_example_connected)" "key_ids (rs_keys rdp_example_connected) = []"
  "rdp_sends rdp_example_connected" "rs_trace rdp_example_connected = []" "rs_keys rdp_example_connected = []"
  by (simp_all add: rdp_example_connected_def rdp_calloc_def keys_ok_def key_ids_def rdp_sends_def)


subsection \<open>What the far end sees\<close>

text \<open>A key at the far end: a position of its keyboard, extended or not, or a character.\<close>

datatype far_key = Scan bool u8 | Char_key u16

fun rdp_far_held :: "far_key set \<Rightarrow> rdp_event list \<Rightarrow> far_key set" where
  "rdp_far_held h [] = h"
| "rdp_far_held h (KeyboardEvent flags code # es) =
     (let k = Scan (flags AND KBD_FLAGS_EXTENDED \<noteq> 0) code
      in rdp_far_held (if flags AND KBD_FLAGS_RELEASE \<noteq> 0 then h - {k} else insert k h) es)"
| "rdp_far_held h (UnicodeKeyboardEvent flags c # es) =
     rdp_far_held (if flags AND KBD_FLAGS_RELEASE \<noteq> 0 then h - {Char_key c} else insert (Char_key c) h) es"
| "rdp_far_held h (_ # es) = rdp_far_held h es"

fun key_event :: "rdp_event \<Rightarrow> bool" where
  "key_event (KeyboardEvent _ _) = True"
| "key_event (UnicodeKeyboardEvent _ _) = True"
| "key_event _ = False"

lemma rdp_far_held_append: "rdp_far_held h (a @ b) = rdp_far_held (rdp_far_held h a) b"
  by (induction h a rule: rdp_far_held.induct) (simp_all add: Let_def)

lemma rdp_far_held_quiet: "list_all (\<lambda>e. \<not> key_event e) es \<Longrightarrow> rdp_far_held h es = h"
proof (induction es)
  case (Cons e es)
  then show ?case by (cases e) simp_all
qed simp

abbreviation far :: "rdp_session \<Rightarrow> far_key set" where
  "far s \<equiv> rdp_far_held {} (rs_trace s)"

text \<open>What one code and one entry of the table stand for there.\<close>

definition scan_far :: "u16 \<Rightarrow> far_key set" where
  "scan_far code = (if code = KEY_PAUSE then {} else {Scan (code AND KEY_EXT \<noteq> 0) (ucast (code AND 0xFF))})"

definition key_far :: "rdp_key \<Rightarrow> far_key set" where
  "key_far k = (if k_unicode k \<noteq> 0 then {Char_key (k_unicode k)}
     else scan_far (k_code k) \<union> (if k_shift k then scan_far 0x2a else {}))"

lemma far_sendScancode: "far (sendScancode code d s) = (if d then far s \<union> scan_far code else far s - scan_far code)"
  by (simp add: sendScancode_def scan_far_def rdp_simps rdp_far_held_append KBD_FLAGS_DOWN_def KBD_FLAGS_RELEASE_def
      KBD_FLAGS_EXTENDED_def Let_def)

lemma far_releaseAt: "far (releaseAt i s) = far s - key_far (snd (rs_keys s ! i))"
proof -
  have "far (s\<lparr>rs_keys := k\<rparr>) = far s" "far (s\<lparr>rs_shiftHeld := b\<rparr>) = far s" for s k b by simp_all
  then show ?thesis
    by (auto simp: releaseAt_def key_far_def far_sendScancode rdp_simps rdp_far_held_append KBD_FLAGS_RELEASE_def Let_def)
qed

definition rdp_no_stray :: "rdp_session \<Rightarrow> bool" where
  "rdp_no_stray s \<longleftrightarrow> keys_ok (rs_keys s) \<and> far s \<subseteq> (\<Union>e\<in>set (rs_keys s). key_far (snd e))"

lemma rdp_release_keeps:
  assumes "rdp_no_stray s" and "i < length (rs_keys s)"
  shows "rdp_no_stray (releaseAt i s)"
proof -
  have ok: "keys_ok (rs_keys s)" using assms(1) by (simp add: rdp_no_stray_def)
  show ?thesis
    using assms(1) key_remove_ok(1,3) [OF ok assms(2)]
    by (auto simp: rdp_no_stray_def far_releaseAt releaseAt_keys)
qed

text \<open>A key that goes down: as the entry says again, or as a new entry.\<close>

lemma doKeyDown_again:
  assumes "rdp_sends s" and "mapKeysym keysym = (code, shift, unicode)" and "\<not> (code = KEY_NONE \<and> unicode = 0)"
    and "key_slot k (rs_keys s) = Some i"
  shows "rs_keys (doKeyDown keysym k s) = rs_keys s \<and>
    far (doKeyDown keysym k s) \<subseteq> far s \<union> key_far (snd (rs_keys s ! i))"
  using assms
  by (cases "k_unicode (snd (rs_keys s ! i)) = 0")
    (auto simp: doKeyDown_def Let_def rdp_simps far_sendScancode rdp_far_held_append key_far_def)

lemma shift_keys_plain: "keysym = 0xffe1 \<or> keysym = 0xffe2 \<Longrightarrow> \<not> fst (snd (mapKeysym keysym))"
proof -
  have "mapKeysym 0xffe1 = (0x2a, False, 0)" "mapKeysym 0xffe2 = (0x36, False, 0)" by code_simp+
  then show "keysym = 0xffe1 \<or> keysym = 0xffe2 \<Longrightarrow> \<not> fst (snd (mapKeysym keysym))" by auto
qed

lemma doKeyDown_new:
  assumes "rdp_sends s" and m: "mapKeysym keysym = (code, shift, unicode)" and "\<not> (code = KEY_NONE \<and> unicode = 0)"
    and "key_slot k (rs_keys s) = None" and "length (rs_keys s) < MAX_HELD_KEYS"
  defines "v \<equiv> \<lparr>k_code = code, k_shift = (shift \<and> \<not> rs_shiftHeld s), k_unicode = unicode\<rparr>"
  shows "rs_keys (doKeyDown keysym k s) = rs_keys s @ [(k, v)] \<and> far (doKeyDown keysym k s) \<subseteq> far s \<union> key_far v"
proof -
  have plain: "keysym = 0xffe1 \<or> keysym = 0xffe2 \<Longrightarrow> \<not> shift" using shift_keys_plain [of keysym] m by simp
  have keep: "far (s\<lparr>rs_shiftHeld := True\<rparr>) = far s" for s by simp
  have "rs_keys (doKeyDown keysym k s) = rs_keys s @ [(k, v)]"
    using assms(1,3-5) m plain by (auto simp: doKeyDown_def Let_def rdp_simps v_def)
  moreover have "far (doKeyDown keysym k s) \<subseteq> far s \<union> key_far v"
    using assms(1,3-5) m
    by (cases "unicode = 0"; cases "shift \<and> \<not> rs_shiftHeld s")
      (auto simp: doKeyDown_def Let_def rdp_simps far_sendScancode rdp_far_held_append key_far_def v_def keep)
  ultimately show ?thesis by blast
qed

lemma rdp_press_keeps:
  assumes "rdp_no_stray s"
  shows "rdp_no_stray (doKeyDown keysym k s)"
proof -
  have ok: "keys_ok (rs_keys (doKeyDown keysym k s))"
    using assms rk.down_ok [of s keysym k] by (simp add: rdp_no_stray_def)
  obtain code shift unicode where m: "mapKeysym keysym = (code, shift, unicode)" by (cases "mapKeysym keysym") auto
  show ?thesis
  proof (cases "rdp_sends s \<and> \<not> (code = KEY_NONE \<and> unicode = 0) \<and>
      (key_slot k (rs_keys s) \<noteq> None \<or> length (rs_keys s) < MAX_HELD_KEYS)")
    case False
    then have "doKeyDown keysym k s = s" using m by (auto simp: doKeyDown_def split: option.splits)
    with assms show ?thesis by simp
  next
    case True
    show ?thesis
    proof (cases "key_slot k (rs_keys s)")
      case (Some i)
      then have "rs_keys s ! i \<in> set (rs_keys s)" using key_slot_Some [OF Some] by simp
      with doKeyDown_again [OF _ m _ Some] True assms show ?thesis by (fastforce simp: rdp_no_stray_def)
    next
      case None
      with doKeyDown_new [OF _ m _ None] True assms ok show ?thesis by (fastforce simp: rdp_no_stray_def)
    qed
  qed
qed

lemma rdp_sends_releaseAt [simp]: "rdp_sends (releaseAt i s) = rdp_sends s"
  by (simp add: releaseAt_def rdp_sends_def rdp_simps Let_def)

lemma rdp_release_loop_keeps:
  "rdp_no_stray s \<Longrightarrow> rdp_sends s \<Longrightarrow> length (rs_keys s) = n \<Longrightarrow> rdp_no_stray (release_loop n s)"
  by (induction n arbitrary: s) (simp_all add: rdp_release_keeps releaseAt_keys)

lemma rdp_release_all_keeps:
  assumes "rdp_no_stray s" and "rdp_sends s"
  shows "rdp_no_stray (doReleaseAll s) \<and> far (doReleaseAll s) = {}"
proof -
  let ?t = "release_loop (length (rs_keys s)) s"
  have "rdp_no_stray ?t" "rs_keys ?t = []"
    by (rule rdp_release_loop_keeps [OF assms refl], rule release_loop_keys [OF refl])
  then show ?thesis by (simp add: rdp_no_stray_def doReleaseAll_def)
qed

subsection \<open>Steps that leave the keys alone\<close>

definition rdp_quiet :: "rdp_session \<Rightarrow> rdp_session \<Rightarrow> bool" where
  "rdp_quiet s s' \<longleftrightarrow>
     rs_keys s' = rs_keys s \<and> rdp_sends s' = rdp_sends s \<and> rs_viewOnly s' = rs_viewOnly s \<and>
     (\<exists>es. rs_trace s' = rs_trace s @ es \<and> list_all (\<lambda>e. \<not> key_event e) es)"

lemma rdp_quiet_refl [simp]: "rdp_quiet s s"
  by (simp add: rdp_quiet_def)

lemma rdp_quiet_trans: "rdp_quiet a b \<Longrightarrow> rdp_quiet b c \<Longrightarrow> rdp_quiet a c"
  by (auto simp: rdp_quiet_def)

lemma rdp_quiet_emit: "\<not> key_event e \<Longrightarrow> rdp_quiet s (rdp_emit e s)"
  by (simp add: rdp_quiet_def rdp_simps rdp_sends_def)

lemma rdp_quiet_fold:
  "(\<And>x s. x \<in> set xs \<Longrightarrow> rdp_quiet s (f x s)) \<Longrightarrow> rdp_quiet s (fold f xs s)"
proof (induction xs arbitrary: s)
  case (Cons x xs)
  then have "rdp_quiet s (f x s)" "rdp_quiet (f x s) (fold f xs (f x s))" by auto
  then show ?case using rdp_quiet_trans by simp
qed simp

lemma doPointer_quiet: "rdp_quiet s (doPointer x y m s)"
proof -
  have buttons: "rdp_quiet s (send_buttons event d table previous m s)" if "\<And>f. \<not> key_event (event f)"
    for event d table previous m s
    using that unfolding send_buttons_def by (intro rdp_quiet_fold) (auto intro!: rdp_quiet_emit simp: that)
  have wheel: "rdp_quiet s (send_wheel x y previous m s)" for x y previous m s
    unfolding send_wheel_def by (intro rdp_quiet_fold) (auto intro!: rdp_quiet_emit)
  have set: "rdp_quiet s (s\<lparr>rs_buttons := b\<rparr>)" for b by (simp add: rdp_quiet_def rdp_sends_def)
  show ?thesis
    unfolding doPointer_def Let_def
    by (auto intro!: rdp_quiet_trans [OF _ wheel] rdp_quiet_trans [OF _ buttons] rdp_quiet_trans [OF set rdp_quiet_emit])
qed

lemma rdp_sendLayout_quiet: "rdp_quiet s (rdp_sendLayout rects s)"
  by (auto simp: rdp_sendLayout_def rdp_quiet_def rdp_sends_def rdp_simps Let_def split: prod.splits)

fun rdp_key_cmd :: "rdp_cmd \<Rightarrow> bool" where
  "rdp_key_cmd (RDP_KEY_DOWN _ _) = True"
| "rdp_key_cmd (RDP_KEY_UP _) = True"
| "rdp_key_cmd RDP_RELEASE_KEYS = True"
| "rdp_key_cmd _ = False"

lemma rdp_runCmd_quiet:
  assumes "\<not> rdp_key_cmd c"
  shows "rdp_quiet s (rdp_runCmd rc c s)"
proof -
  have hold: "rdp_quiet s (snd (holdUntilCaps w h s))" for w h
    by (simp add: holdUntilCaps_def rdp_quiet_def rdp_sends_def Let_def)
  have want: "rdp_quiet s (s\<lparr>rs_wantLayout := l\<rparr>)" for l s by (simp add: rdp_quiet_def rdp_sends_def)
  have "rdp_quiet s (doResize w h s)" for w h
    using hold [of w h] rdp_quiet_trans rdp_sendLayout_quiet by (auto simp: doResize_def case_prod_unfold Let_def)
  moreover have "rdp_quiet s (doLayout s)"
    using hold [of 0 0] rdp_quiet_trans [OF want rdp_sendLayout_quiet] rdp_quiet_trans
    by (auto simp: doLayout_def case_prod_unfold Let_def)
  moreover have "rdp_quiet s (doClipboard rc t s)" for t
    by (simp add: doClipboard_def sendFormatList_def rdp_quiet_def rdp_sends_def rdp_simps Let_def)
  moreover have "rdp_quiet s (doFocus f s)" for f
    by (simp add: doFocus_def rdp_quiet_def rdp_sends_def rdp_simps)
  ultimately show ?thesis
    using assms doPointer_quiet by (cases c) simp_all
qed

lemma rdp_quiet_stray: "rdp_quiet s s' \<Longrightarrow> rdp_no_stray s \<Longrightarrow> rdp_no_stray s'"
  by (auto simp: rdp_quiet_def rdp_no_stray_def rdp_far_held_append rdp_far_held_quiet)

lemma doKeyDown_sends [simp]: "rdp_sends (doKeyDown keysym k s) = rdp_sends s"
  by (simp add: doKeyDown_def rdp_sends_def rdp_simps Let_def split: option.splits prod.splits)

lemma doKeyUp_sends [simp]: "rdp_sends (doKeyUp k s) = rdp_sends s"
  by (simp add: doKeyUp_def rdp_sends_def releaseAt_def rdp_simps Let_def split: option.splits)

lemma release_loop_sends [simp]: "rdp_sends (release_loop n s) = rdp_sends s"
  by (induction n arbitrary: s) (simp_all add: rdp_sends_def releaseAt_def rdp_simps Let_def)

lemma doReleaseAll_sends [simp]: "rdp_sends (doReleaseAll s) = rdp_sends s"
  using release_loop_sends [of "length (rs_keys s)" s] by (simp add: doReleaseAll_def rdp_sends_def)

lemma rdp_runCmd_keeps:
  assumes "rdp_no_stray s" and "rdp_sends s"
  shows "rdp_no_stray (rdp_runCmd rc c s) \<and> rdp_sends (rdp_runCmd rc c s)"
proof -
  have up: "rdp_no_stray (doKeyUp k s)" for k
    using assms rdp_release_keeps [OF assms(1)] key_slot_Some [of k "rs_keys s"]
    by (auto simp: doKeyUp_def split: option.splits)
  show ?thesis
  proof (cases "rdp_key_cmd c")
    case True
    then show ?thesis using assms up rdp_press_keeps rdp_release_all_keeps by (cases c) simp_all
  next
    case False
    from rdp_runCmd_quiet [OF False, of s rc] assms show ?thesis
      using rdp_quiet_stray by (auto simp: rdp_quiet_def)
  qed
qed

text \<open>
  C5. No key stays pressed at the far end of a FreeRDP session that is connected and may send:
  whatever commands it executes, every position and every character the far end holds is one
  that a key in the table put there, the Shift this end added included, and once all keys are
  released the far end holds none.
\<close>

theorem rdp_no_stuck_keys:
  assumes "rdp_no_stray s" and "rdp_sends s"
  shows "let s' = fold (rdp_runCmd rc) cs s in
    rdp_far_held {} (rs_trace s') \<subseteq> (\<Union>e\<in>set (rs_keys s'). key_far (snd e)) \<and>
    rdp_far_held {} (rs_trace (rdp_runCmd rc RDP_RELEASE_KEYS s')) = {}"
proof -
  have "rdp_no_stray (fold (rdp_runCmd rc) cs s) \<and> rdp_sends (fold (rdp_runCmd rc) cs s)"
    using assms by (induction cs arbitrary: s) (simp_all add: rdp_runCmd_keeps)
  then show ?thesis
    using rdp_release_all_keeps by (simp add: rdp_no_stray_def Let_def)
qed

theorem rdp_no_stuck_keys_witness:
  "rdp_far_held {} (rs_trace (rdp_runCmd 0 RDP_RELEASE_KEYS (fold (rdp_runCmd 0)
     [RDP_KEY_DOWN 0x21 1, RDP_KEY_DOWN 0x20ac 2, RDP_KEY_UP 1] rdp_example_connected))) = {}"
proof -
  have "rdp_no_stray rdp_example_connected" using rdp_example_connected_ok by (simp add: rdp_no_stray_def)
  from rdp_no_stuck_keys [OF this rdp_example_connected_ok(3), of 0 "[RDP_KEY_DOWN 0x21 1, RDP_KEY_DOWN 0x20ac 2, RDP_KEY_UP 1]"]
  show ?thesis by (simp add: Let_def)
qed

text \<open>
  A session switched to view-only never releases the keys it holds: the flag is set before
  the command that is to release them is queued, so by the time it runs the session may no
  longer send, and the table is emptied without a word to the far end, where the key stays down.
\<close>

theorem rdp_view_only_sticks:
  "let s = rdp_op_view_only True (doKeyDown 0x61 1 rdp_example_connected);
       s' = rdp_runCmd 0 RDP_RELEASE_KEYS s in
   rdp_items s = [RDP_RELEASE_KEYS] \<and>
   rs_keys s' = [] \<and> rdp_far_held {} (rs_trace s') = {Scan False 0x1e} \<and>
   rdp_far_held {} (rs_trace (rdp_runCmd 0 RDP_RELEASE_KEYS (rdp_op_view_only False s'))) = {Scan False 0x1e}"
proof -
  define d where "d = (doKeyDown 0x61 1 rdp_example_connected)\<lparr>rs_viewOnly := True\<rparr>"
  have "mapKeysym 0x61 = (0x1e, False, 0)" by code_simp
  then have d: "d = rdp_example_connected\<lparr>rs_viewOnly := True, rs_trace := [KeyboardEvent KBD_FLAGS_DOWN 0x1e],
      rs_keys := [(1, \<lparr>k_code = 0x1e, k_shift = False, k_unicode = 0\<rparr>)]\<rparr>"
    by (simp add: d_def doKeyDown_def rdp_example_connected_def rdp_calloc_def rdp_sends_def sendScancode_def
        rdp_emit_def KEY_NONE_def KEY_PAUSE_def KEY_EXT_def MAX_HELD_KEYS_def Let_def)
  have q: "rdp_queue_ok d" "rdp_items d = []" "\<not> rs_quit d"
    using rdp_calloc_queue by (simp_all add: d rdp_example_connected_def rdp_queue_ok_def rdp_items_def)
  have v: "rdp_op_view_only True (doKeyDown 0x61 1 rdp_example_connected) = rdp_post d RDP_RELEASE_KEYS"
    by (simp add: rdp_op_view_only_def d_def)
  have "rdp_items (rdp_post d RDP_RELEASE_KEYS) = [RDP_RELEASE_KEYS]"
    using rdp_post_items(1) [OF q(1)] q(2,3) by (simp add: posted_items_def CMD_RING_def)
  moreover obtain r w n where "rdp_post d RDP_RELEASE_KEYS = d\<lparr>rs_ring := r, rs_wake := w, rs_dropped := n\<rparr>"
    using rdp_post_eq by blast
  ultimately show ?thesis
    unfolding v
    by (simp add: d rdp_example_connected_def rdp_calloc_def rdp_sends_def doReleaseAll_def rdp_op_view_only_def
        KBD_FLAGS_DOWN_def KBD_FLAGS_EXTENDED_def KBD_FLAGS_RELEASE_def Let_def)
qed

text \<open>
  With both Shift keys down, releasing one makes the session forget the other: the next
  shifted character presses Shift again and releases it with the character, while the table,
  and the user, still hold the first Shift key.
\<close>

theorem rdp_second_shift_lost:
  "let s = fold (rdp_runCmd 0)
        [RDP_KEY_DOWN 0xffe1 1, RDP_KEY_DOWN 0xffe2 2, RDP_KEY_UP 2, RDP_KEY_DOWN 0x21 3, RDP_KEY_UP 3]
        rdp_example_connected in
   map (k_code \<circ> snd) (rs_keys s) = [0x2a] \<and> Scan False 0x2a \<notin> rdp_far_held {} (rs_trace s)"
proof -
  have "mapKeysym 0x21 = (0x02, True, 0)" "mapKeysym 0xffe1 = (0x2a, False, 0)" "mapKeysym 0xffe2 = (0x36, False, 0)"
    by code_simp+
  then show ?thesis
    by (simp add: doKeyDown_def doKeyUp_def releaseAt_def key_remove_def rdp_example_connected_def rdp_calloc_def
        rdp_sends_def sendScancode_def rdp_emit_def KEY_NONE_def KEY_PAUSE_def KEY_EXT_def KBD_FLAGS_DOWN_def
        KBD_FLAGS_EXTENDED_def KBD_FLAGS_RELEASE_def MAX_HELD_KEYS_def Let_def)
qed

section \<open>The pointer: lemmas\<close>

text \<open>The RFB bits of the buttons the far end holds after a trace.\<close>

definition button_bits :: "u16 set" where
  "button_bits = {0x01, 0x02, 0x04, 0x80, 0x100}"

fun button_change :: "rdp_event \<Rightarrow> (u16 \<times> bool) option" where
  "button_change (MouseEvent f x y) =
     map_option (\<lambda>b. (b, f AND PTR_FLAGS_DOWN \<noteq> 0)) (map_of (map prod.swap BUTTONS) (f AND 0x7000))"
| "button_change (ExtendedMouseEvent f x y) =
     map_option (\<lambda>b. (b, f AND PTR_XFLAGS_DOWN \<noteq> 0)) (map_of (map prod.swap EXTENDED) (f AND 0x0003))"
| "button_change _ = None"

definition far_button :: "rdp_event \<Rightarrow> u16 set \<Rightarrow> u16 set" where
  "far_button e h = (case button_change e of None \<Rightarrow> h | Some (b, d) \<Rightarrow> if d then insert b h else h - {b})"

definition far_buttons :: "rdp_event list \<Rightarrow> u16 set" where
  "far_buttons es = fold far_button es {}"

lemma far_buttons_snoc: "far_buttons (es @ [e]) = far_button e (far_buttons es)"
  by (simp add: far_buttons_def)

text \<open>One table: its buttons become those of the new mask, the others stay.\<close>

lemma send_buttons_far:
  assumes "distinct (map fst table)"
    and "\<And>b f d. (b, f) \<in> set table \<Longrightarrow> button_change (event (f OR (if d then down else 0))) = Some (b, d)"
    and "\<And>b. b \<in> fst ` set table \<Longrightarrow> b \<in> far_buttons (rs_trace s) \<longleftrightarrow> bit_set previous b"
  shows "far_buttons (rs_trace (send_buttons event down table previous m s)) =
    far_buttons (rs_trace s) - fst ` set table \<union> {b \<in> fst ` set table. bit_set m b}"
  using assms
proof (induction table arbitrary: s)
  case Nil
  then show ?case by (simp add: send_buttons_def)
next
  case (Cons e table)
  obtain b f where e: "e = (b, f)" by (cases e)
  define s1 where "s1 = (if bit_set m b \<noteq> bit_set previous b
    then rdp_emit (event (f OR (if bit_set m b then down else 0))) s else s)"
  have rec: "send_buttons event down (e # table) previous m s = send_buttons event down table previous m s1"
    by (simp add: send_buttons_def e s1_def)
  have was: "b \<in> far_buttons (rs_trace s) \<longleftrightarrow> bit_set previous b" using Cons.prems(3) by (simp add: e)
  have change: "button_change (event (f OR (if d then down else 0))) = Some (b, d)" for d
    using Cons.prems(2) by (simp add: e)
  have one: "far_buttons (rs_trace s1) = (if bit_set m b then insert b (far_buttons (rs_trace s)) else far_buttons (rs_trace s) - {b})"
    using was change [of True] change [of False]
    by (cases "bit_set m b") (auto simp: s1_def rdp_simps far_buttons_snoc far_button_def)
  have "b' \<in> far_buttons (rs_trace s1) \<longleftrightarrow> bit_set previous b'" if "b' \<in> fst ` set table" for b'
    using that Cons.prems(1,3) by (auto simp: one e)
  from Cons.IH [OF _ Cons.prems(2) this] Cons.prems(1) show ?case
    unfolding rec one by (auto simp: e)
qed

lemma send_wheel_far: "far_buttons (rs_trace (send_wheel x y previous m s)) = far_buttons (rs_trace s)"
proof -
  have "(b, f) \<in> set WHEEL \<Longrightarrow> button_change (MouseEvent f x y) = None" for b f
    by (auto simp: WHEEL_def BUTTONS_def PTR_FLAGS_WHEEL_def PTR_FLAGS_HWHEEL_def PTR_FLAGS_WHEEL_NEGATIVE_def
        PTR_FLAGS_BUTTON1_def PTR_FLAGS_BUTTON2_def PTR_FLAGS_BUTTON3_def)
  then have "set table \<subseteq> set WHEEL \<Longrightarrow> far_buttons (rs_trace (fold (\<lambda>(b, flags) s.
      if bit_set m b \<and> \<not> bit_set previous b then rdp_emit (MouseEvent flags x y) s else s) table s)) =
    far_buttons (rs_trace s)" for table
  proof (induction table arbitrary: s)
    case (Cons e table)
    obtain b f where e: "e = (b, f)" by (cases e)
    have "far_buttons (rs_trace (rdp_emit (MouseEvent f x y) s)) = far_buttons (rs_trace s)"
      using Cons.prems by (auto simp: e rdp_simps far_buttons_snoc far_button_def)
    with Cons show ?case by (simp add: e)
  qed simp
  then show ?thesis by (simp add: send_wheel_def)
qed

definition buttons_agree :: "rdp_session \<Rightarrow> bool" where
  "buttons_agree s \<longleftrightarrow> far_buttons (rs_trace s) = {b \<in> button_bits. bit_set (rs_buttons s) b}"

lemma fold_emit_if:
  "fold (\<lambda>e s. if P e then rdp_emit (g e) s else s) table s = s\<lparr>rs_trace := rs_trace s @ map g (filter P table)\<rparr>"
  by (induction table arbitrary: s) (simp_all add: rdp_emit_def)

lemma send_buttons_trace:
  "send_buttons event down table previous m s =
     s\<lparr>rs_trace := rs_trace s @ map (\<lambda>(b, f). event (f OR (if bit_set m b then down else 0)))
        (filter (\<lambda>(b, f). bit_set m b \<noteq> bit_set previous b) table)\<rparr>"
  unfolding send_buttons_def case_prod_unfold by (rule fold_emit_if)

lemma send_wheel_trace:
  "send_wheel x y previous m s =
     s\<lparr>rs_trace := rs_trace s @ map (\<lambda>(b, f). MouseEvent f x y)
        (filter (\<lambda>(b, f). bit_set m b \<and> \<not> bit_set previous b) WHEEL)\<rparr>"
  unfolding send_wheel_def case_prod_unfold by (rule fold_emit_if)

lemmas pointer_flags = PTR_FLAGS_MOVE_def PTR_FLAGS_DOWN_def PTR_FLAGS_BUTTON1_def PTR_FLAGS_BUTTON2_def
  PTR_FLAGS_BUTTON3_def PTR_FLAGS_WHEEL_def PTR_FLAGS_HWHEEL_def PTR_FLAGS_WHEEL_NEGATIVE_def
  PTR_XFLAGS_DOWN_def PTR_XFLAGS_BUTTON1_def PTR_XFLAGS_BUTTON2_def

lemma doPointer_agree:
  assumes "buttons_agree s" and "rdp_sends s"
  shows "buttons_agree (doPointer x y m s)"
proof -
  define X Y where "X = (word_of_int x :: u16)" and "Y = (word_of_int y :: u16)"
  let ?p = "rs_buttons s"
  define s1 where "s1 = rdp_emit (MouseEvent PTR_FLAGS_MOVE X Y) (s\<lparr>rs_buttons := m\<rparr>)"
  define s2 where "s2 = send_buttons (\<lambda>f. MouseEvent f X Y) PTR_FLAGS_DOWN BUTTONS ?p m s1"
  define s3 where "s3 = send_buttons (\<lambda>f. ExtendedMouseEvent f X Y) PTR_XFLAGS_DOWN EXTENDED ?p m s2"
  have 1: "far_buttons (rs_trace s1) = {b \<in> button_bits. bit_set ?p b}"
    using assms(1)
    by (simp add: s1_def rdp_simps far_buttons_snoc far_button_def buttons_agree_def BUTTONS_def pointer_flags)
  have 2: "far_buttons (rs_trace s2) =
      {b \<in> button_bits. bit_set ?p b} - {1, 2, 4} \<union> {b \<in> {1, 2, 4}. bit_set m b}"
    unfolding s2_def 1 [symmetric]
    by (subst send_buttons_far) (auto simp: 1 button_bits_def BUTTONS_def pointer_flags)
  have 3: "far_buttons (rs_trace s3) =
      far_buttons (rs_trace s2) - {0x80, 0x100} \<union> {b \<in> {0x80, 0x100}. bit_set m b}"
    unfolding s3_def
    by (subst send_buttons_far) (auto simp: 2 button_bits_def EXTENDED_def pointer_flags)
  have "doPointer x y m s = send_wheel X Y ?p m s3"
    using assms(2) by (simp add: doPointer_def Let_def s3_def s2_def s1_def X_def Y_def)
  moreover have "rs_buttons s3 = m" by (simp add: s3_def s2_def s1_def send_buttons_trace rdp_emit_def)
  ultimately show ?thesis
    by (auto simp: buttons_agree_def send_wheel_far 3 2) (auto simp: button_bits_def send_wheel_trace)
qed

fun mouse_at :: "u16 \<Rightarrow> u16 \<Rightarrow> rdp_event \<Rightarrow> bool" where
  "mouse_at x y (MouseEvent _ x' y') \<longleftrightarrow> x' = x \<and> y' = y"
| "mouse_at x y (ExtendedMouseEvent _ x' y') \<longleftrightarrow> x' = x \<and> y' = y"
| "mouse_at x y _ \<longleftrightarrow> False"



section \<open>View-only\<close>

fun input_event :: "rdp_event \<Rightarrow> bool" where
  "input_event (KeyboardEvent _ _) = True"
| "input_event KeyboardPause = True"
| "input_event (UnicodeKeyboardEvent _ _) = True"
| "input_event (MouseEvent _ _ _) = True"
| "input_event (ExtendedMouseEvent _ _ _) = True"
| "input_event (ClientFormatList _) = True"
| "input_event _ = False"

definition input_free :: "rdp_session \<Rightarrow> rdp_session \<Rightarrow> bool" where
  "input_free s s' \<longleftrightarrow>
     rs_viewOnly s' = rs_viewOnly s \<and>
     (\<exists>es. rs_trace s' = rs_trace s @ es \<and> list_all (\<lambda>e. \<not> input_event e) es)"

lemma input_free_refl [simp]: "input_free s s"
  by (simp add: input_free_def)

lemma release_loop_silent: "rs_viewOnly s \<Longrightarrow> input_free s (release_loop n s)"
proof (induction n arbitrary: s)
  case (Suc n)
  then show ?case
    using Suc.IH [of "s\<lparr>rs_keys := butlast (rs_keys s)\<rparr>"] by (simp add: input_free_def rdp_sends_def)
qed simp

lemma rdp_runCmd_silent:
  assumes "rs_viewOnly s"
  shows "input_free s (rdp_runCmd rc c s)"
proof -
  have no: "\<not> rdp_sends s" using assms by (simp add: rdp_sends_def)
  have layout: "input_free t (rdp_sendLayout rects t)" for t rects
    by (auto simp: rdp_sendLayout_def input_free_def rdp_simps Let_def split: prod.splits)
  have "input_free s (doResize w h s)" for w h
    using layout by (simp add: doResize_def holdUntilCaps_def input_free_def Let_def)
  moreover have "input_free s (doLayout s)"
    using layout [of "s\<lparr>rs_wantLayout := []\<rparr>"] by (simp add: doLayout_def holdUntilCaps_def input_free_def Let_def)
  moreover have "input_free s (doReleaseAll s)"
    using release_loop_silent [OF assms] by (simp add: doReleaseAll_def input_free_def)
  moreover have "input_free s (doKeyUp k s)" for k
    using no by (simp add: doKeyUp_def input_free_def split: option.splits)
  moreover have "input_free s (doFocus f s)" for f
    by (simp add: doFocus_def input_free_def rdp_simps)
  moreover have "input_free s (doClipboard rc t s)" for t
    using assms by (simp add: doClipboard_def input_free_def Let_def)
  ultimately show ?thesis using no by (cases c) (simp_all add: doPointer_def doKeyDown_def)
qed

text \<open>
  A view-only FreeRDP session sends no input and offers no clipboard, whatever commands are
  queued: every key, pointer and clipboard command leaves the far end alone.
\<close>

theorem rdp_view_only_silent:
  assumes "rs_viewOnly s"
  shows "\<exists>es. rs_trace (fold (rdp_runCmd rc) cs s) = rs_trace s @ es \<and> list_all (\<lambda>e. \<not> input_event e) es"
proof -
  have "input_free s (fold (rdp_runCmd rc) cs s)"
    using assms
  proof (induction cs arbitrary: s)
    case (Cons c cs)
    have one: "input_free s (rdp_runCmd rc c s)" by (rule rdp_runCmd_silent [OF Cons.prems])
    then have "rs_viewOnly (rdp_runCmd rc c s)" using Cons.prems by (simp add: input_free_def)
    from Cons.IH [OF this] one show ?case by (auto simp: input_free_def)
  qed simp
  then show ?thesis by (simp add: input_free_def)
qed

theorem rdp_view_only_silent_witness:
  "\<exists>es. rs_trace (fold (rdp_runCmd 0) [RDP_KEY_DOWN 0x61 1, RDP_POINTER 1 2 1, RDP_CLIPBOARD (Some [0x61])]
      (rdp_calloc\<lparr>rs_viewOnly := True\<rparr>)) = es \<and> list_all (\<lambda>e. \<not> input_event e) es"
  using rdp_view_only_silent [of "rdp_calloc\<lparr>rs_viewOnly := True\<rparr>" 0
      "[RDP_KEY_DOWN 0x61 1, RDP_POINTER 1 2 1, RDP_CLIPBOARD (Some [0x61])]"]
  by (simp add: rdp_calloc_def del: fold_simps)

section \<open>Draining the queue\<close>

text \<open>Executing a command neither reads nor changes the queue.\<close>

lemma rdp_emit_ring: "rdp_emit e (s\<lparr>rs_ring := r\<rparr>) = (rdp_emit e s)\<lparr>rs_ring := r\<rparr>"
  by (simp add: rdp_emit_def)

lemma sendScancode_ring: "sendScancode c d (s\<lparr>rs_ring := r\<rparr>) = (sendScancode c d s)\<lparr>rs_ring := r\<rparr>"
  by (simp add: sendScancode_def rdp_emit_def Let_def)

lemma rdp_sends_ring: "rdp_sends (s\<lparr>rs_ring := r\<rparr>) = rdp_sends s"
  by (simp add: rdp_sends_def)

lemma sendScancode_eq: "sendScancode c d s = s\<lparr>rs_trace := rs_trace (sendScancode c d s)\<rparr>"
  by (simp add: sendScancode_def rdp_emit_def Let_def)

lemma releaseAt_ring: "releaseAt i (s\<lparr>rs_ring := r\<rparr>) = (releaseAt i s)\<lparr>rs_ring := r\<rparr>"
  by (simp add: releaseAt_def sendScancode_ring rdp_emit_ring Let_def)

lemma release_loop_ring: "release_loop n (s\<lparr>rs_ring := r\<rparr>) = (release_loop n s)\<lparr>rs_ring := r\<rparr>"
proof (induction n arbitrary: s)
  case (Suc n)
  have "s\<lparr>rs_ring := r, rs_keys := k\<rparr> = s\<lparr>rs_keys := k\<rparr>\<lparr>rs_ring := r\<rparr>" for k by simp
  then show ?case by (simp only: release_loop.simps rdp_sends_ring releaseAt_ring if_distrib Suc.IH cong: if_cong) simp
qed simp

lemma rdp_sendLayout_ring: "rdp_sendLayout rects (s\<lparr>rs_ring := r\<rparr>) = (rdp_sendLayout rects s)\<lparr>rs_ring := r\<rparr>"
  by (simp add: rdp_sendLayout_def rdp_emit_def Let_def split: prod.splits)

lemma doKeyDown_ring: "doKeyDown c k (s\<lparr>rs_ring := r\<rparr>) = (doKeyDown c k s)\<lparr>rs_ring := r\<rparr>"
  by (simp add: doKeyDown_def rdp_sends_ring sendScancode_ring rdp_emit_ring Let_def split: prod.splits option.splits)

lemma doKeyUp_ring: "doKeyUp k (s\<lparr>rs_ring := r\<rparr>) = (doKeyUp k s)\<lparr>rs_ring := r\<rparr>"
  by (simp add: doKeyUp_def rdp_sends_ring releaseAt_ring split: option.splits)

lemma send_buttons_ring:
  "send_buttons ev d table p m (s\<lparr>rs_ring := r\<rparr>) = (send_buttons ev d table p m s)\<lparr>rs_ring := r\<rparr>"
  by (simp add: send_buttons_trace)

lemma send_wheel_ring: "send_wheel x y p m (s\<lparr>rs_ring := r\<rparr>) = (send_wheel x y p m s)\<lparr>rs_ring := r\<rparr>"
  by (simp add: send_wheel_trace)

lemma doPointer_ring: "doPointer x y m (s\<lparr>rs_ring := r\<rparr>) = (doPointer x y m s)\<lparr>rs_ring := r\<rparr>"
  by (simp add: doPointer_def rdp_sends_ring send_buttons_trace send_wheel_trace rdp_emit_def Let_def)

lemma doResize_ring: "doResize w h (s\<lparr>rs_ring := r\<rparr>) = (doResize w h s)\<lparr>rs_ring := r\<rparr>"
  by (simp add: doResize_def holdUntilCaps_def resize_count_def rdp_sendLayout_ring Let_def)

lemma doLayout_ring: "doLayout (s\<lparr>rs_ring := r\<rparr>) = (doLayout s)\<lparr>rs_ring := r\<rparr>"
  by (simp add: doLayout_def holdUntilCaps_def rdp_sendLayout_def rdp_emit_def Let_def split: prod.splits)

lemma rdp_runCmd_ring: "rdp_runCmd rc c (s\<lparr>rs_ring := r\<rparr>) = (rdp_runCmd rc c s)\<lparr>rs_ring := r\<rparr>"
  by (cases c) (simp_all add: doPointer_ring doKeyDown_ring doKeyUp_ring doResize_ring doLayout_ring
      doReleaseAll_def release_loop_ring doClipboard_def sendFormatList_def doFocus_def rdp_emit_def Let_def)

lemma rdp_runCmd_keeps_ring [simp]: "rs_ring (rdp_runCmd rc c s) = rs_ring s"
  using arg_cong [OF rdp_runCmd_ring [of rc c "rs_ring s" s], of rs_ring] by simp

lemma fold_rdp_runCmd_ring:
  "fold (rdp_runCmd rc) cs (s\<lparr>rs_ring := r\<rparr>) = (fold (rdp_runCmd rc) cs s)\<lparr>rs_ring := r\<rparr>"
  by (induction cs arbitrary: s) (simp_all add: rdp_runCmd_ring)

text \<open>
  A drain of a FreeRDP session ends and executes the whole queue: with nobody posting, it
  runs every queued command once, oldest first, leaves the queue empty and the count of dropped
  commands at zero.
\<close>

theorem rdp_drain_runs_all:
  assumes "rdp_queue_ok s" and "length (rdp_items s) < fuel"
  shows "\<exists>r. drainCommands rc fuel (\<lambda>_ s. s) s =
      Some ((fold (rdp_runCmd rc) (rdp_items s) s)\<lparr>rs_ring := r, rs_dropped := 0\<rparr>) \<and> ring_ok r \<and> ring_items r = []"
  using assms
proof (induction fuel arbitrary: s)
  case (Suc fuel)
  show ?case
  proof (cases "rdp_pop s")
    case None
    then have "rdp_items s = []" using rdp_pop_None [OF Suc.prems(1)] by simp
    moreover from this have "ring_items (rs_ring s) = []" by (simp only: rdp_items_def)
    ultimately show ?thesis
      using None Suc.prems(1) by (intro exI [of _ "rs_ring s"]) (simp add: rdp_queue_ok_def)
  next
    case (Some p)
    obtain c s1 where p: "p = (c, s1)" by (cases p)
    have s1: "rdp_items s = c # rdp_items s1" "rdp_queue_ok s1" "s1 = s\<lparr>rs_ring := rs_ring s1\<rparr>"
      using rdp_pop_Some [OF Suc.prems(1) Some [unfolded p]] by auto
    let ?s2 = "rdp_runCmd rc c s1"
    have q: "rdp_queue_ok ?s2" "rdp_items ?s2 = rdp_items s1"
      using s1(2) by (simp_all add: rdp_queue_ok_def rdp_items_def)
    have "length (rdp_items ?s2) < fuel" using q(2) Suc.prems(2) s1(1) by simp
    from Suc.IH [OF q(1) this, unfolded q(2)] obtain r where
      IH: "drainCommands rc fuel (\<lambda>_ s. s) ?s2 =
          Some ((fold (rdp_runCmd rc) (rdp_items s1) ?s2)\<lparr>rs_ring := r, rs_dropped := 0\<rparr>)"
        "ring_ok r" "ring_items r = []" by blast
    have "fold (rdp_runCmd rc) (rdp_items s1) ?s2 = (fold (rdp_runCmd rc) (rdp_items s) s)\<lparr>rs_ring := rs_ring s1\<rparr>"
      unfolding fold_rdp_runCmd_ring [symmetric] s1(3) [symmetric] by (simp add: s1(1))
    then show ?thesis using IH Some p by (intro exI [of _ r]) simp
  qed
qed simp

theorem rdp_drain_runs_all_witness:
  "\<exists>s'. drainCommands 0 2 (\<lambda>_ s. s) (rdp_post rdp_example_connected (RDP_KEY_DOWN 0x61 1)) = Some s' \<and>
     rdp_items s' = [] \<and> rs_dropped s' = 0"
proof -
  let ?s = "rdp_post rdp_example_connected (RDP_KEY_DOWN 0x61 1)"
  have q: "rdp_queue_ok rdp_example_connected" "rdp_items rdp_example_connected = []"
    using rdp_calloc_queue by (simp_all add: rdp_example_connected_def rdp_queue_ok_def rdp_items_def)
  have "rdp_queue_ok ?s" by (rule rdp_post_items(2) [OF q(1)])
  moreover have "length (rdp_items ?s) < 2"
    using q by (simp add: rdp_post_items(1) CMD_RING_def posted_items_def)
  ultimately show ?thesis using rdp_drain_runs_all [of ?s 2 0] by (auto simp: rdp_items_def)
qed

end
