(* ===== verification/Rdp_Status.thy ===== *)
theory Rdp_Status
  imports Rdp_Input
begin

text \<open>
  The line of the connecting screen, from
  \<open>src/backends/modules/freerdp/cpp/freerdp_session.c\<close>: \<open>statusOfState\<close>, the status thread and
  \<open>onStateChanged\<close>, with \<open>stopStatus\<close> and \<open>fireClosed\<close> of \<open>Rdp_Session\<close>.

  Two threads take part: the protocol thread, on which the library calls \<open>onStateChanged\<close> and
  which closes the session, and the status thread, which takes a pending text under the lock
  and reports it after it has let go of it.  Taking and reporting are two steps of
  \<open>status_step\<close>; a critical section is one.  A change of state reports only when it leaves no
  text pending, so nothing can be taken between its critical section and its report, and the
  two are one step.
\<close>

section \<open>Definitions\<close>

text \<open>The values of the library's enumeration that the file names.\<close>

record connection_states =
  CONNECTION_STATE_NLA :: int
  CONNECTION_STATE_AAD :: int
  CONNECTION_STATE_MCS_CREATE_REQUEST :: int
  CONNECTION_STATE_ACTIVE :: int

definition STATUS_DELAY_MS :: int where "STATUS_DELAY_MS = 1000"

text \<open>The strings end in the three bytes of an ellipsis.\<close>

definition STATUS_AUTHENTICATING :: string where
  "STATUS_AUTHENTICATING = ''Authenticating'' @ [CHR 0xE2, CHR 0x80, CHR 0xA6]"

definition STATUS_STARTING :: string where
  "STATUS_STARTING = ''Starting the session'' @ [CHR 0xE2, CHR 0x80, CHR 0xA6]"

definition statusOfState :: "connection_states \<Rightarrow> int \<Rightarrow> string option" where
  "statusOfState cs state =
     (if state = CONNECTION_STATE_NLA cs \<or> state = CONNECTION_STATE_AAD cs then Some STATUS_AUTHENTICATING
      else if state \<ge> CONNECTION_STATE_MCS_CREATE_REQUEST cs \<and> state < CONNECTION_STATE_ACTIVE cs
      then Some STATUS_STARTING
      else None)"

type_synonym timespec = "int \<times> int"

fun ts_before :: "timespec \<Rightarrow> timespec \<Rightarrow> bool" where
  "ts_before (s, n) (s', n') \<longleftrightarrow> s < s' \<or> s = s' \<and> n < n'"

text \<open>
  The thread under the lock, after a wait that timed out: it takes the text once that is due.
  In every other case it goes back to the wait.
\<close>

definition status_take :: "timespec \<Rightarrow> rdp_session \<Rightarrow> rdp_session" where
  "status_take now s =
     (if rs_statusStop s \<or> rs_statusPending s = None then s
      else if ts_before now (rs_statusDue s) then s
      else s\<lparr>rs_statusPending := None, rs_statusShown := rs_statusPending s,
             rs_statusCalling := rs_statusPending s\<rparr>)"

text \<open>The thread's call, outside the lock.\<close>

definition status_report :: "rdp_session \<Rightarrow> rdp_session" where
  "status_report s =
     (case rs_statusCalling s of
        None \<Rightarrow> s
      | Some txt \<Rightarrow> rdp_emit (RdpCallback (Status (Some txt))) (s\<lparr>rs_statusCalling := None\<rparr>))"

definition due_after :: "timespec \<Rightarrow> timespec" where
  "due_after t =
     (let sec = fst t + STATUS_DELAY_MS div 1000;
          nsec = snd t + (STATUS_DELAY_MS mod 1000) * 1000000
      in if nsec \<ge> 1000000000 then (sec + 1, nsec - 1000000000) else (sec, nsec))"

text \<open>A first text, or none: \<open>thread\<close> is whether a status thread can be created.\<close>

definition status_pend :: "timespec \<Rightarrow> bool \<Rightarrow> string option \<Rightarrow> rdp_session \<Rightarrow> rdp_session" where
  "status_pend now thread txt s =
     (let s = s\<lparr>rs_statusShown := None, rs_statusPending := txt\<rparr>
      in if txt = None then s
         else s\<lparr>rs_statusDue := due_after now, rs_statusStarted := (rs_statusStarted s \<or> thread)\<rparr>)"

definition onStateChanged :: "connection_states \<Rightarrow> timespec \<Rightarrow> bool \<Rightarrow> int \<Rightarrow> rdp_session \<Rightarrow> rdp_session" where
  "onStateChanged cs now thread newState s =
     (let txt = statusOfState cs newState;
          coming = (if rs_statusPending s \<noteq> None then rs_statusPending s else rs_statusShown s)
      in if rs_statusStop s \<or> txt = coming then s
         else if txt = rs_statusShown s \<or> newState = CONNECTION_STATE_ACTIVE cs
         then s\<lparr>rs_statusPending := None\<rparr>
         else if rs_statusShown s \<noteq> None \<and> txt \<noteq> None
         then rdp_emit (RdpCallback (Status txt)) (s\<lparr>rs_statusPending := None, rs_statusShown := txt\<rparr>)
         else let clear = (rs_statusShown s \<noteq> None);
                  s = status_pend now thread txt s
              in if clear then rdp_emit (RdpCallback (Status None)) s else s)"

section \<open>The two threads\<close>

inductive status_step :: "connection_states \<Rightarrow> rdp_session \<Rightarrow> rdp_session \<Rightarrow> bool" for cs where
  changed: "status_step cs s (onStateChanged cs now thread state s)"
| takes: "rs_statusStarted s \<Longrightarrow> rs_statusCalling s = None \<Longrightarrow> status_step cs s (status_take now s)"
| reports: "status_step cs s (status_report s)"
| closes: "status_step cs s (rdp_fireClosed malloc detail s)"

inductive_cases status_stepE: "status_step cs s s'"

text \<open>What the screen shows: the argument of the last report.\<close>

fun shown_of :: "string option \<Rightarrow> vento_callback list \<Rightarrow> string option" where
  "shown_of t [] = t"
| "shown_of t (Status t' # es) = shown_of t' es"
| "shown_of t (_ # es) = shown_of t es"

definition screen :: "rdp_session \<Rightarrow> string option" where
  "screen s = shown_of None (rdp_callbacks (rs_trace s))"

text \<open>The same machine when a report is not overtaken: the thread's two steps are one.\<close>

inductive prompt_step :: "connection_states \<Rightarrow> rdp_session \<Rightarrow> rdp_session \<Rightarrow> bool" for cs where
  changed: "prompt_step cs s (onStateChanged cs now thread state s)"
| due: "rs_statusStarted s \<Longrightarrow> prompt_step cs s (status_report (status_take now s))"
| closes: "prompt_step cs s (rdp_fireClosed malloc detail s)"

section \<open>Invariants\<close>

lemma rdp_callbacks_append: "rdp_callbacks (a @ b) = rdp_callbacks a @ rdp_callbacks b"
  by (induction a rule: rdp_callbacks.induct) simp_all

lemma shown_of_append: "shown_of t (a @ b) = shown_of (shown_of t a) b"
  by (induction t a rule: shown_of.induct) simp_all

lemma screen_emit:
  "screen (rdp_emit (RdpCallback (Status t)) s) = t" "screen (rdp_emit (RdpCallback (Closed d)) s) = screen s"
  by (simp_all add: screen_def rdp_emit_def rdp_callbacks_append shown_of_append)

lemma screen_same: "rs_trace s' = rs_trace s \<Longrightarrow> screen s' = screen s"
  by (simp add: screen_def)

definition no_closed :: "vento_callback list \<Rightarrow> bool" where
  "no_closed cs \<longleftrightarrow> list_all (\<lambda>c. \<not> is_closed c) cs"

text \<open>The end is reported last, if at all, and once it is nothing is left to report.\<close>

definition closed_last :: "rdp_session \<Rightarrow> bool" where
  "closed_last s \<longleftrightarrow>
     (let cs = rdp_callbacks (rs_trace s)
      in if rs_closedReported s then \<exists>ds d. cs = ds @ [Closed d] \<and> no_closed ds else no_closed cs)"

definition status_inv :: "rdp_session \<Rightarrow> bool" where
  "status_inv s \<longleftrightarrow>
     closed_last s \<and> (rs_statusCalling s \<noteq> None \<longrightarrow> rs_statusStarted s) \<and>
     (rs_closedReported s \<longrightarrow> rs_statusStop s \<and> \<not> rs_statusStarted s)"

lemma closed_last_emit:
  "closed_last s \<Longrightarrow> \<not> rs_closedReported s \<Longrightarrow> \<not> is_closed c \<Longrightarrow> closed_last (rdp_emit (RdpCallback c) s)"
  by (simp add: closed_last_def no_closed_def rdp_emit_def rdp_callbacks_append)

lemma closed_last_same:
  "rs_trace s' = rs_trace s \<Longrightarrow> rs_closedReported s' = rs_closedReported s \<Longrightarrow> closed_last s' = closed_last s"
  by (simp add: closed_last_def)

lemma stopStatus_facts:
  assumes "status_inv s" and "\<not> rs_closedReported s"
  shows "closed_last (stopStatus s)" "rs_statusStop (stopStatus s)" "\<not> rs_statusStarted (stopStatus s)"
    "rs_statusCalling (stopStatus s) = None" "rs_closedReported (stopStatus s) = rs_closedReported s"
    "rs_statusShown (stopStatus s) = rs_statusShown s"
  using assms
  by (auto simp: stopStatus_def status_inv_def closed_last_def no_closed_def Let_def rdp_emit_def
      rdp_callbacks_append split: option.splits)

lemma status_inv_changed:
  assumes "status_inv s"
  shows "status_inv (onStateChanged cs now thread state s)"
proof (cases "rs_statusStop s")
  case False
  then have nc: "\<not> rs_closedReported s" and l: "closed_last s" and c: "rs_statusCalling s \<noteq> None \<longrightarrow> rs_statusStarted s"
    using assms by (auto simp: status_inv_def)
  have quiet: "status_inv s'"
    if "rs_trace s' = rs_trace s" "rs_closedReported s' = rs_closedReported s" "rs_statusCalling s' = rs_statusCalling s"
      "rs_statusStarted s \<longrightarrow> rs_statusStarted s'" for s'
    using that l c nc closed_last_same [of s' s] by (simp add: status_inv_def)
  have said: "status_inv (rdp_emit (RdpCallback (Status t)) s')"
    if "status_inv s'" "\<not> rs_closedReported s'" for s' t
    using that closed_last_emit [of s' "Status t"] by (simp add: status_inv_def rdp_emit_def)
  have pend: "status_inv (status_pend now thread st s)" "\<not> rs_closedReported (status_pend now thread st s)" for st
    using nc by (auto intro!: quiet simp: status_pend_def Let_def)
  define st where "st = statusOfState cs state"
  have "status_inv (s\<lparr>rs_statusPending := None\<rparr>)" by (rule quiet) simp_all
  moreover have "status_inv (rdp_emit (RdpCallback (Status st)) (s\<lparr>rs_statusPending := None, rs_statusShown := st\<rparr>))"
    by (rule said, rule quiet) (use nc in simp_all)
  ultimately show ?thesis
    unfolding onStateChanged_def Let_def st_def [symmetric] using assms pend [of st] said [OF pend [of st], of None] by auto
qed (use assms in \<open>simp add: onStateChanged_def Let_def\<close>)

lemma status_inv_closed:
  assumes "status_inv s"
  shows "status_inv (rdp_fireClosed malloc detail s)"
proof (cases "rs_closedReported s")
  case True
  then show ?thesis using assms by (auto simp: rdp_fireClosed_def status_inv_def closed_last_def)
next
  case False
  have "stopStatus (s\<lparr>rs_closedReported := True\<rparr>) = (stopStatus s)\<lparr>rs_closedReported := True\<rparr>"
    by (simp add: stopStatus_def rdp_emit_def Let_def split: option.splits)
  then show ?thesis
    using stopStatus_facts [OF assms False] False
    by (simp add: rdp_fireClosed_def Let_def status_inv_def closed_last_def rdp_emit_def rdp_callbacks_append no_closed_def)
qed

lemma status_inv_step: "status_step cs s s' \<Longrightarrow> status_inv s \<Longrightarrow> status_inv s'"
proof (induction rule: status_step.induct)
  case (takes s now)
  then show ?case by (auto simp: status_take_def status_inv_def closed_last_def)
next
  case (reports s)
  show ?case
  proof (cases "rs_statusCalling s")
    case (Some t)
    then have "\<not> rs_closedReported s" "closed_last s" using reports by (auto simp: status_inv_def)
    then show ?thesis
      using closed_last_emit [of "s\<lparr>rs_statusCalling := None\<rparr>" "Status (Some t)"] closed_last_same [of "s\<lparr>rs_statusCalling := None\<rparr>" s]
      by (simp add: status_report_def Some status_inv_def rdp_emit_def)
  qed (use reports in \<open>simp add: status_report_def\<close>)
qed (simp_all add: status_inv_changed status_inv_closed)

lemma status_inv_reach: "(status_step cs)\<^sup>*\<^sup>* s s' \<Longrightarrow> status_inv s \<Longrightarrow> status_inv s'"
  by (induction rule: rtranclp_induct) (auto intro: status_inv_step)

lemma status_inv_calloc: "status_inv rdp_calloc" "screen rdp_calloc = None" "rs_statusShown rdp_calloc = None"
  by (simp_all add: status_inv_def closed_last_def no_closed_def rdp_calloc_def screen_def)

text \<open>
  However the status thread and the protocol thread interleave, a FreeRDP session reports
  its end at most once, and nothing after it: stopping the status thread waits for the report
  it was about to make.
\<close>

theorem rdp_closed_last:
  assumes "(status_step cs)\<^sup>*\<^sup>* rdp_calloc s"
  shows "let cbs = rdp_callbacks (rs_trace s) in
    if rs_closedReported s then \<exists>ds d. cbs = ds @ [Closed d] \<and> no_closed ds else no_closed cbs"
  using status_inv_reach [OF assms status_inv_calloc(1)] by (simp add: status_inv_def closed_last_def)

lemma status_stepsI: "status_step cs s s' \<Longrightarrow> (status_step cs)\<^sup>*\<^sup>* s' s'' \<Longrightarrow> (status_step cs)\<^sup>*\<^sup>* s s''"
  by (rule converse_rtranclp_into_rtranclp)

definition example_states :: connection_states where
  "example_states = \<lparr>CONNECTION_STATE_NLA = 2, CONNECTION_STATE_AAD = 3, CONNECTION_STATE_MCS_CREATE_REQUEST = 4,
     CONNECTION_STATE_ACTIVE = 30\<rparr>"

text \<open>Authentication lasts two seconds, the thread takes its text, and the session ends.\<close>

definition example_taken :: rdp_session where
  "example_taken = status_take (12, 0) (onStateChanged example_states (10, 0) True 2 rdp_calloc)"

lemma example_taken_reach: "(status_step example_states)\<^sup>*\<^sup>* rdp_calloc example_taken"
proof -
  let ?s = "onStateChanged example_states (10, 0) True 2 rdp_calloc"
  have "rs_statusStarted ?s" "rs_statusCalling ?s = None"
    by (simp_all add: onStateChanged_def statusOfState_def example_states_def status_pend_def rdp_calloc_def)
  then have "status_step example_states ?s example_taken" unfolding example_taken_def by (rule status_step.takes)
  then show ?thesis using status_step.changed [of example_states rdp_calloc "(10, 0)" True 2] by (meson status_stepsI rtranclp.rtrancl_refl)
qed

lemma example_taken_eq:
  "example_taken = rdp_calloc\<lparr>rs_statusDue := (11, 0), rs_statusStarted := True,
     rs_statusShown := Some STATUS_AUTHENTICATING, rs_statusCalling := Some STATUS_AUTHENTICATING\<rparr>"
  by (simp add: example_taken_def onStateChanged_def statusOfState_def example_states_def status_pend_def
      status_take_def due_after_def STATUS_DELAY_MS_def rdp_calloc_def)

theorem rdp_closed_last_witness:
  "let cbs = rdp_callbacks (rs_trace (rdp_fireClosed (\<lambda>_. True) None example_taken)) in
     \<exists>ds d. cbs = ds @ [Closed d] \<and> no_closed ds"
proof -
  let ?s = "rdp_fireClosed (\<lambda>_. True) None example_taken"
  have "(status_step example_states)\<^sup>*\<^sup>* rdp_calloc ?s"
    using example_taken_reach status_step.closes rtranclp.rtrancl_into_rtrancl by metis
  moreover have "rs_closedReported ?s"
    by (simp add: rdp_fireClosed_def stopStatus_def example_taken_eq rdp_calloc_def rdp_emit_def)
  ultimately show ?thesis using rdp_closed_last [of example_states ?s] by (simp add: Let_def)
qed

section \<open>The screen\<close>

lemma screen_stopStatus: "rs_statusCalling s = None \<Longrightarrow> screen (stopStatus s) = screen s"
  by (simp add: stopStatus_def screen_def Let_def)

definition in_step :: "rdp_session \<Rightarrow> bool" where
  "in_step s \<longleftrightarrow> rs_statusCalling s = None \<and> screen s = rs_statusShown s"

lemma in_step_changed:
  assumes "in_step s"
  shows "in_step (onStateChanged cs now thread state s)"
proof -
  define st where "st = statusOfState cs state"
  have pend: "in_step (status_pend now thread st s)" if "rs_statusShown s = None"
    using assms that by (simp add: in_step_def status_pend_def Let_def screen_def)
  have clear: "in_step (rdp_emit (RdpCallback (Status None)) (status_pend now thread st s))"
    using assms by (simp add: in_step_def screen_emit) (simp add: rdp_emit_def status_pend_def Let_def)
  have told: "in_step (rdp_emit (RdpCallback (Status st)) (s\<lparr>rs_statusPending := None, rs_statusShown := st\<rparr>))"
    using assms by (simp add: in_step_def screen_emit) (simp add: rdp_emit_def)
  have quiet: "in_step (s\<lparr>rs_statusPending := None\<rparr>)"
    using assms by (simp add: in_step_def screen_def)
  show ?thesis
    unfolding onStateChanged_def Let_def st_def [symmetric] using assms pend clear told quiet by auto
qed

lemma in_step_step: "prompt_step cs s s' \<Longrightarrow> in_step s \<Longrightarrow> in_step s'"
proof (induction rule: prompt_step.induct)
  case (due s now)
  then show ?case
    by (auto simp: status_take_def status_report_def in_step_def screen_emit rdp_emit_def [where e = "RdpCallback (Status x)" for x]
        split: option.splits) (auto simp: screen_def rdp_callbacks_append shown_of_append)
next
  case (closes s malloc detail)
  then show ?case
    by (auto simp: rdp_fireClosed_def stopStatus_def in_step_def screen_def rdp_emit_def rdp_callbacks_append
        shown_of_append Let_def split: option.splits)
qed (rule in_step_changed)

lemma prompt_step_status: "prompt_step cs s s' \<Longrightarrow> rs_statusCalling s = None \<Longrightarrow> (status_step cs)\<^sup>*\<^sup>* s s'"
proof (induction rule: prompt_step.induct)
  case (due s now)
  from status_step.takes [OF due] status_step.reports show ?case by (meson status_stepsI rtranclp.rtrancl_refl)
qed (auto intro: status_step.intros)

text \<open>
  As long as no report is overtaken by a change of state, the connecting screen shows what
  the session means it to: the last status reported is the one the session has down as shown,
  and every run of this kind is one of the two threads.
\<close>

theorem rdp_status_in_step:
  assumes "(prompt_step cs)\<^sup>*\<^sup>* rdp_calloc s"
  shows "screen s = rs_statusShown s \<and> (status_step cs)\<^sup>*\<^sup>* rdp_calloc s"
proof -
  from assms have "in_step s \<and> (status_step cs)\<^sup>*\<^sup>* rdp_calloc s"
  proof (induction rule: rtranclp_induct)
    case base
    then show ?case using status_inv_calloc by (simp add: in_step_def rdp_calloc_def)
  next
    case (step t u)
    then have "in_step t" "(status_step cs)\<^sup>*\<^sup>* rdp_calloc t" by simp_all
    moreover from this(1) have "(status_step cs)\<^sup>*\<^sup>* t u" using prompt_step_status [OF step(2)] by (simp add: in_step_def)
    ultimately show ?case using in_step_step [OF step(2)] by (meson rtranclp_trans)
  qed
  then show ?thesis by (simp add: in_step_def)
qed

theorem rdp_status_in_step_witness: "screen (status_report example_taken) = Some STATUS_AUTHENTICATING"
proof -
  let ?s = "onStateChanged example_states (10, 0) True 2 rdp_calloc"
  have started: "rs_statusStarted ?s"
    by (simp add: onStateChanged_def statusOfState_def example_states_def status_pend_def rdp_calloc_def)
  have 1: "prompt_step example_states rdp_calloc ?s" by (rule prompt_step.changed)
  have 2: "prompt_step example_states ?s (status_report example_taken)"
    unfolding example_taken_def by (rule prompt_step.due [OF started])
  have "(prompt_step example_states)\<^sup>*\<^sup>* rdp_calloc (status_report example_taken)"
    using 1 2 by (meson converse_rtranclp_into_rtranclp rtranclp.rtrancl_refl)
  from rdp_status_in_step [OF this] show ?thesis
    by (simp add: status_report_def example_taken_eq rdp_emit_def)
qed

text \<open>
  The report of the status thread is made outside the lock.  A change of state that clears the
  text in between is overtaken: its own report comes first, and the screen is left with a
  text that no longer applies and that the session has not got down as shown.
\<close>

theorem rdp_status_stale:
  "\<exists>s. (status_step example_states)\<^sup>*\<^sup>* rdp_calloc s \<and> rs_statusCalling s = None \<and> rs_statusPending s = None \<and>
     rs_statusShown s = None \<and> screen s = Some STATUS_AUTHENTICATING"
proof -
  let ?s = "onStateChanged example_states (13, 0) True 1 example_taken"
  have "(status_step example_states)\<^sup>*\<^sup>* rdp_calloc (status_report ?s)"
    using example_taken_reach status_step.changed [of example_states example_taken "(13, 0)" True 1]
      status_step.reports [of example_states ?s] by (meson rtranclp.rtrancl_into_rtrancl)
  moreover have "status_report ?s = example_taken\<lparr>rs_statusShown := None, rs_statusCalling := None,
      rs_trace := [RdpCallback (Status None), RdpCallback (Status (Some STATUS_AUTHENTICATING))]\<rparr>"
    by (simp add: status_report_def onStateChanged_def status_pend_def statusOfState_def example_states_def
        example_taken_eq rdp_emit_def rdp_calloc_def)
  moreover have "rs_statusPending example_taken = None" by (simp add: example_taken_eq rdp_calloc_def)
  ultimately show ?thesis by (intro exI [of _ "status_report ?s"]) (simp add: screen_def)
qed

end
