(* ===== verification/Rdp_Channels.thy ===== *)
theory Rdp_Channels
  imports Rdp_Input
begin

text \<open>
  The virtual channels of a FreeRDP session
  (\<open>src/backends/modules/freerdp/cpp/freerdp_session.c\<close>): the clipboard (\<open>op_clipboard\<close>,
  \<open>onCliprdr*\<close>, \<open>wireCliprdr\<close>), the graphics pipeline with its restarts (\<open>onGfxCapsConfirm\<close>,
  \<open>onGfxSurfaceCommand\<close>), and the events that open and close a channel (\<open>onChannelConnected\<close>,
  \<open>onChannelDisconnected\<close>).

  What a member of a channel's interface returns is an argument, and WinPR's conversions of
  text are parameters.
\<close>

section \<open>The clipboard\<close>

definition CF_UNICODETEXT :: u32 where "CF_UNICODETEXT = 13"
definition CHANNEL_RC_OK :: u32 where "CHANNEL_RC_OK = 0"

text \<open>\<open>to_wchar\<close> is \<open>ConvertUtf8ToWCharAlloc\<close>, \<open>None\<close> for NULL.\<close>

definition rdp_op_clipboard ::
  "(nat \<Rightarrow> bool) \<Rightarrow> (bytes \<Rightarrow> u16 list option) \<Rightarrow> bytes option \<Rightarrow> rdp_session \<Rightarrow> rdp_session"
where
  "rdp_op_clipboard malloc to_wchar utf8 s =
     (case utf8 of
        None \<Rightarrow> s
      | Some b \<Rightarrow>
          if length b > VENTO_MAX_CLIPBOARD then s
          else case vento_text_to_crlf malloc (Some b) of
            None \<Rightarrow> s
          | Some crlf \<Rightarrow>
              (case to_wchar crlf of
                 None \<Rightarrow> s
               | Some copy \<Rightarrow> rdp_post s (RDP_CLIPBOARD (Some copy))))"

definition onCliprdrMonitorReady :: "u32 \<Rightarrow> u32 \<Rightarrow> rdp_session \<Rightarrow> u32 \<times> rdp_session" where
  "onCliprdrMonitorReady rc_caps rc_list s =
     (let s = rdp_emit ClientCapabilities s
      in if rc_caps \<noteq> CHANNEL_RC_OK then (rc_caps, s)
         else sendFormatList rc_list (rs_clipOut s \<noteq> None) s)"

definition onCliprdrServerFormatList :: "u32 \<Rightarrow> u32 \<Rightarrow> u32 list \<Rightarrow> rdp_session \<Rightarrow> u32 \<times> rdp_session" where
  "onCliprdrServerFormatList rc_response rc_request formats s =
     (let s = rdp_emit ClientFormatListResponse s
      in if rc_response \<noteq> CHANNEL_RC_OK then (rc_response, s)
         else if rs_viewOnly s then (CHANNEL_RC_OK, s)
         else if CF_UNICODETEXT \<in> set formats
         then (rc_request, rdp_emit (ClientFormatDataRequest CF_UNICODETEXT) s)
         else (CHANNEL_RC_OK, s))"

text \<open>
  The text with its terminator, \<open>(clipOutLen + 1) * sizeof(WCHAR)\<close> bytes; \<open>None\<close> is a failed
  response.
\<close>

definition onCliprdrServerFormatDataRequest ::
  "(nat \<Rightarrow> bool) \<Rightarrow> u32 \<Rightarrow> u32 \<Rightarrow> rdp_session \<Rightarrow> u32 \<times> rdp_session"
where
  "onCliprdrServerFormatDataRequest malloc rc requestedFormatId s =
     (let answer = (case rs_clipOut s of
                      None \<Rightarrow> None
                    | Some units \<Rightarrow>
                        if requestedFormatId = CF_UNICODETEXT \<and> \<not> rs_viewOnly s \<and> malloc ((length units + 1) * 2)
                        then Some (units @ [0]) else None)
      in (rc, rdp_emit (ClientFormatDataResponse answer) s))"

text \<open>The 16-bit units of a buffer, little-endian as on every platform; an odd byte is left out.\<close>

fun wchars :: "bytes \<Rightarrow> u16 list" where
  "wchars (a # b # bs) = (ucast a OR push_bit 8 (ucast b)) # wchars bs"
| "wchars _ = []"

fun wchar_bytes :: "u16 list \<Rightarrow> bytes" where
  "wchar_bytes [] = []"
| "wchar_bytes (u # us) = ucast u # ucast (drop_bit 8 u) # wchar_bytes us"

definition trim_nuls :: "u16 list \<Rightarrow> u16 list" where
  "trim_nuls us = rev (dropWhile (\<lambda>u. u = 0) (rev us))"

definition onCliprdrServerFormatDataResponse ::
  "(u16 list \<Rightarrow> bytes option) \<Rightarrow> bool \<Rightarrow> bytes option \<Rightarrow> rdp_session \<Rightarrow> u32 \<times> rdp_session"
where
  "onCliprdrServerFormatDataResponse to_utf8 failed requestedFormatData s =
     (case requestedFormatData of
        None \<Rightarrow> (CHANNEL_RC_OK, s)
      | Some bs \<Rightarrow>
          if failed then (CHANNEL_RC_OK, s)
          else let units = trim_nuls (wchars bs)
               in (CHANNEL_RC_OK, if units \<noteq> [] then fireClipboard to_utf8 units s else s))"

text \<open>\<open>has\<close> is whether the interface has \<open>ClientFormatList\<close>.\<close>

definition wireCliprdr :: "bool \<Rightarrow> rdp_session \<Rightarrow> rdp_session" where
  "wireCliprdr has s = s\<lparr>rs_cliprdr := Some has\<rparr>"

section \<open>The graphics pipeline\<close>

definition RDPGFX_CAPVERSION_81 :: u32 where "RDPGFX_CAPVERSION_81 = 0x00080105"
definition RDPGFX_CAPVERSION_10 :: u32 where "RDPGFX_CAPVERSION_10 = 0x000A0002"
definition RDPGFX_CAPS_FLAG_AVC420_ENABLED :: u32 where "RDPGFX_CAPS_FLAG_AVC420_ENABLED = 0x10"
definition RDPGFX_CAPS_FLAG_AVC_DISABLED :: u32 where "RDPGFX_CAPS_FLAG_AVC_DISABLED = 0x20"

definition caps_h264 :: "gfx_capset \<Rightarrow> bool" where
  "caps_h264 caps =
     (if cap_version caps = RDPGFX_CAPVERSION_81 then cap_flags caps AND RDPGFX_CAPS_FLAG_AVC420_ENABLED \<noteq> 0
      else if cap_version caps \<ge> RDPGFX_CAPVERSION_10 then cap_flags caps AND RDPGFX_CAPS_FLAG_AVC_DISABLED = 0
      else False)"

text \<open>\<open>gdi\<close> is whether the interface has its GDI; \<open>confirm\<close> is \<open>None\<close> without a set.\<close>

definition onGfxCapsConfirm :: "bool \<Rightarrow> gfx_capset option \<Rightarrow> rdp_session \<Rightarrow> rdp_session" where
  "onGfxCapsConfirm gdi confirm s =
     (case confirm of
        None \<Rightarrow> s
      | Some caps \<Rightarrow>
          if \<not> gdi then s
          else s\<lparr>rs_gfxH264 := caps_h264 caps, rs_gfxVersion := cap_version caps, rs_gfxCaps := caps,
                 rs_gfxRestarting := False\<rparr>)"

text \<open>
  The GDI's own handler decodes the command: \<open>calls\<close> is what the library does there with its
  H.264 contexts \<open>cs\<close>, which belong to this session meanwhile (\<open>vento_h264_enter\<close> and
  \<open>vento_h264_leave\<close>), and \<open>rc\<close> what the handler returns.
\<close>

definition gfx_restart :: "rdp_session \<Rightarrow> rdp_session" where
  "gfx_restart s =
     (let asked = h_restart (rs_h264 s);
          s = s\<lparr>rs_h264 := (rs_h264 s)\<lparr>h_restart := False\<rparr>\<rparr>
      in if asked \<and> \<not> rs_gfxRestarting s \<and> rs_gfxVersion s \<noteq> 0
         then rdp_emit (CapsAdvertise (rs_gfxCaps s)) (s\<lparr>rs_gfxRestarting := True\<rparr>)
         else s)"

definition onGfxSurfaceCommand ::
  "u32 \<Rightarrow> h264_call list \<Rightarrow> h264_context list \<Rightarrow> rdp_session \<Rightarrow> u32 \<times> h264_context list \<times> rdp_session"
where
  "onGfxSurfaceCommand rc calls cs s =
     (let s = rdp_emit GdiSurfaceCommand s;
          (cs, v) = fold h264_step calls (cs, rs_h264 s)
      in (rc, cs, gfx_restart (s\<lparr>rs_h264 := v\<rparr>)))"

section \<open>Channels that open and close\<close>

definition RDPGFX_DVC_CHANNEL_NAME :: string where "RDPGFX_DVC_CHANNEL_NAME = ''Microsoft::Windows::RDS::Graphics''"
definition CLIPRDR_SVC_CHANNEL_NAME :: string where "CLIPRDR_SVC_CHANNEL_NAME = ''cliprdr''"
definition DISP_DVC_CHANNEL_NAME :: string where "DISP_DVC_CHANNEL_NAME = ''Microsoft::Windows::RDS::DisplayControl''"

text \<open>
  \<open>has\<close> is whether the interface has the member that is called through it: the GDI's
  \<open>ResetGraphics\<close>, which comes with its \<open>SurfaceCommand\<close>, \<open>ClientFormatList\<close>, or \<open>SendMonitorLayout\<close>.
\<close>

definition onChannelConnected :: "string \<Rightarrow> bool \<Rightarrow> rdp_session \<Rightarrow> rdp_session" where
  "onChannelConnected name has s =
     (if name = RDPGFX_DVC_CHANNEL_NAME
      then (rdp_emit PipelineInit s)\<lparr>rs_gdiResetGraphics := has, rs_gdiSurfaceCommand := has, rs_gfxOpen := True\<rparr>
      else if name = CLIPRDR_SVC_CHANNEL_NAME then wireCliprdr has s
      else if name = DISP_DVC_CHANNEL_NAME then s\<lparr>rs_disp := Some has\<rparr>
      else s)"

definition onChannelDisconnected :: "string \<Rightarrow> rdp_session \<Rightarrow> rdp_session" where
  "onChannelDisconnected name s =
     (if name = RDPGFX_DVC_CHANNEL_NAME
      then (rdp_emit PipelineUninit s)\<lparr>rs_gfxOpen := False, rs_gfxVersion := 0, rs_gfxH264 := False,
             rs_gfxRestarting := False, rs_h264 := (rs_h264 s)\<lparr>h_hardware := -1\<rparr>\<rparr>
      else if name = CLIPRDR_SVC_CHANNEL_NAME then s\<lparr>rs_cliprdr := None\<rparr>
      else if name = DISP_DVC_CHANNEL_NAME then s\<lparr>rs_disp := None, rs_canResize := False, rs_dispMonitors := 0\<rparr>
      else s)"

text \<open>What the library does with the pipeline, its H.264 contexts beside the session.\<close>

datatype gfx_call =
    Gfx_confirm bool "gfx_capset option"
  | Gfx_command u32 "h264_call list"
  | Gfx_connected bool
  | Gfx_disconnected

fun gfx_step :: "gfx_call \<Rightarrow> h264_context list \<times> rdp_session \<Rightarrow> h264_context list \<times> rdp_session" where
  "gfx_step (Gfx_confirm gdi confirm) (cs, s) = (cs, onGfxCapsConfirm gdi confirm s)"
| "gfx_step (Gfx_command rc calls) (cs, s) = snd (onGfxSurfaceCommand rc calls cs s)"
| "gfx_step (Gfx_connected has) (cs, s) = (cs, onChannelConnected RDPGFX_DVC_CHANNEL_NAME has s)"
| "gfx_step Gfx_disconnected (cs, s) = (cs, onChannelDisconnected RDPGFX_DVC_CHANNEL_NAME s)"

section \<open>The clipboard: properties\<close>

lemma wchars_wchar_bytes: "wchars (wchar_bytes us) = us"
proof (induction us)
  case (Cons u us)
  have "ucast (ucast u :: u8) OR push_bit 8 (ucast (ucast (drop_bit 8 u) :: u8)) = u"
    by (rule bit_eqI) (auto simp: bit_simps)
  with Cons show ?case by simp
qed simp

lemma trim_nuls_snoc: "0 \<notin> set us \<Longrightarrow> trim_nuls (us @ [0]) = us"
  using dropWhile_eq_self_iff [of "\<lambda>u. u = 0" "rev us"]
  by (cases us rule: rev_cases) (auto simp: trim_nuls_def)

text \<open>The clipboard of this end is offered and held ready, unless the session is view-only.\<close>

lemma doClipboard_offers:
  "rs_cliprdr s = Some True \<Longrightarrow> \<not> rs_viewOnly s \<Longrightarrow>
   doClipboard rc (Some us) s = rdp_emit (ClientFormatList True) (s\<lparr>rs_clipOut := Some us\<rparr>)"
  by (auto simp: doClipboard_def sendFormatList_def Let_def)

lemma crlf_write_nonzero: "0 \<notin> set t \<Longrightarrow> 0 \<notin> set (crlf_write t)"
proof (induction t rule: crlf_write.induct)
  case (2 c cs)
  have "0 \<notin> set (skip_lf cs)" using 2(3) by (auto simp: skip_lf_def split: list.splits if_splits)
  with 2 show ?case by (auto simp: CR_def LF_def split: if_splits)
qed simp

text \<open>
  C28. Text copied at this end of a FreeRDP session reaches the other end as it is: it is
  offered, a paste there is answered with its UTF-16 and a terminator, line ends written the
  Windows way, and a session that receives that answer reports the text with the line ends it
  is kept with on this side.  WinPR's conversions are only taken to undo each other on this
  text and to put no terminator inside it.
\<close>

theorem rdp_clipboard_roundtrip:
  assumes "0 \<notin> set t" and "t \<noteq> []" and "length t \<le> VENTO_MAX_CLIPBOARD"
    and "rdp_queue_ok a" and "rdp_items a = []" and "\<not> rs_quit a" and "\<And>n. malloc n"
    and "to_wchar (crlf_write t) = Some us" and "to_utf8 us = Some (crlf_write t)" and "0 \<notin> set us" and "us \<noteq> []"
    and "rs_cliprdr a = Some True" and "\<not> rs_viewOnly a"
  shows "rdp_items (rdp_op_clipboard malloc to_wchar (Some t) a) = [RDP_CLIPBOARD (Some us)] \<and>
    (let a' = rdp_runCmd 0 (RDP_CLIPBOARD (Some us)) a in
       rs_trace a' = rs_trace a @ [ClientFormatList True] \<and>
       rs_trace (snd (onCliprdrServerFormatDataRequest malloc 0 CF_UNICODETEXT a')) =
         rs_trace a' @ [ClientFormatDataResponse (Some (us @ [0]))]) \<and>
    rs_trace (snd (onCliprdrServerFormatDataResponse to_utf8 False (Some (wchar_bytes (us @ [0]))) b)) =
      rs_trace b @ [RdpCallback (Clipboard (vento_text_to_lf t))]"
proof -
  have "vento_text_to_crlf malloc (Some t) = Some (crlf_write t)"
    using assms(7) by (simp add: vento_text_to_crlf_def Let_def)
  then have 1: "rdp_op_clipboard malloc to_wchar (Some t) a = rdp_post a (RDP_CLIPBOARD (Some us))"
    using assms(3,8) by (simp add: rdp_op_clipboard_def)
  have 2: "rdp_items (rdp_post a (RDP_CLIPBOARD (Some us))) = [RDP_CLIPBOARD (Some us)]"
    using rdp_post_items(1) [OF assms(4), of "RDP_CLIPBOARD (Some us)"] assms(5,6)
    by (simp add: posted_items_def CMD_RING_def)
  have nz: "0 \<notin> set (crlf_write t)" using assms(1) crlf_write_nonzero by blast
  have all: "takeWhile (\<lambda>b. b \<noteq> 0) (crlf_write t) = crlf_write t"
    unfolding takeWhile_eq_all_conv using nz by metis
  have "length (vento_text_to_lf t) \<le> VENTO_MAX_CLIPBOARD" using length_to_lf [of t] assms(3) by linarith
  moreover have "vento_text_to_lf t \<noteq> []" using assms(2) by (cases t) auto
  ultimately have 3: "fireClipboard to_utf8 us b = rdp_emit (RdpCallback (Clipboard (vento_text_to_lf t))) b"
    unfolding fireClipboard_def assms(9) option.case Let_def all to_lf_crlf_write by simp
  have 4: "trim_nuls (wchars (wchar_bytes (us @ [0]))) = us"
    using trim_nuls_snoc [OF assms(10)] by (simp only: wchars_wchar_bytes)
  show ?thesis
    using 1 2 3 4 assms(7,11,12,13)
    by (simp add: doClipboard_offers onCliprdrServerFormatDataRequest_def onCliprdrServerFormatDataResponse_def
        rdp_emit_def Let_def)
qed

definition example_channel :: rdp_session where
  "example_channel = rdp_calloc\<lparr>rs_cliprdr := Some True\<rparr>"

text \<open>Both conversions on ASCII.\<close>

definition ascii_wchar :: "bytes \<Rightarrow> u16 list option" where
  "ascii_wchar bs = Some (map ucast bs)"

definition ascii_utf8 :: "u16 list \<Rightarrow> bytes option" where
  "ascii_utf8 us = Some (map ucast us)"

theorem rdp_clipboard_roundtrip_witness:
  "rs_trace (snd (onCliprdrServerFormatDataResponse ascii_utf8 False
     (Some (wchar_bytes ([0x61, 0x0D, 0x0A] @ [0]))) rdp_calloc)) = [RdpCallback (Clipboard [0x61, 0x0A])]"
proof -
  have "rdp_queue_ok example_channel" "rdp_items example_channel = []"
    using rdp_calloc_queue by (simp_all add: example_channel_def rdp_queue_ok_def rdp_items_def)
  then show ?thesis
    using rdp_clipboard_roundtrip [of "[0x61, 0x0A]" example_channel "\<lambda>_. True" ascii_wchar "[0x61, 0x0D, 0x0A]" ascii_utf8 rdp_calloc]
    by (simp add: example_channel_def rdp_calloc_def ascii_wchar_def ascii_utf8_def CR_def LF_def VENTO_MAX_CLIPBOARD_def)
qed

text \<open>A view-only session neither gives its text away nor asks for the far end's.\<close>

theorem rdp_view_only_clipboard:
  assumes "rs_viewOnly s"
  shows "rs_trace (snd (onCliprdrServerFormatDataRequest malloc rc f s)) = rs_trace s @ [ClientFormatDataResponse None]"
    and "rs_trace (snd (onCliprdrServerFormatList rc rc' formats s)) = rs_trace s @ [ClientFormatListResponse]"
  using assms
  by (auto simp: onCliprdrServerFormatDataRequest_def onCliprdrServerFormatList_def rdp_emit_def Let_def
      split: option.splits)

section \<open>The graphics pipeline: properties\<close>

fun is_confirm :: "gfx_call \<Rightarrow> bool" where
  "is_confirm (Gfx_confirm _ _) = True"
| "is_confirm _ = False"

fun is_advertise :: "rdp_event \<Rightarrow> bool" where
  "is_advertise (CapsAdvertise _) = True"
| "is_advertise _ = False"

definition adverts :: "rdp_session \<Rightarrow> nat" where
  "adverts s = length (filter is_advertise (rs_trace s))"

text \<open>
  What holds after the calls \<open>es\<close>: a restart that could still be asked for has a confirmation
  of its own, and what would be sent is what the server confirmed.
\<close>

definition gfx_inv :: "gfx_call list \<Rightarrow> h264_context list \<times> rdp_session \<Rightarrow> bool" where
  "gfx_inv es p \<longleftrightarrow>
     (let (cs, s) = p
      in adverts s + of_bool (\<not> rs_gfxRestarting s \<and> rs_gfxVersion s \<noteq> 0) \<le> length (filter is_confirm es) \<and>
         (rs_gfxVersion s \<noteq> 0 \<longrightarrow> Gfx_confirm True (Some (rs_gfxCaps s)) \<in> set es) \<and>
         (\<forall>c. CapsAdvertise c \<in> set (rs_trace s) \<longrightarrow> Gfx_confirm True (Some c) \<in> set es) \<and>
         h264_ok (cs, rs_h264 s))"

lemma h264_ok_shared: "h264_ok (cs, v\<lparr>h_restart := b\<rparr>) = h264_ok (cs, v)" "h264_ok (cs, v\<lparr>h_hardware := n\<rparr>) = h264_ok (cs, v)"
  by simp_all

lemma gfx_restart_inv:
  assumes "gfx_inv es (cs, s)"
  shows "gfx_inv es (cs, gfx_restart s)"
proof (cases "h_restart (rs_h264 s) \<and> \<not> rs_gfxRestarting s \<and> rs_gfxVersion s \<noteq> 0")
  case True
  then show ?thesis
    using assms
    by (auto simp: gfx_restart_def gfx_inv_def adverts_def rdp_emit_def Let_def simp del: h264_ok.simps simp add: h264_ok_shared)
next
  case False
  then have "gfx_restart s = s\<lparr>rs_h264 := (rs_h264 s)\<lparr>h_restart := False\<rparr>\<rparr>" by (auto simp: gfx_restart_def Let_def)
  then show ?thesis
    using assms by (simp add: gfx_inv_def adverts_def h264_ok_shared del: h264_ok.simps)
qed

lemma gfx_inv_step:
  assumes "gfx_inv es p"
  shows "gfx_inv (es @ [e]) (gfx_step e p)"
proof -
  obtain cs s where p: "p = (cs, s)" by (cases p)
  show ?thesis
  proof (cases e)
    case (Gfx_confirm gdi confirm)
    then show ?thesis
      using assms
      by (auto simp: p gfx_inv_def adverts_def onGfxCapsConfirm_def simp del: h264_ok.simps split: option.splits)
  next
    case (Gfx_command rc calls)
    obtain cs' v where f: "fold h264_step calls (cs, rs_h264 s) = (cs', v)" by (metis prod.collapse)
    have "h264_ok (cs', v)" using assms h264_ok_run [of "(cs, rs_h264 s)" calls] f by (simp add: p gfx_inv_def del: h264_ok.simps)
    then have "gfx_inv (es @ [e]) (cs', (rdp_emit GdiSurfaceCommand s)\<lparr>rs_h264 := v\<rparr>)"
      using assms by (simp add: p Gfx_command gfx_inv_def adverts_def rdp_emit_def del: h264_ok.simps)
    from gfx_restart_inv [OF this] show ?thesis
      using f by (simp add: p Gfx_command onGfxSurfaceCommand_def rdp_emit_def)
  next
    case (Gfx_connected has)
    then show ?thesis
      using assms by (simp add: p gfx_inv_def adverts_def onChannelConnected_def rdp_emit_def del: h264_ok.simps)
  next
    case Gfx_disconnected
    then show ?thesis
      using assms by (auto simp: p gfx_inv_def adverts_def onChannelDisconnected_def rdp_emit_def h264_ok_shared simp del: h264_ok.simps)
  qed
qed

lemma gfx_inv_run: "gfx_inv es p \<Longrightarrow> gfx_inv (es @ fs) (fold gfx_step fs p)"
proof (induction fs arbitrary: es p)
  case (Cons f fs)
  from Cons.IH [OF gfx_inv_step [OF Cons.prems, of f]] show ?case by simp
qed simp

text \<open>
  C27. The pipeline is restarted at most once for each answer of the server: over any sequence of
  surface commands, confirmations, openings and closings of the channel, the capabilities are
  advertised again no more often than the server has confirmed them, always with a set it
  confirmed, and the decoders of all surfaces stay within their slots.
\<close>

theorem rdp_gfx_restarts_answered:
  assumes "vento_h264_init tbl = (ok, v)" and "fold gfx_step es ([], rdp_calloc\<lparr>rs_h264 := v\<rparr>) = (cs, s)"
  shows "adverts s \<le> length (filter is_confirm es) \<and>
    (\<forall>c. CapsAdvertise c \<in> set (rs_trace s) \<longrightarrow> Gfx_confirm True (Some c) \<in> set es) \<and>
    h_hardwareHeld (rs_h264 s) = slots cs \<and> slots cs \<le> VENTO_H264_MAX_HARDWARE"
proof -
  have "h264_ok ([], v)"
    using assms(1)
    by (auto simp: vento_h264_init_def h264_zero_def h264_emit_def slots_def decoders_def VENTO_H264_MAX_HARDWARE_def
        split: option.splits if_splits)
  then have "gfx_inv [] ([], rdp_calloc\<lparr>rs_h264 := v\<rparr>)"
    by (simp add: gfx_inv_def adverts_def rdp_calloc_def del: h264_ok.simps)
  from gfx_inv_run [OF this, of es] assms(2) show ?thesis
    by (auto simp: gfx_inv_def)
qed

text \<open>A decoder that loses its pictures in two commands in a row: one restart.\<close>

definition example_lost :: "gfx_call list" where
  "example_lost =
     [Gfx_connected True, Gfx_confirm True (Some \<lparr>cap_version = 0x000A0002, cap_flags = 0\<rparr>),
      Gfx_command 0 [H264_Init False True True, H264_Decompress 0 (example_answers\<lparr>a_key_frame := True\<rparr>) 8 8 []],
      Gfx_command 0 [H264_Decompress 0 (example_answers\<lparr>a_key_frame := True\<rparr>) 8 8 []]]"

theorem rdp_gfx_restarts_answered_witness:
  "\<exists>cs s. fold gfx_step example_lost ([], rdp_calloc\<lparr>rs_h264 := snd (vento_h264_init (Some example_table))\<rparr>) = (cs, s) \<and>
     adverts s = 1 \<and> adverts s \<le> length (filter is_confirm example_lost)"
proof -
  let ?v = "snd (vento_h264_init (Some example_table))"
  obtain cs s where run: "fold gfx_step example_lost ([], rdp_calloc\<lparr>rs_h264 := ?v\<rparr>) = (cs, s)" by (metis prod.collapse)
  have "adverts s = 1"
    using run
    by (auto simp: example_lost_def example_answers_def example_table_def onChannelConnected_def onGfxCapsConfirm_def
        onGfxSurfaceCommand_def gfx_restart_def vento_h264_init_def h264_zero_def video_table_zero_def
        vento_h264_subsystem_init_def vento_h264_subsystem_decompress_def h264_ready_def closeDecoder_def
        openDecoder_def open_attempts_def claimHardware_def h264_feed_def h264_emit_def VENTO_H264_MAX_HARDWARE_def
        rdp_emit_def adverts_def rdp_calloc_def Let_def)
  moreover have "vento_h264_init (Some example_table) = (True, ?v)"
    by (simp add: vento_h264_init_def example_table_def)
  ultimately show ?thesis using rdp_gfx_restarts_answered [OF _ run, of "Some example_table" True] run by blast
qed

end
