(* ===== verification/Rdp_Settings.thy ===== *)
theory Rdp_Settings
  imports Rdp_Layout
begin

text \<open>
  What a FreeRDP session asks of the library and of the server before it connects:
  \<open>applySettings\<close> of \<open>src/backends/modules/freerdp/cpp/freerdp_session.c\<close>, in the order of its parts.

  The settings are a map from the names of the library's keys.  A setter's result is not looked
  at in the source, so a setter is an update.  Constants that only the library's headers give
  are a parameter (\<open>rdp_constants\<close>).
\<close>

section \<open>Definitions\<close>

record rdp_constants =
  OSMINORTYPE_UNSPECIFIED :: u32
  PROXY_TYPE_IGNORE :: u32
  TLS1_VERSION :: u32
  FREERDP_TLS_SECLEVEL_0 :: u32

definition set_all :: "(string \<times> rdp_value) list \<Rightarrow> rdpSettings \<Rightarrow> rdpSettings" where
  "set_all kvs m = fold (\<lambda>(k, v) m. m(k \<mapsto> v)) kvs m"

definition or_empty :: "string option \<Rightarrow> string" where
  "or_empty t = (case t of Some t \<Rightarrow> t | None \<Rightarrow> [])"

text \<open>Who connects, to what, and from where.\<close>

definition settings_identity :: "rdp_constants \<Rightarrow> rdp_session \<Rightarrow> (string \<times> rdp_value) list" where
  "settings_identity k s =
     [(''ServerHostname'', RStr (rs_host s)), (''ServerPort'', RInt (word_of_int (rs_port s))),
      (''Username'', RStr (Some (or_empty (rs_user s)))), (''Domain'', RStr (Some (or_empty (rs_domain s))))] @
     (if rs_password s \<noteq> None then [(''Password'', RStr (rs_password s))] else []) @
     [(''ClientHostname'', RStr (rs_clientName s)), (''OsMajorType'', RInt (rs_osMajorType s)),
      (''OsMinorType'', RInt (OSMINORTYPE_UNSPECIFIED k)),
      (''KeyboardLayout'', RInt (word_of_int (rs_keyboardLayout s))),
      (''DesktopWidth'', RInt (word_of_int (rs_width s))), (''DesktopHeight'', RInt (word_of_int (rs_height s))),
      (''ColorDepth'', RInt 32), (''SoftwareGdi'', RBool True),
      (''TcpConnectTimeout'', RInt (word_of_int (if rs_connectTimeoutMs s > 0 then rs_connectTimeoutMs s else 20000))),
      (''ProxyType'', RInt (PROXY_TYPE_IGNORE k))] @
     (if rs_configPath s \<noteq> None then [(''ConfigPath'', RStr (rs_configPath s))] else []) @
     [(''UseCommonStdioCallbacks'', RBool False), (''IgnoreCertificate'', RBool False),
      (''AutoAcceptCertificate'', RBool False), (''ExternalCertificateManagement'', RBool True)]"

text \<open>Network Level Authentication and TLS.\<close>

definition settings_security :: "rdp_constants \<Rightarrow> rdp_session \<Rightarrow> (string \<times> rdp_value) list" where
  "settings_security k s =
     (let nlaOff = (rs_nla s = Some ''off'');
          nlaRequired = (rs_nla s = Some ''require'')
      in [(''NlaSecurity'', RBool (\<not> nlaOff)), (''ExtSecurity'', RBool (\<not> nlaOff)),
          (''TlsSecurity'', RBool (\<not> nlaRequired)), (''RdpSecurity'', RBool False),
          (''UseRdpSecurityLayer'', RBool False)] @
         (if rs_legacyTls s
          then [(''TLSMinVersion'', RInt (TLS1_VERSION k)), (''TlsSecLevel'', RInt (FREERDP_TLS_SECLEVEL_0 k))]
          else []))"

text \<open>The picture.\<close>

definition settings_graphics :: "rdp_session \<Rightarrow> (string \<times> rdp_value) list" where
  "settings_graphics s =
     (let g = (case rs_graphics s of Some g \<Rightarrow> g | None \<Rightarrow> ''gfx'');
          gfx = (g = ''gfx'' \<or> g = ''gfx-novideo'');
          h264 = (g = ''gfx'' \<and> h_available (rs_h264 s));
          rfx = (gfx \<or> g = ''rfx'')
      in [(''CompressionEnabled'', RBool (rs_compression s)), (''RedirectClipboard'', RBool True),
          (''SupportDisplayControl'', RBool True),
          (''SupportGraphicsPipeline'', RBool gfx), (''RemoteFxCodec'', RBool rfx),
          (''GfxH264'', RBool h264), (''GfxAVC444'', RBool h264), (''GfxProgressive'', RBool gfx),
          (''GfxPlanar'', RBool gfx), (''GfxSmallCache'', RBool False), (''GfxThinClient'', RBool False),
          (''BitmapCacheEnabled'', RBool False)])"

definition VENTO_RDPSND_LATENCY_MS :: nat where "VENTO_RDPSND_LATENCY_MS = 250"
definition VENTO_RDPSND_SUBSYSTEM :: string where "VENTO_RDPSND_SUBSYSTEM = ''vento''"

definition sound_here :: "rdp_session \<Rightarrow> bool" where
  "sound_here s \<longleftrightarrow> rs_sound s = Some ''local'' \<and> rs_audio s"

text \<open>The channels are told the device by name, the dynamic one only after the static one.\<close>

definition add_sound_channels :: "bool \<Rightarrow> rdp_session \<Rightarrow> rdp_session" where
  "add_sound_channels static_ok s =
     (let args = [''rdpsnd'', ''sys:'' @ VENTO_RDPSND_SUBSYSTEM,
                  snprintf_s 32 (''latency:'' @ show_nat VENTO_RDPSND_LATENCY_MS)];
          s1 = rdp_emit (AddChannel args) s
      in if \<not> sound_here s then s
         else if static_ok then rdp_emit (AddChannel args) s1 else s1)"

definition settings_sound :: "rdp_session \<Rightarrow> (string \<times> rdp_value) list" where
  "settings_sound s =
     [(''AudioPlayback'', RBool (sound_here s)), (''RemoteConsoleAudio'', RBool (rs_sound s = Some ''remote'')),
      (''DesktopScaleFactor'', RInt (word_of_int (rs_scale s))),
      (''DeviceScaleFactor'', RInt (word_of_int (rs_scale s)))]"

definition PERF_DISABLE_WALLPAPER :: u32 where "PERF_DISABLE_WALLPAPER = 0x01"
definition PERF_DISABLE_FULLWINDOWDRAG :: u32 where "PERF_DISABLE_FULLWINDOWDRAG = 0x02"
definition PERF_DISABLE_MENUANIMATIONS :: u32 where "PERF_DISABLE_MENUANIMATIONS = 0x04"
definition PERF_DISABLE_THEMING :: u32 where "PERF_DISABLE_THEMING = 0x08"
definition PERF_DISABLE_CURSOR_SHADOW :: u32 where "PERF_DISABLE_CURSOR_SHADOW = 0x20"
definition PERF_DISABLE_CURSORSETTINGS :: u32 where "PERF_DISABLE_CURSORSETTINGS = 0x40"
definition PERF_ENABLE_FONT_SMOOTHING :: u32 where "PERF_ENABLE_FONT_SMOOTHING = 0x80"
definition PERF_ENABLE_DESKTOP_COMPOSITION :: u32 where "PERF_ENABLE_DESKTOP_COMPOSITION = 0x100"
definition CONNECTION_TYPE_MODEM :: u32 where "CONNECTION_TYPE_MODEM = 1"
definition CONNECTION_TYPE_LAN :: u32 where "CONNECTION_TYPE_LAN = 6"

text \<open>How much of the link goes to visual effects.\<close>

definition settings_experience :: "rdp_session \<Rightarrow> (string \<times> rdp_value) list" where
  "settings_experience s =
     (let (performance, connectionType) =
        (if rs_experience s = Some ''plain''
         then (PERF_DISABLE_WALLPAPER OR PERF_DISABLE_FULLWINDOWDRAG OR PERF_DISABLE_MENUANIMATIONS OR
               PERF_DISABLE_THEMING OR PERF_DISABLE_CURSOR_SHADOW OR PERF_DISABLE_CURSORSETTINGS,
               CONNECTION_TYPE_MODEM)
         else if rs_experience s = None \<or> rs_experience s = Some ''balanced''
         then (PERF_DISABLE_MENUANIMATIONS OR PERF_DISABLE_FULLWINDOWDRAG OR PERF_DISABLE_CURSOR_SHADOW,
               CONNECTION_TYPE_LAN)
         else (PERF_ENABLE_FONT_SMOOTHING OR PERF_ENABLE_DESKTOP_COMPOSITION, CONNECTION_TYPE_LAN))
      in [(''PerformanceFlags'', RInt performance), (''ConnectionType'', RInt connectionType),
          (''NetworkAutoDetect'', RBool True)])"

text \<open>The monitors, side by side; \<open>memory\<close> is whether the library has room for their array.\<close>

definition settings_multimon :: "rdp_session \<Rightarrow> (string \<times> rdp_value) list" where
  "settings_multimon s =
     [(''UseMultimon'', RBool True), (''HasMonitorAttributes'', RBool True),
      (''MonitorCount'', RInt (word_of_int (rs_monitors s)))] @
     (if rs_monitors s > 1 then [(''DesktopWidth'', RInt (word_of_int (rs_width s * rs_monitors s)))] else [])"

definition monitor_at :: "rdp_session \<Rightarrow> nat \<Rightarrow> rdpMonitor" where
  "monitor_at s i =
     \<lparr>mo_x = int i * rs_width s, mo_y = 0, mo_width = rs_width s, mo_height = rs_height s, mo_primary = (i = 0),
      mo_orig_screen = int i, mo_scale = word_of_int (rs_scale s)\<rparr>"

definition asked_row :: "rdp_session \<Rightarrow> quad list" where
  "asked_row s =
     (let n = (if rs_monitors s > int VENTO_MAX_MONITORS then int VENTO_MAX_MONITORS else rs_monitors s)
      in map (\<lambda>i. (int i * rs_width s, 0, rs_width s, rs_height s)) [0..<nat n])"

definition apply_monitors :: "bool \<Rightarrow> rdp_session \<Rightarrow> rdp_session" where
  "apply_monitors memory s =
     (if rs_monitors s > 1 \<or> rs_scale s \<noteq> 100
      then let s = s\<lparr>rs_settings := set_all (settings_multimon s) (rs_settings s)\<rparr>;
               s = (if memory then s\<lparr>rs_monitorDefs := map (monitor_at s) [0..<nat (rs_monitors s)]\<rparr> else s)
           in s\<lparr>rs_askedLayout := asked_row s\<rparr>
      else s)"

definition applySettings :: "rdp_constants \<Rightarrow> bool \<Rightarrow> bool \<Rightarrow> rdp_session \<Rightarrow> rdp_session" where
  "applySettings k static_ok memory s =
     (let m = set_all (settings_identity k s @ settings_security k s @ settings_graphics s) (rs_settings s);
          s = add_sound_channels static_ok (s\<lparr>rs_settings := m\<rparr>);
          s = s\<lparr>rs_settings := set_all (settings_sound s @ settings_experience s) (rs_settings s)\<rparr>
      in apply_monitors memory s)"

section \<open>Properties\<close>

lemma set_all_append: "set_all (a @ b) m = set_all b (set_all a m)"
  by (simp add: set_all_def)

lemma set_all_other: "k \<notin> fst ` set kvs \<Longrightarrow> set_all kvs m k = m k"
  by (induction kvs arbitrary: m) (auto simp: set_all_def)

lemma set_all_Cons: "set_all ((k, v) # kvs) m = set_all kvs (m(k \<mapsto> v))"
  by (simp add: set_all_def)

lemma set_all_Nil: "set_all [] m = m"
  by (simp add: set_all_def)

definition the_settings :: "rdp_constants \<Rightarrow> rdp_session \<Rightarrow> (string \<times> rdp_value) list" where
  "the_settings k s =
     settings_identity k s @ settings_security k s @ settings_graphics s @ settings_sound s @ settings_experience s @
     (if rs_monitors s > 1 \<or> rs_scale s \<noteq> 100 then settings_multimon s else [])"

lemma add_sound_channels_sel [simp]:
  "rs_settings (add_sound_channels ok s) = rs_settings s" "rs_monitors (add_sound_channels ok s) = rs_monitors s"
  "rs_scale (add_sound_channels ok s) = rs_scale s" "rs_width (add_sound_channels ok s) = rs_width s"
  "rs_height (add_sound_channels ok s) = rs_height s"
  "settings_sound (add_sound_channels ok s) = settings_sound s"
  "settings_experience (add_sound_channels ok s) = settings_experience s"
  by (simp_all add: add_sound_channels_def rdp_emit_def settings_sound_def settings_experience_def sound_here_def Let_def)

lemma settings_parts_sel [simp]:
  "settings_sound (s\<lparr>rs_settings := m\<rparr>) = settings_sound s"
  "settings_experience (s\<lparr>rs_settings := m\<rparr>) = settings_experience s"
  "settings_multimon (s\<lparr>rs_settings := m\<rparr>) = settings_multimon s"
  "settings_multimon (add_sound_channels ok s) = settings_multimon s"
  by (simp_all add: settings_sound_def settings_experience_def settings_multimon_def sound_here_def)

lemma applySettings_eq: "rs_settings (applySettings k ok memory s) = set_all (the_settings k s) (rs_settings s)"
  by (simp add: applySettings_def apply_monitors_def the_settings_def Let_def set_all_append set_all_Nil)

text \<open>Which keys a part sets, so that the others are read past it.\<close>

lemma set_all_past: "fst ` set kvs \<subseteq> ks \<Longrightarrow> k \<notin> ks \<Longrightarrow> set_all kvs m k = m k"
  using set_all_other by blast

lemma identity_keys:
  "fst ` set (settings_identity k s) \<subseteq>
   {''ServerHostname'', ''ServerPort'', ''Username'', ''Domain'', ''Password'', ''ClientHostname'', ''OsMajorType'',
    ''OsMinorType'', ''KeyboardLayout'', ''DesktopWidth'', ''DesktopHeight'', ''ColorDepth'', ''SoftwareGdi'',
    ''TcpConnectTimeout'', ''ProxyType'', ''ConfigPath'', ''UseCommonStdioCallbacks'', ''IgnoreCertificate'',
    ''AutoAcceptCertificate'', ''ExternalCertificateManagement''}"
  by (auto simp: settings_identity_def)

lemma security_keys:
  "fst ` set (settings_security k s) \<subseteq>
   {''NlaSecurity'', ''ExtSecurity'', ''TlsSecurity'', ''RdpSecurity'', ''UseRdpSecurityLayer'', ''TLSMinVersion'', ''TlsSecLevel''}"
  by (auto simp: settings_security_def Let_def)

lemma graphics_keys:
  "fst ` set (settings_graphics s) \<subseteq>
   {''CompressionEnabled'', ''RedirectClipboard'', ''SupportDisplayControl'', ''SupportGraphicsPipeline'', ''RemoteFxCodec'',
    ''GfxH264'', ''GfxAVC444'', ''GfxProgressive'', ''GfxPlanar'', ''GfxSmallCache'', ''GfxThinClient'', ''BitmapCacheEnabled''}"
  by (auto simp: settings_graphics_def Let_def)

lemma sound_keys:
  "fst ` set (settings_sound s) \<subseteq> {''AudioPlayback'', ''RemoteConsoleAudio'', ''DesktopScaleFactor'', ''DeviceScaleFactor''}"
  by (auto simp: settings_sound_def)

lemma experience_keys:
  "fst ` set (settings_experience s) \<subseteq> {''PerformanceFlags'', ''ConnectionType'', ''NetworkAutoDetect''}"
  by (auto simp: settings_experience_def split: prod.splits)

lemma multimon_keys:
  "fst ` set (if c then settings_multimon s else []) \<subseteq> {''UseMultimon'', ''HasMonitorAttributes'', ''MonitorCount'', ''DesktopWidth''}"
  by (auto simp: settings_multimon_def)

lemmas past = set_all_past [OF identity_keys] set_all_past [OF security_keys] set_all_past [OF graphics_keys]
  set_all_past [OF sound_keys] set_all_past [OF experience_keys] set_all_past [OF multimon_keys]

lemma set_all_if: "set_all (if c then a else b) m = (if c then set_all a m else set_all b m)"
  by simp

lemma identity_certificates:
  "set_all (settings_identity k s) m ''ExternalCertificateManagement'' = Some (RBool True)"
  "set_all (settings_identity k s) m ''IgnoreCertificate'' = Some (RBool False)"
  "set_all (settings_identity k s) m ''AutoAcceptCertificate'' = Some (RBool False)"
  by (simp_all add: settings_identity_def set_all_append set_all_Cons set_all_Nil)

lemma identity_password:
  "set_all (settings_identity k s) m ''Password'' = (if rs_password s = None then m ''Password'' else Some (RStr (rs_password s)))"
  by (simp add: settings_identity_def set_all_append set_all_Cons set_all_Nil)

lemma security_values:
  "set_all (settings_security k s) m ''RdpSecurity'' = Some (RBool False)"
  "set_all (settings_security k s) m ''UseRdpSecurityLayer'' = Some (RBool False)"
  "set_all (settings_security k s) m ''NlaSecurity'' = Some (RBool (rs_nla s \<noteq> Some ''off''))"
  "set_all (settings_security k s) m ''ExtSecurity'' = Some (RBool (rs_nla s \<noteq> Some ''off''))"
  "set_all (settings_security k s) m ''TlsSecurity'' = Some (RBool (rs_nla s \<noteq> Some ''require''))"
  "set_all (settings_security k s) m ''TLSMinVersion'' = (if rs_legacyTls s then Some (RInt (TLS1_VERSION k)) else m ''TLSMinVersion'')"
  "set_all (settings_security k s) m ''TlsSecLevel'' = (if rs_legacyTls s then Some (RInt (FREERDP_TLS_SECLEVEL_0 k)) else m ''TlsSecLevel'')"
  by (simp_all add: settings_security_def set_all_append set_all_Cons set_all_Nil Let_def)

text \<open>
  C8. No option of a connection turns its protection off.  Whatever the configuration, the RDP
  security layer is never offered, every certificate goes to the session and none is accepted
  or ignored by the library, refusing NLA refuses both of its forms, and NLA or TLS is always
  left to negotiate.  The lowest TLS version and level are the library's own unless legacy TLS
  was asked for, and no password is sent that was not given.
\<close>

theorem rdp_settings_secure:
  "let m = rs_settings (applySettings k static_ok memory s) in
     m ''RdpSecurity'' = Some (RBool False) \<and> m ''UseRdpSecurityLayer'' = Some (RBool False) \<and>
     m ''ExternalCertificateManagement'' = Some (RBool True) \<and> m ''IgnoreCertificate'' = Some (RBool False) \<and>
     m ''AutoAcceptCertificate'' = Some (RBool False) \<and>
     m ''NlaSecurity'' = Some (RBool (rs_nla s \<noteq> Some ''off'')) \<and> m ''ExtSecurity'' = m ''NlaSecurity'' \<and>
     (m ''NlaSecurity'' = Some (RBool True) \<or> m ''TlsSecurity'' = Some (RBool True)) \<and>
     (\<not> rs_legacyTls s \<longrightarrow> m ''TLSMinVersion'' = rs_settings s ''TLSMinVersion'' \<and>
        m ''TlsSecLevel'' = rs_settings s ''TlsSecLevel'') \<and>
     (rs_password s = None \<longrightarrow> m ''Password'' = rs_settings s ''Password'')"
  by (simp add: applySettings_eq the_settings_def set_all_append past identity_certificates identity_password
      security_values del: if_split)

theorem rdp_settings_secure_witness:
  "let m = rs_settings (applySettings \<lparr>OSMINORTYPE_UNSPECIFIED = 0, PROXY_TYPE_IGNORE = 0xFFFF, TLS1_VERSION = 0x301,
         FREERDP_TLS_SECLEVEL_0 = 0\<rparr> True True (rdp_calloc\<lparr>rs_nla := Some ''off''\<rparr>)) in
     m ''ExtSecurity'' = Some (RBool False) \<and> m ''TLSMinVersion'' = None \<and> m ''Password'' = None"
  using rdp_settings_secure [of "\<lparr>OSMINORTYPE_UNSPECIFIED = 0, PROXY_TYPE_IGNORE = 0xFFFF, TLS1_VERSION = 0x301,
      FREERDP_TLS_SECLEVEL_0 = 0\<rparr>" True True "rdp_calloc\<lparr>rs_nla := Some ''off''\<rparr>"]
  by (simp add: Let_def rdp_calloc_def)

section \<open>The layout a connection starts with\<close>

lemma row_of_width:
  "0 < w \<Longrightarrow> side_by_side 0 (map (\<lambda>i. (int i * w, 0, w, h)) [0..<n]) \<and>
   sum_list (map quad_w (map (\<lambda>i. (int i * w, 0, w, h)) [0..<n])) = w * int n"
  by (induction n) (auto simp: side_by_side_append algebra_simps)

lemma apply_monitors_sel:
  fixes k :: rdp_constants and ok memory :: bool
  assumes "1 < rs_monitors s" and "rs_monitors s \<le> int VENTO_MAX_MONITORS"
  shows "rs_askedLayout (applySettings k ok memory s) = map (\<lambda>i. (int i * rs_width s, 0, rs_width s, rs_height s)) [0..<nat (rs_monitors s)]"
    and "memory \<Longrightarrow> rs_monitorDefs (applySettings k ok memory s) = map (monitor_at s) [0..<nat (rs_monitors s)]"
  using assms
  by (simp_all add: applySettings_def apply_monitors_def asked_row_def monitor_at_def Let_def)

lemma multimon_width:
  "1 < rs_monitors s \<Longrightarrow>
   rs_settings (applySettings k ok memory s) ''DesktopWidth'' = Some (RInt (word_of_int (rs_width s * rs_monitors s)))"
  by (simp add: applySettings_eq the_settings_def set_all_append)
    (simp add: settings_multimon_def set_all_Cons set_all_Nil)

text \<open>
  A connection with several monitors starts with the desktop they make up: the width it asks
  for is that of all of them, the monitors it describes to the server are the layout it keeps
  as asked for, side by side without a gap, and if the server gives it that desktop without a
  layout of its own, the platform is told exactly these monitors.
\<close>

theorem rdp_initial_monitors:
  assumes "1 < rs_monitors s" and "rs_monitors s \<le> int VENTO_MAX_MONITORS" and "0 < rs_width s" and "0 < rs_height s"
    and "rs_width s * rs_monitors s < 2 ^ 31" and "memory"
  shows "let s' = applySettings k static_ok memory s; asked = rs_askedLayout s'; w = rs_width s * rs_monitors s in
    uint (setting_uint32 s' ''DesktopWidth'') = w \<and> length asked = nat (rs_monitors s) \<and> side_by_side 0 asked \<and>
    map (\<lambda>m. (mo_x m, mo_y m, mo_width m, mo_height m)) (rs_monitorDefs s') = asked \<and>
    covers asked w (rs_height s) \<and>
    rdp_op_monitors (s'\<lparr>rs_connected := True, rs_serverLayout := None, rs_fb := shadow_alloc w (rs_height s)\<rparr>) = asked"
proof -
  define n where "n = nat (rs_monitors s)"
  let ?asked = "map (\<lambda>i. (int i * rs_width s, 0, rs_width s, rs_height s)) [0..<n]" and ?w = "rs_width s * rs_monitors s"
  have n: "int n = rs_monitors s" "1 < n" using assms(1) by (simp_all add: n_def)
  note sel = apply_monitors_sel [where k = k and ok = static_ok and memory = memory, OF assms(1,2), folded n_def]
  have row: "side_by_side 0 ?asked" "sum_list (map quad_w ?asked) = ?w"
    using row_of_width [OF assms(3), of "rs_height s" n] n(1) by (simp_all only:)
  have "?asked \<noteq> []" "\<forall>r\<in>set ?asked. quad_h r = rs_height s" using n(2) by auto
  from covers_row [OF row(1) this assms(4)] have cov: "covers ?asked ?w (rs_height s)" by (simp only: row(2))
  have "0 \<le> ?w" using assms(1,3) by simp
  then have "uint (word_of_int ?w :: u32) = ?w"
    unfolding uint_word_of_int_eq using assms(5) by (intro take_bit_int_eq_self) simp_all
  then have width: "uint (setting_uint32 (applySettings k static_ok memory s) ''DesktopWidth'') = ?w"
    unfolding setting_uint32_def multimon_width [OF assms(1)] by simp
  have defs: "map (\<lambda>m. (mo_x m, mo_y m, mo_width m, mo_height m)) (map (monitor_at s) [0..<n]) = ?asked"
    by (simp add: monitor_at_def)
  have "\<not> covers [] ?w (rs_height s)" by (simp add: covers_def)
  then have "rdp_op_monitors ((applySettings k static_ok memory s)\<lparr>rs_connected := True, rs_serverLayout := None,
      rs_fb := shadow_alloc ?w (rs_height s)\<rparr>) = ?asked"
    using cov n(2) by (simp add: rdp_op_monitors_def sel(1) Let_def)
  then show ?thesis
    using width row(1) cov defs sel(2) [OF assms(6)] n by (simp add: Let_def sel(1) n_def del: map_map)
qed

theorem rdp_initial_monitors_witness:
  "rdp_op_monitors ((applySettings \<lparr>OSMINORTYPE_UNSPECIFIED = 0, PROXY_TYPE_IGNORE = 0xFFFF, TLS1_VERSION = 0x301,
       FREERDP_TLS_SECLEVEL_0 = 0\<rparr> True True (rdp_calloc\<lparr>rs_monitors := 2, rs_width := 800, rs_height := 600\<rparr>))
     \<lparr>rs_connected := True, rs_serverLayout := None, rs_fb := shadow_alloc 1600 600\<rparr>) =
   [(0, 0, 800, 600), (800, 0, 800, 600)]"
proof -
  let ?s = "rdp_calloc\<lparr>rs_monitors := 2, rs_width := 800, rs_height := 600\<rparr>"
  let ?k = "\<lparr>OSMINORTYPE_UNSPECIFIED = 0, PROXY_TYPE_IGNORE = 0xFFFF, TLS1_VERSION = 0x301, FREERDP_TLS_SECLEVEL_0 = 0\<rparr>"
  have "rs_askedLayout (applySettings ?k True True ?s) = [(0, 0, 800, 600), (800, 0, 800, 600)]"
    using apply_monitors_sel(1) [where s = ?s and k = ?k and ok = True and memory = True] by (simp add: VENTO_MAX_MONITORS_def upt_rec)
  then show ?thesis
    using rdp_initial_monitors [of ?s True ?k True] by (simp add: VENTO_MAX_MONITORS_def Let_def)
qed

end
