(* ===== verification/Rdp_Info.thy ===== *)
theory Rdp_Info
  imports Rdp_Settings
begin

text \<open>
  What a FreeRDP session reports of itself, from
  \<open>src/backends/modules/freerdp/cpp/freerdp_session.c\<close>: \<open>op_info\<close>, \<open>op_traffic\<close>, \<open>op_decoder_status\<close> and
  \<open>vento_freerdp_version\<close>.  The lemmas show that the connection it reports is an address that,
  typed in again, leads to the same host and port.
\<close>

section \<open>Definitions\<close>

definition RDP_CODEC_ID_NSCODEC :: u32 where "RDP_CODEC_ID_NSCODEC = 1"
definition RDP_CODEC_ID_REMOTEFX :: u32 where "RDP_CODEC_ID_REMOTEFX = 3"

text \<open>A multiplication sign, in UTF-8.\<close>

definition times_sign :: string where "times_sign = [CHR 0xC3, CHR 0x97]"

definition describe_connection :: "rdp_session \<Rightarrow> string" where
  "describe_connection s =
     (let host = or_empty (rs_host s)
      in if strchr host CHR '':'' \<noteq> None then snprintf_s 128 (''['' @ host @ '']:'' @ show_int (rs_port s))
         else snprintf_s 128 (host @ '':'' @ show_int (rs_port s)))"

definition describe_layer :: "u32 \<Rightarrow> string" where
  "describe_layer selected =
     (if selected = 0 then ''RDP'' else if selected = 1 then ''TLS'' else if selected = 2 then ''NLA (CredSSP)''
      else if selected = 4 then ''RDSTLS'' else if selected = 8 then ''NLA (CredSSP, extended)'' else ''?'')"

text \<open>The bandwidth the autodetect exchange measured, if there was one.\<close>

definition describe_speed :: "u32 option \<Rightarrow> string" where
  "describe_speed detect =
     (let kbps = (case detect of Some k \<Rightarrow> k | None \<Rightarrow> 0)
      in if kbps \<ge> 1000
         then snprintf_s 64 (show_nat (unat (kbps div 1000)) @ ''.'' @ show_nat (unat ((kbps mod 1000) div 100)) @ '' Mbit/s'')
         else if kbps > 0 then snprintf_s 64 (show_nat (unat kbps) @ '' kbit/s'') else [])"

definition describe_encoding :: "rdp_session \<Rightarrow> string" where
  "describe_encoding s =
     (if rs_gfxOpen s
      then let version = rs_gfxVersion s
           in if version \<noteq> 0
              then let hardware = h_hardware (rs_h264 s)
                   in snprintf_s 64 (''EGFX '' @ show_nat (unat (drop_bit 16 version AND 0xFFFF)) @ ''.'' @
                        show_nat (unat (drop_bit 8 version AND 0xFF)) @ (if rs_gfxH264 s then '', H.264'' else []) @
                        (if \<not> rs_gfxH264 s \<or> hardware < 0 then [] else if hardware \<noteq> 0 then '' (hardware)'' else '' (software)''))
              else snprintf_s 64 ''EGFX''
      else if rs_lastCodec s = RDP_CODEC_ID_REMOTEFX then snprintf_s 64 ''RemoteFX''
      else if rs_lastCodec s = RDP_CODEC_ID_NSCODEC then snprintf_s 64 ''NSCodec''
      else snprintf_s 64 ''Bitmaps'')"

text \<open>The facts in their order; \<open>None\<close> for false.\<close>

definition rdp_op_info :: "(nat \<Rightarrow> nat \<Rightarrow> bool) \<Rightarrow> string \<Rightarrow> u32 option \<Rightarrow> rdp_session \<Rightarrow> vento_strings option" where
  "rdp_op_info malloc version detect s =
     (if \<not> rs_connected s \<or> \<not> rs_ctx s then None
      else let w = show_nat (unat (setting_uint32 s ''DesktopWidth''));
               h = show_nat (unat (setting_uint32 s ''DesktopHeight''));
               facts =
                 [snprintf_s 64 (''RDP (FreeRDP '' @ version @ '')''), describe_connection s,
                  snprintf_s 64 (describe_layer (setting_uint32 s ''SelectedProtocol'')), describe_encoding s,
                  describe_speed detect,
                  snprintf_s 64 (w @ times_sign @ h @ '', '' @ show_nat (unat (setting_uint32 s ''ColorDepth'')) @ '' bpp''),
                  snprintf_s 64 (w @ times_sign @ h @ '', 32 bpp'')];
               (ok, out, heap) = vento_strings_set malloc (map Some facts) 0
           in if ok then Some out else None)"

text \<open>\<open>stats\<close> is what \<open>freerdp_get_stats\<close> gives.\<close>

definition rdp_op_traffic :: "(u64 \<times> u64) option \<Rightarrow> rdp_session \<Rightarrow> (u64 \<times> u64) option" where
  "rdp_op_traffic stats s = (if \<not> rs_connected s \<or> \<not> rs_ctx s then None else stats)"

definition rdp_op_decoder_status :: "nat option \<Rightarrow> rdp_session \<Rightarrow> bytes option" where
  "rdp_op_decoder_status len s = vento_h264_status (rs_h264 s) len"

definition vento_freerdp_version :: "string \<Rightarrow> string" where
  "vento_freerdp_version version = snprintf_s 64 (''FreeRDP '' @ version)"

section \<open>Properties\<close>

lemma show_nat_length: "n < 10 ^ Suc k \<Longrightarrow> length (show_nat n) \<le> Suc k"
proof (induction k arbitrary: n)
  case (Suc k)
  then have "n div 10 < 10 ^ Suc k" by (simp add: less_mult_imp_div_less)
  with Suc.IH show ?case by (simp add: show_nat.simps [of n])
qed (simp add: show_nat.simps)

lemma strings_set_items:
  "(\<And>i n. malloc i n) \<Longrightarrow>
   vento_strings_set malloc (map Some vs) 0 = (True, \<lparr>items = Some vs, count = length vs\<rparr>, 1 + int (length vs))"
  using strings_fill_all [of malloc "map Some vs" 0 "[]"]
  by (simp add: vento_strings_set_def comp_def Let_def)

text \<open>A host as \<open>splitAddress\<close> leaves it: a plain one, or an IPv6 literal.\<close>

definition host_form :: "string \<Rightarrow> bool" where
  "host_form h \<longleftrightarrow>
     h \<noteq> [] \<and> CHR ''/'' \<notin> set h \<and> hd h \<noteq> CHR ''|'' \<and> length h \<le> 119 \<and>
     (if CHR '':'' \<in> set h then CHR '']'' \<notin> set h else plain_host h)"

lemma describe_connection_reads:
  assumes "rs_host s = Some h" and "host_form h" and "1 \<le> rs_port s" and "rs_port s \<le> 65535"
  shows "rdp_splitAddress n (describe_connection s) port = (h, rs_port s, [])"
proof -
  define p where "p = nat (rs_port s)"
  have p: "rs_port s = int p" "1 \<le> p" "p \<le> 65535" using assms(3,4) by (simp_all add: p_def)
  have len: "length (show_nat p) \<le> 5" using show_nat_length [of p 4] p(3) by simp
  show ?thesis
  proof (cases "CHR '':'' \<in> set h")
    case True
    then have "strchr h CHR '':'' \<noteq> None" using strchr_None_iff by blast
    then have "describe_connection s = ''['' @ h @ '']:'' @ show_nat p"
      using assms(1,2) len by (simp add: describe_connection_def or_empty_def show_int_def p(1) Let_def host_form_def snprintf_s_id)
    then show ?thesis using rdp_split_port(2) [OF p(2,3), of h n port] assms(2) True
      by (simp only: p(1) host_form_def if_True simp_thms)
  next
    case False
    then have "strchr h CHR '':'' = None" using strchr_None_iff by blast
    then have "describe_connection s = h @ '':'' @ show_nat p"
      using assms(1,2) len by (simp add: describe_connection_def or_empty_def show_int_def p(1) Let_def host_form_def snprintf_s_id)
    then show ?thesis using rdp_split_port(1) [OF p(2,3), of h n port] assms(2) False
      by (simp only: p(1) host_form_def if_False simp_thms)
  qed
qed

lemma H_notin_show_nat: "CHR ''H'' \<notin> set (show_nat n)"
  using show_nat_digits [of n] by (auto simp: list_all_iff is_digit_def)

lemma encoding_H: "CHR ''H'' \<in> set (describe_encoding s) \<Longrightarrow> rs_gfxOpen s \<and> rs_gfxH264 s"
proof (rule ccontr)
  assume H: "CHR ''H'' \<in> set (describe_encoding s)" and no: "\<not> (rs_gfxOpen s \<and> rs_gfxH264 s)"
  have "CHR ''H'' \<notin> set (snprintf_s 64 t)" if "CHR ''H'' \<notin> set t" for t
    using that set_take_subset [of 63 t] by (auto simp: snprintf_s_def)
  then show False
    using H no H_notin_show_nat
    by (cases "rs_gfxOpen s") (auto simp: describe_encoding_def Let_def split: if_splits)
qed

text \<open>
  A connected session reports seven facts, none before and none when memory runs out.  The
  connection among them is an address as it would be typed: read again it gives the same host
  and port, IPv6 literals included.  H.264 is only named as the encoding when the server
  confirmed it on an open pipeline.
\<close>

theorem rdp_info_reads_back:
  assumes "rs_connected s" and "rs_ctx s" and "\<And>i n. malloc i n"
    and "rs_host s = Some h" and "host_form h" and "1 \<le> rs_port s" and "rs_port s \<le> 65535"
  shows "\<exists>facts. rdp_op_info malloc version detect s = Some \<lparr>items = Some facts, count = 7\<rparr> \<and> length facts = 7 \<and>
    rdp_splitAddress 160 (facts ! 1) 3389 = (h, rs_port s, []) \<and>
    (\<forall>a b. facts ! 3 = a @ '', H.264'' @ b \<longrightarrow> rs_gfxOpen s \<and> rs_gfxH264 s)"
proof -
  have enc: "rs_gfxOpen s \<and> rs_gfxH264 s" if "describe_encoding s = a @ '', H.264'' @ b" for a b
    using that by (intro encoding_H) simp
  show ?thesis
    using assms(1,2) strings_set_items [of malloc, OF assms(3)] describe_connection_reads [OF assms(4-7)] enc
    by (auto simp: rdp_op_info_def Let_def)
qed

theorem rdp_info_reads_back_witness:
  "\<exists>facts. rdp_op_info (\<lambda>_ _. True) ''3.32.0'' None (rdp_calloc\<lparr>rs_connected := True, rs_ctx := True,
       rs_host := Some ''fe80::1'', rs_port := 3390\<rparr>) = Some \<lparr>items = Some facts, count = 7\<rparr> \<and>
     rdp_splitAddress 160 (facts ! 1) 3389 = (''fe80::1'', 3390, [])"
  using rdp_info_reads_back [of "rdp_calloc\<lparr>rs_connected := True, rs_ctx := True, rs_host := Some ''fe80::1'', rs_port := 3390\<rparr>"
      "\<lambda>_ _. True" "''fe80::1''" "''3.32.0''" None]
  by (simp add: host_form_def) blast

end
