(* ===== verification/Rdp_Thread.thy ===== *)
theory Rdp_Thread
  imports Rdp_Status Rdp_Channels Rdp_Info
begin

text \<open>
  The calls other threads make and the protocol thread of a FreeRDP session, from
  \<open>src/backends/modules/freerdp/cpp/freerdp_session.c\<close>: the operations of its table, the two
  prompts that block the thread (\<open>onAuthenticate\<close>, \<open>onVerifyX509Certificate\<close>), the hooks of the
  connection (\<open>onPostConnect\<close>, \<open>onPostDisconnect\<close>), \<open>protocolThread\<close> and \<open>op_destroy\<close>.

  Other threads are a schedule, a list of batches of steps: calls of the platform, steps of the
  status thread, and the display-control capabilities, which arrive on a thread of the library.
  A batch is performed before each hook and each iteration of a loop, and a blocked thread
  performs them until what it waits for is there.  A function of the thread returns \<open>None\<close> when
  the schedule (or, for the library, its fuel) runs out, which is the thread still running.  What
  the library does while it connects, handles events or disconnects is a parameter: from the
  results of the hooks it called so far, the next hook, or the result it returns.
\<close>

section \<open>Operations\<close>

definition rdp_op_answer_credentials ::
  "string option \<Rightarrow> string option \<Rightarrow> string option \<Rightarrow> rdp_session \<Rightarrow> rdp_session"
where
  "rdp_op_answer_credentials user domain password s =
     rdp_wake (s\<lparr>rs_credUser := user, rs_credDomain := domain, rs_credPass := password, rs_credAnswered := True,
                 rs_quit := (rs_quit s \<or> password = None)\<rparr>)"

definition rdp_op_answer_trust :: "bool \<Rightarrow> rdp_session \<Rightarrow> rdp_session" where
  "rdp_op_answer_trust accept s =
     rdp_wake (s\<lparr>rs_trustAccepted := accept, rs_trustAnswered := True, rs_quit := (rs_quit s \<or> \<not> accept)\<rparr>)"

definition rdp_stop :: "rdp_session \<Rightarrow> rdp_session" where
  "rdp_stop s =
     (let s = s\<lparr>rs_quit := True\<rparr>;
          s = (if rs_ctx s then rdp_emit AbortConnect s else s)
      in rdp_wake s)"

text \<open>The calls of the table that change the session, and \<open>vento_freerdp_set_monitor_count\<close>.\<close>

datatype rdp_op =
    Rdp_pointer int int int
  | Rdp_key_down u32 int
  | Rdp_key_up int
  | Rdp_release_all_keys
  | Rdp_focus bool
  | Rdp_view_only bool
  | Rdp_request_desktop_size int int
  | Rdp_request_layout "(int \<times> quad) list"
  | Rdp_clipboard "nat \<Rightarrow> bool" "bytes \<Rightarrow> u16 list option" "bytes option"
  | Rdp_set_monitor_count int
  | Rdp_answer_credentials "string option" "string option" "string option"
  | Rdp_answer_trust bool
  | Rdp_disconnect

fun rdp_op_step :: "rdp_op \<Rightarrow> rdp_session \<Rightarrow> rdp_session" where
  "rdp_op_step (Rdp_pointer x y m) s = rdp_post s (RDP_POINTER x y m)"
| "rdp_op_step (Rdp_key_down k i) s = rdp_post s (RDP_KEY_DOWN k i)"
| "rdp_op_step (Rdp_key_up i) s = rdp_post s (RDP_KEY_UP i)"
| "rdp_op_step Rdp_release_all_keys s = rdp_post s RDP_RELEASE_KEYS"
| "rdp_op_step (Rdp_focus f) s = rdp_post s (RDP_FOCUS f)"
| "rdp_op_step (Rdp_view_only v) s = rdp_op_view_only v s"
| "rdp_op_step (Rdp_request_desktop_size w h) s = rdp_op_request_desktop_size w h s"
| "rdp_op_step (Rdp_request_layout screens) s = rdp_op_request_layout screens s"
| "rdp_op_step (Rdp_clipboard malloc to_wchar t) s = rdp_op_clipboard malloc to_wchar t s"
| "rdp_op_step (Rdp_set_monitor_count n) s = vento_freerdp_set_monitor_count n s"
| "rdp_op_step (Rdp_answer_credentials u d p) s = rdp_op_answer_credentials u d p s"
| "rdp_op_step (Rdp_answer_trust a) s = rdp_op_answer_trust a s"
| "rdp_op_step Rdp_disconnect s = rdp_stop s"

datatype rdp_other =
    Platform rdp_op
  | Status_takes timespec
  | Status_reports
  | Display_caps u32 u32 u32

fun rdp_other_step :: "rdp_other \<Rightarrow> rdp_session \<Rightarrow> rdp_session" where
  "rdp_other_step (Platform a) s = rdp_op_step a s"
| "rdp_other_step (Status_takes now) s =
     (if rs_statusStarted s \<and> rs_statusCalling s = None then status_take now s else s)"
| "rdp_other_step Status_reports s = status_report s"
| "rdp_other_step (Display_caps n a b) s = onDisplayControlCaps n a b s"

type_synonym rdp_schedule = "rdp_other list list"

fun rdp_others :: "rdp_schedule \<Rightarrow> rdp_session \<Rightarrow> rdp_schedule \<times> rdp_session" where
  "rdp_others [] s = ([], s)"
| "rdp_others (b # w) s = (w, fold rdp_other_step b s)"

section \<open>Prompts\<close>

text \<open>\<open>while (!done) pthread_cond_wait(...)\<close>\<close>

fun rdp_wait :: "(rdp_session \<Rightarrow> bool) \<Rightarrow> rdp_schedule \<Rightarrow> rdp_session \<Rightarrow> (rdp_schedule \<times> rdp_session) option" where
  "rdp_wait P [] s = (if P s then Some ([], s) else None)"
| "rdp_wait P (b # w) s = (if P s then Some (b # w, s) else rdp_wait P w (fold rdp_other_step b s))"

text \<open>A user name, a password and a domain as the library holds them, NULL or not.\<close>

type_synonym login = "string option \<times> string option \<times> string option"

definition given :: "string option \<Rightarrow> bool" where
  "given t \<longleftrightarrow> t \<noteq> None \<and> t \<noteq> Some []"

definition onAuthenticate ::
  "login \<Rightarrow> rdp_schedule \<Rightarrow> rdp_session \<Rightarrow> (bool \<times> login \<times> rdp_schedule \<times> rdp_session) option"
where
  "onAuthenticate l w s =
     (let (username, password, domain) = l
      in if given username \<and> given password then Some (True, l, w, s)
         else let s = s\<lparr>rs_credAnswered := False, rs_credUser := None, rs_credDomain := None, rs_credPass := None\<rparr>;
                  s = rdp_emit (RdpCallback (Credentials_needed True)) s
              in case rdp_wait (\<lambda>s. rs_credAnswered s \<or> rs_quit s) w s of
                   None \<Rightarrow> None
                 | Some (w, s) \<Rightarrow>
                     (case rs_credPass s of
                        None \<Rightarrow> Some (False, l, w, s)
                      | Some p \<Rightarrow>
                          Some (True, (Some (or_empty (rs_credUser s)), Some p, Some (or_empty (rs_credDomain s))), w, s)))"

text \<open>
  \<open>fingerprint\<close> is what the library makes of the chain as PEM, \<open>None\<close> when it cannot parse it;
  \<open>memory\<close> is whether the copy that adds a terminator can be made.
\<close>

definition onVerifyX509Certificate ::
  "(bytes \<Rightarrow> string option) \<Rightarrow> bool \<Rightarrow> bytes option \<Rightarrow> rdp_schedule \<Rightarrow> rdp_session \<Rightarrow>
   (int \<times> rdp_schedule \<times> rdp_session) option"
where
  "onVerifyX509Certificate fingerprint memory pem w s =
     (case (if memory then pem else None) of
        None \<Rightarrow> Some (0, w, s)
      | Some chain \<Rightarrow>
          (case fingerprint chain of
             None \<Rightarrow> Some (0, w, s)
           | Some f \<Rightarrow>
               let s = s\<lparr>rs_trustAnswered := False, rs_trustAccepted := False\<rparr>;
                   s = rdp_emit (RdpCallback (Trust_needed f)) s
               in case rdp_wait (\<lambda>s. rs_trustAnswered s \<or> rs_quit s) w s of
                    None \<Rightarrow> None
                  | Some (w, s) \<Rightarrow> Some (if rs_trustAccepted s \<and> \<not> rs_quit s then 1 else 0, w, s)))"

section \<open>The connection\<close>

text \<open>
  \<open>gdi\<close> is what \<open>gdi_init\<close> makes, \<open>None\<close> when it fails; \<open>pointer\<close> whether \<open>registerPointer\<close> finds a
  prototype, \<open>draws\<close> whether the GDI has a \<open>SurfaceBits\<close> handler.
\<close>

definition onPostConnect :: "rdpGdi option \<Rightarrow> bool \<Rightarrow> bool \<Rightarrow> bool \<Rightarrow> rdp_session \<Rightarrow> bool \<times> rdp_session" where
  "onPostConnect gdi pointer memory draws s =
     (if rs_connected s then (True, s)
      else let w = setting_uint32 s ''DesktopWidth''; h = setting_uint32 s ''DesktopHeight'';
               s = rdp_emit GdiInit s
           in case gdi of
                None \<Rightarrow> (False, s)
              | Some g \<Rightarrow>
                  let s = s\<lparr>rs_gdi := Some g\<rparr>
                  in if \<not> pointer then (False, s)
                     else let (ok, s) = allocFramebuffer memory (sint w) (sint h) s
                          in if \<not> ok then (False, s)
                             else (True, rdp_emit (RdpCallback (Connected (sint w) (sint h)))
                                     (s\<lparr>rs_gdiSurfaceBits := draws, rs_connected := True\<rparr>)))"

definition onPostDisconnect :: "rdp_session \<Rightarrow> rdp_session" where
  "onPostDisconnect s = (rdp_emit GdiFree s)\<lparr>rs_gdi := None\<rparr>"

text \<open>What the library calls, and what it is answered.\<close>

datatype rdp_hook =
    Post_connect "rdpGdi option" bool bool bool
  | Post_disconnect
  | Authenticate login
  | Verify_certificate bool "bytes option"
  | State_changed timespec bool int
  | Channel_connected string bool
  | Channel_disconnected string
  | Display rdp_display
  | Surface_bits bool "u32 option"
  | Pointer_set bool "u32 list option" rdpPointer
  | Pointer_null
  | Pointer_default
  | Pointer_position
  | Remote_monitors "monitor_def list"
  | Reset_graphics u32 "monitor_def list option"
  | Caps_confirm bool "gfx_capset option"
  | Surface_command u32 "h264_call list" "h264_context list"
  | Monitor_ready u32 u32
  | Server_format_list u32 u32 "u32 list"
  | Format_data_request u32 u32
  | Format_data_response bool "bytes option"

datatype rdp_result = Done | Answer bool | Login bool login | Trust int | Code u32

text \<open>The library's functions a hook uses.\<close>

record rdp_lib =
  rl_malloc :: "nat \<Rightarrow> bool"
  rl_states :: connection_states
  rl_fingerprint :: "bytes \<Rightarrow> string option"
  rl_to_utf8 :: "u16 list \<Rightarrow> bytes option"

fun rdp_run_hook ::
  "rdp_lib \<Rightarrow> rdp_hook \<Rightarrow> rdp_schedule \<Rightarrow> rdp_session \<Rightarrow> (rdp_result \<times> rdp_schedule \<times> rdp_session) option"
where
  "rdp_run_hook lib (Post_connect gdi pointer memory draws) w s =
     (let (ok, s) = onPostConnect gdi pointer memory draws s in Some (Answer ok, w, s))"
| "rdp_run_hook lib Post_disconnect w s = Some (Done, w, onPostDisconnect s)"
| "rdp_run_hook lib (Authenticate l) w s = map_option (\<lambda>(ok, l, w, s). (Login ok l, w, s)) (onAuthenticate l w s)"
| "rdp_run_hook lib (Verify_certificate memory pem) w s =
     map_option (\<lambda>(r, w, s). (Trust r, w, s)) (onVerifyX509Certificate (rl_fingerprint lib) memory pem w s)"
| "rdp_run_hook lib (State_changed now thread state) w s = Some (Done, w, onStateChanged (rl_states lib) now thread state s)"
| "rdp_run_hook lib (Channel_connected name has) w s = Some (Done, w, onChannelConnected name has s)"
| "rdp_run_hook lib (Channel_disconnected name) w s = Some (Done, w, onChannelDisconnected name s)"
| "rdp_run_hook lib (Display d) w s = Some (Done, w, rdp_display_step s d)"
| "rdp_run_hook lib (Surface_bits draws cmd) w s = (let (ok, s) = onSurfaceBits draws cmd s in Some (Answer ok, w, s))"
| "rdp_run_hook lib (Pointer_set memory shape p) w s = Some (Done, w, onPointerSet memory shape p s)"
| "rdp_run_hook lib Pointer_null w s = Some (Done, w, onPointerSetNull s)"
| "rdp_run_hook lib Pointer_default w s = Some (Done, w, onPointerSetDefault s)"
| "rdp_run_hook lib Pointer_position w s = Some (Done, w, onPointerPosition s)"
| "rdp_run_hook lib (Remote_monitors ms) w s = Some (Done, w, onRemoteMonitors ms s)"
| "rdp_run_hook lib (Reset_graphics rc ms) w s = (let (rc, s) = onGfxResetGraphics rc ms s in Some (Code rc, w, s))"
| "rdp_run_hook lib (Caps_confirm gdi confirm) w s = Some (Done, w, onGfxCapsConfirm gdi confirm s)"
| "rdp_run_hook lib (Surface_command rc calls cs) w s =
     (let (rc, cs, s) = onGfxSurfaceCommand rc calls cs s in Some (Code rc, w, s))"
| "rdp_run_hook lib (Monitor_ready a b) w s = (let (rc, s) = onCliprdrMonitorReady a b s in Some (Code rc, w, s))"
| "rdp_run_hook lib (Server_format_list a b fs) w s =
     (let (rc, s) = onCliprdrServerFormatList a b fs s in Some (Code rc, w, s))"
| "rdp_run_hook lib (Format_data_request rc f) w s =
     (let (rc, s) = onCliprdrServerFormatDataRequest (rl_malloc lib) rc f s in Some (Code rc, w, s))"
| "rdp_run_hook lib (Format_data_response failed bs) w s =
     (let (rc, s) = onCliprdrServerFormatDataResponse (rl_to_utf8 lib) failed bs s in Some (Code rc, w, s))"

type_synonym rdp_library = "rdp_result list \<Rightarrow> rdp_hook + bool"

fun rdp_run_library ::
  "rdp_lib \<Rightarrow> rdp_library \<Rightarrow> nat \<Rightarrow> rdp_result list \<Rightarrow> rdp_schedule \<Rightarrow> rdp_session \<Rightarrow>
   (bool \<times> rdp_schedule \<times> rdp_session) option"
where
  "rdp_run_library lib nxt 0 rs w s = None"
| "rdp_run_library lib nxt (Suc fuel) rs w s =
     (let (w, s) = rdp_others w s
      in case nxt rs of
           Inr ok \<Rightarrow> Some (ok, w, s)
         | Inl h \<Rightarrow>
             (case rdp_run_hook lib h w s of
                None \<Rightarrow> None
              | Some (r, w, s) \<Rightarrow> rdp_run_library lib nxt fuel (rs @ [r]) w s))"

section \<open>The protocol thread\<close>

text \<open>
  One turn of the main loop: whether the library wants to disconnect, how many handles it waits
  on, whether the wait failed, how long the drain may take and what other threads do between two
  of its commands, and the library's handling of what arrived.
\<close>

record rdp_turn_env =
  rt_disconnect :: bool
  rt_handles :: nat
  rt_wait_failed :: bool
  rt_format_list :: u32
  rt_drain_fuel :: nat
  rt_during :: "nat \<Rightarrow> rdp_other list"
  rt_events :: rdp_library
  rt_fuel :: nat

text \<open>The flag says whether the loop goes on.\<close>

definition rdp_turn ::
  "rdp_lib \<Rightarrow> rdp_turn_env \<Rightarrow> rdp_schedule \<Rightarrow> rdp_session \<Rightarrow> (bool \<times> rdp_schedule \<times> rdp_session) option"
where
  "rdp_turn lib t w s =
     (if rt_disconnect t then Some (False, w, s)
      else let (w, s) = rdp_others w s
      in if rs_quit s \<or> rt_handles t = 0 then Some (False, w, s)
         else let (w, s) = rdp_others w s
         in if rt_wait_failed t then Some (False, w, s)
            else let s = s\<lparr>rs_wake := False\<rparr>
            in case drainCommands (rt_format_list t) (rt_drain_fuel t) (\<lambda>n. fold rdp_other_step (rt_during t n)) s of
                 None \<Rightarrow> None
               | Some s \<Rightarrow> rdp_run_library lib (rt_events t) (rt_fuel t) [] w s)"

fun rdp_loop ::
  "rdp_lib \<Rightarrow> rdp_turn_env list \<Rightarrow> rdp_schedule \<Rightarrow> rdp_session \<Rightarrow> (rdp_schedule \<times> rdp_session) option"
where
  "rdp_loop lib [] w s = None"
| "rdp_loop lib (t # ts) w s =
     (case rdp_turn lib t w s of
        None \<Rightarrow> None
      | Some (go, w, s) \<Rightarrow> if go then rdp_loop lib ts w s else Some (w, s))"

text \<open>
  Everything outside the session that the thread meets.  \<open>re_error\<close> is the library's last error
  after a failed connect: whether it is one of a wrong name or password, and its text;
  \<open>re_last_error\<close> is the one after a disconnect, \<open>None\<close> for success.
\<close>

record rdp_env =
  re_lib :: rdp_lib
  re_constants :: rdp_constants
  re_static_ok :: bool
  re_monitors_ok :: bool
  re_client_start :: bool
  re_connect :: rdp_library
  re_connect_fuel :: nat
  re_error :: "bool \<times> string option"
  re_turns :: "rdp_turn_env list"
  re_disconnect :: rdp_library
  re_disconnect_fuel :: nat
  re_last_error :: "string option option"

definition rdp_close :: "rdp_env \<Rightarrow> string \<Rightarrow> rdp_session \<Rightarrow> rdp_session" where
  "rdp_close ev why s = rdp_fireClosed (rl_malloc (re_lib ev)) (Some (bytes_of why)) s"

definition connect_failed :: "rdp_env \<Rightarrow> rdp_session \<Rightarrow> string" where
  "connect_failed ev s =
     (if rs_quit s then []
      else if fst (re_error ev) then VENTO_LOGON_FAILED
      else case snd (re_error ev) of Some detail \<Rightarrow> detail | None \<Rightarrow> ''The connection failed'')"

text \<open>After the loop: the disconnect and what is reported, \<open>asked\<close> read before it.\<close>

definition rdp_end :: "rdp_env \<Rightarrow> rdp_schedule \<Rightarrow> rdp_session \<Rightarrow> (rdp_schedule \<times> rdp_session) option" where
  "rdp_end ev w s =
     (let (w, s) = rdp_others w s;
          asked = rs_quit s;
          s = rdp_emit Disconnect (s\<lparr>rs_connected := False\<rparr>)
      in case rdp_run_library (re_lib ev) (re_disconnect ev) (re_disconnect_fuel ev) [] w s of
           None \<Rightarrow> None
         | Some (_, w, s) \<Rightarrow>
             Some (w, rdp_close ev (if asked then [] else case re_last_error ev of
                                     Some (Some detail) \<Rightarrow> detail
                                   | _ \<Rightarrow> ''The connection was lost'') s))"

definition rdp_protocolThread :: "rdp_env \<Rightarrow> rdp_schedule \<Rightarrow> rdp_session \<Rightarrow> (rdp_schedule \<times> rdp_session) option" where
  "rdp_protocolThread ev w s =
     (if rs_addressError s \<noteq> [] then Some (w, rdp_close ev (rs_addressError s) s)
      else let s = applySettings (re_constants ev) (re_static_ok ev) (re_monitors_ok ev) s;
               s = rdp_emit ClientStart s
      in if \<not> re_client_start ev then Some (w, rdp_close ev ''Could not start the connection'' s)
         else let s = rdp_emit Connect (s\<lparr>rs_started := True\<rparr>)
         in case rdp_run_library (re_lib ev) (re_connect ev) (re_connect_fuel ev) [] w s of
              None \<Rightarrow> None
            | Some (False, w, s) \<Rightarrow>
                let (w, s) = rdp_others w s in Some (w, rdp_close ev (connect_failed ev s) s)
            | Some (True, w, s) \<Rightarrow>
                (case rdp_loop (re_lib ev) (re_turns ev) w s of
                   None \<Rightarrow> None
                 | Some (w, s) \<Rightarrow> rdp_end ev w s))"

text \<open>
  The rest of \<open>op_destroy\<close>, once \<open>stop\<close> was called and the join has waited for the thread to
  return; of the memory it frees, only the decoders' table is state.
\<close>

definition rdp_op_destroy :: "rdp_session \<Rightarrow> rdp_session" where
  "rdp_op_destroy s =
     (let s = stopStatus s;
          s = (if rs_ctx s
               then (rdp_emit ContextFree (if rs_started s then rdp_emit ClientStop s else s))\<lparr>rs_ctx := False\<rparr> else s)
      in s\<lparr>rs_h264 := vento_h264_release (rs_h264 s)\<rparr>)"

section \<open>What every step keeps\<close>

text \<open>
  Most steps are calm: they report anything but the end, and leave alone the flags of the end
  and of the status thread.
\<close>

fun open_event :: "rdp_event \<Rightarrow> bool" where
  "open_event (RdpCallback c) = (\<not> is_closed c)"
| "open_event _ = True"

definition calm :: "rdp_session \<Rightarrow> rdp_session \<Rightarrow> bool" where
  "calm s s' \<longleftrightarrow>
     rs_closedReported s' = rs_closedReported s \<and> rs_statusCalling s' = rs_statusCalling s \<and>
     rs_statusStarted s' = rs_statusStarted s \<and> rs_quit s' = rs_quit s \<and>
     (\<exists>es. rs_trace s' = rs_trace s @ es \<and> list_all open_event es)"

lemma calm_refl [simp]: "calm s s"
  by (simp add: calm_def)

lemma calm_trans: "calm a b \<Longrightarrow> calm b c \<Longrightarrow> calm a c"
  by (auto simp: calm_def)

text \<open>Rules by which the simplifier reduces a calm step to the steps it is made of.\<close>

named_theorems calms "steps that keep a calm step calm"

lemma calm_update [calms]:
  "calm s (t\<lparr>rs_keys := x0\<rparr>) = calm s t"
  "calm s (t\<lparr>rs_shiftHeld := x1\<rparr>) = calm s t"
  "calm s (t\<lparr>rs_buttons := x2\<rparr>) = calm s t"
  "calm s (t\<lparr>rs_wantLayout := x3\<rparr>) = calm s t"
  "calm s (t\<lparr>rs_heldWidth := x4\<rparr>) = calm s t"
  "calm s (t\<lparr>rs_heldHeight := x5\<rparr>) = calm s t"
  "calm s (t\<lparr>rs_clipOut := x6\<rparr>) = calm s t"
  "calm s (t\<lparr>rs_askedLayout := x7\<rparr>) = calm s t"
  "calm s (t\<lparr>rs_serverLayout := x8\<rparr>) = calm s t"
  "calm s (t\<lparr>rs_wake := x9\<rparr>) = calm s t"
  "calm s (t\<lparr>rs_dropped := x10\<rparr>) = calm s t"
  "calm s (t\<lparr>rs_ring := x11\<rparr>) = calm s t"
  "calm s (t\<lparr>rs_gdi := x12\<rparr>) = calm s t"
  "calm s (t\<lparr>rs_fb := x13\<rparr>) = calm s t"
  "calm s (t\<lparr>rs_settings := x14\<rparr>) = calm s t"
  "calm s (t\<lparr>rs_monitorDefs := x15\<rparr>) = calm s t"
  "calm s (t\<lparr>rs_lastCodec := x16\<rparr>) = calm s t"
  "calm s (t\<lparr>rs_connected := x17\<rparr>) = calm s t"
  "calm s (t\<lparr>rs_started := x18\<rparr>) = calm s t"
  "calm s (t\<lparr>rs_viewOnly := x19\<rparr>) = calm s t"
  "calm s (t\<lparr>rs_canResize := x20\<rparr>) = calm s t"
  "calm s (t\<lparr>rs_dispMonitors := x21\<rparr>) = calm s t"
  "calm s (t\<lparr>rs_dispArea := x22\<rparr>) = calm s t"
  "calm s (t\<lparr>rs_credAnswered := x23\<rparr>) = calm s t"
  "calm s (t\<lparr>rs_credUser := x24\<rparr>) = calm s t"
  "calm s (t\<lparr>rs_credDomain := x25\<rparr>) = calm s t"
  "calm s (t\<lparr>rs_credPass := x26\<rparr>) = calm s t"
  "calm s (t\<lparr>rs_trustAnswered := x27\<rparr>) = calm s t"
  "calm s (t\<lparr>rs_trustAccepted := x28\<rparr>) = calm s t"
  "calm s (t\<lparr>rs_statusPending := x29\<rparr>) = calm s t"
  "calm s (t\<lparr>rs_statusShown := x30\<rparr>) = calm s t"
  "calm s (t\<lparr>rs_statusDue := x31\<rparr>) = calm s t"
  "calm s (t\<lparr>rs_cliprdr := x32\<rparr>) = calm s t"
  "calm s (t\<lparr>rs_disp := x33\<rparr>) = calm s t"
  "calm s (t\<lparr>rs_gfxOpen := x34\<rparr>) = calm s t"
  "calm s (t\<lparr>rs_gfxVersion := x35\<rparr>) = calm s t"
  "calm s (t\<lparr>rs_gfxH264 := x36\<rparr>) = calm s t"
  "calm s (t\<lparr>rs_gdiSurfaceBits := x37\<rparr>) = calm s t"
  "calm s (t\<lparr>rs_gdiResetGraphics := x38\<rparr>) = calm s t"
  "calm s (t\<lparr>rs_gdiSurfaceCommand := x39\<rparr>) = calm s t"
  "calm s (t\<lparr>rs_gfxCaps := x40\<rparr>) = calm s t"
  "calm s (t\<lparr>rs_gfxRestarting := x41\<rparr>) = calm s t"
  "calm s (t\<lparr>rs_h264 := x42\<rparr>) = calm s t"
  "calm s (t\<lparr>rs_monitors := x43\<rparr>) = calm s t"
  "calm s (t\<lparr>rs_sawPointerPosition := x44\<rparr>) = calm s t"
  "calm s (t\<lparr>rs_ctx := x45\<rparr>) = calm s t"
  by (simp_all add: calm_def)

lemma calm_emit [calms]: "calm s t \<Longrightarrow> open_event e \<Longrightarrow> calm s (rdp_emit e t)"
  by (auto simp: calm_def rdp_emit_def)

lemma calm_post [calms]: "calm s t \<Longrightarrow> calm s (rdp_post t c)"
  by (subst rdp_post_eq) (simp add: calms)

lemma calm_scancode [calms]: "calm s t \<Longrightarrow> calm s (sendScancode c d t)"
  by (simp add: sendScancode_def calms Let_def)

lemma calm_releaseAt [calms]: "calm s t \<Longrightarrow> calm s (releaseAt i t)"
  by (simp add: releaseAt_def calms Let_def)

lemma calm_fold: "(\<And>x t. x \<in> set xs \<Longrightarrow> calm s t \<Longrightarrow> calm s (f x t)) \<Longrightarrow> calm s t \<Longrightarrow> calm s (fold f xs t)"
  by (induction xs arbitrary: t) simp_all

lemma calm_release_loop [calms]: "calm s t \<Longrightarrow> calm s (release_loop n t)"
  by (induction n arbitrary: t) (simp_all add: calms)

lemma calm_sendLayout [calms]: "calm s t \<Longrightarrow> calm s (rdp_sendLayout rects t)"
  by (simp add: rdp_sendLayout_def calms Let_def split: prod.splits)

lemma calm_send_buttons [calms]: "calm s t \<Longrightarrow> (\<And>f. open_event (ev f)) \<Longrightarrow> calm s (send_buttons ev d table p m t)"
  unfolding send_buttons_def by (rule calm_fold) (auto simp: calms)

lemma calm_send_wheel [calms]: "calm s t \<Longrightarrow> calm s (send_wheel x y p m t)"
  unfolding send_wheel_def by (rule calm_fold) (auto simp: calms)

lemma calm_keys [calms]:
  "calm s t \<Longrightarrow> calm s (doKeyDown keysym k t)" "calm s t \<Longrightarrow> calm s (doKeyUp k t)" "calm s t \<Longrightarrow> calm s (doReleaseAll t)"
  by (simp_all add: doKeyDown_def doKeyUp_def doReleaseAll_def calms Let_def split: prod.splits option.splits)

lemma calm_runCmd [calms]: "calm s t \<Longrightarrow> calm s (rdp_runCmd rc c t)"
  by (cases c) (simp_all add: doPointer_def doClipboard_def sendFormatList_def doFocus_def doResize_def doLayout_def
      holdUntilCaps_def calms Let_def)

lemma calm_damage [calms]:
  "calm s t \<Longrightarrow> calm s (fold (\<lambda>r. rdp_emit (RdpCallback (damage_callback r))) rs t)"
  by (rule calm_fold) (simp_all add: calms damage_callback_def)

lemma calm_endPaint [calms]: "calm s t \<Longrightarrow> calm s (onEndPaint t)"
  by (simp add: onEndPaint_def calms Let_def split: option.splits prod.splits)

lemma calm_display [calms]: "calm s t \<Longrightarrow> calm s (rdp_display_step t d)"
  by (cases d) (simp_all add: onBeginPaint_def onDesktopResize_def allocFramebuffer_def calms Let_def split: option.splits)

lemma calm_pointer [calms]:
  "calm s t \<Longrightarrow> calm s (onPointerSet memory shape p t)" "calm s t \<Longrightarrow> calm s (onPointerSetNull t)"
  "calm s t \<Longrightarrow> calm s (onPointerSetDefault t)" "calm s t \<Longrightarrow> calm s (onPointerPosition t)"
  by (simp_all add: onPointerSet_def onPointerSetNull_def onPointerSetDefault_def onPointerPosition_def fireCursor_def
      calms Let_def split: option.splits)

lemma calm_layout [calms]:
  "calm s t \<Longrightarrow> calm s (onRemoteMonitors ms t)" "calm s t \<Longrightarrow> calm s (snd (onGfxResetGraphics rc ds t))"
  "calm s t \<Longrightarrow> calm s (onDisplayControlCaps n a b t)"
  by (simp_all add: onRemoteMonitors_def onGfxResetGraphics_def heardLayout_def onDisplayControlCaps_def calms Let_def
      split: option.splits)

lemma calm_channels [calms]:
  "calm s t \<Longrightarrow> calm s (onChannelConnected name has t)" "calm s t \<Longrightarrow> calm s (onChannelDisconnected name t)"
  "calm s t \<Longrightarrow> calm s (onGfxCapsConfirm gdi confirm t)" "calm s t \<Longrightarrow> calm s (gfx_restart t)"
  by (simp_all add: onChannelConnected_def onChannelDisconnected_def wireCliprdr_def onGfxCapsConfirm_def gfx_restart_def
      calms Let_def split: option.splits)

lemma calm_surface [calms]: "calm s t \<Longrightarrow> calm s (snd (snd (onGfxSurfaceCommand rc calls cs t)))"
  by (simp add: onGfxSurfaceCommand_def calms Let_def split: prod.splits)

lemma calm_clipboard [calms]:
  "calm s t \<Longrightarrow> calm s (snd (onCliprdrMonitorReady a b t))" "calm s t \<Longrightarrow> calm s (snd (onCliprdrServerFormatList a b fs t))"
  "calm s t \<Longrightarrow> calm s (snd (onCliprdrServerFormatDataRequest malloc rc f t))"
  "calm s t \<Longrightarrow> calm s (snd (onCliprdrServerFormatDataResponse to_utf8 failed bs t))"
  "calm s t \<Longrightarrow> calm s (rdp_op_clipboard malloc to_wchar u t)"
  by (simp_all add: onCliprdrMonitorReady_def sendFormatList_def onCliprdrServerFormatList_def
      onCliprdrServerFormatDataRequest_def onCliprdrServerFormatDataResponse_def fireClipboard_def rdp_op_clipboard_def
      calms Let_def split: option.splits)

lemma calm_connection [calms]:
  "calm s t \<Longrightarrow> calm s (snd (onPostConnect gdi p memory draws t))" "calm s t \<Longrightarrow> calm s (onPostDisconnect t)"
  "calm s t \<Longrightarrow> calm s (snd (onSurfaceBits draws cmd t))" "calm s t \<Longrightarrow> calm s (applySettings k ok memory t)"
  by (simp_all add: onPostConnect_def onPostDisconnect_def onSurfaceBits_def allocFramebuffer_def applySettings_def
      apply_monitors_def add_sound_channels_def calms Let_def split: option.splits)

section \<open>Going on\<close>

text \<open>
  A session that goes on has not reported its end, and the rest of what the status invariant
  says stays true; and one that was asked to end stays so.
\<close>

definition going :: "rdp_session \<Rightarrow> bool" where
  "going s \<longleftrightarrow> status_inv s \<and> \<not> rs_closedReported s"

definition goes :: "rdp_session \<Rightarrow> rdp_session \<Rightarrow> bool" where
  "goes s s' \<longleftrightarrow> (going s \<longrightarrow> going s') \<and> (rs_quit s \<longrightarrow> rs_quit s')"

lemma goes_refl [simp]: "goes s s"
  by (simp add: goes_def)

lemma goes_trans [trans]: "goes a b \<Longrightarrow> goes b c \<Longrightarrow> goes a c"
  by (auto simp: goes_def)

lemma open_callbacks: "list_all open_event es \<Longrightarrow> no_closed (rdp_callbacks es)"
  by (induction es rule: rdp_callbacks.induct) (auto simp: no_closed_def)

lemma goes_calm: "calm s s' \<Longrightarrow> goes s s'"
  using open_callbacks
  by (auto simp: goes_def going_def calm_def status_inv_def closed_last_def no_closed_def rdp_callbacks_append)

lemma goes_calmI: "(\<And>t. calm s t \<Longrightarrow> calm s (f t)) \<Longrightarrow> goes s (f s)"
  using goes_calm by simp

lemma goes_status:
  assumes "status_step cs s s'" and "rs_closedReported s' = rs_closedReported s" and "rs_quit s' = rs_quit s"
  shows "goes s s'"
  using assms status_inv_step [OF assms(1)] by (auto simp: goes_def going_def)

lemma goes_quit: "calm s (s'\<lparr>rs_quit := rs_quit s\<rparr>) \<Longrightarrow> (rs_quit s \<Longrightarrow> rs_quit s') \<Longrightarrow> goes s s'"
  using goes_calm [of s "s'\<lparr>rs_quit := rs_quit s\<rparr>"]
  by (simp add: goes_def going_def status_inv_def closed_last_def)

lemma goes_op: "goes s (rdp_op_step a s)"
proof (cases a)
  case Rdp_disconnect
  have "calm s ((rdp_wake (rdp_emit AbortConnect (s\<lparr>rs_quit := True\<rparr>)))\<lparr>rs_quit := rs_quit s\<rparr>)"
    "calm s ((rdp_wake (s\<lparr>rs_quit := True\<rparr>))\<lparr>rs_quit := rs_quit s\<rparr>)"
    by (simp_all add: calm_def rdp_wake_def rdp_emit_def)
  then show ?thesis
    by (auto simp: Rdp_disconnect rdp_stop_def rdp_wake_def rdp_emit_def Let_def intro!: goes_quit)
next
  case (Rdp_answer_credentials u d p)
  then show ?thesis
    by (auto simp: rdp_op_answer_credentials_def rdp_wake_def calm_def intro!: goes_quit)
next
  case (Rdp_answer_trust x)
  then show ?thesis by (auto simp: rdp_op_answer_trust_def rdp_wake_def calm_def intro!: goes_quit)
qed (auto intro!: goes_calm simp: calms rdp_op_view_only_def rdp_op_request_desktop_size_def rdp_op_request_layout_def
    vento_freerdp_set_monitor_count_def Let_def)

lemma goes_other: "goes s (rdp_other_step a s)"
proof (cases a)
  case (Status_takes now)
  have "rs_closedReported (status_take now s) = rs_closedReported s" "rs_quit (status_take now s) = rs_quit s"
    by (simp_all add: status_take_def)
  then show ?thesis using Status_takes goes_status [OF status_step.takes] by auto
next
  case Status_reports
  have "rs_closedReported (status_report s) = rs_closedReported s" "rs_quit (status_report s) = rs_quit s"
    by (simp_all add: status_report_def rdp_emit_def split: option.splits)
  then show ?thesis using Status_reports goes_status [OF status_step.reports] by simp
qed (simp_all add: goes_op goes_calm calms)

lemma goes_others: "goes s (fold rdp_other_step b s)"
  by (induction b arbitrary: s) (auto intro: goes_trans goes_other)

lemma goes_rdp_others: "rdp_others w s = (w', s') \<Longrightarrow> goes s s'"
  by (cases w) (auto simp: goes_others)

lemma goes_wait: "rdp_wait P w s = Some (w', s') \<Longrightarrow> goes s s'"
  by (induction P w s rule: rdp_wait.induct) (auto intro: goes_trans goes_others split: if_splits)

lemma goes_changed: "goes s (onStateChanged cs now thread state s)"
proof -
  have "rs_closedReported (onStateChanged cs now thread state s) = rs_closedReported s"
    "rs_quit (onStateChanged cs now thread state s) = rs_quit s"
    by (simp_all add: onStateChanged_def status_pend_def rdp_emit_def Let_def)
  then show ?thesis using goes_status [OF status_step.changed] by blast
qed

lemma goes_hook: "rdp_run_hook lib h w s = Some (r, w', s') \<Longrightarrow> goes s s'"
proof (cases h)
  case (Authenticate l)
  let ?t = "rdp_emit (RdpCallback (Credentials_needed True))
    (s\<lparr>rs_credAnswered := False, rs_credUser := None, rs_credDomain := None, rs_credPass := None\<rparr>)"
  have "goes s ?t" by (rule goes_calm) (simp add: calms)
  moreover assume "rdp_run_hook lib h w s = Some (r, w', s')"
  then have "s' = s \<or> (\<exists>P. rdp_wait P w ?t = Some (w', s'))"
    by (auto simp: Authenticate onAuthenticate_def Let_def split: prod.splits option.splits if_splits)
  ultimately show ?thesis using goes_wait goes_trans goes_refl by metis
next
  case (Verify_certificate memory pem)
  let ?t = "\<lambda>f. rdp_emit (RdpCallback (Trust_needed f)) (s\<lparr>rs_trustAnswered := False, rs_trustAccepted := False\<rparr>)"
  have "goes s (?t f)" for f by (rule goes_calm) (simp add: calms)
  moreover assume "rdp_run_hook lib h w s = Some (r, w', s')"
  then have "s' = s \<or> (\<exists>P f. rdp_wait P w (?t f) = Some (w', s'))"
    by (auto simp: Verify_certificate onVerifyX509Certificate_def Let_def split: prod.splits option.splits if_splits)
  ultimately show ?thesis using goes_wait goes_trans goes_refl by metis
next
  case (State_changed now thread state)
  moreover assume "rdp_run_hook lib h w s = Some (r, w', s')"
  ultimately show ?thesis using goes_changed [of s "rl_states lib" now thread state] by auto
qed (auto simp: calms Let_def case_prod_unfold intro!: goes_calm)

lemma goes_library: "rdp_run_library lib nxt fuel rs w s = Some (ok, w', s') \<Longrightarrow> goes s s'"
proof (induction fuel arbitrary: rs w s)
  case (Suc fuel)
  obtain w1 s1 where o: "rdp_others w s = (w1, s1)" by (cases "rdp_others w s")
  show ?case
  proof (cases "nxt rs")
    case (Inr b)
    with Suc.prems o goes_rdp_others [OF o] show ?thesis by auto
  next
    case (Inl h)
    then obtain r w2 s2 where h: "rdp_run_hook lib h w1 s1 = Some (r, w2, s2)"
      "rdp_run_library lib nxt fuel (rs @ [r]) w2 s2 = Some (ok, w', s')"
      using Suc.prems o by (auto split: option.splits)
    from goes_rdp_others [OF o] goes_hook [OF h(1)] Suc.IH [OF h(2)] show ?thesis by (meson goes_trans)
  qed
qed simp

lemma goes_drain:
  "(\<And>n s. goes s (oth n s)) \<Longrightarrow> drainCommands rc fuel oth s = Some s' \<Longrightarrow> goes s s'"
proof (induction rc fuel oth s rule: drainCommands.induct)
  case (2 rc fuel oth s)
  show ?case
  proof (cases "rdp_pop (oth fuel s)")
    case None
    then have "calm (oth fuel s) s'" using "2.prems"(2) by (auto simp: calms)
    then show ?thesis using "2.prems"(1) goes_calm goes_trans by blast
  next
    case (Some p)
    obtain c t where p: "p = (c, t)" by (cases p)
    have "calm (oth fuel s) t" using Some p by (auto simp: rdp_pop_def calms Let_def split: if_splits)
    then have "calm (oth fuel s) (rdp_runCmd rc c t)" by (simp add: calms)
    moreover have "goes (rdp_runCmd rc c t) s'" using 2 Some p by simp
    ultimately show ?thesis using "2.prems"(1) goes_calm goes_trans by blast
  qed
qed simp

lemma goes_turn: "rdp_turn lib t w s = Some (go, w', s') \<Longrightarrow> goes s s'"
proof -
  assume turn: "rdp_turn lib t w s = Some (go, w', s')"
  obtain w1 s1 where 1: "rdp_others w s = (w1, s1)" by (cases "rdp_others w s")
  obtain w2 s2 where 2: "rdp_others w1 s1 = (w2, s2)" by (cases "rdp_others w1 s1")
  have wake: "goes s2 (s2\<lparr>rs_wake := False\<rparr>)" by (rule goes_calm) (simp add: calms)
  have "s' = s \<or> s' = s1 \<or> s' = s2 \<or>
    (\<exists>s3. drainCommands (rt_format_list t) (rt_drain_fuel t) (\<lambda>n. fold rdp_other_step (rt_during t n)) (s2\<lparr>rs_wake := False\<rparr>) = Some s3 \<and>
      rdp_run_library lib (rt_events t) (rt_fuel t) [] w2 s3 = Some (go, w', s'))"
    using turn by (auto simp: rdp_turn_def 1 2 Let_def split: if_splits option.splits)
  then show ?thesis
    using goes_rdp_others [OF 1] goes_rdp_others [OF 2] wake goes_drain goes_library goes_others goes_trans goes_refl by metis
qed

lemma goes_loop: "rdp_loop lib ts w s = Some (w', s') \<Longrightarrow> goes s s'"
  by (induction ts arbitrary: w s) (auto intro: goes_trans goes_turn split: option.splits prod.splits if_splits)

section \<open>The end\<close>

text \<open>How the thread returns: something that goes on, and then the one report.\<close>

lemma goes_start:
  "goes s (rdp_emit ClientStart (applySettings k ok memory s))"
  "goes s (rdp_emit Connect ((rdp_emit ClientStart (applySettings k ok memory s))\<lparr>rs_started := True\<rparr>))"
  by (simp_all add: goes_calm calms)

lemma rdp_end_closes:
  assumes "rdp_end ev w s = Some (w', s')"
  shows "\<exists>s1 why. goes s s1 \<and> s' = rdp_close ev why s1 \<and> (rs_quit s \<longrightarrow> why = [])"
proof -
  obtain w1 s1 where o: "rdp_others w s = (w1, s1)" by (cases "rdp_others w s")
  let ?s1 = "rdp_emit Disconnect (s1\<lparr>rs_connected := False\<rparr>)"
  obtain ok w2 s2 where l: "rdp_run_library (re_lib ev) (re_disconnect ev) (re_disconnect_fuel ev) [] w1 ?s1 = Some (ok, w2, s2)"
    using assms by (auto simp: rdp_end_def o Let_def split: option.splits)
  have "goes s s1" by (rule goes_rdp_others [OF o])
  also have "goes s1 ?s1" by (rule goes_calm) (simp add: calms)
  also have "goes ?s1 s2" by (rule goes_library [OF l])
  finally have "goes s s2" .
  moreover have "rs_quit s \<longrightarrow> rs_quit s1" using goes_rdp_others [OF o] by (simp add: goes_def)
  ultimately show ?thesis
    using assms l by (intro exI [of _ s2]) (auto simp: rdp_end_def o Let_def)
qed

lemma rdp_protocolThread_closes:
  assumes "rdp_protocolThread ev w s = Some (w', s')"
  shows "\<exists>s1 why. goes s s1 \<and> s' = rdp_close ev why s1 \<and>
    (rs_quit s \<and> rs_addressError s = [] \<and> re_client_start ev \<longrightarrow> why = [])"
proof (cases "rs_addressError s = [] \<and> re_client_start ev")
  case False
  then consider "rs_addressError s \<noteq> []" | "rs_addressError s = []" "\<not> re_client_start ev" by blast
  then show ?thesis
  proof cases
    case 1
    then show ?thesis using assms by (intro exI [of _ s]) (auto simp: rdp_protocolThread_def)
  next
    case 2
    then show ?thesis
      using assms goes_start(1) [of s "re_constants ev" "re_static_ok ev" "re_monitors_ok ev"]
      by (auto simp: rdp_protocolThread_def Let_def)
  qed
next
  case True
  define s0 where "s0 = rdp_emit Connect ((rdp_emit ClientStart
    (applySettings (re_constants ev) (re_static_ok ev) (re_monitors_ok ev) s))\<lparr>rs_started := True\<rparr>)"
  have s0: "goes s s0" unfolding s0_def by (rule goes_start)
  obtain ok w1 s1 where l: "rdp_run_library (re_lib ev) (re_connect ev) (re_connect_fuel ev) [] w s0 = Some (ok, w1, s1)"
    using assms True by (auto simp: rdp_protocolThread_def s0_def Let_def split: option.splits)
  have s1: "goes s s1" using s0 goes_library [OF l] by (rule goes_trans)
  show ?thesis
  proof (cases ok)
    case failed: False
    obtain w2 s2 where o: "rdp_others w1 s1 = (w2, s2)" by (cases "rdp_others w1 s1")
    have "goes s s2" using s1 goes_rdp_others [OF o] by (rule goes_trans)
    moreover have "s' = rdp_close ev (connect_failed ev s2) s2"
      using assms True l o failed by (simp add: rdp_protocolThread_def s0_def Let_def)
    ultimately show ?thesis by (auto simp: connect_failed_def goes_def)
  next
    case ok: True
    then obtain w2 s2 where loop: "rdp_loop (re_lib ev) (re_turns ev) w1 s1 = Some (w2, s2)"
      and e: "rdp_end ev w2 s2 = Some (w', s')"
      using assms True l by (auto simp: rdp_protocolThread_def s0_def Let_def split: option.splits)
    have "goes s s2" using s1 goes_loop [OF loop] by (rule goes_trans)
    moreover from rdp_end_closes [OF e] obtain s3 why where "goes s2 s3" "s' = rdp_close ev why s3" "rs_quit s2 \<longrightarrow> why = []"
      by blast
    ultimately show ?thesis using goes_trans by (intro exI [of _ s3] exI [of _ why]) (auto simp: goes_def)
  qed
qed

text \<open>After it, nothing is left that could report anything.\<close>

definition silent_end :: "rdp_session \<Rightarrow> bool" where
  "silent_end s \<longleftrightarrow> \<not> rs_statusStarted s \<and> rs_statusCalling s = None"

lemma rdp_post_keeps [simp]:
  "rs_trace (rdp_post s c) = rs_trace s" "rs_statusStarted (rdp_post s c) = rs_statusStarted s"
  "rs_statusCalling (rdp_post s c) = rs_statusCalling s" "rs_credUser (rdp_post s c) = rs_credUser s"
  "rs_credDomain (rdp_post s c) = rs_credDomain s" "rs_credPass (rdp_post s c) = rs_credPass s"
  "rs_trustAccepted (rdp_post s c) = rs_trustAccepted s" "rs_quit (rdp_post s c) = rs_quit s"
  by (subst rdp_post_eq, simp)+

lemmas op_defs = rdp_op_view_only_def rdp_op_request_desktop_size_def rdp_op_request_layout_def rdp_op_clipboard_def
  vento_freerdp_set_monitor_count_def rdp_op_answer_credentials_def rdp_op_answer_trust_def rdp_stop_def rdp_wake_def
  onDisplayControlCaps_def

lemma silent_other:
  assumes "silent_end s"
  shows "silent_end (rdp_other_step a s) \<and> rdp_callbacks (rs_trace (rdp_other_step a s)) = rdp_callbacks (rs_trace s)"
proof (cases a)
  case (Platform x)
  with assms show ?thesis
    by (cases x) (simp_all add: silent_end_def op_defs rdp_emit_def rdp_callbacks_append Let_def split: option.splits)
qed (use assms in \<open>simp_all add: silent_end_def status_report_def op_defs Let_def split: option.splits\<close>)

lemma silent_others:
  "silent_end s \<Longrightarrow>
   silent_end (fold rdp_other_step b s) \<and> rdp_callbacks (rs_trace (fold rdp_other_step b s)) = rdp_callbacks (rs_trace s)"
  by (induction b arbitrary: s) (use silent_other in auto)

lemma silent_destroy: "silent_end s \<Longrightarrow> rdp_callbacks (rs_trace (rdp_op_destroy s)) = rdp_callbacks (rs_trace s)"
  by (simp add: silent_end_def rdp_op_destroy_def stopStatus_def rdp_emit_def rdp_callbacks_append Let_def)

lemma rdp_close_ends:
  assumes "going s"
  shows "closed_last (rdp_close ev why s) \<and> rs_closedReported (rdp_close ev why s) \<and> silent_end (rdp_close ev why s)"
proof -
  have inv: "status_inv (rdp_close ev why s)" unfolding rdp_close_def
    by (rule status_inv_closed) (use assms in \<open>simp add: going_def\<close>)
  have "rs_closedReported (rdp_close ev why s)"
    using assms stopStatus_facts(5) [of s]
    by (simp add: rdp_close_def rdp_fireClosed_def Let_def rdp_emit_def stopStatus_def going_def split: option.splits)
  with inv show ?thesis by (auto simp: status_inv_def silent_end_def)
qed

text \<open>
  C2. A FreeRDP session reports its end exactly once, as the last thing it reports, whatever the
  library, the network, the status thread and the other threads do: the callbacks of a protocol
  thread that returned end with the one \<open>closed\<close>, no call made afterwards and no destruction of
  the session adds another, and the end of a session that was asked to end before it could
  connect is reported without a reason.
\<close>

theorem rdp_closed_once:
  assumes "rdp_protocolThread ev w s = Some (w', s')" and "status_inv s" and "\<not> rs_closedReported s"
  shows "\<exists>ds why. rdp_callbacks (rs_trace s') = ds @ [Closed why] \<and> no_closed ds \<and>
    (\<forall>b. rdp_callbacks (rs_trace (rdp_op_destroy (fold rdp_other_step b s'))) = ds @ [Closed why]) \<and>
    (rs_quit s \<and> rs_addressError s = [] \<and> re_client_start ev \<longrightarrow> why = [])"
proof -
  from rdp_protocolThread_closes [OF assms(1)] obtain s1 d where s1: "goes s s1" "s' = rdp_close ev d s1"
    and d: "rs_quit s \<and> rs_addressError s = [] \<and> re_client_start ev \<longrightarrow> d = []" by blast
  have "going s1" using s1(1) assms(2,3) by (simp add: goes_def going_def)
  note e = rdp_close_ends [OF this, of ev d, folded s1(2)]
  obtain ds why where cbs: "rdp_callbacks (rs_trace s') = ds @ [Closed why]" "no_closed ds"
    using e by (auto simp: closed_last_def Let_def)
  have why: "why = (case vento_utf8_from_bytes (rl_malloc (re_lib ev)) (Some (bytes_of d)) of Some u \<Rightarrow> u | None \<Rightarrow> [])"
    using cbs(1) \<open>going s1\<close> by (simp add: s1(2) rdp_close_def rdp_fireClosed_def going_def rdp_emit_def rdp_callbacks_append Let_def)
  then have "why = []" if "d = []"
    using that by (auto simp: vento_utf8_from_bytes_def bytes_of_def Let_def split: option.splits)
  moreover have "rdp_callbacks (rs_trace (rdp_op_destroy (fold rdp_other_step b s'))) = ds @ [Closed why]" for b
    using silent_others [of s' b] silent_destroy e cbs(1) by simp
  ultimately show ?thesis using cbs d by blast
qed

text \<open>A server that refuses the connection, while the authentication was on the screen.\<close>

definition example_rdp_lib :: rdp_lib where
  "example_rdp_lib = \<lparr>rl_malloc = (\<lambda>_. True), rl_states = example_states, rl_fingerprint = (\<lambda>_. Some ''AB''),
     rl_to_utf8 = ascii_utf8\<rparr>"

definition example_rdp_env :: rdp_env where
  "example_rdp_env =
     \<lparr>re_lib = example_rdp_lib,
      re_constants = \<lparr>OSMINORTYPE_UNSPECIFIED = 0, PROXY_TYPE_IGNORE = 0xFFFF, TLS1_VERSION = 0x301, FREERDP_TLS_SECLEVEL_0 = 0\<rparr>,
      re_static_ok = True, re_monitors_ok = True, re_client_start = True,
      re_connect = (\<lambda>rs. if rs = [] then Inl (State_changed (10, 0) True 2) else Inr False), re_connect_fuel = 2,
      re_error = (True, None), re_turns = [], re_disconnect = (\<lambda>_. Inr True), re_disconnect_fuel = 1,
      re_last_error = None\<rparr>"

lemma example_rdp_env_returns: "rdp_protocolThread example_rdp_env [] rdp_calloc \<noteq> None"
  by (simp add: rdp_protocolThread_def example_rdp_env_def rdp_calloc_def numeral_eq_Suc applySettings_def apply_monitors_def
      Let_def rdp_emit_def add_sound_channels_def sound_here_def)

theorem rdp_closed_once_witness:
  "\<exists>w' s' ds why. rdp_protocolThread example_rdp_env [] rdp_calloc = Some (w', s') \<and>
     rdp_callbacks (rs_trace s') = ds @ [Closed why] \<and> no_closed ds"
proof -
  obtain w' s' where r: "rdp_protocolThread example_rdp_env [] rdp_calloc = Some (w', s')"
    using example_rdp_env_returns by auto
  have "\<not> rs_closedReported rdp_calloc" by (simp add: rdp_calloc_def)
  from rdp_closed_once [OF r status_inv_calloc(1) this] r show ?thesis by blast
qed

section \<open>Asking it to end\<close>

lemma quit_others: "rs_quit s \<Longrightarrow> rs_quit (fold rdp_other_step b s)"
  using goes_others [of s b] by (simp add: goes_def)

lemma quit_disconnect: "Platform Rdp_disconnect \<in> set b \<Longrightarrow> rs_quit (fold rdp_other_step b s)"
proof -
  assume "Platform Rdp_disconnect \<in> set b"
  then obtain b1 b2 where "b = b1 @ Platform Rdp_disconnect # b2" by (meson split_list)
  moreover have "rs_quit (rdp_stop t)" for t by (simp add: rdp_stop_def rdp_wake_def rdp_emit_def Let_def)
  ultimately show ?thesis by (simp add: quit_others)
qed

lemma wait_quit: "rs_quit s \<Longrightarrow> rdp_wait (\<lambda>s. P s \<or> rs_quit s) w s = Some (w, s)"
  by (cases w) simp_all


definition example_turn :: rdp_turn_env where
  "example_turn = \<lparr>rt_disconnect = False, rt_handles = 3, rt_wait_failed = False, rt_format_list = 0, rt_drain_fuel = 1,
     rt_during = (\<lambda>_. []), rt_events = (\<lambda>_. Inr True), rt_fuel = 1\<rparr>"


section \<open>What needs the user\<close>

definition creds :: "rdp_session \<Rightarrow> login" where
  "creds s = (rs_credUser s, rs_credPass s, rs_credDomain s)"

lemma other_creds:
  "creds (rdp_other_step a s) = creds s \<or>
   (\<exists>u d p. a = Platform (Rdp_answer_credentials u d p) \<and> creds (rdp_other_step a s) = (u, p, d))"
proof (cases a)
  case (Platform x)
  then show ?thesis
    by (cases x) (simp_all add: creds_def op_defs rdp_emit_def Let_def split: option.splits)
qed (simp_all add: creds_def status_take_def status_report_def rdp_emit_def op_defs Let_def split: option.splits)

lemma others_creds:
  "creds (fold rdp_other_step b s) = creds s \<or>
   (\<exists>u d p. Platform (Rdp_answer_credentials u d p) \<in> set b \<and> creds (fold rdp_other_step b s) = (u, p, d))"
proof (induction b arbitrary: s)
  case (Cons a b)
  from Cons.IH [of "rdp_other_step a s"] other_creds [of a s] show ?case by auto
qed simp

lemma wait_creds:
  "rdp_wait P w s = Some (w', s') \<Longrightarrow>
   creds s' = creds s \<or> (\<exists>u d p. Platform (Rdp_answer_credentials u d p) \<in> set (concat w) \<and> creds s' = (u, p, d))"
proof (induction P w s rule: rdp_wait.induct)
  case (2 P b w s)
  show ?case
  proof (cases "P s")
    case False
    then show ?thesis using "2.IH" [OF False] "2.prems" others_creds [of b s] by auto
  qed (use "2.prems" in auto)
qed (auto split: if_splits)

lemma other_trust:
  "rs_trustAccepted (rdp_other_step a s) \<Longrightarrow> rs_trustAccepted s \<or> a = Platform (Rdp_answer_trust True)"
proof (cases a)
  case (Platform x)
  moreover assume "rs_trustAccepted (rdp_other_step a s)"
  ultimately show ?thesis
    by (cases x) (auto simp: op_defs rdp_emit_def Let_def split: option.splits if_splits)
qed (auto simp: status_take_def status_report_def rdp_emit_def op_defs Let_def split: option.splits if_splits)

lemma others_trust:
  "rs_trustAccepted (fold rdp_other_step b s) \<Longrightarrow> rs_trustAccepted s \<or> Platform (Rdp_answer_trust True) \<in> set b"
  by (induction b arbitrary: s) (use other_trust in fastforce)+

lemma rdp_wait_trust:
  "rdp_wait P w s = Some (w', s') \<Longrightarrow> rs_trustAccepted s' \<Longrightarrow>
   rs_trustAccepted s \<or> Platform (Rdp_answer_trust True) \<in> set (concat w)"
proof (induction P w s rule: rdp_wait.induct)
  case (2 P b w s)
  show ?case
  proof (cases "P s")
    case False
    then show ?thesis using "2.IH" [OF False] "2.prems" others_trust [of b s] by auto
  qed (use "2.prems" in auto)
qed (auto split: if_splits)

text \<open>
  C3. No server is trusted and no password leaves a FreeRDP session without the user's word.  A
  certificate is accepted only when a user said yes while it was asked about; a login given to
  the library is the one it already had, when that has both a name and a password, or the one
  a user typed while asked, and with a saved login no user is asked.
\<close>

theorem rdp_hooks_need_user:
  assumes "rdp_run_hook lib h w s = Some (r, w', s')"
  shows "(\<forall>n. r = Trust n \<and> n \<noteq> 0 \<longrightarrow> Platform (Rdp_answer_trust True) \<in> set (concat w)) \<and>
    (\<forall>u p d. r = Login True (u, p, d) \<longrightarrow>
      (h = Authenticate (u, p, d) \<and> given u \<and> given p \<and> s' = s) \<or>
      (p \<noteq> None \<and> (\<exists>u' d'. Platform (Rdp_answer_credentials u' d' p) \<in> set (concat w) \<and>
         u = Some (or_empty u') \<and> d = Some (or_empty d'))))"
proof (cases h)
  case (Authenticate l)
  obtain u0 p0 d0 where l: "l = (u0, p0, d0)" by (cases l)
  let ?t = "rdp_emit (RdpCallback (Credentials_needed True))
    (s\<lparr>rs_credAnswered := False, rs_credUser := None, rs_credDomain := None, rs_credPass := None\<rparr>)"
  have none: "creds ?t = (None, None, None)" by (simp add: creds_def rdp_emit_def)
  have "(h = Authenticate (u, p, d) \<and> given u \<and> given p \<and> s' = s) \<or>
      (p \<noteq> None \<and> (\<exists>u' d'. Platform (Rdp_answer_credentials u' d' p) \<in> set (concat w) \<and>
         u = Some (or_empty u') \<and> d = Some (or_empty d')))" if r: "r = Login True (u, p, d)" for u p d
  proof (cases "given u0 \<and> given p0")
    case True
    then show ?thesis using assms r by (simp add: Authenticate onAuthenticate_def l)
  next
    case False
    then obtain w1 s1 where wait: "rdp_wait (\<lambda>s. rs_credAnswered s \<or> rs_quit s) w ?t = Some (w1, s1)"
      and p: "rs_credPass s1 = p" "p \<noteq> None" "u = Some (or_empty (rs_credUser s1))" "d = Some (or_empty (rs_credDomain s1))"
      using assms r by (auto simp: Authenticate onAuthenticate_def l Let_def split: option.splits) (metis option.exhaust option.distinct(1))+
    from wait_creds [OF wait] none p show ?thesis by (auto simp: creds_def)
  qed
  moreover have "\<exists>ok l. r = Login ok l" using assms by (auto simp: Authenticate)
  ultimately show ?thesis by auto
next
  case (Verify_certificate memory pem)
  let ?t = "\<lambda>f. rdp_emit (RdpCallback (Trust_needed f)) (s\<lparr>rs_trustAnswered := False, rs_trustAccepted := False\<rparr>)"
  have "\<not> rs_trustAccepted (?t f)" for f by (simp add: rdp_emit_def)
  then have "Platform (Rdp_answer_trust True) \<in> set (concat w)" if "r = Trust n" "n \<noteq> 0" for n
    using assms that rdp_wait_trust
    by (fastforce simp: Verify_certificate onVerifyX509Certificate_def Let_def split: option.splits if_splits)
  moreover have "\<exists>n. r = Trust n" using assms by (auto simp: Verify_certificate)
  ultimately show ?thesis by auto
qed (use assms in \<open>auto simp: Let_def split: prod.splits\<close>)

theorem rdp_hooks_need_user_witness:
  "\<exists>w' s'. rdp_run_hook example_rdp_lib (Verify_certificate True (Some [1])) [[Platform (Rdp_answer_trust True)]] rdp_calloc =
     Some (Trust 1, w', s') \<and> Platform (Rdp_answer_trust True) \<in> set (concat [[Platform (Rdp_answer_trust True)]])"
proof -
  have "\<exists>w' s'. rdp_run_hook example_rdp_lib (Verify_certificate True (Some [1])) [[Platform (Rdp_answer_trust True)]] rdp_calloc =
     Some (Trust 1, w', s')"
    by (simp add: example_rdp_lib_def onVerifyX509Certificate_def rdp_emit_def rdp_op_answer_trust_def rdp_wake_def
        rdp_calloc_def Let_def)
  then show ?thesis using rdp_hooks_need_user [of example_rdp_lib "Verify_certificate True (Some [1])"
      "[[Platform (Rdp_answer_trust True)]]" rdp_calloc "Trust 1"] by auto
qed

end
