(* ===== verification/Binary32.thy ===== *)
theory Binary32
  imports Complex_Main Prelude
begin

text \<open>
  The \<open>float\<close> of the C sources, IEEE 754 binary32, as far as they use it: rounding to nearest, ties
  to even, of results the sources keep below \<open>2 ^ 24\<close> in size.  Numbers are rationals, so the
  definitions compute.
\<close>

text \<open>
  A \<open>float\<close> result for arguments from 0 up to \<open>2 ^ 24\<close>: scaled so that its 24 significant bits are the
  integer part, rounded to the nearest integer, to the even one of two, and scaled back.  Below
  the smallest normal number the scale stays at \<open>2 ^ 149\<close>.
\<close>

definition round_even :: "rat \<Rightarrow> int" where
  "round_even x =
     (let f = \<lfloor>x\<rfloor>; r = x - of_int f
      in if r < 1 / 2 then f else if 1 / 2 < r then f + 1 else if even f then f else f + 1)"

definition fl32_scale :: "rat \<Rightarrow> nat" where
  "fl32_scale x = (case List.find (\<lambda>k. 2 ^ 23 \<le> x * 2 ^ k) [0..<149] of Some k \<Rightarrow> k | None \<Rightarrow> 149)"

definition fl32 :: "rat \<Rightarrow> rat" where
  "fl32 x = of_int (round_even (x * 2 ^ fl32_scale x)) / 2 ^ fl32_scale x"

lemma round_even_error: "\<bar>of_int (round_even x) - x\<bar> \<le> 1 / 2"
  by (simp add: round_even_def Let_def abs_if) linarith

lemma fl32_scale: "2 ^ 23 \<le> x * 2 ^ fl32_scale x \<or> fl32_scale x = 149"
  by (auto simp: fl32_scale_def find_Some_iff split: option.splits)

lemma fl32_error: "\<bar>fl32 x - x\<bar> \<le> \<bar>x\<bar> / 10000000 + 1 / 1000000000"
proof -
  let ?s = "2 ^ fl32_scale x :: rat"
  have "fl32 x - x = (of_int (round_even (x * ?s)) - x * ?s) / ?s" by (simp add: fl32_def diff_divide_distrib)
  then have e: "\<bar>fl32 x - x\<bar> \<le> 1 / 2 / ?s"
    using divide_right_mono [OF round_even_error [of "x * ?s"], of ?s] by (simp add: abs_divide)
  show ?thesis
  proof (cases "fl32_scale x = 149")
    case True
    then have "1 / 2 / ?s \<le> 1 / 1000000000" by simp
    with e show ?thesis by linarith
  next
    case False
    then have "2 ^ 23 \<le> x * ?s" using fl32_scale by blast
    then have "1 / 2 / ?s \<le> x / 2 ^ 24" by (simp add: field_simps)
    with e show ?thesis by (simp add: abs_if split: if_splits)
  qed
qed

lemma fl32_close: "\<bar>x\<bar> \<le> 65540 \<Longrightarrow> \<bar>fl32 x - x\<bar> \<le> 1 / 100"
  using fl32_error [of x] by linarith

text \<open>The same for either sign, and what a \<open>float\<close> can hold: no number, an infinity, or a number.\<close>

definition fl32s :: "rat \<Rightarrow> rat" where
  "fl32s x = (if x < 0 then - fl32 (- x) else fl32 x)"

lemma fl32s_close: "\<bar>x\<bar> \<le> 65540 \<Longrightarrow> \<bar>fl32s x - x\<bar> \<le> 1 / 100"
  using fl32_close [of x] fl32_close [of "- x"] by (simp add: fl32s_def abs_if split: if_splits)

datatype float32 = Nan | Infinity bool | Finite rat

end
