(* ===== verification/Rdp_Sound.thy ===== *)
theory Rdp_Sound
  imports Binary32 Rdp_Status
begin

text \<open>
  The sound device of the FreeRDP module, from
  \<open>src/backends/modules/freerdp/cpp/rdpsnd_vento.c\<close> and \<open>rdpsnd_vento.h\<close>: the device each rdpsnd
  channel of a session creates, over the one table of calls (\<open>vento/audio.h\<close>) the platform gave
  the session.

  The table is outside the sources: its answers (whether a stream or a decoder opens, what a
  packet decodes to, the latency) are arguments of the calls, and the calls made to it are the
  trace.  A handle the table gives out is a number not given before, which is the table's own
  contract: a stream or a decoder is valid until it is closed.  Whether an optional member of the
  table is NULL is a field of its record.  The lines written to the log are not modelled, apart
  from the list of formats, whose hash is state.  \<open>float\<close> is binary32, rounded to nearest.
\<close>

section \<open>The platform's table\<close>

text \<open>Whether each member is non-NULL.\<close>

record vento_audio =
  at_open :: bool
  at_write :: bool
  at_set_gain :: bool
  at_latency :: bool
  at_close :: bool
  at_decodable :: bool
  at_decoder_open :: bool
  at_decode :: bool
  at_decoder_close :: bool
  at_offer :: bool
  at_withdraw :: bool
  at_release :: bool

datatype audio_codec = VENTO_AUDIO_CODEC_AAC | VENTO_AUDIO_CODEC_OPUS

text \<open>What is written to a stream: bytes as the server sent them, or 16-bit samples.\<close>

datatype wave = Wave_bytes bytes | Wave_samples "u16 list"

fun wave_len :: "wave \<Rightarrow> nat" where
  "wave_len (Wave_bytes b) = length b"
| "wave_len (Wave_samples s) = 2 * length s"

text \<open>The calls of the table; an open that fails gives no handle.\<close>

datatype sound_event =
    Stream_open int int "nat option"
  | Stream_write nat wave
  | Stream_gain nat rat
  | Stream_latency nat
  | Stream_close nat
  | Audio_decoder_open audio_codec int int "bytes option" "nat option"
  | Audio_decode nat bytes
  | Audio_decoder_close nat
  | Sound_offer
  | Sound_withdraw
  | Audio_release

fun calls_member :: "vento_audio \<Rightarrow> sound_event \<Rightarrow> bool" where
  "calls_member t (Stream_open _ _ _) = at_open t"
| "calls_member t (Stream_write _ _) = at_write t"
| "calls_member t (Stream_gain _ _) = at_set_gain t"
| "calls_member t (Stream_latency _) = at_latency t"
| "calls_member t (Stream_close _) = at_close t"
| "calls_member t (Audio_decoder_open _ _ _ _ _) = at_decoder_open t"
| "calls_member t (Audio_decode _ _) = at_decode t"
| "calls_member t (Audio_decoder_close _) = at_decoder_close t"
| "calls_member t Sound_offer = at_offer t"
| "calls_member t Sound_withdraw = at_withdraw t"
| "calls_member t Audio_release = at_release t"

record VentoSound =
  sn_table :: vento_audio
  sn_available :: bool
  sn_aac :: bool
  sn_opus :: bool
  sn_offering :: int
  sn_formats :: u64
  sn_next :: nat  \<comment> \<open>the next handle the platform gives out\<close>
  sn_trace :: "sound_event list"

definition sn_emit :: "sound_event \<Rightarrow> VentoSound \<Rightarrow> VentoSound" where
  "sn_emit e v = v\<lparr>sn_trace := sn_trace v @ [e]\<rparr>"

definition audio_table_zero :: vento_audio where
  "audio_table_zero =
     \<lparr>at_open = False, at_write = False, at_set_gain = False, at_latency = False, at_close = False,
      at_decodable = False, at_decoder_open = False, at_decode = False, at_decoder_close = False,
      at_offer = False, at_withdraw = False, at_release = False\<rparr>"

definition sound_zero :: VentoSound where
  "sound_zero = \<lparr>sn_table = audio_table_zero, sn_available = False, sn_aac = False, sn_opus = False,
     sn_offering = 0, sn_formats = 0, sn_next = 0, sn_trace = []\<rparr>"

text \<open>\<open>decodable\<close> is what the table answers for each codec.\<close>

definition vento_sound_init :: "(audio_codec \<Rightarrow> bool) \<Rightarrow> vento_audio option \<Rightarrow> bool \<times> VentoSound" where
  "vento_sound_init decodable tbl =
     (case tbl of
        None \<Rightarrow> (False, sound_zero)
      | Some t \<Rightarrow>
          if \<not> at_open t \<or> \<not> at_write t \<or> \<not> at_close t
          then (False, if at_release t then sn_emit Audio_release sound_zero else sound_zero)
          else let v = sound_zero\<lparr>sn_table := t, sn_available := True\<rparr>
               in (True, if at_decodable t \<and> at_decoder_open t \<and> at_decode t \<and> at_decoder_close t
                         then v\<lparr>sn_aac := decodable VENTO_AUDIO_CODEC_AAC, sn_opus := decodable VENTO_AUDIO_CODEC_OPUS\<rparr>
                         else v))"

definition vento_sound_release :: "VentoSound \<Rightarrow> VentoSound" where
  "vento_sound_release v =
     (let v = (if sn_available v \<and> at_release (sn_table v) then sn_emit Audio_release v else v)
      in v\<lparr>sn_available := False\<rparr>)"

section \<open>Formats\<close>

datatype wave_tag = WAVE_FORMAT_PCM | WAVE_FORMAT_AAC_MS | WAVE_FORMAT_OPUS | WAVE_FORMAT_other u16

text \<open>\<open>data\<close> is what the pointer points at, \<open>cbSize\<close> bytes of it the format's own.\<close>

record AUDIO_FORMAT =
  wFormatTag :: wave_tag
  nChannels :: u16
  nSamplesPerSec :: u32
  wBitsPerSample :: u16
  cbSize :: u16
  fmt_data :: "bytes option"

datatype Kind = KIND_NONE | KIND_S16 | KIND_U8 | KIND_AAC | KIND_OPUS

definition decoded :: "Kind \<Rightarrow> bool" where
  "decoded kind \<longleftrightarrow> kind = KIND_AAC \<or> kind = KIND_OPUS"

definition kindOf :: "VentoSound \<Rightarrow> AUDIO_FORMAT option \<Rightarrow> Kind" where
  "kindOf v format =
     (case format of
        None \<Rightarrow> KIND_NONE
      | Some f \<Rightarrow>
          if nSamplesPerSec f < 8000 \<or> nSamplesPerSec f > 384000 \<or> nChannels f < 1 \<or> nChannels f > 8 then KIND_NONE
          else if wFormatTag f = WAVE_FORMAT_PCM \<and> wBitsPerSample f = 16 then KIND_S16
          else if wFormatTag f = WAVE_FORMAT_PCM \<and> wBitsPerSample f = 8 then KIND_U8
          else if wFormatTag f = WAVE_FORMAT_AAC_MS \<and> sn_aac v then KIND_AAC
          else if wFormatTag f = WAVE_FORMAT_OPUS \<and> sn_opus v \<and> nChannels f \<le> 2 then KIND_OPUS
          else KIND_NONE)"

text \<open>\<open>tag_string\<close> is the library's name of a tag, \<open>None\<close> for NULL.\<close>

definition describe_format :: "(wave_tag \<Rightarrow> string option) \<Rightarrow> AUDIO_FORMAT \<Rightarrow> nat \<Rightarrow> string" where
  "describe_format tag_string f len =
     (let tag = (case tag_string (wFormatTag f) of
                   None \<Rightarrow> ''?''
                 | Some t \<Rightarrow> if take 12 t = ''WAVE_FORMAT_'' then drop 12 t else t)
      in snprintf_s len (tag @ '' '' @ show_nat (unat (nSamplesPerSec f)) @ '' Hz '' @
           show_nat (unat (nChannels f)) @ '' ch '' @ show_nat (unat (wBitsPerSample f)) @ ''-bit''))"

section \<open>A device\<close>

record Device =
  d_format :: AUDIO_FORMAT
  d_kind :: Kind
  d_opened :: bool
  d_announced :: bool
  d_failed :: bool
  d_decoder :: "nat option"
  d_undecodable :: bool
  d_streamRate :: int
  d_streamChannels :: int
  d_gain :: rat
  d_offering :: bool
  d_closerRunning :: bool
  d_quit :: bool
  d_stream :: "nat option"
  d_idleAt :: u64
  d_wideLen :: nat

definition format_zero :: AUDIO_FORMAT where
  "format_zero = \<lparr>wFormatTag = WAVE_FORMAT_other 0, nChannels = 0, nSamplesPerSec = 0, wBitsPerSample = 0,
     cbSize = 0, fmt_data = None\<rparr>"

definition device_zero :: Device where
  "device_zero = \<lparr>d_format = format_zero, d_kind = KIND_NONE, d_opened = False, d_announced = False,
     d_failed = False, d_decoder = None, d_undecodable = False, d_streamRate = 0, d_streamChannels = 0,
     d_gain = 0, d_offering = False, d_closerRunning = False, d_quit = False, d_stream = None,
     d_idleAt = 0, d_wideLen = 0\<rparr>"

definition IDLE_GRACE_MS :: u64 where "IDLE_GRACE_MS = 2000"

fun nowMs :: "timespec \<Rightarrow> u64" where
  "nowMs (sec, nsec) = word_of_int sec * 1000 + word_of_int nsec div 1000000"

subsection \<open>The stream\<close>

definition closeLocked :: "Device \<Rightarrow> VentoSound \<Rightarrow> Device \<times> VentoSound" where
  "closeLocked d v =
     (case d_stream d of
        None \<Rightarrow> (d, v)
      | Some n \<Rightarrow> (d\<lparr>d_stream := None\<rparr>, sn_emit (Stream_close n) v))"

definition closeDecoderLocked :: "Device \<Rightarrow> VentoSound \<Rightarrow> Device \<times> VentoSound" where
  "closeDecoderLocked d v =
     (case d_decoder d of
        None \<Rightarrow> (d, v)
      | Some n \<Rightarrow> (d\<lparr>d_decoder := None\<rparr>, sn_emit (Audio_decoder_close n) v))"

text \<open>\<open>ok\<close> is whether the platform opens a stream; the device's closing thread is signalled.\<close>

definition openLocked :: "bool \<Rightarrow> int \<Rightarrow> int \<Rightarrow> Device \<Rightarrow> VentoSound \<Rightarrow> bool \<times> Device \<times> VentoSound" where
  "openLocked ok rate channels d v =
     (if d_stream d \<noteq> None \<and> d_streamRate d = rate \<and> d_streamChannels d = channels then (True, d, v)
      else let (d, v) = closeLocked d v
      in if \<not> d_opened d \<or> d_failed d \<or> d_kind d = KIND_NONE then (False, d, v)
         else let d = d\<lparr>d_streamRate := rate, d_streamChannels := channels\<rparr>
         in if \<not> ok then (False, d\<lparr>d_failed := True\<rparr>, sn_emit (Stream_open rate channels None) v)
            else let n = sn_next v;
                     v = sn_emit (Stream_open rate channels (Some n)) (v\<lparr>sn_next := Suc n\<rparr>);
                     d = d\<lparr>d_stream := Some n\<rparr>;
                     v = (if at_set_gain (sn_table v) then sn_emit (Stream_gain n (d_gain d)) v else v)
                 in (True, d, v))"

text \<open>
  A turn of the loop of \<open>closer\<close>, between taking the lock and giving it up: the thread ends, waits
  for the signal, goes round again, or waits until a moment.  \<open>t\<close> and \<open>t'\<close> are the clock at its two
  readings.
\<close>

datatype closer_next = Closer_ends | Closer_waits | Closer_again | Closer_waits_until timespec

fun closer_until :: "u64 \<Rightarrow> timespec \<Rightarrow> timespec" where
  "closer_until wait (sec, nsec) =
     (let sec = sec + uint (wait div 1000);
          nsec = nsec + uint (wait mod 1000) * 1000000
      in if nsec \<ge> 1000000000 then (sec + 1, nsec - 1000000000) else (sec, nsec))"

definition closer_turn :: "timespec \<Rightarrow> timespec \<Rightarrow> Device \<Rightarrow> VentoSound \<Rightarrow> closer_next \<times> Device \<times> VentoSound" where
  "closer_turn t t' d v =
     (if d_quit d then (Closer_ends, d, v)
      else if d_stream d = None then (Closer_waits, d, v)
      else if nowMs t \<ge> d_idleAt d then (Closer_again, closeLocked d v)
      else (Closer_waits_until (closer_until (d_idleAt d - nowMs t) t'), d, v))"

subsection \<open>The channel's calls\<close>

definition stopOffering :: "Device \<Rightarrow> VentoSound \<Rightarrow> Device \<times> VentoSound" where
  "stopOffering d v =
     (if \<not> d_offering d then (d, v)
      else let d = d\<lparr>d_offering := False\<rparr>; was = sn_offering v; v = v\<lparr>sn_offering := was - 1\<rparr>
      in (d, if was = 1 \<and> at_withdraw (sn_table v) then sn_emit Sound_withdraw v else v))"

definition formatSupported :: "AUDIO_FORMAT option \<Rightarrow> VentoSound \<Rightarrow> bool" where
  "formatSupported format v \<longleftrightarrow> kindOf v format \<noteq> KIND_NONE"

text \<open>The list of formats in 1536 bytes; the length of \<open>line\<close> is \<open>used\<close>.\<close>

fun announce_line ::
  "(wave_tag \<Rightarrow> string option) \<Rightarrow> (AUDIO_FORMAT \<Rightarrow> bool) \<Rightarrow> VentoSound \<Rightarrow> bool \<Rightarrow> AUDIO_FORMAT list \<Rightarrow> string \<Rightarrow> string"
where
  "announce_line tag_string dsp v first' [] line = line"
| "announce_line tag_string dsp v first' (f # fs) line =
     (if \<not> length line + 64 < 1536 then line
      else let one = describe_format tag_string f 64;
               kind = kindOf v (Some f);
               how = (if decoded kind then '' (vento)'' else if kind \<noteq> KIND_NONE then ''''
                      else if dsp f then '' (library)'' else '' (no)'')
           in announce_line tag_string dsp v False fs
                (line @ snprintf_s (1536 - length line) ((if first' then '''' else '', '') @ one @ how)))"

definition fnv1a :: "string \<Rightarrow> u64" where
  "fnv1a s = fold (\<lambda>c h. (h XOR of_char c) * 1099511628211) s 1469598103934665603"

definition serverFormatAnnounce ::
  "(wave_tag \<Rightarrow> string option) \<Rightarrow> (AUDIO_FORMAT \<Rightarrow> bool) \<Rightarrow> AUDIO_FORMAT list \<Rightarrow> Device \<Rightarrow> VentoSound \<Rightarrow> Device \<times> VentoSound"
where
  "serverFormatAnnounce tag_string dsp formats d v =
     (let playable = list_ex (\<lambda>f. kindOf v (Some f) \<noteq> KIND_NONE) formats;
          v = v\<lparr>sn_formats := fnv1a (announce_line tag_string dsp v True formats [])\<rparr>
      in if playable \<and> at_offer (sn_table v)
         then let (d, v) = (if \<not> d_offering d
                            then (d\<lparr>d_offering := True\<rparr>, v\<lparr>sn_offering := sn_offering v + 1\<rparr>)
                            else (d, v))
              in (d, sn_emit Sound_offer v)
         else stopOffering d v)"

definition decoderConfig :: "AUDIO_FORMAT \<Rightarrow> bytes option" where
  "decoderConfig f =
     (case fmt_data f of
        None \<Rightarrow> None
      | Some b \<Rightarrow>
          if wFormatTag f = WAVE_FORMAT_OPUS \<and> cbSize f \<ge> 19 \<and> take 8 b = map of_char ''OpusHead''
          then Some (take (unat (cbSize f)) b) else None)"

text \<open>\<open>stream_ok\<close> and \<open>decoder_ok\<close> are whether the platform opens a stream and a decoder.\<close>

definition open_audio_decoder :: "bool \<Rightarrow> Kind \<Rightarrow> AUDIO_FORMAT \<Rightarrow> Device \<Rightarrow> VentoSound \<Rightarrow> Device \<times> VentoSound" where
  "open_audio_decoder decoder_ok kind f d v =
     (let codec = (if kind = KIND_AAC then VENTO_AUDIO_CODEC_AAC else VENTO_AUDIO_CODEC_OPUS);
          rate = uint (nSamplesPerSec f);
          channels = uint (nChannels f);
          config = decoderConfig f
      in if \<not> decoder_ok
         then (d\<lparr>d_failed := True\<rparr>, sn_emit (Audio_decoder_open codec rate channels config None) v)
         else let n = sn_next v
              in (d\<lparr>d_decoder := Some n\<rparr>,
                  sn_emit (Audio_decoder_open codec rate channels config (Some n)) (v\<lparr>sn_next := Suc n\<rparr>)))"

definition device_open ::
  "bool \<Rightarrow> bool \<Rightarrow> timespec \<Rightarrow> AUDIO_FORMAT \<Rightarrow> Device \<Rightarrow> VentoSound \<Rightarrow> bool \<times> Device \<times> VentoSound"
where
  "device_open stream_ok decoder_ok now f d v =
     (let kind = kindOf v (Some f)
      in if kind = KIND_NONE then (False, d, v)
         else let (d, v) = closeLocked d v;
                  (d, v) = closeDecoderLocked d v;
                  d = d\<lparr>d_format := f\<lparr>fmt_data := None, cbSize := 0\<rparr>, d_kind := kind, d_opened := True,
                        d_announced := False, d_failed := False, d_undecodable := False\<rparr>;
                  (d, v) = (if decoded kind then open_audio_decoder decoder_ok kind f d v else (d, v));
                  rate = (if kind = KIND_OPUS then 48000 else uint (nSamplesPerSec f));
                  (_, d, v) = openLocked stream_ok rate (uint (nChannels f)) d v
              in (True, d\<lparr>d_idleAt := nowMs now + IDLE_GRACE_MS\<rparr>, v))"

subsection \<open>The volume\<close>

definition volume_gain :: "u32 \<Rightarrow> rat" where
  "volume_gain value =
     (let left = value AND 0xFFFF; right = drop_bit 16 value
      in fl32 (of_int (uint (if left > right then left else right)) / 65535))"

definition setVolume :: "u32 \<Rightarrow> Device \<Rightarrow> VentoSound \<Rightarrow> Device \<times> VentoSound" where
  "setVolume value d v =
     (let gain = volume_gain value; d = d\<lparr>d_gain := gain\<rparr>
      in (d, case d_stream d of
               Some n \<Rightarrow> if at_set_gain (sn_table v) then sn_emit (Stream_gain n gain) v else v
             | None \<Rightarrow> v))"

definition getVolume :: "Device \<Rightarrow> u32" where
  "getVolume d =
     (let level = word_of_int \<lfloor>fl32 (fl32 (d_gain d * 65535) + 1 / 2)\<rfloor>
      in level OR push_bit 16 level)"

subsection \<open>Waves\<close>

definition widen_byte :: "u8 \<Rightarrow> u16" where
  "widen_byte b = word_of_int ((uint b - 128) * 256)"

text \<open>\<open>grown\<close> is whether \<open>realloc\<close> gives the room.\<close>

definition widen :: "bool \<Rightarrow> bytes \<Rightarrow> Device \<Rightarrow> u16 list option \<times> Device" where
  "widen grown data d =
     (if d_wideLen d < length data \<and> \<not> grown then (None, d)
      else (Some (map widen_byte data), if d_wideLen d < length data then d\<lparr>d_wideLen := length data\<rparr> else d))"

text \<open>
  The answers of the platform to the calls of one wave: what the decoder makes of the packet
  (its number of frames, where its samples are, their rate and channels), whether memory is
  given and a stream opens, the latency, and the clock.
\<close>

record play_answers =
  pa_frames :: int
  pa_samples :: "(nat \<Rightarrow> u16) option"
  pa_rate :: int
  pa_channels :: int
  pa_grown :: bool
  pa_stream_ok :: bool
  pa_latency :: int
  pa_now :: timespec

definition decodeLocked :: "play_answers \<Rightarrow> bytes \<Rightarrow> Device \<Rightarrow> VentoSound \<Rightarrow> u16 list option \<times> Device \<times> VentoSound" where
  "decodeLocked a data d v =
     (case d_decoder d of
        None \<Rightarrow> (None, d, v)
      | Some n \<Rightarrow>
          let v = sn_emit (Audio_decode n data) v;
              d = (if pa_frames a < 0 \<and> \<not> d_undecodable d then d\<lparr>d_undecodable := True\<rparr> else d)
          in (case pa_samples a of
                None \<Rightarrow> (None, d, v)
              | Some samples \<Rightarrow>
                  if pa_frames a \<le> 0 \<or> pa_channels a \<le> 0 then (None, d, v)
                  else (Some (map samples [0..<nat (pa_frames a * pa_channels a)]), d, v)))"

text \<open>The samples of a wave and the rate and channels to play them in.\<close>

definition wave_samples ::
  "play_answers \<Rightarrow> Kind \<Rightarrow> bytes \<Rightarrow> Device \<Rightarrow> VentoSound \<Rightarrow> wave option \<times> int \<times> int \<times> Device \<times> VentoSound"
where
  "wave_samples a kind data d v =
     (let rate = uint (nSamplesPerSec (d_format d)); channels = uint (nChannels (d_format d))
      in if decoded (d_kind d) \<and> kind = d_kind d
         then let (samples, d, v) = decodeLocked a data d v
              in (map_option Wave_samples samples, pa_rate a, pa_channels a, d, v)
         else if d_kind d = KIND_U8 \<and> kind = KIND_U8
         then let (samples, d) = widen (pa_grown a) data d
              in (map_option Wave_samples samples, rate, channels, d, v)
         else (Some (Wave_bytes data), rate, channels, d, v))"

definition play_wave :: "play_answers \<Rightarrow> wave option \<Rightarrow> int \<Rightarrow> int \<Rightarrow> Device \<Rightarrow> VentoSound \<Rightarrow> Device \<times> VentoSound" where
  "play_wave a samples rate channels d v =
     (case samples of
        None \<Rightarrow> (d, v)
      | Some w \<Rightarrow>
          if wave_len w = 0 then (d, v)
          else let (ok, d, v) = openLocked (pa_stream_ok a) rate channels d v
               in (d, case d_stream d of Some n \<Rightarrow> if ok then sn_emit (Stream_write n w) v else v | None \<Rightarrow> v))"

definition playEx ::
  "play_answers \<Rightarrow> AUDIO_FORMAT option \<Rightarrow> bytes \<Rightarrow> Device \<Rightarrow> VentoSound \<Rightarrow> u32 \<times> Device \<times> VentoSound"
where
  "playEx a format data d v =
     (let kind = kindOf v format;
          d = (if \<not> d_announced d \<and> format \<noteq> None then d\<lparr>d_announced := True\<rparr> else d);
          (samples, rate, channels, d, v) = wave_samples a kind data d v;
          (d, v) = play_wave a samples rate channels d v
      in case d_stream d of
           None \<Rightarrow> (0, d, v)
         | Some n \<Rightarrow>
             let latency = (if at_latency (sn_table v) then pa_latency a else 0);
                 v = (if at_latency (sn_table v) then sn_emit (Stream_latency n) v else v);
                 heard = (if latency > 0 then latency else 0)
             in (word_of_int heard, d\<lparr>d_idleAt := nowMs (pa_now a) + word_of_int heard + IDLE_GRACE_MS\<rparr>, v))"

definition device_close :: "Device \<Rightarrow> VentoSound \<Rightarrow> Device \<times> VentoSound" where
  "device_close d v =
     (let (d, v) = closeLocked d v; (d, v) = closeDecoderLocked d v
      in (d\<lparr>d_opened := False\<rparr>, v))"

text \<open>The device as its memory is given back.\<close>

definition device_free :: "Device \<Rightarrow> VentoSound \<Rightarrow> Device \<times> VentoSound" where
  "device_free d v =
     (let (d, v) = stopOffering d v;
          d = d\<lparr>d_quit := True\<rparr>;
          (d, v) = closeLocked d v
      in closeDecoderLocked d v)"

datatype channel_rc = CHANNEL_RC_OK | CHANNEL_RC_INITIALIZATION_ERROR | CHANNEL_RC_NO_MEMORY

text \<open>\<open>memory\<close> is whether \<open>calloc\<close> succeeds, \<open>thread\<close> whether the closing thread starts.\<close>

definition device_entry :: "bool \<Rightarrow> bool \<Rightarrow> VentoSound \<Rightarrow> channel_rc \<times> Device option \<times> VentoSound" where
  "device_entry memory thread v =
     (if \<not> sn_available v then (CHANNEL_RC_INITIALIZATION_ERROR, None, v)
      else if \<not> memory then (CHANNEL_RC_NO_MEMORY, None, v)
      else let d = device_zero\<lparr>d_gain := 1\<rparr>
      in if \<not> thread then (CHANNEL_RC_NO_MEMORY, None, snd (device_free d v))
         else let d = d\<lparr>d_closerRunning := True\<rparr>
         in if at_offer (sn_table v)
            then (CHANNEL_RC_OK, Some (d\<lparr>d_offering := True\<rparr>),
                  sn_emit Sound_offer (v\<lparr>sn_offering := sn_offering v + 1\<rparr>))
            else (CHANNEL_RC_OK, Some d, v))"

text \<open>The addin the registered provider finds; \<open>channel\<close> is the library's \<open>RDPSND_CHANNEL_NAME\<close>.\<close>

datatype addin = Module_device | Library_addin

definition sound_provider :: "string \<Rightarrow> string option \<Rightarrow> string option \<Rightarrow> addin" where
  "sound_provider channel name subsystem =
     (if name = Some channel \<and> subsystem = Some ''vento'' then Module_device else Library_addin)"

section \<open>The volume round trip\<close>

lemma fl32_volume:
  assumes "0 \<le> m" "m \<le> 65535"
  shows "\<lfloor>fl32 (fl32 (fl32 (of_int m / 65535) * 65535) + 1 / 2)\<rfloor> = m"
proof -
  let ?m = "of_int m :: rat"
  let ?g = "fl32 (?m / 65535)"
  let ?p = "fl32 (?g * 65535)"
  have m: "0 \<le> ?m" "?m \<le> 65535" using assms by (simp, metis of_int_le_iff of_int_numeral)
  have "\<bar>?m / 65535\<bar> = ?m / 65535" using m by simp
  then have g: "\<bar>?g * 65535 - ?m\<bar> \<le> 1 / 100" using fl32_error [of "?m / 65535"] m by linarith
  then have "\<bar>?g * 65535\<bar> \<le> 65540" using m by linarith
  then have p: "\<bar>?p - ?m\<bar> \<le> 2 / 100" using fl32_close [of "?g * 65535"] g by linarith
  then have "\<bar>?p + 1 / 2\<bar> \<le> 65540" using m by linarith
  then have "\<bar>fl32 (?p + 1 / 2) - (?p + 1 / 2)\<bar> \<le> 1 / 100" by (rule fl32_close)
  with p have "?m \<le> fl32 (?p + 1 / 2)" "fl32 (?p + 1 / 2) < ?m + 1" by linarith+
  then show ?thesis by (simp add: floor_eq_iff)
qed

text \<open>
  C29. The server's volume survives the trip through the gain: what the session reports back is
  the louder of the two sides the server set, on both sides, exactly, although the gain between
  is a \<open>float\<close> rounded three times; a stream that plays takes that gain at once, a stream opened
  later does when it opens, and a device the server has not spoken to reports full volume.
\<close>

theorem rdp_sound_volume:
  "(let left = vol AND 0xFFFF; right = drop_bit 16 vol; m = max left right;
        (d', v') = setVolume vol d v in
      getVolume d' = m OR push_bit 16 m \<and>
      (\<forall>n. d_stream d = Some n \<and> at_set_gain (sn_table v) \<longrightarrow> sn_trace v' = sn_trace v @ [Stream_gain n (d_gain d')]) \<and>
      (\<forall>ok rate channels d2 v2. d_stream d = None \<and> openLocked ok rate channels d' v' = (True, d2, v2) \<and>
          at_set_gain (sn_table v) \<longrightarrow>
        (\<exists>n. d_stream d2 = Some n \<and> last (sn_trace v2) = Stream_gain n (d_gain d')))) \<and>
    (\<forall>memory thread d v'. device_entry memory thread v = (CHANNEL_RC_OK, Some d, v') \<longrightarrow> getVolume d = 0xFFFFFFFF)"
proof -
  let ?l = "vol AND 0xFFFF" and ?r = "drop_bit 16 vol"
  have "?l \<le> 0xFFFF" by (simp add: word_and_le1)
  moreover have "?r \<le> 0xFFFF"
    using unsigned_less [where ?'a = nat, of vol] by (simp add: word_le_nat_alt drop_bit_eq_div unat_div_distrib)
  ultimately have "uint (max ?l ?r) \<le> 65535" by (simp add: word_le_def max_def)
  then have "\<lfloor>fl32 (fl32 (fl32 (of_int (uint (max ?l ?r)) / 65535) * 65535) + 1 / 2)\<rfloor> = uint (max ?l ?r)"
    by (intro fl32_volume) simp_all
  moreover have "(if ?l > ?r then ?l else ?r) = max ?l ?r" by (auto simp: max_def)
  ultimately have "getVolume (fst (setVolume vol d v)) = max ?l ?r OR push_bit 16 (max ?l ?r)"
    by (simp add: getVolume_def setVolume_def volume_gain_def Let_def)
  moreover have "getVolume d = 0xFFFFFFFF" if "d_gain d = 1" for d
  proof -
    have "fl32 1 = 1" by (simp add: fl32_def round_even_def)
    then show ?thesis using fl32_volume [of 65535] that by (simp add: getVolume_def)
  qed
  ultimately show ?thesis
    by (auto simp: setVolume_def openLocked_def closeLocked_def sn_emit_def device_entry_def Let_def split: option.splits if_splits)
qed

theorem rdp_sound_volume_witness:
  "getVolume (fst (setVolume 0x80004000 device_zero sound_zero)) = 0x80008000"
proof -
  have "max (0x80004000 AND 0xFFFF :: u32) (drop_bit 16 0x80004000) = 0x8000" by (simp add: max_def)
  then show ?thesis
    using rdp_sound_volume [of "0x80004000" device_zero sound_zero]
    by (cases "setVolume 0x80004000 device_zero sound_zero") simp
qed

section \<open>The closing thread\<close>

text \<open>A reading of the monotonic clock; it starts when the machine does.\<close>

fun clock_ok :: "timespec \<Rightarrow> bool" where
  "clock_ok (sec, nsec) \<longleftrightarrow> 0 \<le> sec \<and> sec < 2 ^ 50 \<and> 0 \<le> nsec \<and> nsec < 1000000000"

fun nanos :: "timespec \<Rightarrow> int" where
  "nanos (sec, nsec) = sec * 1000000000 + nsec"

lemma nanos_before:
  assumes "0 \<le> n" "n < 1000000000" "0 \<le> n'" "n' < 1000000000"
  shows "ts_before (s, n) (s', n') \<longleftrightarrow> nanos (s, n) < nanos (s', n')"
  using assms by (cases s s' rule: linorder_cases) simp_all

lemma uint_nowMs:
  assumes "clock_ok t" shows "uint (nowMs t) = nanos t div 1000000"
proof (cases t)
  case (Pair s n)
  then have "0 \<le> s * 1000 + n div 1000000" "s * 1000 + n div 1000000 < 2 ^ 64" using assms by auto
  then have "uint (nowMs t) = s * 1000 + n div 1000000"
    using assms Pair by (simp add: uint_word_ariths uint_div uint_word_of_int)
  also have "\<dots> = (n + s * 1000 * 1000000) div 1000000" by simp
  finally show ?thesis using Pair by (simp add: ac_simps)
qed

lemma closer_until_ok:
  assumes "clock_ok t" and u: "closer_until wait t = (s, n)"
  shows "0 \<le> n" "n < 1000000000" "nanos (s, n) = nanos t + uint wait * 1000000"
proof -
  obtain s0 n0 where t: "t = (s0, n0)" by (cases t)
  let ?w = "uint wait"
  have w: "uint (wait div 1000) = ?w div 1000" "uint (wait mod 1000) = ?w mod 1000"
    by (simp_all add: uint_div uint_mod)
  have "?w div 1000 * 1000000000 + ?w mod 1000 * 1000000 = ?w * 1000000"
    using div_mult_mod_eq [of ?w 1000] by linarith
  moreover have "0 \<le> ?w mod 1000" "?w mod 1000 < 1000" by simp_all
  ultimately show "0 \<le> n" "n < 1000000000" "nanos (s, n) = nanos t + ?w * 1000000"
    using assms t by (auto simp: w Let_def split: if_splits)
qed

lemma closer_until_due:
  assumes "clock_ok t" "clock_ok t'" "clock_ok t''" "\<not> ts_before t' t" "nowMs t < idle"
    and "\<not> ts_before t'' (closer_until (idle - nowMs t) t')"
  shows "idle \<le> nowMs t''"
proof -
  let ?w = "idle - nowMs t"
  obtain s n where u: "closer_until ?w t' = (s, n)" by (cases "closer_until ?w t'")
  note ok = closer_until_ok [OF assms(2) u]
  have "uint ?w = uint idle - uint (nowMs t)"
    using assms(5) by (simp add: uint_sub_if' word_less_def)
  moreover have "nanos t \<le> nanos t'" "nanos (s, n) \<le> nanos t''"
    using assms u ok by (cases t; cases t'; cases t''; auto simp: nanos_before not_less)+
  ultimately have "(uint idle - uint (nowMs t)) * 1000000 + nanos t \<le> nanos t''" using ok(3) by simp
  moreover have "uint (nowMs t) = nanos t div 1000000" "uint (nowMs t'') = nanos t'' div 1000000"
    using assms(1,3) by (simp_all only: uint_nowMs)
  moreover have "(nanos t + (uint idle - uint (nowMs t)) * 1000000) div 1000000 = uint idle - uint (nowMs t) + nanos t div 1000000"
    by (rule div_mult_self1) simp
  ultimately have "uint idle \<le> uint (nowMs t'')"
    using zdiv_mono1 [of "nanos t + (uint idle - uint (nowMs t)) * 1000000" "nanos t''" 1000000] by simp
  then show ?thesis by (simp add: word_le_def)
qed

text \<open>
  C30. A stream left idle is closed, once its grace is over and no sooner: the closing thread of a
  device with an open stream closes it when its deadline has passed; before that it changes
  nothing and waits until a moment that is a valid time, not in its past, and late enough that
  when the wait is over the deadline has passed, so the stream is then closed in one turn unless
  a wave has put the deadline off.
\<close>

theorem rdp_sound_idle_closes:
  assumes "clock_ok t" "clock_ok t'" "\<not> ts_before t' t" and "\<not> d_quit d" and "d_stream d = Some n"
  shows "if d_idleAt d \<le> nowMs t
    then closer_turn t t' d v = (Closer_again, d\<lparr>d_stream := None\<rparr>, sn_emit (Stream_close n) v)
    else \<exists>sec nsec. closer_turn t t' d v = (Closer_waits_until (sec, nsec), d, v) \<and>
      0 \<le> nsec \<and> nsec < 1000000000 \<and> \<not> ts_before (sec, nsec) t' \<and>
      (\<forall>t1 t2. clock_ok t1 \<and> \<not> ts_before t1 (sec, nsec) \<longrightarrow>
         closer_turn t1 t2 d v = (Closer_again, d\<lparr>d_stream := None\<rparr>, sn_emit (Stream_close n) v))"
proof (cases "d_idleAt d \<le> nowMs t")
  case False
  let ?w = "d_idleAt d - nowMs t"
  obtain s m where u: "closer_until ?w t' = (s, m)" by (cases "closer_until ?w t'")
  note ok = closer_until_ok [OF assms(2) u]
  have "d_idleAt d \<le> nowMs t1" if "clock_ok t1" "\<not> ts_before t1 (s, m)" for t1
    using closer_until_due [OF assms(1,2) that(1) assms(3)] False that(2) u by simp
  moreover have "\<not> ts_before (s, m) t'"
    using ok assms(2) by (cases t') (simp add: nanos_before del: ts_before.simps nanos.simps)
  ultimately show ?thesis
    using False assms(4,5) u ok by (auto simp: closer_turn_def closeLocked_def)
qed (use assms in \<open>simp add: closer_turn_def closeLocked_def\<close>)

theorem rdp_sound_idle_closes_witness:
  "let d = device_zero\<lparr>d_stream := Some 7, d_idleAt := 5000\<rparr> in
     closer_turn (4, 999999999) (5, 1) d sound_zero = (Closer_waits_until (5, 1000001), d, sound_zero) \<and>
     closer_turn (5, 1000001) (5, 1000001) d sound_zero =
       (Closer_again, d\<lparr>d_stream := None\<rparr>, sn_emit (Stream_close 7) sound_zero)"
  using rdp_sound_idle_closes [of "(4, 999999999)" "(5, 1)" "device_zero\<lparr>d_stream := Some 7, d_idleAt := 5000\<rparr>" 7 sound_zero]
  by (simp add: device_zero_def closer_turn_def closeLocked_def Let_def)

section \<open>What a wave sounds like\<close>

fun stream_writes :: "sound_event list \<Rightarrow> (nat \<times> wave) list" where
  "stream_writes [] = []"
| "stream_writes (Stream_write n w # es) = (n, w) # stream_writes es"
| "stream_writes (_ # es) = stream_writes es"

lemma stream_writes_append: "stream_writes (es @ fs) = stream_writes es @ stream_writes fs"
  by (induction es rule: stream_writes.induct) simp_all

lemma sint_widen_byte: "sint (widen_byte b) = (uint b - 128) * 256"
proof -
  have "0 \<le> uint b" "uint b < 256" using uint_bounded [of b] by simp_all
  then show ?thesis
    unfolding widen_byte_def sint_sbintrunc' by (intro signed_take_bit_int_eq_self) simp_all
qed

text \<open>A device that may open a stream, and the decoder's answer that gives no samples.\<close>

definition playing :: "Device \<Rightarrow> bool" where
  "playing d \<longleftrightarrow> d_opened d \<and> \<not> d_failed d \<and> d_kind d \<noteq> KIND_NONE"

definition gives_none :: "play_answers \<Rightarrow> Device \<Rightarrow> bool" where
  "gives_none a d \<longleftrightarrow> decoded (d_kind d) \<and>
     (d_decoder d = None \<or> pa_samples a = None \<or> pa_frames a \<le> 0 \<or> pa_channels a \<le> 0)"

text \<open>What should be heard of the data of a wave, by how the device plays its format.\<close>

fun sounds_as :: "play_answers \<Rightarrow> bytes \<Rightarrow> Kind \<Rightarrow> wave \<Rightarrow> bool" where
  "sounds_as a data k (Wave_bytes bs) \<longleftrightarrow> k = KIND_S16 \<and> bs = data"
| "sounds_as a data k (Wave_samples ws) \<longleftrightarrow>
     (if k = KIND_U8 then map sint ws = map (\<lambda>b. (uint b - 128) * 256) data
      else decoded k \<and> length ws = nat (pa_frames a * pa_channels a) \<and>
        (\<forall>i<length ws. ws ! i = the (pa_samples a) i))"

lemma openLocked_playing:
  assumes "playing d" and o: "openLocked True rate channels d v = (ok, d', v')"
  shows "ok \<and> (\<exists>n es. d_stream d' = Some n \<and> d_streamRate d' = rate \<and> d_streamChannels d' = channels \<and>
    sn_trace v' = sn_trace v @ es \<and> stream_writes es = [])"
  using assms
  by (auto simp: openLocked_def playing_def closeLocked_def sn_emit_def Let_def split: if_splits option.splits)

lemma play_wave_writes:
  assumes "playing d" "pa_stream_ok a" "wave_len w > 0" and p: "play_wave a (Some w) rate channels d v = (d', v')"
  shows "\<exists>n es. d_stream d' = Some n \<and> d_streamRate d' = rate \<and> d_streamChannels d' = channels \<and>
    sn_trace v' = sn_trace v @ es \<and> stream_writes es = [(n, w)]"
proof -
  obtain ok d1 v1 where o: "openLocked True rate channels d v = (ok, d1, v1)" by (metis prod_cases3)
  from openLocked_playing [OF assms(1) o] obtain n es where
    "ok" "d_stream d1 = Some n" "d_streamRate d1 = rate" "d_streamChannels d1 = channels"
    "sn_trace v1 = sn_trace v @ es" "stream_writes es = []" by blast
  with p assms(2,3) o show ?thesis
    by (intro exI [of _ n] exI [of _ "es @ [Stream_write n w]"])
      (auto simp: play_wave_def sn_emit_def stream_writes_append)
qed

lemma wave_samples_sound:
  assumes "playing d" "kind = d_kind d" "pa_grown a" "\<not> gives_none a d"
    and w: "wave_samples a kind data d v = (w, rate, channels, d', v')"
  shows "\<exists>x. w = Some x \<and> sounds_as a data (d_kind d) x \<and> (data \<noteq> [] \<longrightarrow> wave_len x > 0) \<and> playing d' \<and>
    (\<exists>es. sn_trace v' = sn_trace v @ es \<and> stream_writes es = [])"
proof -
  consider (dec) "decoded (d_kind d)" | (u8) "d_kind d = KIND_U8" | (s16) "d_kind d = KIND_S16"
    using assms(1) by (cases "d_kind d") (auto simp: decoded_def playing_def)
  then show ?thesis
  proof cases
    case dec
    then obtain n f where "d_decoder d = Some n" "pa_samples a = Some f" "0 < pa_frames a" "0 < pa_channels a"
      using assms(4) by (auto simp: gives_none_def not_le)
    with dec assms(1,2) w show ?thesis
      by (auto simp: wave_samples_def decodeLocked_def playing_def sn_emit_def decoded_def)
  next
    case u8
    with assms(1,2,3) w show ?thesis
      by (auto simp: wave_samples_def widen_def playing_def decoded_def sint_widen_byte split: if_splits)
  next
    case s16
    with assms(1,2) w show ?thesis by (auto simp: wave_samples_def playing_def decoded_def)
  qed
qed

text \<open>
  C16. A wave is heard as the server sent it.  When a device that can play gets a wave in the format
  it was opened in, the stream is open in that sound's rate and channels and exactly one write goes
  to it: the data itself for 16-bit samples, for 8-bit ones the samples a signed 16-bit sample of
  256 times their distance from the middle each, without overflow, and for a compressed format the
  frames the decoder gave, all channels of them.  A packet the decoder has nothing for (yet)
  writes nothing and leaves the stream as it is.  The device then reports the latency, never a
  negative one, and puts the end of the stream's grace that long and two seconds off.
\<close>

theorem rdp_sound_plays:
  assumes "playing d" and "kindOf v (Some f) = d_kind d" and "pa_grown a" and "pa_stream_ok a" and "data \<noteq> []"
    and "playEx a (Some f) data d v = (ms, d', v')"
  shows "(if gives_none a d
      then d_stream d' = d_stream d \<and> (\<exists>es. sn_trace v' = sn_trace v @ es \<and> stream_writes es = [])
      else \<exists>n w es. d_stream d' = Some n \<and> sn_trace v' = sn_trace v @ es \<and> stream_writes es = [(n, w)] \<and>
        sounds_as a data (d_kind d) w \<and>
        (d_streamRate d', d_streamChannels d') =
          (if decoded (d_kind d) then (pa_rate a, pa_channels a)
           else (uint (nSamplesPerSec (d_format d)), uint (nChannels (d_format d))))) \<and>
    (d_stream d' \<noteq> None \<longrightarrow>
       (let heard = max 0 (if at_latency (sn_table v') then pa_latency a else 0) in
         ms = word_of_int heard \<and> d_idleAt d' = nowMs (pa_now a) + word_of_int heard + 2000))"
proof -
  let ?d = "if \<not> d_announced d then d\<lparr>d_announced := True\<rparr> else d"
  obtain w rate channels d1 v1 where w: "wave_samples a (d_kind d) data ?d v = (w, rate, channels, d1, v1)"
    by (metis prod_cases5)
  obtain d2 v2 where p: "play_wave a w rate channels d1 v1 = (d2, v2)" by (metis prod.collapse)
  have d: "playing ?d" "d_kind ?d = d_kind d" "gives_none a ?d = gives_none a d" "d_stream ?d = d_stream d"
    "d_format ?d = d_format d"
    using assms(1) by (simp_all add: playing_def gives_none_def)
  have d': "d_stream d' = d_stream d2" "d_streamRate d' = d_streamRate d2" "d_streamChannels d' = d_streamChannels d2"
    "\<exists>es. sn_trace v' = sn_trace v2 @ es \<and> stream_writes es = []" "sn_table v' = sn_table v2"
    and heard: "d_stream d' \<noteq> None \<longrightarrow>
       (let heard = max 0 (if at_latency (sn_table v') then pa_latency a else 0) in
         ms = word_of_int heard \<and> d_idleAt d' = nowMs (pa_now a) + word_of_int heard + 2000)"
    using assms(2,6) w p
    by (auto simp: playEx_def IDLE_GRACE_MS_def sn_emit_def max_def Let_def split: option.splits if_splits)
  show ?thesis
  proof (cases "gives_none a d")
    case True
    then have n: "w = None" "d_stream d1 = d_stream d" "\<exists>es. sn_trace v1 = sn_trace v @ es \<and> stream_writes es = []"
      using w d by (auto simp: wave_samples_def gives_none_def decodeLocked_def sn_emit_def Let_def split: option.splits if_splits)
    then have "d_stream d' = d_stream d" using p d'(1) by (simp add: play_wave_def)
    moreover have "\<exists>es. sn_trace v' = sn_trace v @ es \<and> stream_writes es = []"
      using n p d'(4) by (auto simp: play_wave_def stream_writes_append)
    ultimately show ?thesis using True heard by simp
  next
    case False
    from wave_samples_sound [OF d(1) _ assms(3), of "d_kind d"] w d False obtain x es where
      x: "w = Some x" "sounds_as a data (d_kind d) x" "wave_len x > 0" "playing d1"
      "sn_trace v1 = sn_trace v @ es" "stream_writes es = []" using assms(5) by metis
    moreover obtain n es' where "d_stream d2 = Some n" "d_streamRate d2 = rate" "d_streamChannels d2 = channels"
      "sn_trace v2 = sn_trace v1 @ es'" "stream_writes es' = [(n, x)]"
      using play_wave_writes [OF x(4) assms(4) x(3)] p x(1) by blast
    moreover have "(rate, channels) = (if decoded (d_kind d) then (pa_rate a, pa_channels a)
        else (uint (nSamplesPerSec (d_format d)), uint (nChannels (d_format d))))"
      using w d by (auto simp: wave_samples_def Let_def split: if_splits prod.splits)
    ultimately show ?thesis using False heard d' by (auto simp: stream_writes_append)
  qed
qed

definition example_u8 :: AUDIO_FORMAT where
  "example_u8 = format_zero\<lparr>wFormatTag := WAVE_FORMAT_PCM, nChannels := 1, nSamplesPerSec := 11025, wBitsPerSample := 8\<rparr>"

definition example_device :: Device where
  "example_device = device_zero\<lparr>d_format := example_u8, d_kind := KIND_U8, d_opened := True, d_gain := 1\<rparr>"

definition example_play :: play_answers where
  "example_play = \<lparr>pa_frames = 0, pa_samples = None, pa_rate = 0, pa_channels = 0, pa_grown = True,
     pa_stream_ok = True, pa_latency = -1, pa_now = (1, 0)\<rparr>"

theorem rdp_sound_plays_witness:
  "let (ms, d, v) = playEx example_play (Some example_u8) [0, 255] example_device sound_zero in
     (\<exists>n ws. d_stream d = Some n \<and> stream_writes (sn_trace v) = [(n, Wave_samples ws)] \<and> map sint ws = [-32768, 32512]) \<and>
     d_streamRate d = 11025 \<and> ms = 0"
proof -
  let ?p = "playEx example_play (Some example_u8) [0, 255] example_device sound_zero"
  obtain ms d v where p: "?p = (ms, d, v)" by (metis prod_cases3)
  have "playing example_device" "kindOf sound_zero (Some example_u8) = d_kind example_device" "\<not> gives_none example_play example_device"
    by (simp_all add: playing_def gives_none_def decoded_def kindOf_def example_device_def device_zero_def example_u8_def format_zero_def)
  with rdp_sound_plays [OF _ _ _ _ _ p] obtain n w where "d_stream d = Some n" "stream_writes (sn_trace v) = [(n, w)]"
    "sounds_as example_play [0, 255] KIND_U8 w" "d_streamRate d = 11025" "ms = 0"
    by (auto simp: example_play_def example_device_def device_zero_def example_u8_def decoded_def sound_zero_def Let_def)
  then show ?thesis using p by (cases w) auto
qed

end
