(* ===== verification/Rdp_Devices.thy ===== *)
theory Rdp_Devices
  imports Rdp_Sound
begin

text \<open>
  The sound devices of a FreeRDP session together: the calls of their channels and the turns of
  their closing threads in any order, over the one table of the session
  (\<open>src/backends/modules/freerdp/cpp/rdpsnd_vento.c\<close>).  The trace of the calls made to the
  platform is read as the platform reads it: which handles are open, whether every call used an
  open one, whether the sound switch is shown.  \<open>device_operation\<close> is what an operation of one
  device owes the others; every operation is an interpretation of it.
\<close>

section \<open>The devices of a session\<close>

text \<open>
  The static and the dynamic channel of a session, and every reconnection of one, make a device
  of their own over the same table; the calls into them and the turns of their closing threads
  come in any order.  A device that was freed leaves its place empty.
\<close>

type_synonym sound_system = "VentoSound \<times> Device option list"

datatype sound_call =
    Snd_entry bool bool
  | Snd_announce nat "AUDIO_FORMAT list"
  | Snd_open nat bool bool timespec AUDIO_FORMAT
  | Snd_volume nat u32
  | Snd_play nat play_answers "AUDIO_FORMAT option" bytes
  | Snd_close nat
  | Snd_closer nat timespec timespec
  | Snd_free nat

definition device_at :: "nat \<Rightarrow> Device option list \<Rightarrow> Device option" where
  "device_at i ds = (if i < length ds then ds ! i else None)"

definition on_device :: "nat \<Rightarrow> (Device \<Rightarrow> VentoSound \<Rightarrow> Device \<times> VentoSound) \<Rightarrow> sound_system \<Rightarrow> sound_system" where
  "on_device i f S =
     (case device_at i (snd S) of
        None \<Rightarrow> S
      | Some d \<Rightarrow> (let (d, v) = f d (fst S) in (v, (snd S)[i := Some d])))"

fun sound_step ::
  "(wave_tag \<Rightarrow> string option) \<Rightarrow> (AUDIO_FORMAT \<Rightarrow> bool) \<Rightarrow> sound_call \<Rightarrow> sound_system \<Rightarrow> sound_system"
where
  "sound_step tags dsp (Snd_entry memory thread) S =
     (case device_entry memory thread (fst S) of
        (_, None, v) \<Rightarrow> (v, snd S)
      | (_, Some d, v) \<Rightarrow> (v, snd S @ [Some d]))"
| "sound_step tags dsp (Snd_announce i fs) S = on_device i (serverFormatAnnounce tags dsp fs) S"
| "sound_step tags dsp (Snd_open i stream_ok decoder_ok now f) S =
     on_device i (\<lambda>d v. snd (device_open stream_ok decoder_ok now f d v)) S"
| "sound_step tags dsp (Snd_volume i value) S = on_device i (setVolume value) S"
| "sound_step tags dsp (Snd_play i a f data) S = on_device i (\<lambda>d v. snd (playEx a f data d v)) S"
| "sound_step tags dsp (Snd_close i) S = on_device i device_close S"
| "sound_step tags dsp (Snd_closer i t t') S = on_device i (\<lambda>d v. snd (closer_turn t t' d v)) S"
| "sound_step tags dsp (Snd_free i) S =
     (case device_at i (snd S) of
        None \<Rightarrow> S
      | Some d \<Rightarrow> (snd (device_free d (fst S)), (snd S)[i := None]))"

section \<open>Handles and the switch\<close>

text \<open>
  Reading the trace as the platform does: the handles given out and not closed yet, whether every
  call used one that was open, and whether the session's sound switch is shown.
\<close>

datatype handle = Stream_handle nat | Decoder_handle nat

fun handle_no :: "handle \<Rightarrow> nat" where
  "handle_no (Stream_handle n) = n"
| "handle_no (Decoder_handle n) = n"

definition use_handle :: "handle \<Rightarrow> bool \<times> handle set \<Rightarrow> bool \<times> handle set" where
  "use_handle h S = (fst S \<and> h \<in> snd S, snd S)"

definition close_handle :: "handle \<Rightarrow> bool \<times> handle set \<Rightarrow> bool \<times> handle set" where
  "close_handle h S = (fst S \<and> h \<in> snd S, snd S - {h})"

definition open_handle :: "handle option \<Rightarrow> bool \<times> handle set \<Rightarrow> bool \<times> handle set" where
  "open_handle h S = (case h of None \<Rightarrow> S | Some h \<Rightarrow> (fst S \<and> h \<notin> snd S, insert h (snd S)))"

fun handle_step :: "sound_event \<Rightarrow> bool \<times> handle set \<Rightarrow> bool \<times> handle set" where
  "handle_step (Stream_open _ _ n) S = open_handle (map_option Stream_handle n) S"
| "handle_step (Stream_write n _) S = use_handle (Stream_handle n) S"
| "handle_step (Stream_gain n _) S = use_handle (Stream_handle n) S"
| "handle_step (Stream_latency n) S = use_handle (Stream_handle n) S"
| "handle_step (Stream_close n) S = close_handle (Stream_handle n) S"
| "handle_step (Audio_decoder_open _ _ _ _ n) S = open_handle (map_option Decoder_handle n) S"
| "handle_step (Audio_decode n _) S = use_handle (Decoder_handle n) S"
| "handle_step (Audio_decoder_close n) S = close_handle (Decoder_handle n) S"
| "handle_step Audio_release S = (fst S \<and> snd S = {}, snd S)"
| "handle_step _ S = S"

definition handles_used :: "sound_event list \<Rightarrow> bool \<times> handle set" where
  "handles_used es = fold handle_step es (True, {})"

fun switch_step :: "sound_event \<Rightarrow> bool \<Rightarrow> bool" where
  "switch_step Sound_offer b = True"
| "switch_step Sound_withdraw b = False"
| "switch_step _ b = b"

definition switch_shown :: "sound_event list \<Rightarrow> bool" where
  "switch_shown es = fold switch_step es False"

definition handles :: "Device \<Rightarrow> handle set" where
  "handles d = set_option (map_option Stream_handle (d_stream d)) \<union> set_option (map_option Decoder_handle (d_decoder d))"

text \<open>
  What holds of the table and the trace when the handles \<open>H\<close> are open and \<open>k\<close> devices offer
  sound, and of a device whose session has \<open>H\<close> and \<open>k\<close> besides its own.
\<close>

definition can_decode :: "vento_audio \<Rightarrow> bool" where
  "can_decode t \<longleftrightarrow> at_decoder_open t \<and> at_decode t \<and> at_decoder_close t"

definition sound_inv :: "handle set \<Rightarrow> int \<Rightarrow> VentoSound \<Rightarrow> bool" where
  "sound_inv H k v \<longleftrightarrow>
     handles_used (sn_trace v) = (True, H) \<and> (\<forall>h\<in>H. handle_no h < sn_next v) \<and>
     list_all (calls_member (sn_table v)) (sn_trace v) \<and>
     at_open (sn_table v) \<and> at_write (sn_table v) \<and> at_close (sn_table v) \<and>
     (sn_aac v \<or> sn_opus v \<longrightarrow> can_decode (sn_table v)) \<and>
     sn_offering v = k \<and> 0 \<le> k \<and> (at_withdraw (sn_table v) \<longrightarrow> (switch_shown (sn_trace v) \<longleftrightarrow> 0 < k))"

definition device_ok :: "vento_audio \<Rightarrow> Device \<Rightarrow> bool" where
  "device_ok t d \<longleftrightarrow>
     (d_stream d \<noteq> None \<longrightarrow> playing d) \<and> (d_decoder d \<noteq> None \<or> decoded (d_kind d) \<longrightarrow> can_decode t) \<and>
     (d_offering d \<longrightarrow> at_offer t)"

definition offers :: "Device \<Rightarrow> int" where
  "offers d = (if d_offering d then 1 else 0)"

definition dev_inv :: "handle set \<Rightarrow> int \<Rightarrow> Device \<Rightarrow> VentoSound \<Rightarrow> bool" where
  "dev_inv H k d v \<longleftrightarrow> sound_inv (H \<union> handles d) (k + offers d) v \<and> H \<inter> handles d = {} \<and> 0 \<le> k \<and> device_ok (sn_table v) d"

text \<open>Every operation of a device keeps this, and the table is only read.\<close>

definition keeps_sound :: "(Device \<Rightarrow> VentoSound \<Rightarrow> Device \<times> VentoSound) \<Rightarrow> bool" where
  "keeps_sound f \<longleftrightarrow> (\<forall>H k d v d' v'. dev_inv H k d v \<longrightarrow> f d v = (d', v') \<longrightarrow> dev_inv H k d' v' \<and> sn_table v' = sn_table v)"

lemma dev_inv_fields [simp]:
  "dev_inv H k (d\<lparr>d_gain := g\<rparr>) v = dev_inv H k d v"
  "dev_inv H k (d\<lparr>d_announced := b\<rparr>) v = dev_inv H k d v"
  "dev_inv H k (d\<lparr>d_idleAt := t\<rparr>) v = dev_inv H k d v"
  "dev_inv H k (d\<lparr>d_undecodable := b\<rparr>) v = dev_inv H k d v"
  "dev_inv H k (d\<lparr>d_wideLen := n\<rparr>) v = dev_inv H k d v"
  "dev_inv H k (d\<lparr>d_quit := b\<rparr>) v = dev_inv H k d v"
  "dev_inv H k (d\<lparr>d_streamRate := r, d_streamChannels := c\<rparr>) v = dev_inv H k d v"
  "dev_inv H k d (v\<lparr>sn_formats := f\<rparr>) = dev_inv H k d v"
  by (simp_all add: dev_inv_def sound_inv_def device_ok_def handles_def offers_def playing_def)

text \<open>A call of the platform that leaves the switch alone, with what it makes of the handles.\<close>

lemma dev_inv_event:
  assumes d: "dev_inv H k d v" and "calls_member (sn_table v) e" and "\<And>b. switch_step e b = b"
    and "handle_step e (True, H \<union> handles d) = (True, H \<union> handles d')" and "H \<inter> handles d' = {}"
    and m: "sn_next v \<le> m" "\<And>h. h \<in> handles d' \<Longrightarrow> handle_no h < m"
    and "offers d' = offers d" and "device_ok (sn_table v) d'"
  shows "dev_inv H k d' (sn_emit e (v\<lparr>sn_next := m\<rparr>))"
proof -
  have "handle_no h < m" if "h \<in> H" for h using d that m(1) by (force simp: dev_inv_def sound_inv_def)
  with assms show ?thesis
    by (auto simp: dev_inv_def sound_inv_def handles_used_def switch_shown_def sn_emit_def)
qed

lemma sn_next_id [simp]: "v\<lparr>sn_next := sn_next v\<rparr> = v"
  by simp

lemmas dev_inv_same = dev_inv_event [where m = "sn_next v" and v = v for v, simplified sn_next_id, OF _ _ _ _ _ order_refl]

lemma dev_inv_handles:
  assumes "dev_inv H k d v"
  shows "h \<in> handles d \<Longrightarrow> handle_no h < sn_next v" "h \<in> handles d \<Longrightarrow> h \<notin> H"
  using assms by (auto simp: dev_inv_def sound_inv_def)

lemma dev_inv_use:
  assumes "dev_inv H k d v" "calls_member (sn_table v) e" "h \<in> handles d"
    and "\<And>S. handle_step e S = use_handle h S" and "\<And>b. switch_step e b = b"
  shows "dev_inv H k d (sn_emit e v)"
  using assms dev_inv_handles [OF assms(1)]
  by (intro dev_inv_same) (auto simp: use_handle_def dev_inv_def)

lemma keeps_closeLocked: "keeps_sound closeLocked"
proof -
  have "dev_inv H k (d\<lparr>d_stream := None\<rparr>) (sn_emit (Stream_close n) v)"
    if d: "dev_inv H k d v" "d_stream d = Some n" for H k d v n
  proof (rule dev_inv_same [OF d(1)])
    have "Stream_handle n \<in> handles d" by (simp add: handles_def d(2))
    then show "handle_step (Stream_close n) (True, H \<union> handles d) = (True, H \<union> handles (d\<lparr>d_stream := None\<rparr>))"
      using dev_inv_handles(2) [OF d(1)] d(2) by (auto simp: close_handle_def handles_def)
  qed (use d dev_inv_handles [OF d(1)] in \<open>auto simp: dev_inv_def sound_inv_def device_ok_def handles_def offers_def playing_def\<close>)
  then show ?thesis by (auto simp: keeps_sound_def closeLocked_def sn_emit_def split: option.splits)
qed

lemma keeps_closeDecoderLocked: "keeps_sound closeDecoderLocked"
proof -
  have "dev_inv H k (d\<lparr>d_decoder := None\<rparr>) (sn_emit (Audio_decoder_close n) v)"
    if d: "dev_inv H k d v" "d_decoder d = Some n" for H k d v n
  proof (rule dev_inv_same [OF d(1)])
    have "Decoder_handle n \<in> handles d" by (simp add: handles_def d(2))
    then show "handle_step (Audio_decoder_close n) (True, H \<union> handles d) = (True, H \<union> handles (d\<lparr>d_decoder := None\<rparr>))"
      using dev_inv_handles(2) [OF d(1)] d(2) by (auto simp: close_handle_def handles_def)
  qed (use d dev_inv_handles [OF d(1)] in \<open>auto simp: dev_inv_def device_ok_def can_decode_def handles_def offers_def playing_def\<close>)
  then show ?thesis by (auto simp: keeps_sound_def closeDecoderLocked_def sn_emit_def split: option.splits)
qed

lemma keeps_stopOffering: "keeps_sound stopOffering"
proof -
  have "dev_inv H k (d\<lparr>d_offering := False\<rparr>)
      (if sn_offering v = 1 \<and> at_withdraw (sn_table v) then sn_emit Sound_withdraw (v\<lparr>sn_offering := sn_offering v - 1\<rparr>)
       else v\<lparr>sn_offering := sn_offering v - 1\<rparr>)"
    if "dev_inv H k d v" "d_offering d" for H k d v
    using that by (auto simp: dev_inv_def sound_inv_def device_ok_def handles_def offers_def playing_def handles_used_def
      switch_shown_def sn_emit_def)
  then show ?thesis by (auto simp: keeps_sound_def stopOffering_def sn_emit_def Let_def split: if_splits)
qed

lemma keeps_announce: "keeps_sound (serverFormatAnnounce tags dsp fs)"
proof -
  have "dev_inv H k d' v' \<and> sn_table v' = sn_table v"
    if d: "dev_inv H k d v" "serverFormatAnnounce tags dsp fs d v = (d', v')" for H k d v d' v'
  proof -
    define v1 where "v1 = v\<lparr>sn_formats := fnv1a (announce_line tags dsp v True fs [])\<rparr>"
    have v1: "dev_inv H k d v1" "sn_table v1 = sn_table v" using d(1) by (simp_all add: v1_def)
    show ?thesis
    proof (cases "list_ex (\<lambda>f. kindOf v (Some f) \<noteq> KIND_NONE) fs \<and> at_offer (sn_table v)")
      case True
      then have "(d', v') = (d\<lparr>d_offering := True\<rparr>, sn_emit Sound_offer (if d_offering d then v1 else v1\<lparr>sn_offering := sn_offering v1 + 1\<rparr>))"
        using d(2) by (cases "d_offering d") (simp_all add: serverFormatAnnounce_def v1_def Let_def)
      then show ?thesis using v1 True
        by (auto simp: dev_inv_def sound_inv_def device_ok_def handles_def offers_def playing_def handles_used_def
            switch_shown_def sn_emit_def)
    next
      case False
      then have "stopOffering d v1 = (d', v')" using d(2) by (auto simp: serverFormatAnnounce_def v1_def Let_def split: if_splits)
      with keeps_stopOffering v1 show ?thesis unfolding keeps_sound_def by metis
    qed
  qed
  then show ?thesis unfolding keeps_sound_def by blast
qed

lemma keeps_setVolume: "keeps_sound (setVolume vol)"
proof -
  have "dev_inv H k (d\<lparr>d_gain := g\<rparr>) (sn_emit (Stream_gain n g) v)"
    if "dev_inv H k d v" "d_stream d = Some n" "at_set_gain (sn_table v)" for H k d v g n
    using that by (intro dev_inv_use [where h = "Stream_handle n"]) (auto simp: handles_def)
  then show ?thesis
    by (auto simp: keeps_sound_def setVolume_def sn_emit_def Let_def split: option.splits if_splits)
qed

lemma keepsI:
  assumes "\<And>H k d v d' v'. dev_inv H k d v \<Longrightarrow> f d v = (d', v') \<Longrightarrow> dev_inv H k d' v' \<and> sn_table v' = sn_table v"
  shows "keeps_sound f"
  using assms unfolding keeps_sound_def by blast

lemma keepsD:
  assumes "keeps_sound f" "dev_inv H k d v" "f d v = (d', v')"
  shows "dev_inv H k d' v'" "sn_table v' = sn_table v"
  using assms unfolding keeps_sound_def by metis+

lemma dev_inv_opened:
  assumes d: "dev_inv H k d v" and s: "d_stream d = None" "playing d"
  shows "dev_inv H k (d\<lparr>d_stream := Some (sn_next v)\<rparr>) (sn_emit (Stream_open rate channels (Some (sn_next v))) (v\<lparr>sn_next := Suc (sn_next v)\<rparr>))"
proof (rule dev_inv_event [OF d])
  have "Stream_handle (sn_next v) \<notin> H \<union> handles d" using d by (force simp: dev_inv_def sound_inv_def)
  then show "handle_step (Stream_open rate channels (Some (sn_next v))) (True, H \<union> handles d) =
      (True, H \<union> handles (d\<lparr>d_stream := Some (sn_next v)\<rparr>))"
    "H \<inter> handles (d\<lparr>d_stream := Some (sn_next v)\<rparr>) = {}"
    using d s(1) by (auto simp: open_handle_def handles_def dev_inv_def)
qed (use d s dev_inv_handles [OF d] in \<open>force simp: dev_inv_def sound_inv_def device_ok_def handles_def offers_def playing_def\<close>)+

lemma keeps_openLocked: "keeps_sound (\<lambda>d v. snd (openLocked ok rate channels d v))"
proof -
  have "dev_inv H k d' v' \<and> sn_table v' = sn_table v"
    if d: "dev_inv H k d v" "snd (openLocked ok rate channels d v) = (d', v')" for H k d v d' v'
  proof (cases "d_stream d \<noteq> None \<and> d_streamRate d = rate \<and> d_streamChannels d = channels")
    case False
    obtain d1 v1 where c: "closeLocked d v = (d1, v1)" by (metis prod.collapse)
    note k = keepsD [OF keeps_closeLocked d(1) c]
    have s: "d_stream d1 = None" using c by (auto simp: closeLocked_def split: option.splits)
    let ?d = "d1\<lparr>d_streamRate := rate, d_streamChannels := channels\<rparr>"
    consider (no) "\<not> playing d1" | (refused) "playing d1" "\<not> ok" | (opened) "playing d1" "ok" by blast
    then show ?thesis
    proof cases
      case no
      then have "(d', v') = (d1, v1)" using False c d(2) by (auto simp: openLocked_def playing_def)
      with k show ?thesis by simp
    next
      case refused
      then have e: "d' = ?d\<lparr>d_failed := True\<rparr>" "v' = sn_emit (Stream_open rate channels None) v1"
        using False c d(2) by (auto simp: openLocked_def playing_def Let_def)
      have "dev_inv H k d' v'" unfolding e
        by (rule dev_inv_same [OF k(1)])
          (use k s dev_inv_handles [OF k(1)] in \<open>auto simp: dev_inv_def sound_inv_def device_ok_def handles_def offers_def open_handle_def playing_def\<close>)
      then show ?thesis using k(2) e by (simp add: sn_emit_def)
    next
      case opened
      let ?n = "sn_next v1"
      let ?v = "sn_emit (Stream_open rate channels (Some ?n)) (v1\<lparr>sn_next := Suc ?n\<rparr>)"
      have e: "d' = ?d\<lparr>d_stream := Some ?n\<rparr>"
        "v' = (if at_set_gain (sn_table v1) then sn_emit (Stream_gain ?n (d_gain d1)) ?v else ?v)"
        using False c d(2) opened by (auto simp: openLocked_def playing_def Let_def sn_emit_def)
      have "dev_inv H k (?d\<lparr>d_stream := Some ?n\<rparr>) ?v"
        by (rule dev_inv_opened) (use k s opened in \<open>auto simp: playing_def\<close>)
      then have "dev_inv H k d' ?v" by (simp add: e(1))
      then have "dev_inv H k d' v'"
        using dev_inv_use [of H k d' ?v "Stream_gain ?n (d_gain d1)" "Stream_handle ?n"]
        by (simp add: e sn_emit_def handles_def)
      then show ?thesis using k(2) e by (simp add: sn_emit_def)
    qed
  qed (use d in \<open>auto simp: openLocked_def\<close>)
  then show ?thesis unfolding keeps_sound_def by blast
qed

lemma keeps_comp:
  assumes "keeps_sound f" "keeps_sound g"
  shows "keeps_sound (\<lambda>d v. case f d v of (d, v) \<Rightarrow> g d v)"
  using assms unfolding keeps_sound_def by (metis (no_types, lifting) case_prod_conv surj_pair)

definition close_both :: "Device \<Rightarrow> VentoSound \<Rightarrow> Device \<times> VentoSound" where
  "close_both d v = (case closeLocked d v of (d, v) \<Rightarrow> closeDecoderLocked d v)"

lemma keeps_close_both: "keeps_sound close_both"
  using keeps_comp [OF keeps_closeLocked keeps_closeDecoderLocked] by (simp add: close_both_def [abs_def])

lemma close_both_none: "close_both d v = (d', v') \<Longrightarrow> d_stream d' = None \<and> d_decoder d' = None \<and> d_offering d' = d_offering d"
  by (auto simp: close_both_def closeLocked_def closeDecoderLocked_def split: option.splits)

lemma keeps_device_close: "keeps_sound device_close"
proof (rule keepsI)
  fix H k d v d' v'
  assume d: "dev_inv H k d v" "device_close d v = (d', v')"
  obtain d1 v1 where c: "close_both d v = (d1, v1)" by (metis prod.collapse)
  then have "d' = d1\<lparr>d_opened := False\<rparr>" "v' = v1"
    using d(2) by (auto simp: device_close_def close_both_def Let_def split: prod.splits)
  with keepsD [OF keeps_close_both d(1) c] close_both_none [OF c]
  show "dev_inv H k d' v' \<and> sn_table v' = sn_table v"
    by (simp add: dev_inv_def device_ok_def handles_def offers_def)
qed

lemma kindOf_decoded:
  assumes "dev_inv H k d v" "decoded (kindOf v f)" shows "can_decode (sn_table v)"
proof -
  have "sn_aac v \<or> sn_opus v" using assms(2) by (auto simp: kindOf_def decoded_def split: option.splits if_splits)
  then show ?thesis using assms(1) by (auto simp: dev_inv_def sound_inv_def)
qed

lemma keeps_open_decoder:
  assumes d: "dev_inv H k d v" and s: "d_stream d = None" "d_decoder d = None" and "can_decode (sn_table v)"
    and o: "open_audio_decoder ok kind f d v = (d', v')"
  shows "dev_inv H k d' v' \<and> sn_table v' = sn_table v"
proof -
  let ?e = "Audio_decoder_open (if kind = KIND_AAC then VENTO_AUDIO_CODEC_AAC else VENTO_AUDIO_CODEC_OPUS)
      (uint (nSamplesPerSec f)) (uint (nChannels f)) (decoderConfig f)"
  show ?thesis
  proof (cases ok)
    case False
    then have e: "d' = d\<lparr>d_failed := True\<rparr>" "v' = sn_emit (?e None) v" using o by (auto simp: open_audio_decoder_def Let_def)
    have "dev_inv H k d' v'" unfolding e
      by (rule dev_inv_same [OF d])
        (use assms dev_inv_handles [OF d] in \<open>auto simp: dev_inv_def device_ok_def handles_def offers_def open_handle_def can_decode_def\<close>)
    then show ?thesis using e by (simp add: sn_emit_def)
  next
    case True
    let ?n = "sn_next v"
    have e: "d' = d\<lparr>d_decoder := Some ?n\<rparr>" "v' = sn_emit (?e (Some ?n)) (v\<lparr>sn_next := Suc ?n\<rparr>)"
      using True o by (auto simp: open_audio_decoder_def Let_def)
    have "Decoder_handle ?n \<notin> H \<union> handles d" using d by (force simp: dev_inv_def sound_inv_def)
    then have "dev_inv H k d' v'" unfolding e
      by (intro dev_inv_event [OF d])
        (use assms dev_inv_handles [OF d] in \<open>auto simp: dev_inv_def device_ok_def handles_def offers_def open_handle_def can_decode_def\<close>)
    then show ?thesis using e by (simp add: sn_emit_def)
  qed
qed

lemma keeps_device_open: "keeps_sound (\<lambda>d v. snd (device_open stream_ok decoder_ok now f d v))"
proof -
  have "dev_inv H k d' v' \<and> sn_table v' = sn_table v"
    if d: "dev_inv H k d v" "snd (device_open stream_ok decoder_ok now f d v) = (d', v')" for H k d v d' v'
  proof (cases "kindOf v (Some f) = KIND_NONE")
    case False
    let ?kind = "kindOf v (Some f)"
    obtain d1 v1 where c: "close_both d v = (d1, v1)" by (metis prod.collapse)
    note k1 = keepsD [OF keeps_close_both d(1) c] and n = close_both_none [OF c]
    let ?d = "d1\<lparr>d_format := f\<lparr>fmt_data := None, cbSize := 0\<rparr>, d_kind := ?kind, d_opened := True,
                 d_announced := False, d_failed := False, d_undecodable := False\<rparr>"
    have k2: "dev_inv H k ?d v1"
      using k1 n kindOf_decoded [OF d(1)] by (auto simp: dev_inv_def device_ok_def handles_def offers_def)
    obtain d2 v2 where o: "(if decoded ?kind then open_audio_decoder decoder_ok ?kind f ?d v1 else (?d, v1)) = (d2, v2)"
      by (metis prod.collapse)
    have k3: "dev_inv H k d2 v2 \<and> sn_table v2 = sn_table v"
    proof (cases "decoded ?kind")
      case True
      then show ?thesis using keeps_open_decoder [OF k2, of decoder_ok ?kind f d2 v2] o n k1(2) kindOf_decoded [OF d(1) True] by simp
    qed (use o k2 k1(2) in simp)
    obtain ok d3 v3 where p: "openLocked stream_ok (if ?kind = KIND_OPUS then 48000 else uint (nSamplesPerSec f)) (uint (nChannels f)) d2 v2 = (ok, d3, v3)"
      by (metis prod_cases3)
    have k4: "dev_inv H k d3 v3" "sn_table v3 = sn_table v2"
      using keepsD [OF keeps_openLocked, of H k d2 v2] k3 p by (metis snd_conv)+
    have "d' = d3\<lparr>d_idleAt := nowMs now + IDLE_GRACE_MS\<rparr>" "v' = v3"
      using False c o p d(2) by (auto simp: device_open_def close_both_def Let_def split: prod.splits)
    with k3 k4 show ?thesis by simp
  qed (use d in \<open>simp add: device_open_def\<close>)
  then show ?thesis unfolding keeps_sound_def by blast
qed

lemma keeps_closer: "keeps_sound (\<lambda>d v. snd (closer_turn t t' d v))"
proof (rule keepsI)
  fix H k d v d' v'
  assume "dev_inv H k d v" "snd (closer_turn t t' d v) = (d', v')"
  then show "dev_inv H k d' v' \<and> sn_table v' = sn_table v"
    using keepsD [OF keeps_closeLocked, of H k d v d' v'] by (simp add: closer_turn_def split: if_splits)
qed

lemma device_free_both: "device_free d v = (case stopOffering d v of (d, v) \<Rightarrow> close_both (d\<lparr>d_quit := True\<rparr>) v)"
  by (simp add: device_free_def close_both_def Let_def split: prod.splits)

lemma device_free_empty:
  assumes "device_free d v = (d', v')" shows "handles d' = {}" "offers d' = 0"
proof -
  obtain d1 v1 where "stopOffering d v = (d1, v1)" by (metis prod.collapse)
  moreover from this have "\<not> d_offering d1" by (auto simp: stopOffering_def Let_def split: if_splits)
  ultimately show "handles d' = {}" "offers d' = 0"
    using assms close_both_none [of "d1\<lparr>d_quit := True\<rparr>" v1 d' v']
    by (auto simp: device_free_both handles_def offers_def)
qed

lemma keeps_device_free: "keeps_sound device_free"
proof (rule keepsI)
  fix H k d v d' v'
  assume d: "dev_inv H k d v" "device_free d v = (d', v')"
  obtain d1 v1 where c: "stopOffering d v = (d1, v1)" by (metis prod.collapse)
  note k = keepsD [OF keeps_stopOffering d(1) c]
  have "close_both (d1\<lparr>d_quit := True\<rparr>) v1 = (d', v')" using d(2) c by (simp add: device_free_both)
  with keepsD [OF keeps_close_both, of H k "d1\<lparr>d_quit := True\<rparr>" v1 d' v'] k
  show "dev_inv H k d' v' \<and> sn_table v' = sn_table v" by simp
qed

lemma keeps_decodeLocked:
  assumes d: "dev_inv H k d v" and o: "decodeLocked a data d v = (w, d', v')"
  shows "dev_inv H k d' v' \<and> sn_table v' = sn_table v"
proof (cases "d_decoder d")
  case (Some n)
  have "can_decode (sn_table v)" using d Some by (simp add: dev_inv_def device_ok_def)
  then have "dev_inv H k d (sn_emit (Audio_decode n data) v)"
    by (intro dev_inv_use [OF d, where h = "Decoder_handle n"]) (auto simp: can_decode_def handles_def Some)
  with o Some show ?thesis
    by (auto simp: decodeLocked_def sn_emit_def Let_def split: if_splits option.splits)
qed (use assms in \<open>simp add: decodeLocked_def\<close>)

lemma keeps_wave_samples:
  assumes d: "dev_inv H k d v" and o: "wave_samples a kind data d v = (w, rate, channels, d', v')"
  shows "dev_inv H k d' v' \<and> sn_table v' = sn_table v"
  using assms keeps_decodeLocked [OF d, of a data]
  by (auto simp: wave_samples_def widen_def Let_def split: if_splits prod.splits)

lemma keeps_play_wave: "keeps_sound (play_wave a w rate channels)"
proof (rule keepsI)
  fix H k d v d' v'
  assume d: "dev_inv H k d v" "play_wave a w rate channels d v = (d', v')"
  show "dev_inv H k d' v' \<and> sn_table v' = sn_table v"
  proof (cases "w = None \<or> wave_len (the w) = 0")
    case False
    then obtain x where x: "w = Some x" "wave_len x \<noteq> 0" by auto
    obtain ok d1 v1 where o: "openLocked (pa_stream_ok a) rate channels d v = (ok, d1, v1)" by (metis prod_cases3)
    note k = keepsD [OF keeps_openLocked d(1), of "pa_stream_ok a" rate channels d1 v1, unfolded o, simplified]
    have "dev_inv H k d1 (sn_emit (Stream_write n x) v1)" if "d_stream d1 = Some n" for n
      using that k(1) by (intro dev_inv_use [where h = "Stream_handle n"]) (auto simp: handles_def dev_inv_def sound_inv_def)
    with k x o d(2) show ?thesis
      by (auto simp: play_wave_def sn_emit_def split: option.splits if_splits)
  qed (use d in \<open>auto simp: play_wave_def split: option.splits\<close>)
qed

lemma keeps_playEx: "keeps_sound (\<lambda>d v. snd (playEx a f data d v))"
proof (rule keepsI)
  fix H k d v d' v'
  assume d: "dev_inv H k d v" "snd (playEx a f data d v) = (d', v')"
  let ?d = "if \<not> d_announced d \<and> f \<noteq> None then d\<lparr>d_announced := True\<rparr> else d"
  obtain w rate channels d1 v1 where w: "wave_samples a (kindOf v f) data ?d v = (w, rate, channels, d1, v1)"
    by (metis prod_cases5)
  obtain d2 v2 where p: "play_wave a w rate channels d1 v1 = (d2, v2)" by (metis prod.collapse)
  have "dev_inv H k ?d v" using d(1) by simp
  note k1 = keeps_wave_samples [OF this w]
  note k2 = keepsD [OF keeps_play_wave conjunct1 [OF k1] p]
  have "dev_inv H k d2 (sn_emit (Stream_latency n) v2)" if "d_stream d2 = Some n" "at_latency (sn_table v2)" for n
    using that k2(1) by (intro dev_inv_use [where h = "Stream_handle n"]) (auto simp: handles_def)
  with k1 k2 w p d(2) show "dev_inv H k d' v' \<and> sn_table v' = sn_table v"
    by (auto simp: playEx_def sn_emit_def Let_def split: option.splits if_splits)
qed

subsection \<open>All devices together\<close>

definition handles_of :: "Device option \<Rightarrow> handle set" where
  "handles_of x = (case x of None \<Rightarrow> {} | Some d \<Rightarrow> handles d)"

definition offers_of :: "Device option \<Rightarrow> int" where
  "offers_of x = (case x of None \<Rightarrow> 0 | Some d \<Rightarrow> offers d)"

definition open_handles :: "Device option list \<Rightarrow> handle set" where
  "open_handles ds = \<Union> (set (map handles_of ds))"

definition offering_devices :: "Device option list \<Rightarrow> int" where
  "offering_devices ds = sum_list (map offers_of ds)"

fun apart :: "Device option list \<Rightarrow> bool" where
  "apart [] \<longleftrightarrow> True"
| "apart (x # xs) \<longleftrightarrow> handles_of x \<inter> open_handles xs = {} \<and> apart xs"

definition sys_inv :: "sound_system \<Rightarrow> bool" where
  "sys_inv S \<longleftrightarrow>
     sound_inv (open_handles (snd S)) (offering_devices (snd S)) (fst S) \<and> apart (snd S) \<and>
     (\<forall>d. Some d \<in> set (snd S) \<longrightarrow> device_ok (sn_table (fst S)) d)"

lemma apart_mid: "apart (xs @ x # ys) \<longleftrightarrow> handles_of x \<inter> open_handles (xs @ ys) = {} \<and> apart (xs @ ys)"
  by (induction xs) (auto simp: open_handles_def)

lemma offering_nonneg: "0 \<le> offering_devices ds"
  unfolding offering_devices_def by (rule sum_list_nonneg) (auto simp: offers_of_def offers_def split: option.splits)

text \<open>A place of the list and the others.\<close>

lemma sys_inv_mid:
  "sys_inv (v, xs @ Some d # ys) \<longleftrightarrow>
     dev_inv (open_handles (xs @ ys)) (offering_devices (xs @ ys)) d v \<and> apart (xs @ ys) \<and>
     (\<forall>e. Some e \<in> set (xs @ ys) \<longrightarrow> device_ok (sn_table v) e)"
proof -
  have "open_handles (xs @ Some d # ys) = open_handles (xs @ ys) \<union> handles d"
    by (auto simp: open_handles_def handles_of_def)
  moreover have "offering_devices (xs @ Some d # ys) = offering_devices (xs @ ys) + offers d"
    by (simp add: offering_devices_def offers_of_def)
  ultimately show ?thesis
    using offering_nonneg [of "xs @ ys"] by (auto simp: sys_inv_def dev_inv_def apart_mid handles_of_def)
qed

lemma sys_inv_gone:
  assumes "sys_inv (v, xs @ Some d # ys)" and "handles d = {}" "offers d = 0"
  shows "sys_inv (v, xs @ None # ys)"
proof -
  have "open_handles (xs @ None # ys) = open_handles (xs @ ys)" "offering_devices (xs @ None # ys) = offering_devices (xs @ ys)"
    by (auto simp: open_handles_def handles_of_def offering_devices_def offers_of_def)
  then show ?thesis
    using assms by (auto simp: sys_inv_mid) (auto simp: sys_inv_def dev_inv_def apart_mid handles_of_def)
qed

text \<open>
  What a device owes its session: an operation keeps the device's own invariant, whatever the
  other devices hold, and does not touch the table.  Any operation that does so can be called on
  any device at any time.
\<close>

locale device_operation =
  fixes f :: "Device \<Rightarrow> VentoSound \<Rightarrow> Device \<times> VentoSound"
  assumes keeps: "keeps_sound f"
begin

lemma at_device:
  assumes "sys_inv (v, ds)" "device_at i ds = Some d" "f d v = (d', v')"
  shows "sys_inv (v', ds[i := Some d'])"
proof -
  have i: "i < length ds" "ds ! i = Some d" using assms(2) by (auto simp: device_at_def split: if_splits)
  then have ds: "ds = take i ds @ Some d # drop (Suc i) ds" by (metis id_take_nth_drop)
  have "sys_inv (v, take i ds @ Some d # drop (Suc i) ds)" using assms(1) ds by simp
  then have "sys_inv (v', take i ds @ Some d' # drop (Suc i) ds)"
    using keepsD [OF keeps _ assms(3)] unfolding sys_inv_mid by metis
  then show ?thesis using i(1) by (simp add: upd_conv_take_nth_drop)
qed

lemma on_device_inv: "sys_inv S \<Longrightarrow> sys_inv (on_device i f S)"
  by (cases S) (auto simp: on_device_def dest: at_device split: option.splits prod.splits)

end

interpretation ann: device_operation "serverFormatAnnounce tags dsp fs" for tags dsp fs
  by unfold_locales (rule keeps_announce)

interpretation opn: device_operation "\<lambda>d v. snd (device_open stream_ok decoder_ok now f d v)" for stream_ok decoder_ok now f
  by unfold_locales (rule keeps_device_open)

interpretation vol: device_operation "setVolume value'" for value'
  by unfold_locales (rule keeps_setVolume)

interpretation ply: device_operation "\<lambda>d v. snd (playEx a f data d v)" for a f data
  by unfold_locales (rule keeps_playEx)

interpretation cls: device_operation device_close
  by unfold_locales (rule keeps_device_close)

interpretation clr: device_operation "\<lambda>d v. snd (closer_turn t t' d v)" for t t'
  by unfold_locales (rule keeps_closer)

interpretation fre: device_operation device_free
  by unfold_locales (rule keeps_device_free)

lemma sys_inv_free:
  assumes "sys_inv (v, ds)" "device_at i ds = Some d"
  shows "sys_inv (snd (device_free d v), ds[i := None])"
proof -
  obtain d' v' where f: "device_free d v = (d', v')" by (metis prod.collapse)
  have i: "i < length ds" using assms(2) by (auto simp: device_at_def split: if_splits)
  have "sys_inv (v', take i ds @ Some d' # drop (Suc i) ds)"
    using fre.at_device [OF assms f] i by (simp add: upd_conv_take_nth_drop)
  from sys_inv_gone [OF this device_free_empty [OF f]] show ?thesis
    using f i by (simp add: upd_conv_take_nth_drop)
qed

lemma sys_inv_entry:
  assumes "sys_inv (v, ds)" "device_entry memory thread v = (rc, x, v')"
  shows "sys_inv (v', case x of None \<Rightarrow> ds | Some d \<Rightarrow> ds @ [Some d])"
proof -
  have no: "device_free (device_zero\<lparr>d_gain := 1\<rparr>) v = (device_zero\<lparr>d_gain := 1, d_quit := True\<rparr>, v)"
    by (simp add: device_free_def stopOffering_def closeLocked_def closeDecoderLocked_def device_zero_def)
  have ds: "open_handles (ds @ [Some d]) = open_handles ds \<union> handles d" "offering_devices (ds @ [Some d]) = offering_devices ds + offers d" for d
    by (auto simp: open_handles_def handles_of_def offering_devices_def offers_of_def)
  have ap: "apart (ds @ [Some d]) \<longleftrightarrow> apart ds" if "handles d = {}" for d
    using that apart_mid [of ds "Some d" "[]"] by (simp add: handles_of_def)
  let ?d = "device_zero\<lparr>d_gain := 1, d_closerRunning := True\<rparr>"
  have d: "handles (?d\<lparr>d_offering := b\<rparr>) = {}" "offers (?d\<lparr>d_offering := b\<rparr>) = (if b then 1 else 0)"
    "device_ok t (?d\<lparr>d_offering := b\<rparr>) \<longleftrightarrow> (b \<longrightarrow> at_offer t)" for b t
    by (simp_all add: device_zero_def handles_def offers_def device_ok_def decoded_def)
  have v: "sound_inv H (k + 1) (sn_emit Sound_offer (v\<lparr>sn_offering := sn_offering v + 1\<rparr>))"
    if "sound_inv H k v" "at_offer (sn_table v)" for H k
    using that by (auto simp: sound_inv_def handles_used_def switch_shown_def sn_emit_def)
  consider (none) "x = None" "v' = v"
    | (offer) "x = Some (?d\<lparr>d_offering := True\<rparr>)" "v' = sn_emit Sound_offer (v\<lparr>sn_offering := sn_offering v + 1\<rparr>)" "at_offer (sn_table v)"
    | (quiet) "x = Some (?d\<lparr>d_offering := False\<rparr>)" "v' = v"
    using assms(2) no by (auto simp: device_entry_def Let_def device_zero_def split: if_splits)
  then show ?thesis
  proof cases
    case offer
    with assms(1) v show ?thesis by (auto simp: sys_inv_def ds ap d sn_emit_def)
  next
    case quiet
    with assms(1) show ?thesis by (auto simp: sys_inv_def ds ap d)
  qed (use assms(1) in simp)
qed

lemma sys_inv_step: "sys_inv S \<Longrightarrow> sys_inv (sound_step tags dsp c S)"
  by (cases S; cases c)
    (auto simp: ann.on_device_inv opn.on_device_inv vol.on_device_inv ply.on_device_inv cls.on_device_inv clr.on_device_inv
      sys_inv_free dest: sys_inv_entry split: option.splits prod.splits)

lemma sys_inv_run: "sys_inv S \<Longrightarrow> sys_inv (fold (sound_step tags dsp) cs S)"
  by (induction cs arbitrary: S) (simp_all add: sys_inv_step)

lemma sys_inv_init:
  assumes "vento_sound_init decodable tbl = (True, v)" shows "sys_inv (v, [])"
  using assms
  by (auto simp: vento_sound_init_def sys_inv_def sound_inv_def sound_zero_def can_decode_def open_handles_def
      offering_devices_def handles_used_def switch_shown_def Let_def split: option.splits if_splits)

lemma release_trace:
  assumes "sound_inv {} k v" shows "fst (handles_used (sn_trace (vento_sound_release v)))"
  using assms by (simp add: vento_sound_release_def sound_inv_def handles_used_def sn_emit_def Let_def)

text \<open>
  C9. No stream and no decoder of the platform is leaked, used after it was closed, or closed
  twice, and no member of the table the platform left out is called, whatever the channels call
  in whatever order, with the closing threads in between: every call goes to a handle that is
  open, the open handles are those the devices hold, no two devices hold the same one, and at
  most one stream and one decoder are held by each.  When all devices have been freed nothing is
  open, so the table is only given back after the last handle was.
\<close>

theorem rdp_sound_handles:
  assumes "vento_sound_init decodable tbl = (True, v0)"
    and "fold (sound_step tags dsp) cs (v0, []) = (v, ds)"
  shows "handles_used (sn_trace v) = (True, open_handles ds) \<and> apart ds \<and>
    list_all (calls_member (sn_table v)) (sn_trace v) \<and>
    (\<forall>d. Some d \<in> set ds \<longrightarrow> card (handles d) \<le> 2 \<and> (d_stream d \<noteq> None \<longrightarrow> playing d)) \<and>
    (set ds \<subseteq> {None} \<longrightarrow> fst (handles_used (sn_trace (vento_sound_release v))))"
proof -
  have inv: "sys_inv (v, ds)" using sys_inv_run [OF sys_inv_init [OF assms(1)], of tags dsp cs] assms(2) by simp
  have "card (handles d) \<le> 2" for d
    unfolding handles_def by (rule order_trans [OF card_Un_le]) (cases "d_stream d"; cases "d_decoder d"; simp)
  moreover have "open_handles ds = {}" if "set ds \<subseteq> {None}" using that by (auto simp: open_handles_def handles_of_def)
  then have "fst (handles_used (sn_trace (vento_sound_release v)))" if "set ds \<subseteq> {None}"
    using that inv release_trace [of "offering_devices ds" v] by (simp add: sys_inv_def)
  ultimately show ?thesis using inv by (simp add: sys_inv_def sound_inv_def device_ok_def)
qed

definition example_audio :: vento_audio where
  "example_audio = \<lparr>at_open = True, at_write = True, at_set_gain = True, at_latency = True, at_close = True,
     at_decodable = True, at_decoder_open = True, at_decode = True, at_decoder_close = True, at_offer = True,
     at_withdraw = True, at_release = True\<rparr>"

definition example_sound :: VentoSound where
  "example_sound = sound_zero\<lparr>sn_table := example_audio, sn_available := True, sn_aac := True\<rparr>"

lemma example_sound_init: "vento_sound_init (\<lambda>c. c = VENTO_AUDIO_CODEC_AAC) (Some example_audio) = (True, example_sound)"
  by (simp add: vento_sound_init_def example_sound_def example_audio_def sound_zero_def)

lemmas example_sound_simps = example_sound_def example_audio_def sound_zero_def device_entry_def device_zero_def sn_emit_def
  on_device_def device_at_def device_free_def stopOffering_def closeLocked_def closeDecoderLocked_def

theorem rdp_sound_handles_witness:
  "let (v, ds) = fold (sound_step (\<lambda>_. None) (\<lambda>_. False))
       [Snd_entry True True, Snd_open 0 True True (1, 0) example_u8, Snd_play 0 example_play (Some example_u8) [0, 255], Snd_free 0]
       (example_sound, []) in
     ds = [None] \<and> stream_writes (sn_trace v) = [(0, Wave_samples [0x8000, 0x7F00])] \<and> handles_used (sn_trace v) = (True, {})"
proof -
  let ?cs = "[Snd_entry True True, Snd_open 0 True True (1, 0) example_u8, Snd_play 0 example_play (Some example_u8) [0, 255], Snd_free 0]"
  obtain v ds where r: "fold (sound_step (\<lambda>_. None) (\<lambda>_. False)) ?cs (example_sound, []) = (v, ds)" by (metis prod.collapse)
  then have "ds = [None] \<and> stream_writes (sn_trace v) = [(0, Wave_samples [0x8000, 0x7F00])]"
    by (auto simp: example_sound_simps device_open_def kindOf_def example_u8_def format_zero_def decoded_def openLocked_def
        playEx_def wave_samples_def widen_def widen_byte_def play_wave_def example_play_def Let_def)
  with rdp_sound_handles [OF example_sound_init r] show ?thesis
    unfolding r by (simp add: open_handles_def handles_of_def)
qed

text \<open>
  The session's sound switch is shown exactly while a channel of it may send sound: the count
  the devices share is the number of them that offer, whatever order they connect, list their
  formats and go away in, and with a table that can hide the switch the last call about it was to
  show it exactly when that number is not 0.
\<close>

theorem rdp_sound_switch:
  assumes "vento_sound_init decodable tbl = (True, v0)"
    and "fold (sound_step tags dsp) cs (v0, []) = (v, ds)"
  shows "sn_offering v = int (length (filter (\<lambda>x. \<exists>d. x = Some d \<and> d_offering d) ds)) \<and>
    (at_withdraw (sn_table v) \<longrightarrow> (switch_shown (sn_trace v) \<longleftrightarrow> (\<exists>d. Some d \<in> set ds \<and> d_offering d)))"
proof -
  have inv: "sys_inv (v, ds)" using sys_inv_run [OF sys_inv_init [OF assms(1)], of tags dsp cs] assms(2) by simp
  have n: "offering_devices ds = int (length (filter (\<lambda>x. \<exists>d. x = Some d \<and> d_offering d) ds))"
    unfolding offering_devices_def by (induction ds) (auto simp: offers_of_def offers_def split: option.splits)
  have "0 < offering_devices ds \<longleftrightarrow> (\<exists>d. Some d \<in> set ds \<and> d_offering d)"
    unfolding n by (auto simp: filter_empty_conv)
  with inv n show ?thesis by (simp add: sys_inv_def sound_inv_def)
qed

theorem rdp_sound_switch_witness:
  "let (v, ds) = fold (sound_step (\<lambda>_. None) (\<lambda>_. False)) [Snd_entry True True, Snd_entry True True, Snd_free 0] (example_sound, []) in
     sn_offering v = 1 \<and> switch_shown (sn_trace v)"
proof -
  obtain v ds where r: "fold (sound_step (\<lambda>_. None) (\<lambda>_. False)) [Snd_entry True True, Snd_entry True True, Snd_free 0] (example_sound, []) = (v, ds)"
    by (metis prod.collapse)
  then have "sn_offering v = 1" "at_withdraw (sn_table v)" "\<exists>d. Some d \<in> set ds \<and> d_offering d"
    by (auto simp: example_sound_simps Let_def)
  then show ?thesis using rdp_sound_switch [OF example_sound_init r] unfolding r by simp
qed

subsection \<open>Two devices at once\<close>

text \<open>
  The count is one atomic step and the call that hides the switch another.  The static and the
  dynamic channel are served by different threads, so a device can connect between the two.
\<close>

definition stop_count :: "Device \<Rightarrow> VentoSound \<Rightarrow> bool \<times> Device \<times> VentoSound" where
  "stop_count d v =
     (if \<not> d_offering d then (False, d, v)
      else (sn_offering v = 1, d\<lparr>d_offering := False\<rparr>, v\<lparr>sn_offering := sn_offering v - 1\<rparr>))"

definition stop_withdraw :: "bool \<Rightarrow> VentoSound \<Rightarrow> VentoSound" where
  "stop_withdraw was_last v = (if was_last \<and> at_withdraw (sn_table v) then sn_emit Sound_withdraw v else v)"

lemma stopOffering_split: "stopOffering d v = (case stop_count d v of (b, d, v) \<Rightarrow> (d, stop_withdraw b v))"
  by (simp add: stopOffering_def stop_count_def stop_withdraw_def Let_def)

text \<open>
  A channel that connects just as the last one goes away loses its switch: the new device counts
  itself and shows the switch, and then the old one hides it.
\<close>

theorem rdp_sound_switch_race:
  "let (b, d, v) = stop_count (device_zero\<lparr>d_offering := True\<rparr>) (example_sound\<lparr>sn_offering := 1, sn_trace := [Sound_offer]\<rparr>);
       (rc, d', v) = device_entry True True v;
       v = stop_withdraw b v in
     rc = CHANNEL_RC_OK \<and> map_option d_offering d' = Some True \<and> sn_offering v = 1 \<and> \<not> switch_shown (sn_trace v)"
  by (simp add: stop_count_def stop_withdraw_def example_sound_simps switch_shown_def)

end
