(* ===== verification/Command_Memory.thy ===== *)
theory Command_Memory
  imports Vnc_Session Rdp_Queue "HOL-Library.Multiset"
begin

text \<open>
  The memory of queued commands.  A command can own memory, the text of a clipboard or the screens of
  a layout, and \<open>post\<close> of either session takes it over: it is freed there when the session is ending
  or the command is displaced by another, handed to the protocol thread with the command, or
  freed with the session (\<open>freeSession\<close> of \<open>src/backends/modules/libvnc/cpp/libvnc_session.c\<close> and
  \<open>src/backends/modules/freerdp/cpp/freerdp_session.c\<close>).

  What \<open>post\<close> frees is defined beside its model, and the locale \<open>command_memory\<close> extends the contract of a
  queue with the balance the two have to keep.
\<close>

section \<open>Freeing what is queued\<close>

text \<open>The loop of \<open>freeSession\<close> over the ring, as the commands it frees, in order.\<close>

function ring_free :: "nat \<Rightarrow> (nat \<Rightarrow> 'c) \<Rightarrow> nat \<Rightarrow> 'c list" where
  "ring_free head buf i =
     (if head < CMD_RING \<and> i < CMD_RING \<and> i \<noteq> head then buf i # ring_free head buf ((i + 1) mod CMD_RING) else [])"
  by pat_completeness auto
termination
proof (relation "measure (\<lambda>(head, buf, i). (head + CMD_RING - i) mod CMD_RING)", goal_cases)
  case (2 head buf i)
  then have "ring_ok \<lparr>rbuf = buf, rhead = head, rtail = i\<rparr>" "ring_len \<lparr>rbuf = buf, rhead = head, rtail = i\<rparr> \<noteq> 0"
    by (simp_all add: ring_ok_def ring_len_if)
  from ring_len_advance [OF this] show ?case by (simp add: ring_len_def ring_advance_def)
qed simp

declare ring_free.simps [simp del]

lemma ring_free_items: "ring_ok r \<Longrightarrow> ring_free (rhead r) (rbuf r) (rtail r) = ring_items r"
proof (induction "ring_len r" arbitrary: r)
  case 0
  then have "rhead r = rtail r" by (auto simp: ring_len_if ring_ok_def split: if_splits)
  then show ?case using 0 by (subst ring_free.simps) (simp add: ring_items_def)
next
  case (Suc n)
  then have ne: "ring_len r \<noteq> 0" by simp
  then have "rtail r \<noteq> rhead r" using Suc.prems by (auto simp: ring_len_if)
  moreover have "ring_free (rhead r) (rbuf r) ((rtail r + 1) mod CMD_RING) = ring_items (ring_advance r)"
    using Suc.hyps(1) [of "ring_advance r"] Suc.hyps(2) ring_len_advance [OF Suc.prems ne] ring_ok_advance [OF Suc.prems]
    by (simp add: ring_advance_def)
  ultimately show ?case
    using Suc.prems ring_items_advance [OF Suc.prems ne] by (subst ring_free.simps) (simp add: ring_ok_def)
qed

section \<open>The balance of a queue\<close>

text \<open>What the posts of a run free.\<close>

fun run_frees ::
  "('q \<Rightarrow> 'c \<Rightarrow> 'q) \<Rightarrow> ('q \<Rightarrow> ('c \<times> 'q) option) \<Rightarrow> ('q \<Rightarrow> 'c \<Rightarrow> 'c list) \<Rightarrow> 'q \<Rightarrow> 'c queue_step list \<Rightarrow> 'c list"
where
  "run_frees post pop frees q [] = []"
| "run_frees post pop frees q (Post c # es) = frees q c @ run_frees post pop frees (post q c) es"
| "run_frees post pop frees q (Take # es) =
     (case pop q of None \<Rightarrow> run_frees post pop frees q es | Some (c, q') \<Rightarrow> run_frees post pop frees q' es)"

locale command_memory = command_queue invar items post pop
  for invar :: "'q \<Rightarrow> bool" and items :: "'q \<Rightarrow> 'c list" and post :: "'q \<Rightarrow> 'c \<Rightarrow> 'q" and pop :: "'q \<Rightarrow> ('c \<times> 'q) option" +
  fixes owns :: "'c \<Rightarrow> bool"
    and frees :: "'q \<Rightarrow> 'c \<Rightarrow> 'c list"
  assumes post_balance: "invar q \<Longrightarrow>
    mset (filter owns (items (post q c))) + mset (filter owns (frees q c)) = mset (filter owns (items q)) + mset (filter owns [c])"
begin

lemma run_balance:
  "invar q \<Longrightarrow> queue_run post pop q es = (cs, q') \<Longrightarrow>
   mset (filter owns cs) + mset (filter owns (items q')) + mset (filter owns (run_frees post pop frees q es)) =
   mset (filter owns (items q)) + mset (filter owns (posted es))"
proof (induction es arbitrary: q cs)
  case (Cons e es)
  show ?case
  proof (cases e)
    case (Post c)
    then have run: "queue_run post pop (post q c) es = (cs, q')" using Cons.prems by simp
    note IH = Cons.IH [OF invar_post [OF Cons.prems(1)] run]
    let ?m = "\<lambda>xs. mset (filter owns xs)"
    have "?m cs + ?m (items q') + (?m (frees q c) + ?m (run_frees post pop frees (post q c) es)) =
        ?m (items (post q c)) + ?m (frees q c) + ?m (posted es)"
      using IH by (simp add: ac_simps)
    also have "\<dots> = ?m (items q) + (?m [c] + ?m (posted es))"
      using post_balance [OF Cons.prems(1), of c] by (simp add: ac_simps)
    finally show ?thesis by (simp add: Post)
  next
    case Take
    show ?thesis
    proof (cases "pop q")
      case (Some x)
      obtain c q1 where x: "x = (c, q1)" by (cases x)
      obtain cs1 where run: "queue_run post pop q1 es = (cs1, q')" "cs = c # cs1"
        using Cons.prems(2) Take Some x by (auto split: prod.splits)
      note IH = Cons.IH [OF invar_pop [OF Cons.prems(1) Some [unfolded x]] run(1)]
      show ?thesis using IH pop_Some [OF Cons.prems(1) Some [unfolded x]] run(2) Take Some x by simp
    qed (use Cons Take in auto)
  qed
qed simp

end

lemma filter_butlast: "xs \<noteq> [] \<Longrightarrow> \<not> P (last xs) \<Longrightarrow> filter P (butlast xs) = filter P xs"
  by (induction xs rule: rev_induct) auto

lemma mset_filter_remove:
  "k < length xs \<Longrightarrow> mset (filter P xs) = mset (filter P (take k xs @ drop (Suc k) xs)) + mset (filter P [xs ! k])"
  by (subst id_take_nth_drop [of k xs]) (simp_all add: ac_simps)

section \<open>The LibVNC session\<close>

fun vnc_owns :: "vnc_cmd \<Rightarrow> bool" where
  "vnc_owns (VNC_CLIPBOARD text) = (text \<noteq> None)"
| "vnc_owns (VNC_LAYOUT _ _ _) = True"
| "vnc_owns _ = False"

definition vnc_post_frees :: "vnc_session \<Rightarrow> vnc_cmd \<Rightarrow> vnc_cmd list" where
  "vnc_post_frees s c =
     (if vs_quit s then [c]
      else let r = vs_ring s
      in if rhead r \<noteq> rtail r \<and> same_motion (rbuf r (ring_last r)) c then []
         else if ring_full r then [rbuf r (rtail r)] else [])"

definition vnc_freeSession :: "vnc_session \<Rightarrow> vnc_cmd list" where
  "vnc_freeSession s = (let r = vs_ring s in ring_free (rhead r) (rbuf r) (rtail r))"

lemma vnc_motion_iff:
  assumes "vnc_queue_ok s"
  shows "rhead (vs_ring s) \<noteq> rtail (vs_ring s) \<and> same_motion (rbuf (vs_ring s) (ring_last (vs_ring s))) c \<longleftrightarrow>
    vnc_items s \<noteq> [] \<and> same_motion (last (vnc_items s)) c"
proof -
  have ok: "ring_ok (vs_ring s)" using assms by (simp add: vnc_queue_ok_def)
  show ?thesis using ring_items_Nil_iff [of "vs_ring s"] ring_empty_iff [OF ok] last_ring_items [OF ok]
    by (auto simp: vnc_items_def)
qed

lemma vnc_full_iff:
  assumes "vnc_queue_ok s"
  shows "ring_full (vs_ring s) \<longleftrightarrow> length (vnc_items s) = CMD_RING - 1"
  using ring_full_iff [of "vs_ring s"] assms by (simp add: vnc_queue_ok_def vnc_items_def)

lemma vnc_oldest:
  assumes "vnc_queue_ok s" and "vnc_items s \<noteq> []"
  shows "vnc_items s = rbuf (vs_ring s) (rtail (vs_ring s)) # tl (vnc_items s)"
  using assms ring_items_advance [of "vs_ring s"] ring_items_Nil_iff [of "vs_ring s"]
  by (simp add: vnc_queue_ok_def vnc_items_def)

lemma same_motion_owns: "same_motion a b \<Longrightarrow> \<not> vnc_owns a \<and> \<not> vnc_owns b"
  by (cases "(a, b)" rule: same_motion.cases) auto

interpretation vm: command_memory vnc_queue_ok vnc_items vnc_post vnc_pop vnc_owns vnc_post_frees
proof
  fix q c assume q: "vnc_queue_ok q"
  let ?cs = "vnc_items q"
  consider "vs_quit q" | "\<not> vs_quit q" "?cs \<noteq> []" "same_motion (last ?cs) c"
    | "\<not> vs_quit q" "\<not> (?cs \<noteq> [] \<and> same_motion (last ?cs) c)" "length ?cs = CMD_RING - 1"
    | "\<not> vs_quit q" "\<not> (?cs \<noteq> [] \<and> same_motion (last ?cs) c)" "length ?cs \<noteq> CMD_RING - 1" by blast
  then show "mset (filter vnc_owns (vnc_items (vnc_post q c))) + mset (filter vnc_owns (vnc_post_frees q c)) =
      mset (filter vnc_owns (vnc_items q)) + mset (filter vnc_owns [c])"
  proof cases
    case 1
    then show ?thesis by (simp add: vnc_post_items(1) [OF q] vnc_post_frees_def)
  next
    case 2
    then show ?thesis using same_motion_owns [OF 2(3)] filter_butlast [OF 2(2), of vnc_owns]
      by (simp add: vnc_post_items(1) [OF q] vnc_post_frees_def vnc_motion_iff [OF q] flip: mset_filter)
  next
    case 3
    then have "?cs \<noteq> []" by (auto simp: CMD_RING_def)
    from vnc_oldest [OF q this] have cs: "mset (filter vnc_owns ?cs) =
        mset (filter vnc_owns [rbuf (vs_ring q) (rtail (vs_ring q))]) + mset (filter vnc_owns (tl ?cs))"
      by (metis append_Cons append_Nil filter_append mset_append)
    have "vnc_post_frees q c = [rbuf (vs_ring q) (rtail (vs_ring q))]"
      unfolding vnc_post_frees_def Let_def vnc_motion_iff [OF q] vnc_full_iff [OF q] using 3 by simp
    moreover have "vnc_items (vnc_post q c) = tl ?cs @ [c]"
      unfolding vnc_post_items(1) [OF q] if_not_P [OF 3(1)] if_not_P [OF 3(2)] if_P [OF 3(3)] by (rule refl)
    ultimately show ?thesis by (simp only: cs filter_append mset_append ac_simps)
  next
    case 4
    have "vnc_post_frees q c = []"
      unfolding vnc_post_frees_def Let_def vnc_motion_iff [OF q] vnc_full_iff [OF q] using 4 by simp
    moreover have "vnc_items (vnc_post q c) = ?cs @ [c]" unfolding vnc_post_items(1) [OF q] using 4 by (simp only: if_False)
    ultimately show ?thesis by simp
  qed
qed

text \<open>
  No command's memory is leaked and none is freed twice: whatever is posted and taken, in whatever order, also
  while the session ends, each command that owns memory is either freed by a post, handed to the protocol
  thread, or freed with the session, exactly once; the loop that frees the ring ends.
\<close>

theorem vnc_command_memory:
  assumes "vnc_queue_ok s" and "queue_run vnc_post vnc_pop s es = (taken, s')"
  shows "mset (filter vnc_owns (taken @ run_frees vnc_post vnc_pop vnc_post_frees s es @ vnc_freeSession s')) =
    mset (filter vnc_owns (vnc_items s @ posted es))"
proof -
  have "vnc_queue_ok s'" by (rule vq.run_invar [OF assms])
  then have "vnc_freeSession s' = vnc_items s'"
    by (simp add: vnc_freeSession_def vnc_items_def vnc_queue_ok_def ring_free_items Let_def)
  then show ?thesis using vm.run_balance [OF assms] by (simp add: ac_simps)
qed

theorem vnc_command_memory_witness:
  "\<exists>taken s'. queue_run vnc_post vnc_pop vnc_calloc [Post (VNC_CLIPBOARD (Some [65])), Post (VNC_KEY_UP 1), Take, Post (VNC_CLIPBOARD (Some [66]))] =
      (taken, s') \<and>
    mset (filter vnc_owns (taken @ run_frees vnc_post vnc_pop vnc_post_frees vnc_calloc
        [Post (VNC_CLIPBOARD (Some [65])), Post (VNC_KEY_UP 1), Take, Post (VNC_CLIPBOARD (Some [66]))] @ vnc_freeSession s')) =
      {#VNC_CLIPBOARD (Some [65]), VNC_CLIPBOARD (Some [66])#}"
proof -
  let ?es = "[Post (VNC_CLIPBOARD (Some [65])), Post (VNC_KEY_UP 1), Take, Post (VNC_CLIPBOARD (Some [66]))]"
  obtain taken s' where r: "queue_run vnc_post vnc_pop vnc_calloc ?es = (taken, s')" by (metis prod.collapse)
  have "vnc_items vnc_calloc = []" by (simp add: vnc_items_def vnc_calloc_def ring_items_def ring_len_def)
  with vnc_command_memory [OF vnc_calloc_queue(1) r] r show ?thesis by auto
qed

section \<open>The FreeRDP session\<close>

fun rdp_owns :: "rdp_cmd \<Rightarrow> bool" where
  "rdp_owns (RDP_CLIPBOARD text) = (text \<noteq> None)"
| "rdp_owns _ = False"

text \<open>The command \<open>makeRoom\<close> displaces, if any.\<close>

definition makeRoom_frees :: "rdp_cmd ring \<Rightarrow> rdp_cmd \<Rightarrow> rdp_cmd list" where
  "makeRoom_frees r c =
     (let victim = find_victim r (push_bit (cmd_type c) 1) None (ring_last r)
      in if victim = None \<and> \<not> releases (cmd_type c) then []
         else [rbuf r (case victim of None \<Rightarrow> rtail r | Some v \<Rightarrow> v)])"

definition rdp_post_frees :: "rdp_session \<Rightarrow> rdp_cmd \<Rightarrow> rdp_cmd list" where
  "rdp_post_frees s c =
     (if rs_quit s then [c]
      else let r = rs_ring s
      in if rhead r \<noteq> rtail r \<and> rdp_same_motion (rbuf r (ring_last r)) c then []
         else if ring_full r then makeRoom_frees r c @ (if fst (makeRoom r c) then [] else [c]) else [])"

definition rdp_freeSession :: "rdp_session \<Rightarrow> rdp_cmd list" where
  "rdp_freeSession s = (let r = rs_ring s in ring_free (rhead r) (rbuf r) (rtail r))"

lemma rdp_same_motion_owns: "rdp_same_motion a b \<Longrightarrow> \<not> rdp_owns a \<and> \<not> rdp_owns b"
  by (cases "(a, b)" rule: rdp_same_motion.cases) auto

text \<open>What makes room leaves the ring by being freed.\<close>

lemma makeRoom_balance:
  assumes "ring_ok r" and "ring_len r \<noteq> 0" and "makeRoom r c = (kept, r')"
  shows "mset (filter P (ring_items r')) + mset (filter P (makeRoom_frees r c)) = mset (filter P (ring_items r))"
proof -
  define victim where "victim = find_victim r (push_bit (cmd_type c) 1) None (ring_last r)"
  have last: "ring_last r = ring_slot r (ring_len r - 1)" "ring_len r - 1 < ring_len r" "Suc (ring_len r - 1) = ring_len r"
    using ring_last_slot [OF assms(1,2)] assms(2) by simp_all
  have v: "victim = map_option (ring_slot r) (List.find (droppable (ring_items r) c) [0..<ring_len r])"
    unfolding victim_def
    using find_victim_spec [OF assms(1) last(2) refl, of "push_bit (cmd_type c) 1" c None] later_of_one [of c]
    unfolding last(1,3) by (simp add: map_option_case)
  have drop: "mset (filter P (ring_items (ring_remove r (ring_slot r k)))) + mset (filter P [rbuf r (ring_slot r k)]) =
      mset (filter P (ring_items r))" if "k < ring_len r" for k
    using ring_items_remove [OF assms(1) that] mset_filter_remove [of k "ring_items r" P] that by (simp add: nth_ring_items)
  have tail: "rtail r = ring_slot r 0" using assms(1) by (simp add: ring_slot_def ring_ok_def)
  show ?thesis
  proof (cases "victim = None \<and> \<not> releases (cmd_type c)")
    case True
    then show ?thesis using assms(3) unfolding makeRoom_def makeRoom_frees_def Let_def victim_def [symmetric] by simp
  next
    case False
    define k where "k = (case List.find (droppable (ring_items r) c) [0..<ring_len r] of None \<Rightarrow> 0 | Some k \<Rightarrow> k)"
    have k: "k < ring_len r" using assms(2) find_upt_less by (auto simp: k_def split: option.split)
    have "(case victim of None \<Rightarrow> rtail r | Some v \<Rightarrow> v) = ring_slot r k" by (simp add: v k_def tail split: option.split)
    then show ?thesis using assms(3) False drop [OF k] unfolding makeRoom_def makeRoom_frees_def Let_def victim_def [symmetric] by auto
  qed
qed

lemma rdp_motion_iff:
  assumes "rdp_queue_ok s"
  shows "rhead (rs_ring s) \<noteq> rtail (rs_ring s) \<and> rdp_same_motion (rbuf (rs_ring s) (ring_last (rs_ring s))) c \<longleftrightarrow>
    rdp_items s \<noteq> [] \<and> rdp_same_motion (last (rdp_items s)) c"
  using rdp_items_Nil [OF assms] last_ring_items [of "rs_ring s"] assms by (auto simp: rdp_items_def rdp_queue_ok_def)

text \<open>A post to a full ring, in which nothing is merged.\<close>

lemma rdp_full_balance:
  assumes "rdp_queue_ok q" and "\<not> rs_quit q" and "ring_full (rs_ring q)"
    and "\<not> (rdp_items q \<noteq> [] \<and> rdp_same_motion (last (rdp_items q)) c)"
  shows "mset (filter P (rdp_items (rdp_post q c))) + mset (filter P (rdp_post_frees q c)) = mset (filter P (rdp_items q)) + mset (filter P [c])"
proof -
  have ok: "ring_ok (rs_ring q)" using assms(1) by (simp add: rdp_queue_ok_def)
  have n: "ring_len (rs_ring q) = CMD_RING - 1" "ring_len (rs_ring q) \<noteq> 0"
    using ring_full_iff [OF ok] assms(3) by (simp_all add: CMD_RING_def)
  obtain kept r' where m: "makeRoom (rs_ring q) c = (kept, r')" by (metis prod.collapse)
  note spec = makeRoom_spec [OF ok n(2) m] and bal = makeRoom_balance [OF ok n(2) m, of P]
  have frees: "rdp_post_frees q c = makeRoom_frees (rs_ring q) c @ (if kept then [] else [c])"
    unfolding rdp_post_frees_def Let_def rdp_motion_iff [OF assms(1)] if_not_P [OF assms(4)] using assms(2,3) m by simp
  have post: "rdp_items (rdp_post q c) = ring_items (if kept then ring_put r' c else r')"
    unfolding rdp_post_def Let_def rdp_motion_iff [OF assms(1)] if_not_P [OF assms(4)]
    using assms(2,3) m by (simp add: rdp_items_def rdp_simps)
  show ?thesis
  proof (cases kept)
    case True
    then have "ring_len r' = CMD_RING - 1 - 1" using spec n by (auto split: option.splits)
    then have "\<not> ring_full r'" using ring_full_iff [of r'] spec by (auto simp: CMD_RING_def)
    then have "ring_items (ring_put r' c) = ring_items r' @ [c]" using spec by (intro ring_items_put) auto
    then show ?thesis unfolding frees post rdp_items_def [of q] bal [symmetric] using True by (simp add: ac_simps)
  next
    case False
    then show ?thesis unfolding frees post rdp_items_def [of q] bal [symmetric] by (simp add: ac_simps)
  qed
qed

interpretation rm: command_memory rdp_queue_ok rdp_items rdp_post rdp_pop rdp_owns rdp_post_frees
proof
  fix q c assume q: "rdp_queue_ok q"
  let ?cs = "rdp_items q"
  have full: "ring_full (rs_ring q) \<longleftrightarrow> \<not> length ?cs < CMD_RING - 1"
    using ring_full_iff [of "rs_ring q"] ring_len_less [of "rs_ring q"] q by (auto simp: rdp_queue_ok_def rdp_items_def)
  consider "rs_quit q" | "\<not> rs_quit q" "?cs \<noteq> []" "rdp_same_motion (last ?cs) c"
    | "\<not> rs_quit q" "\<not> (?cs \<noteq> [] \<and> rdp_same_motion (last ?cs) c)" "ring_full (rs_ring q)"
    | "\<not> rs_quit q" "\<not> (?cs \<noteq> [] \<and> rdp_same_motion (last ?cs) c)" "\<not> ring_full (rs_ring q)" by blast
  then show "mset (filter rdp_owns (rdp_items (rdp_post q c))) + mset (filter rdp_owns (rdp_post_frees q c)) =
      mset (filter rdp_owns (rdp_items q)) + mset (filter rdp_owns [c])"
  proof cases
    case 1
    then show ?thesis by (simp add: rdp_post_items(1) [OF q] rdp_post_frees_def)
  next
    case 2
    have "rdp_post_frees q c = []" unfolding rdp_post_frees_def Let_def rdp_motion_iff [OF q] using 2 by simp
    moreover have "rdp_items (rdp_post q c) = butlast ?cs @ [c]" unfolding rdp_post_items(1) [OF q] posted_items_def using 2 by simp
    ultimately show ?thesis using rdp_same_motion_owns [OF 2(3)] filter_butlast [OF 2(2), of rdp_owns] by (simp flip: mset_filter)
  next
    case 3
    then show ?thesis by (intro rdp_full_balance q)
  next
    case 4
    have "rdp_post_frees q c = []" unfolding rdp_post_frees_def Let_def rdp_motion_iff [OF q] if_not_P [OF 4(2)] using 4(1,3) by simp
    moreover have "rdp_items (rdp_post q c) = ?cs @ [c]"
      unfolding rdp_post_items(1) [OF q] posted_items_def if_not_P [OF 4(2)] using 4(1,3) full by simp
    ultimately show ?thesis by simp
  qed
qed

text \<open>
  C21. A FreeRDP session leaks no command's memory and frees none twice: whatever is posted and taken, in
  whatever order, also when the ring is full and gives up a command chosen by \<open>makeRoom\<close> or the new one, and also while
  the session ends, each command that owns memory is freed by a post, handed to the protocol thread,
  or freed with the session, exactly once; the loop that frees the ring ends.
\<close>

theorem rdp_command_memory:
  assumes "rdp_queue_ok s" and "queue_run rdp_post rdp_pop s es = (taken, s')"
  shows "mset (filter rdp_owns (taken @ run_frees rdp_post rdp_pop rdp_post_frees s es @ rdp_freeSession s')) =
    mset (filter rdp_owns (rdp_items s @ posted es))"
proof -
  have "rdp_queue_ok s'" by (rule rq.run_invar [OF assms])
  then have "rdp_freeSession s' = rdp_items s'"
    by (simp add: rdp_freeSession_def rdp_items_def rdp_queue_ok_def ring_free_items Let_def)
  then show ?thesis using rm.run_balance [OF assms] by (simp add: ac_simps)
qed

theorem rdp_command_memory_witness:
  "\<exists>taken s'. queue_run rdp_post rdp_pop rdp_calloc [Post (RDP_CLIPBOARD (Some [65])), Take, Post (RDP_CLIPBOARD (Some [66]))] = (taken, s') \<and>
    mset (filter rdp_owns (taken @ run_frees rdp_post rdp_pop rdp_post_frees rdp_calloc
        [Post (RDP_CLIPBOARD (Some [65])), Take, Post (RDP_CLIPBOARD (Some [66]))] @ rdp_freeSession s')) =
      {#RDP_CLIPBOARD (Some [65]), RDP_CLIPBOARD (Some [66])#}"
proof -
  let ?es = "[Post (RDP_CLIPBOARD (Some [65])), Take, Post (RDP_CLIPBOARD (Some [66]))]"
  obtain taken s' where r: "queue_run rdp_post rdp_pop rdp_calloc ?es = (taken, s')" by (metis prod.collapse)
  with rdp_command_memory [OF rdp_calloc_queue(1) r] rdp_calloc_queue show ?thesis by auto
qed

end
