(* ===== verification/Session_Probe.thy ===== *)
theory Session_Probe
  imports Framebuffer
begin

text \<open>
  The probe of a C backend, \<open>src/backends/platform/linux/probe/probe.c\<close>: a client of the session
  interface that connects, answers what it is asked from its options, pokes the far end, and
  writes the picture to a file.  Its callbacks, its wait, its pictures and its body are modelled;
  the lines it prints are not, and nothing depends on them.

  The callbacks of the session and the deadlines of the waits arrive in one order, a list of
  \<open>arrival\<close>s.  What the session answers to a read is a parameter, and so is whether a file could be
  written; the calls the probe makes and the files it writes are kept in order.
\<close>

section \<open>Options and state\<close>

record vento_probe =
  po_seconds :: int
  po_connect_timeout_s :: int
  po_trust :: bool
  po_user :: "string option"
  po_domain :: "string option"
  po_password :: "string option"
  po_clipboard :: "string option"
  po_keysym :: int
  po_click_x :: int
  po_click_y :: int
  po_out :: "string option"
  po_thumb_step :: int

definition vento_probe_init :: vento_probe where
  "vento_probe_init =
     \<lparr>po_seconds = 5, po_connect_timeout_s = 30, po_trust = False, po_user = None, po_domain = None, po_password = None,
      po_clipboard = None, po_keysym = -1, po_click_x = -1, po_click_y = -1, po_out = None, po_thumb_step = 8\<rparr>"

text \<open>The calls of the session's table the probe makes.\<close>

datatype session_call =
    Answer_credentials "string option" "string option" "string option"
  | Answer_trust bool
  | Send_pointer int int int
  | Send_clipboard string
  | Send_key_down u32 int
  | Send_key_up int
  | Read_region int int
  | Read_thumbnail int int int
  | Read_facts
  | Disconnect
  | Destroy

record probe_state =
  pb_session :: bool
  pb_created :: bool
  pb_connected :: bool
  pb_closed :: bool
  pb_closed_detail :: "bytes option"
  pb_width :: int
  pb_height :: int
  pb_damaged :: u32
  pb_frames :: u32
  pb_answered :: bool
  pb_refused :: bool
  pb_calls :: "session_call list"
  pb_files :: "(string \<times> bytes) list"

definition probe_zero :: probe_state where
  "probe_zero =
     \<lparr>pb_session = False, pb_created = False, pb_connected = False, pb_closed = False, pb_closed_detail = None,
      pb_width = 0, pb_height = 0, pb_damaged = 0, pb_frames = 0, pb_answered = False, pb_refused = False,
      pb_calls = [], pb_files = []\<rparr>"

definition probe_call :: "session_call \<Rightarrow> probe_state \<Rightarrow> probe_state" where
  "probe_call c p = p\<lparr>pb_calls := pb_calls p @ [c]\<rparr>"

section \<open>The callbacks\<close>

text \<open>The callbacks that answer, once \<open>create\<close> has returned the session to answer through.\<close>

definition cbCredentialsNeeded :: "vento_probe \<Rightarrow> probe_state \<Rightarrow> probe_state" where
  "cbCredentialsNeeded opts p =
     (if \<not> pb_session p then p
      else let again = pb_answered p;
               p = (if po_password opts \<noteq> None then p\<lparr>pb_answered := True, pb_refused := again\<rparr> else p)
      in if po_password opts \<noteq> None \<and> again then probe_call (Answer_credentials None None None) p
         else if po_password opts \<noteq> None then probe_call (Answer_credentials (po_user opts) (po_domain opts) (po_password opts)) p
         else probe_call (Answer_credentials None None None) p)"

definition answerTrust :: "vento_probe \<Rightarrow> probe_state \<Rightarrow> probe_state" where
  "answerTrust opts p = (if \<not> pb_session p then p else probe_call (Answer_trust (po_trust opts)) p)"

definition cbMessage :: "vento_probe \<Rightarrow> bool \<Rightarrow> probe_state \<Rightarrow> probe_state" where
  "cbMessage opts question p =
     (if \<not> pb_session p then p else probe_call (Answer_trust (if question then po_trust opts else True)) p)"

fun prompts :: "vento_callback \<Rightarrow> bool" where
  "prompts (Credentials_needed _) = True"
| "prompts (Trust_needed _) = True"
| "prompts (Unverified _) = True"
| "prompts (Question _ _) = True"
| "prompts (Security_needed _ _ _ _ _) = True"
| "prompts (Message _ _ _ _) = True"
| "prompts _ = False"

fun deliver :: "vento_probe \<Rightarrow> vento_callback \<Rightarrow> probe_state \<Rightarrow> probe_state" where
  "deliver opts (Connected w h) p = p\<lparr>pb_connected := True, pb_width := w, pb_height := h\<rparr>"
| "deliver opts (Desktop_size w h) p = p\<lparr>pb_width := w, pb_height := h\<rparr>"
| "deliver opts (Damaged _ _ _ _) p = p\<lparr>pb_damaged := pb_damaged p + 1\<rparr>"
| "deliver opts Frame_end p = p\<lparr>pb_frames := pb_frames p + 1\<rparr>"
| "deliver opts (Credentials_needed _) p = cbCredentialsNeeded opts p"
| "deliver opts (Trust_needed _) p = answerTrust opts p"
| "deliver opts (Unverified _) p = answerTrust opts p"
| "deliver opts (Question _ _) p = answerTrust opts p"
| "deliver opts (Security_needed _ _ _ _ _) p = answerTrust opts p"
| "deliver opts (Message _ _ question _) p = cbMessage opts question p"
| "deliver opts (Closed detail) p = p\<lparr>pb_closed := True, pb_closed_detail := Some detail\<rparr>"
| "deliver opts _ p = p"

section \<open>The body\<close>

datatype arrival = Callback vento_callback | Deadline

text \<open>Whether the flag was set, and what arrives after the wait; \<open>None\<close> while it waits.\<close>

fun waitFor :: "vento_probe \<Rightarrow> (probe_state \<Rightarrow> bool) \<Rightarrow> arrival list \<Rightarrow> probe_state \<Rightarrow> (bool \<times> arrival list \<times> probe_state) option" where
  "waitFor opts flag as p =
     (if flag p \<or> pb_closed p then Some (flag p, as, p)
      else case as of
             [] \<Rightarrow> None
           | Deadline # as \<Rightarrow> Some (flag p, as, p)
           | Callback c # as \<Rightarrow> waitFor opts flag as (deliver opts c p))"

declare waitFor.simps [simp del]

subsection \<open>Pictures\<close>

text \<open>A binary PPM of rows of R, G, B, A bytes.\<close>

definition ppm :: "mem \<Rightarrow> int \<Rightarrow> int \<Rightarrow> bytes" where
  "ppm rgba width height =
     bytes_of (''P6'' @ [CHR 0x0A] @ show_int width @ '' '' @ show_int height @ [CHR 0x0A] @ ''255'' @ [CHR 0x0A]) @
     concat (map (\<lambda>i. map (\<lambda>c. rgba (i * 4 + c)) [0..<3]) [0..<nat (width * height)])"

text \<open>\<open>can path\<close> is whether the file is opened, and whether it is closed without an error.\<close>

definition writePpm :: "(string \<Rightarrow> bool \<times> bool) \<Rightarrow> string \<Rightarrow> mem \<Rightarrow> int \<Rightarrow> int \<Rightarrow> probe_state \<Rightarrow> bool \<times> probe_state" where
  "writePpm can path rgba width height p =
     (if \<not> fst (can path) then (False, p)
      else (snd (can path), p\<lparr>pb_files := pb_files p @ [(path, ppm rgba width height)]\<rparr>))"

definition thumbPath :: "string \<Rightarrow> string" where
  "thumbPath out =
     (case strrchr out (CHR ''.'') of
        None \<Rightarrow> snprintf_s 4096 (out @ ''-thumb'')
      | Some dot \<Rightarrow>
          (case strrchr out (CHR ''/'') of
             Some slash \<Rightarrow>
               if dot < slash then snprintf_s 4096 (out @ ''-thumb'')
               else snprintf_s 4096 (take dot out @ ''-thumb'' @ drop dot out)
           | None \<Rightarrow> snprintf_s 4096 (take dot out @ ''-thumb'' @ drop dot out)))"

text \<open>
  What the session answers to a read, the memory it fills or \<open>None\<close> when it refuses, and whether
  the two buffers are allocated.
\<close>

record probe_reads =
  rd_region :: "int \<Rightarrow> int \<Rightarrow> mem option"
  rd_thumbnail :: "int \<Rightarrow> int \<Rightarrow> int \<Rightarrow> mem option"
  rd_pixels :: bool
  rd_thumb :: bool

definition writeRegion :: "(string \<Rightarrow> bool \<times> bool) \<Rightarrow> probe_reads \<Rightarrow> string \<Rightarrow> int \<Rightarrow> int \<Rightarrow> probe_state \<Rightarrow> bool \<times> probe_state" where
  "writeRegion can reads out w h p =
     (if \<not> rd_pixels reads then (False, p)
      else let p = probe_call (Read_region w h) p
      in case rd_region reads w h of
           Some m \<Rightarrow> writePpm can out m w h p
         | None \<Rightarrow> (False, p))"

definition writeThumbnail :: "(string \<Rightarrow> bool \<times> bool) \<Rightarrow> probe_reads \<Rightarrow> string \<Rightarrow> int \<Rightarrow> int \<Rightarrow> int \<Rightarrow> probe_state \<Rightarrow> bool \<times> probe_state" where
  "writeThumbnail can reads out step w h p =
     (let tw = (w + step - 1) div step; th = (h + step - 1) div step
      in if \<not> rd_thumb reads then (False, p)
         else let p = probe_call (Read_thumbnail step tw th) p
         in case rd_thumbnail reads step tw th of
              Some m \<Rightarrow> writePpm can (thumbPath out) m tw th p
            | None \<Rightarrow> (False, p))"

definition writePictures :: "vento_probe \<Rightarrow> (string \<Rightarrow> bool \<times> bool) \<Rightarrow> probe_reads \<Rightarrow> string \<Rightarrow> probe_state \<Rightarrow> bool \<times> probe_state" where
  "writePictures opts can reads out p =
     (let w = pb_width p; h = pb_height p
      in if w \<le> 0 \<or> h \<le> 0 then (False, p)
         else let (ok, p) = writeRegion can reads out w h p;
                  (ok', p) = writeThumbnail can reads out (po_thumb_step opts) w h p
              in (ok \<and> ok', p))"

subsection \<open>The run\<close>

definition poke :: "vento_probe \<Rightarrow> probe_state \<Rightarrow> probe_state" where
  "poke opts p =
     (let x = po_click_x opts; y = po_click_y opts;
          p = (if x \<ge> 0 then fold (\<lambda>mask. probe_call (Send_pointer x y mask)) [0, 1, 0] p else p);
          p = (case po_clipboard opts of Some t \<Rightarrow> probe_call (Send_clipboard t) p | None \<Rightarrow> p)
      in if po_keysym opts \<ge> 0
         then probe_call (Send_key_up 1) (probe_call (Send_key_down (word_of_int (po_keysym opts)) 1) p)
         else p)"

text \<open>
  What happens around a run: whether \<open>create\<close> returns a session, the callbacks that arrive before it
  has, everything that arrives from then on, and the callbacks between the probe's look at whether the
  session has closed and its reading of the size.
\<close>

record probe_env =
  pe_created :: bool
  pe_early :: "vento_callback list"
  pe_arrivals :: "arrival list"
  pe_late :: "vento_callback list"
  pe_reads :: probe_reads
  pe_can :: "string \<Rightarrow> bool \<times> bool"

text \<open>
  A callback that has to answer waits for \<open>create\<close> to return, and what the session's thread
  would report after it waits with it.
\<close>

definition probe_created :: "vento_probe \<Rightarrow> probe_env \<Rightarrow> arrival list \<times> probe_state" where
  "probe_created opts e =
     (let p = fold (deliver opts) (takeWhile (Not \<circ> prompts) (pe_early e)) probe_zero
      in (map Callback (dropWhile (Not \<circ> prompts) (pe_early e)) @ pe_arrivals e,
          p\<lparr>pb_session := pe_created e, pb_created := True\<rparr>))"

definition probe_watch :: "vento_probe \<Rightarrow> probe_env \<Rightarrow> arrival list \<Rightarrow> probe_state \<Rightarrow> (int \<times> arrival list \<times> probe_state) option" where
  "probe_watch opts e as p =
     (case waitFor opts (\<lambda>_. False) as p of
        None \<Rightarrow> None
      | Some (_, as, p) \<Rightarrow>
          let p = (if \<not> pb_closed p then poke opts p else p)
          in case waitFor opts (\<lambda>_. False) as p of
               None \<Rightarrow> None
             | Some (_, as, p) \<Rightarrow>
                 Some (if pb_closed p then (1, as, p)
                       else let p = fold (deliver opts) (pe_late e) (probe_call Read_facts p)
                       in case po_out opts of
                            None \<Rightarrow> (0, as, p)
                          | Some out \<Rightarrow>
                              let (ok, p) = writePictures opts (pe_can e) (pe_reads e) out p
                              in (if ok then 0 else 1, as, p)))"

definition probe_end :: "vento_probe \<Rightarrow> int \<Rightarrow> arrival list \<Rightarrow> probe_state \<Rightarrow> (int \<times> probe_state) option" where
  "probe_end opts status as p =
     (case waitFor opts pb_closed as (probe_call Disconnect p) of
        None \<Rightarrow> None
      | Some (closed, as, p) \<Rightarrow> Some (if closed then status else 1, probe_call Destroy p))"

definition vento_probe_run :: "vento_probe \<Rightarrow> probe_env \<Rightarrow> (int \<times> probe_state) option" where
  "vento_probe_run opts e =
     (let (as, p) = probe_created opts e
      in if \<not> pb_session p then Some (1, p)
         else case waitFor opts pb_connected as p of
                None \<Rightarrow> None
              | Some (connected, as, p) \<Rightarrow>
                  if \<not> connected then probe_end opts 1 as p
                  else case probe_watch opts e as p of
                         None \<Rightarrow> None
                       | Some (status, as, p) \<Rightarrow> probe_end opts status as p)"

section \<open>Waiting\<close>

lemma waitFor_Cons:
  "waitFor opts flag (a # as) p =
     (if flag p \<or> pb_closed p then Some (flag p, a # as, p)
      else case a of Deadline \<Rightarrow> Some (flag p, as, p) | Callback c \<Rightarrow> waitFor opts flag as (deliver opts c p))"
  by (subst waitFor.simps) (simp split: arrival.split)

text \<open>A wait delivers callbacks until its flag or the end of the session, or until its deadline.\<close>

lemma waitFor_delivers:
  "waitFor opts flag as p = Some (r, as', p') \<Longrightarrow>
   \<exists>cs rest. as = map Callback cs @ rest \<and> p' = fold (deliver opts) cs p \<and> r = flag p' \<and>
     (rest = as' \<and> (flag p' \<or> pb_closed p') \<or> rest = Deadline # as')"
proof (induction opts flag as p rule: waitFor.induct)
  case (1 opts flag as p)
  show ?case
  proof (cases "flag p \<or> pb_closed p")
    case True
    then show ?thesis using 1(2) by (intro exI [of _ "[] :: vento_callback list"] exI [of _ as]) (auto simp: waitFor.simps)
  next
    case False
    then obtain a as1 where as: "as = a # as1" using 1(2) by (cases as) (auto simp: waitFor.simps)
    show ?thesis
    proof (cases a)
      case (Callback c)
      then have "waitFor opts flag as1 (deliver opts c p) = Some (r, as', p')"
        using 1(2) False unfolding as Callback by (simp add: waitFor_Cons)
      from 1(1) [OF False as Callback this] obtain cs rest where
        "as1 = map Callback cs @ rest" "p' = fold (deliver opts) cs (deliver opts c p)" "r = flag p'"
        "rest = as' \<and> (flag p' \<or> pb_closed p') \<or> rest = Deadline # as'" by blast
      then show ?thesis using as Callback by (intro exI [of _ "c # cs"] exI [of _ rest]) auto
    next
      case Deadline
      then show ?thesis using 1(2) False unfolding as
        by (intro exI [of _ "[] :: vento_callback list"] exI [of _ as]) (auto simp: as waitFor_Cons)
    qed
  qed
qed

definition deadlines :: "arrival list \<Rightarrow> nat" where
  "deadlines as = length (filter (\<lambda>a. a = Deadline) as)"

lemma deadlines_simps [simp]:
  "deadlines [] = 0" "deadlines (Deadline # as) = Suc (deadlines as)" "deadlines (Callback c # as) = deadlines as"
  "deadlines (as @ bs) = deadlines as + deadlines bs" "deadlines (map Callback cs) = 0"
  by (simp_all add: deadlines_def filter_empty_conv)

text \<open>A wait ends at its deadline at the latest, and uses up one at most.\<close>

lemma waitFor_returns:
  assumes "0 < deadlines as"
  shows "\<exists>r as' p'. waitFor opts flag as p = Some (r, as', p') \<and> deadlines as \<le> Suc (deadlines as')"
  using assms
proof (induction as arbitrary: p)
  case (Cons a as)
  show ?case
  proof (cases "flag p \<or> pb_closed p")
    case False
    then show ?thesis using Cons by (cases a) (auto simp: waitFor.simps [of opts flag "_ # _"])
  qed (auto simp: waitFor.simps [of opts flag "_ # _"])
qed simp

section \<open>What is answered\<close>

fun is_answer :: "session_call \<Rightarrow> bool" where
  "is_answer (Answer_credentials _ _ _) = True"
| "is_answer (Answer_trust _) = True"
| "is_answer _ = False"

fun gives_password :: "session_call \<Rightarrow> bool" where
  "gives_password (Answer_credentials _ _ (Some _)) = True"
| "gives_password _ = False"

text \<open>The answers of a probe so far: its password at most once, and no yes that was not asked for.\<close>

definition answers_ok :: "vento_probe \<Rightarrow> bool \<Rightarrow> probe_state \<Rightarrow> bool" where
  "answers_ok opts yes p \<longleftrightarrow>
     filter gives_password (pb_calls p) =
       (if pb_answered p \<and> po_password opts \<noteq> None then [Answer_credentials (po_user opts) (po_domain opts) (po_password opts)] else []) \<and>
     (pb_answered p \<longrightarrow> po_password opts \<noteq> None) \<and>
     (Answer_trust True \<in> set (pb_calls p) \<longrightarrow> yes)"

fun one_button :: "vento_callback \<Rightarrow> bool" where
  "one_button (Message _ _ question _) = (\<not> question)"
| "one_button _ = False"

lemma answers_ok_call:
  "answers_ok opts yes p \<Longrightarrow> \<not> is_answer c \<Longrightarrow> answers_ok opts yes (probe_call c p)"
  by (cases c) (auto simp: answers_ok_def probe_call_def)

lemma answers_ok_cong:
  "answers_ok opts yes p \<Longrightarrow> pb_calls q = pb_calls p \<Longrightarrow> pb_answered q = pb_answered p \<Longrightarrow> answers_ok opts yes q"
  by (simp add: answers_ok_def)

lemma answers_ok_deliver:
  assumes "answers_ok opts yes p" and "po_trust opts \<or> one_button c \<longrightarrow> yes"
  shows "answers_ok opts yes (deliver opts c p)"
proof (cases c)
  case (Credentials_needed x)
  show ?thesis using assms(1) unfolding Credentials_needed
    by (cases "po_password opts") (auto simp: cbCredentialsNeeded_def probe_call_def answers_ok_def Let_def)
qed (use assms in \<open>auto simp: answers_ok_def answerTrust_def cbMessage_def probe_call_def split: if_splits\<close>)

lemma answers_ok_delivers:
  "answers_ok opts yes p \<Longrightarrow> po_trust opts \<or> list_ex one_button cs \<longrightarrow> yes \<Longrightarrow> answers_ok opts yes (fold (deliver opts) cs p)"
  by (induction cs arbitrary: p) (auto intro: answers_ok_deliver)

text \<open>Callbacks add answers, and nothing else, to what is called.\<close>

lemma deliver_calls:
  "pb_session (deliver opts c p) = pb_session p"
  "pb_files (deliver opts c p) = pb_files p"
  "\<exists>xs. pb_calls (deliver opts c p) = pb_calls p @ xs \<and> list_all is_answer xs \<and>
     length xs = (if prompts c \<and> pb_session p then 1 else 0)"
  "pb_connected p \<Longrightarrow> pb_connected (deliver opts c p)"
  by (cases c; auto simp: cbCredentialsNeeded_def answerTrust_def cbMessage_def probe_call_def Let_def; fail)+

lemma delivers_calls:
  "pb_session (fold (deliver opts) cs p) = pb_session p"
  "pb_files (fold (deliver opts) cs p) = pb_files p"
  "\<exists>xs. pb_calls (fold (deliver opts) cs p) = pb_calls p @ xs \<and> list_all is_answer xs \<and>
     length xs = (if pb_session p then length (filter prompts cs) else 0)"
  "pb_connected p \<Longrightarrow> pb_connected (fold (deliver opts) cs p)"
proof (induction cs arbitrary: p)
  case (Cons c cs)
  { case 1 then show ?case using Cons.IH(1) by (simp add: deliver_calls(1)) }
  { case 2 then show ?case using Cons.IH(2) by (simp add: deliver_calls(2)) }
  { case 3
    obtain xs where xs: "pb_calls (deliver opts c p) = pb_calls p @ xs" "list_all is_answer xs"
        "length xs = (if prompts c \<and> pb_session p then 1 else 0)" using deliver_calls(3) by blast
    obtain ys where "pb_calls (fold (deliver opts) cs (deliver opts c p)) = pb_calls (deliver opts c p) @ ys" "list_all is_answer ys"
        "length ys = (if pb_session p then length (filter prompts cs) else 0)"
      using Cons.IH(3) [of "deliver opts c p"] by (auto simp: deliver_calls(1))
    then show ?case using xs by (intro exI [of _ "xs @ ys"]) auto }
  { case 4 then show ?case using Cons.IH(4) by (simp add: deliver_calls(4)) }
qed simp_all

section \<open>A run\<close>

primrec callbacks :: "arrival list \<Rightarrow> vento_callback list" where
  "callbacks [] = []"
| "callbacks (a # as) = (case a of Callback c \<Rightarrow> [c] | Deadline \<Rightarrow> []) @ callbacks as"

lemma callbacks_append [simp]: "callbacks (as @ bs) = callbacks as @ callbacks bs"
  by (induction as) auto

lemma callbacks_map [simp]: "callbacks (map Callback cs) = cs"
  by (induction cs) auto

text \<open>Before it disconnects a probe has only answered, poked and read.\<close>

definition ends :: "session_call \<Rightarrow> bool" where
  "ends c \<longleftrightarrow> c = Disconnect \<or> c = Destroy"

definition probe_ok :: "vento_probe \<Rightarrow> bool \<Rightarrow> probe_state \<Rightarrow> bool" where
  "probe_ok opts yes p \<longleftrightarrow> answers_ok opts yes p \<and> list_all (Not \<circ> ends) (pb_calls p)"

lemma ends_answer: "is_answer c \<Longrightarrow> \<not> ends c"
  by (auto simp: ends_def)

lemma probe_ok_call: "probe_ok opts yes p \<Longrightarrow> \<not> is_answer c \<Longrightarrow> \<not> ends c \<Longrightarrow> probe_ok opts yes (probe_call c p)"
  by (simp add: probe_ok_def answers_ok_call) (simp add: probe_call_def)

lemma probe_ok_files: "probe_ok opts yes (p\<lparr>pb_files := fs\<rparr>) = probe_ok opts yes p"
  by (simp add: probe_ok_def answers_ok_def)

lemma probe_ok_delivers:
  assumes "probe_ok opts yes p" and "po_trust opts \<or> list_ex one_button cs \<longrightarrow> yes"
  shows "probe_ok opts yes (fold (deliver opts) cs p)"
proof -
  obtain xs where "pb_calls (fold (deliver opts) cs p) = pb_calls p @ xs" "list_all is_answer xs"
    using delivers_calls(3) by blast
  then show ?thesis using assms answers_ok_delivers [of opts yes p cs] ends_answer
    by (auto simp: probe_ok_def list_all_iff)
qed

lemma probe_ok_wait:
  assumes "waitFor opts flag as p = Some (r, as', p')" and "probe_ok opts yes p"
    and "po_trust opts \<or> list_ex one_button (callbacks as) \<longrightarrow> yes"
  shows "probe_ok opts yes p'" and "pb_session p' = pb_session p" and "pb_connected p \<Longrightarrow> pb_connected p'" and "pb_files p' = pb_files p"
    and "po_trust opts \<or> list_ex one_button (callbacks as') \<longrightarrow> yes" and "r = flag p'"
proof -
  obtain cs rest where w: "as = map Callback cs @ rest" "p' = fold (deliver opts) cs p" "r = flag p'" "rest = as' \<or> rest = Deadline # as'"
    using waitFor_delivers [OF assms(1)] by blast
  then have "callbacks as = cs @ callbacks as'" by auto
  then show "probe_ok opts yes p'" "po_trust opts \<or> list_ex one_button (callbacks as') \<longrightarrow> yes"
    using assms(2,3) probe_ok_delivers [of opts yes p cs] w(2) by auto
  show "pb_session p' = pb_session p" "pb_connected p \<Longrightarrow> pb_connected p'" "pb_files p' = pb_files p" "r = flag p'"
    using w(2,3) delivers_calls by auto
qed

lemma probe_ok_poke: "probe_ok opts yes p \<Longrightarrow> probe_ok opts yes (poke opts p)"
  by (auto simp: poke_def Let_def ends_def intro!: probe_ok_call split: option.split)

lemma poke_keeps: "pb_session (poke opts p) = pb_session p" "pb_connected (poke opts p) = pb_connected p" "pb_files (poke opts p) = pb_files p"
  by (simp_all add: poke_def probe_call_def Let_def split: option.split)

definition same_but_calls :: "probe_state \<Rightarrow> probe_state \<Rightarrow> bool" where
  "same_but_calls p p' \<longleftrightarrow> pb_session p' = pb_session p \<and> pb_connected p' = pb_connected p \<and> pb_closed p' = pb_closed p \<and>
     pb_width p' = pb_width p \<and> pb_height p' = pb_height p"

lemma same_but_calls_trans: "same_but_calls p q \<Longrightarrow> same_but_calls q r \<Longrightarrow> same_but_calls p r"
  by (simp add: same_but_calls_def)

lemma writePpm_keeps:
  "writePpm can path m w h p = (ok, p') \<Longrightarrow> (probe_ok opts yes p \<longrightarrow> probe_ok opts yes p') \<and> same_but_calls p p'"
  by (auto simp: writePpm_def probe_ok_files same_but_calls_def split: if_splits)

lemma call_keeps: "same_but_calls p (probe_call c p)"
  by (simp add: same_but_calls_def probe_call_def)

lemma writeRegion_keeps:
  assumes "writeRegion can reads out w h p = (ok, p')"
  shows "(probe_ok opts yes p \<longrightarrow> probe_ok opts yes p') \<and> same_but_calls p p'"
proof (cases "rd_pixels reads \<and> rd_region reads w h \<noteq> None")
  case True
  then obtain m where "writePpm can out m w h (probe_call (Read_region w h) p) = (ok, p')"
    using assms by (auto simp: writeRegion_def Let_def)
  from writePpm_keeps [OF this] show ?thesis
    using call_keeps [of p "Read_region w h"] probe_ok_call [of opts yes p "Read_region w h"]
    by (auto simp: ends_def intro: same_but_calls_trans)
next
  case False
  then have "p' = p \<or> p' = probe_call (Read_region w h) p"
    using assms by (auto simp: writeRegion_def Let_def split: if_splits option.splits)
  then show ?thesis using call_keeps [of p "Read_region w h"] probe_ok_call [of opts yes p "Read_region w h"]
    by (auto simp: ends_def same_but_calls_def)
qed

lemma writeThumbnail_keeps:
  assumes "writeThumbnail can reads out step w h p = (ok, p')"
  shows "(probe_ok opts yes p \<longrightarrow> probe_ok opts yes p') \<and> same_but_calls p p'"
proof -
  let ?tw = "(w + step - 1) div step" and ?th = "(h + step - 1) div step"
  let ?c = "Read_thumbnail step ?tw ?th"
  show ?thesis
  proof (cases "rd_thumb reads \<and> rd_thumbnail reads step ?tw ?th \<noteq> None")
    case True
    then obtain m where "writePpm can (thumbPath out) m ?tw ?th (probe_call ?c p) = (ok, p')"
      using assms by (auto simp: writeThumbnail_def Let_def)
    from writePpm_keeps [OF this] show ?thesis
      using call_keeps [of p ?c] probe_ok_call [of opts yes p ?c] by (auto simp: ends_def intro: same_but_calls_trans)
  next
    case False
    then have "p' = p \<or> p' = probe_call ?c p"
      using assms by (auto simp: writeThumbnail_def Let_def split: if_splits option.splits)
    then show ?thesis using call_keeps [of p ?c] probe_ok_call [of opts yes p ?c]
      by (auto simp: ends_def same_but_calls_def)
  qed
qed

lemma writePictures_keeps:
  assumes "writePictures opts can reads out p = (ok, p')"
  shows "(probe_ok opts yes p \<longrightarrow> probe_ok opts yes p') \<and> same_but_calls p p'"
proof (cases "pb_width p \<le> 0 \<or> pb_height p \<le> 0")
  case False
  obtain ok1 p1 where r: "writeRegion can reads out (pb_width p) (pb_height p) p = (ok1, p1)" by (metis prod.collapse)
  obtain ok2 p2 where t: "writeThumbnail can reads out (po_thumb_step opts) (pb_width p) (pb_height p) p1 = (ok2, p2)"
    by (metis prod.collapse)
  have "p' = p2" using assms False r t by (simp add: writePictures_def Let_def)
  then show ?thesis using writeRegion_keeps [OF r, of opts yes] writeThumbnail_keeps [OF t, of opts yes] by (auto intro: same_but_calls_trans)
qed (use assms in \<open>simp add: writePictures_def same_but_calls_def\<close>)

text \<open>Pictures that were written are those the session gave, under the two names.\<close>

lemma writePictures_files:
  assumes "writePictures opts can reads out p = (True, p')"
  shows "\<exists>m tm. rd_region reads (pb_width p) (pb_height p) = Some m \<and>
    rd_thumbnail reads (po_thumb_step opts) ((pb_width p + po_thumb_step opts - 1) div po_thumb_step opts)
      ((pb_height p + po_thumb_step opts - 1) div po_thumb_step opts) = Some tm \<and>
    pb_files p' = pb_files p @ [(out, ppm m (pb_width p) (pb_height p)),
      (thumbPath out, ppm tm ((pb_width p + po_thumb_step opts - 1) div po_thumb_step opts)
        ((pb_height p + po_thumb_step opts - 1) div po_thumb_step opts))]"
  using assms
  by (auto simp: writePictures_def writeRegion_def writeThumbnail_def writePpm_def probe_call_def Let_def
      split: if_splits option.splits prod.splits)

lemma probe_watch_ok:
  assumes "probe_watch opts e as p = Some (status, as', p')" and "probe_ok opts yes p" and "pb_connected p"
    and "po_trust opts \<or> list_ex one_button (callbacks as @ pe_late e) \<longrightarrow> yes"
  shows "probe_ok opts yes p' \<and> pb_session p' = pb_session p \<and> pb_connected p' \<and>
    (po_trust opts \<or> list_ex one_button (callbacks as') \<longrightarrow> yes) \<and> (status = 0 \<or> status = 1)"
proof -
  obtain r1 as1 p1 where w1: "waitFor opts (\<lambda>_. False) as p = Some (r1, as1, p1)"
    using assms(1) by (auto simp: probe_watch_def split: option.splits)
  let ?p1 = "if \<not> pb_closed p1 then poke opts p1 else p1"
  obtain r2 as2 p2 where w2: "waitFor opts (\<lambda>_. False) as1 ?p1 = Some (r2, as2, p2)"
    using assms(1) w1 by (auto simp: probe_watch_def Let_def split: option.splits)
  have yes: "po_trust opts \<or> list_ex one_button (callbacks as) \<longrightarrow> yes" using assms(4) by auto
  note o1 = probe_ok_wait [OF w1 assms(2) yes]
  have "probe_ok opts yes ?p1" using o1(1) probe_ok_poke by simp
  note o2 = probe_ok_wait [OF w2 this o1(5)]
  have kept: "pb_session p2 = pb_session p" "pb_connected p2"
    using o1(2,3) o2(2,3) assms(3) by (auto simp: poke_keeps split: if_splits)
  show ?thesis
  proof (cases "pb_closed p2")
    case True
    then show ?thesis using assms(1) w1 w2 o2 kept by (auto simp: probe_watch_def Let_def)
  next
    case False
    let ?p3 = "fold (deliver opts) (pe_late e) (probe_call Read_facts p2)"
    have p3: "probe_ok opts yes ?p3"
      using o2(1) assms(4) by (intro probe_ok_delivers probe_ok_call) (auto simp: ends_def)
    have "pb_session ?p3 = pb_session p" "pb_connected ?p3"
      using kept delivers_calls(1,4) by (auto simp: probe_call_def)
    moreover have "as' = as2 \<and> (p' = ?p3 \<and> status = 0 \<or>
        (\<exists>out ok. writePictures opts (pe_can e) (pe_reads e) out ?p3 = (ok, p') \<and> status = (if ok then 0 else 1)))"
      using assms(1) w1 w2 False by (auto simp: probe_watch_def Let_def split: option.splits prod.splits if_splits)
    ultimately show ?thesis
      using p3 o2(5) writePictures_keeps [where opts = opts and yes = yes and p = ?p3] by (auto simp: same_but_calls_def split: if_splits)
  qed
qed

definition all_callbacks :: "probe_env \<Rightarrow> vento_callback list" where
  "all_callbacks e = pe_early e @ callbacks (pe_arrivals e) @ pe_late e"

definition may_say_yes :: "vento_probe \<Rightarrow> probe_env \<Rightarrow> bool" where
  "may_say_yes opts e \<longleftrightarrow> po_trust opts \<or> list_ex one_button (all_callbacks e)"

lemma probe_created_ok:
  assumes "probe_created opts e = (as, p)"
  shows "probe_ok opts (may_say_yes opts e) p" and "pb_calls p = []" and "pb_session p = pe_created e" and "pb_files p = []"
    and "po_trust opts \<or> list_ex one_button (callbacks as @ pe_late e) \<longrightarrow> may_say_yes opts e"
proof -
  let ?cs = "takeWhile (Not \<circ> prompts) (pe_early e)"
  let ?q = "fold (deliver opts) ?cs probe_zero"
  have p: "p = ?q\<lparr>pb_session := pe_created e, pb_created := True\<rparr>"
    and as: "as = map Callback (dropWhile (Not \<circ> prompts) (pe_early e)) @ pe_arrivals e"
    using assms by (simp_all add: probe_created_def Let_def)
  have "pb_session probe_zero = False" "pb_calls probe_zero = []" "pb_files probe_zero = []" by (simp_all add: probe_zero_def)
  then have c: "pb_calls ?q = []" "pb_files ?q = []" using delivers_calls(2,3) [of opts ?cs probe_zero] by auto
  have "pb_answered (fold (deliver opts) cs q) = pb_answered q" if "\<not> pb_session q" for cs q
    using that
  proof (induction cs arbitrary: q)
    case (Cons c cs)
    have "pb_answered (deliver opts c q) = pb_answered q"
      using Cons.prems by (cases c) (simp_all add: cbCredentialsNeeded_def answerTrust_def cbMessage_def)
    with Cons show ?case by (simp add: deliver_calls(1))
  qed simp
  then have "pb_answered ?q = False" by (simp add: probe_zero_def)
  with c show "probe_ok opts (may_say_yes opts e) p" "pb_calls p = []" "pb_session p = pe_created e" "pb_files p = []"
    by (simp_all add: p probe_ok_def answers_ok_def)
  show "po_trust opts \<or> list_ex one_button (callbacks as @ pe_late e) \<longrightarrow> may_say_yes opts e"
    using set_dropWhileD by (fastforce simp: as may_say_yes_def all_callbacks_def list_ex_iff)
qed

lemma probe_end_calls:
  assumes "probe_end opts status as p = Some (result, p')" and "probe_ok opts yes p"
    and "po_trust opts \<or> list_ex one_button (callbacks as) \<longrightarrow> yes"
  shows "answers_ok opts yes p' \<and> pb_files p' = pb_files p \<and> (result = 0 \<longrightarrow> status = 0 \<and> pb_closed p') \<and>
    (\<exists>answers. pb_calls p' = pb_calls p @ Disconnect # answers @ [Destroy] \<and> list_all is_answer answers)"
proof -
  obtain closed as' q where w: "waitFor opts pb_closed as (probe_call Disconnect p) = Some (closed, as', q)"
      "result = (if closed then status else 1)" "p' = probe_call Destroy q"
    using assms(1) by (auto simp: probe_end_def split: option.splits)
  from waitFor_delivers [OF w(1)] obtain cs rest where d: "as = map Callback cs @ rest" "q = fold (deliver opts) cs (probe_call Disconnect p)"
    "closed = pb_closed q" by blast
  obtain xs where xs: "pb_calls q = pb_calls (probe_call Disconnect p) @ xs" "list_all is_answer xs"
    using delivers_calls(3) [of opts cs "probe_call Disconnect p"] d(2) by blast
  have "answers_ok opts yes q"
    unfolding d(2) using assms(2,3) d(1) by (intro answers_ok_delivers answers_ok_call) (auto simp: probe_ok_def)
  then show ?thesis
    using w(2,3) d(3) xs delivers_calls(2) [of opts cs "probe_call Disconnect p"] d(2)
    by (auto simp: answers_ok_call) (auto simp: probe_call_def)
qed

text \<open>
  A probe says only what it was told to, and leaves in order.  Whatever the session asks, whenever it asks it
  and however often, the password of the options goes out at most once, with the name and domain
  of the options and nothing else, and no question is answered yes without \<open>--trust\<close> but one
  that has a single button.  A session that was created is always disconnected once and then, as
  the last call and once, destroyed, with nothing but answers in between; without a session
  nothing is called.
\<close>

theorem probe_says_only:
  assumes "vento_probe_run opts e = Some (status, p)"
  shows "filter gives_password (pb_calls p) \<in> {[], [Answer_credentials (po_user opts) (po_domain opts) (po_password opts)]} \<and>
    (Answer_trust True \<in> set (pb_calls p) \<longrightarrow> po_trust opts \<or> list_ex one_button (all_callbacks e)) \<and>
    (if pe_created e
     then \<exists>before answers. pb_calls p = before @ Disconnect # answers @ [Destroy] \<and> list_all is_answer answers \<and>
       Disconnect \<notin> set before \<and> Destroy \<notin> set before
     else pb_calls p = [] \<and> status = 1)"
proof -
  obtain as q where c: "probe_created opts e = (as, q)" by (metis prod.collapse)
  note q = probe_created_ok [OF c]
  let ?yes = "may_say_yes opts e"
  show ?thesis
  proof (cases "pe_created e")
    case True
    obtain r as1 p1 where w: "waitFor opts pb_connected as q = Some (r, as1, p1)"
      using assms c q(3) True by (auto simp: vento_probe_run_def split: option.splits)
    have yes: "po_trust opts \<or> list_ex one_button (callbacks as) \<longrightarrow> ?yes" using q(5) by auto
    note p1 = probe_ok_wait [OF w q(1) yes]
    obtain stat as2 p2 where e: "probe_end opts stat as2 p2 = Some (status, p)" "probe_ok opts ?yes p2"
      "po_trust opts \<or> list_ex one_button (callbacks as2) \<longrightarrow> ?yes"
    proof (cases r)
      case False
      then show ?thesis using that [of 1 as1 p1] assms c q(3) True w p1 by (simp add: vento_probe_run_def)
    next
      case r: True
      obtain stat as2 p2 where watch: "probe_watch opts e as1 p1 = Some (stat, as2, p2)"
        using assms c q(3) True w r by (auto simp: vento_probe_run_def split: option.splits)
      have "po_trust opts \<or> list_ex one_button (callbacks as1 @ pe_late e) \<longrightarrow> ?yes" using p1(5) q(5) by auto
      from probe_watch_ok [OF watch p1(1) _ this] p1(6) r show ?thesis
        using that [of stat as2 p2] assms c q(3) True w watch by (simp add: vento_probe_run_def)
    qed
    from probe_end_calls [OF e] e(2) True show ?thesis
      by (auto simp: answers_ok_def probe_ok_def may_say_yes_def ends_def list_all_iff)
  next
    case False
    then have "p = q" "status = 1" using assms c q(3) by (auto simp: vento_probe_run_def)
    then show ?thesis using q(2) False by simp
  qed
qed

text \<open>
  A run ends: one that has its four deadlines returns, whatever arrives in between.
\<close>

theorem probe_returns:
  assumes "4 \<le> deadlines (pe_arrivals e)"
  shows "\<exists>status p. vento_probe_run opts e = Some (status, p)"
proof -
  obtain as q where c: "probe_created opts e = (as, q)" by (metis prod.collapse)
  have as: "4 \<le> deadlines as" using c assms by (auto simp: probe_created_def Let_def)
  then obtain r as1 p1 where w1: "waitFor opts pb_connected as q = Some (r, as1, p1)" "3 \<le> deadlines as1"
    using waitFor_returns [of as opts pb_connected q] by auto
  have fin: "\<exists>status p. probe_end opts stat bs p2 = Some (status, p)" if "1 \<le> deadlines bs" for stat bs p2
    using waitFor_returns [of bs opts pb_closed "probe_call Disconnect p2"] that by (auto simp: probe_end_def)
  have "\<exists>stat bs p2. probe_watch opts e as1 p1 = Some (stat, bs, p2) \<and> 1 \<le> deadlines bs"
  proof -
    obtain r2 as2 p2 where w2: "waitFor opts (\<lambda>_. False) as1 p1 = Some (r2, as2, p2)" "2 \<le> deadlines as2"
      using waitFor_returns [of as1 opts "\<lambda>_. False" p1] w1(2) by auto
    let ?p2 = "if \<not> pb_closed p2 then poke opts p2 else p2"
    obtain r3 as3 p3 where w3: "waitFor opts (\<lambda>_. False) as2 ?p2 = Some (r3, as3, p3)" "1 \<le> deadlines as3"
      using waitFor_returns [of as2 opts "\<lambda>_. False" ?p2] w2(2) by auto
    then show ?thesis using w2(1) by (auto simp: probe_watch_def Let_def split: option.split prod.split)
  qed
  with fin w1 c show ?thesis by (fastforce simp: vento_probe_run_def split: option.split)
qed

fun reports_connected :: "vento_callback \<Rightarrow> bool" where
  "reports_connected (Connected _ _) = True"
| "reports_connected _ = False"

lemma delivers_connected:
  "pb_connected (fold (deliver opts) cs p) \<Longrightarrow> pb_connected p \<or> list_ex reports_connected cs"
proof (induction cs arbitrary: p)
  case (Cons c cs)
  have "pb_connected (deliver opts c p) \<Longrightarrow> pb_connected p \<or> reports_connected c"
    by (cases c) (auto simp: cbCredentialsNeeded_def answerTrust_def cbMessage_def probe_call_def Let_def split: if_splits)
  with Cons show ?case by auto
qed simp

lemma writePictures_calls:
  assumes "writePictures opts can reads out p = (ok, p')"
  shows "set (pb_calls p) \<subseteq> set (pb_calls p')"
  using assms
  by (auto simp: writePictures_def writeRegion_def writeThumbnail_def writePpm_def probe_call_def Let_def
      split: if_splits option.splits prod.splits)

lemma probe_watch_zero:
  assumes "probe_watch opts e as p = Some (0, as', p')"
  shows "Read_facts \<in> set (pb_calls p') \<and>
    (case po_out opts of
       None \<Rightarrow> pb_files p' = pb_files p
     | Some out \<Rightarrow> \<exists>a b. pb_files p' = pb_files p @ [(out, a), (thumbPath out, b)])"
proof -
  obtain r1 as1 p1 where w1: "waitFor opts (\<lambda>_. False) as p = Some (r1, as1, p1)"
    using assms by (auto simp: probe_watch_def split: option.splits)
  let ?p1 = "if \<not> pb_closed p1 then poke opts p1 else p1"
  obtain r2 as2 p2 where w2: "waitFor opts (\<lambda>_. False) as1 ?p1 = Some (r2, as2, p2)"
    using assms w1 by (auto simp: probe_watch_def Let_def split: option.splits)
  have "pb_files p1 = pb_files p" "pb_files p2 = pb_files ?p1"
    using waitFor_delivers [OF w1] waitFor_delivers [OF w2] delivers_calls(2) by auto
  then have files: "pb_files p2 = pb_files p" by (simp add: poke_keeps split: if_splits)
  let ?p3 = "fold (deliver opts) (pe_late e) (probe_call Read_facts p2)"
  have p3: "Read_facts \<in> set (pb_calls ?p3)" "pb_files ?p3 = pb_files p"
    using delivers_calls(2,3) [of opts "pe_late e" "probe_call Read_facts p2"] files by (auto simp: probe_call_def)
  have end3: "(case po_out opts of None \<Rightarrow> p' = ?p3 | Some out \<Rightarrow> writePictures opts (pe_can e) (pe_reads e) out ?p3 = (True, p'))"
    using assms w1 w2 by (auto simp: probe_watch_def Let_def split: option.splits prod.splits if_splits)
  show ?thesis
  proof (cases "po_out opts")
    case (Some out)
    with end3 have w: "writePictures opts (pe_can e) (pe_reads e) out ?p3 = (True, p')" by simp
    show ?thesis using Some writePictures_calls [OF w] writePictures_files [OF w] p3 by auto
  qed (use end3 p3 in simp)
qed

lemma probe_connected:
  assumes "probe_created opts e = (as, q)" and "waitFor opts pb_connected as q = Some (True, as', p)"
  shows "list_ex reports_connected (all_callbacks e)"
proof -
  obtain cs rest where d: "as = map Callback cs @ rest" "p = fold (deliver opts) cs q" "pb_connected p"
    using waitFor_delivers [OF assms(2)] by blast
  let ?cs = "takeWhile (Not \<circ> prompts) (pe_early e)"
  have "q = (fold (deliver opts) ?cs probe_zero)\<lparr>pb_session := pe_created e, pb_created := True\<rparr>"
    and as: "as = map Callback (dropWhile (Not \<circ> prompts) (pe_early e)) @ pe_arrivals e"
    using assms(1) by (simp_all add: probe_created_def Let_def)
  then have "list_ex reports_connected cs \<or> list_ex reports_connected ?cs"
    using delivers_connected [of opts cs q] delivers_connected [of opts ?cs probe_zero] d(2,3) by (auto simp: probe_zero_def)
  moreover have "set cs \<subseteq> set (dropWhile (Not \<circ> prompts) (pe_early e)) \<union> set (callbacks (pe_arrivals e))"
    using arg_cong [OF as [unfolded d(1)], of "set \<circ> callbacks"] by auto
  moreover have "set ?cs \<subseteq> set (pe_early e)" "set (dropWhile (Not \<circ> prompts) (pe_early e)) \<subseteq> set (pe_early e)"
    by (meson set_takeWhileD set_dropWhileD subsetI)+
  ultimately show ?thesis unfolding all_callbacks_def list_ex_iff by auto
qed

text \<open>
  The exit status is zero only when all was done: the session was created and connected, had not closed when
  the time was up, its facts were read, both pictures were written when a file was asked for, and
  it closed within the time given to it after it was told to disconnect.
\<close>

theorem probe_exit_zero:
  assumes "vento_probe_run opts e = Some (0, p)"
  shows "pe_created e \<and> pb_closed p \<and> Read_facts \<in> set (pb_calls p) \<and> list_ex reports_connected (all_callbacks e) \<and>
    (case po_out opts of
       None \<Rightarrow> pb_files p = []
     | Some out \<Rightarrow> \<exists>a b. pb_files p = [(out, a), (thumbPath out, b)])"
proof -
  obtain as q where c: "probe_created opts e = (as, q)" by (metis prod.collapse)
  note q = probe_created_ok [OF c]
  have made: "pe_created e" using assms c q(3) by (auto simp: vento_probe_run_def split: if_splits)
  obtain as1 p1 where w: "waitFor opts pb_connected as q = Some (True, as1, p1)"
    and rest: "\<exists>stat as2 p2. probe_watch opts e as1 p1 = Some (stat, as2, p2) \<and> probe_end opts stat as2 p2 = Some (0, p)"
    using assms c q(3) made
    by (auto simp: vento_probe_run_def probe_end_def split: option.splits if_splits)
  from rest obtain stat as2 p2 where watch: "probe_watch opts e as1 p1 = Some (stat, as2, p2)"
    and end2: "probe_end opts stat as2 p2 = Some (0, p)" by blast
  have yes: "po_trust opts \<or> list_ex one_button (callbacks as) \<longrightarrow> may_say_yes opts e" using q(5) by auto
  note p1 = probe_ok_wait [OF w q(1) yes]
  have "po_trust opts \<or> list_ex one_button (callbacks as1 @ pe_late e) \<longrightarrow> may_say_yes opts e" using p1(5) q(5) by auto
  from probe_watch_ok [OF watch p1(1) _ this] p1(6)
  have p2: "probe_ok opts (may_say_yes opts e) p2" "po_trust opts \<or> list_ex one_button (callbacks as2) \<longrightarrow> may_say_yes opts e" by auto
  note done' = probe_end_calls [OF end2 p2]
  then have "stat = 0" by simp
  then have zero: "probe_watch opts e as1 p1 = Some (0, as2, p2)" using watch by simp
  have "list_ex reports_connected (all_callbacks e)" by (rule probe_connected [OF c w])
  moreover have "pb_files p1 = []" using p1(4) q(4) by simp
  ultimately show ?thesis using made done' probe_watch_zero [OF zero] by (auto split: option.splits)
qed

section \<open>The picture\<close>

text \<open>What a session with this framebuffer answers to the probe's reads.\<close>

definition shadow_reads :: "shadow \<Rightarrow> probe_reads" where
  "shadow_reads s =
     \<lparr>rd_region = \<lambda>w h. (let (ok, m) = fb_read_region s 0 0 w h (\<lambda>_. 0) (nat w * 4) 0 0 in if ok then Some m else None),
      rd_thumbnail = \<lambda>step tw th. (let (ok, m) = fb_read_thumbnail s step (\<lambda>_. 0) (nat tw * 4) tw th in if ok then Some m else None),
      rd_pixels = True, rd_thumb = True\<rparr>"

definition ppm_of :: "int \<Rightarrow> int \<Rightarrow> u32 list \<Rightarrow> bytes" where
  "ppm_of w h ps =
     bytes_of (''P6'' @ [CHR 0x0A] @ show_int w @ '' '' @ show_int h @ [CHR 0x0A] @ ''255'' @ [CHR 0x0A]) @
     concat (map (\<lambda>v. [ucast v, ucast (drop_bit 8 v), ucast (drop_bit 16 v)]) ps)"

lemma ppm_pixels:
  assumes "length ps = nat (w * h)" and "\<And>i c. i < nat (w * h) \<Longrightarrow> c < 3 \<Longrightarrow> m (i * 4 + c) = ucast (drop_bit (8 * c) (ps ! i))"
  shows "ppm m w h = ppm_of w h ps"
proof -
  have three: "[0..<3] = [0, 1, 2 :: nat]" by (simp add: upt_rec)
  have "map (\<lambda>i. map (\<lambda>c. m (i * 4 + c)) [0..<3]) [0..<nat (w * h)] =
      map (\<lambda>v. [ucast v, ucast (drop_bit 8 v), ucast (drop_bit 16 v)]) ps"
  proof (rule nth_equalityI)
    fix i assume "i < length (map (\<lambda>i. map (\<lambda>c. m (i * 4 + c)) [0..<3]) [0..<nat (w * h)])"
    then have i: "i < nat (w * h)" by simp
    show "map (\<lambda>i. map (\<lambda>c. m (i * 4 + c)) [0..<3]) [0..<nat (w * h)] ! i =
        map (\<lambda>v. [ucast v, ucast (drop_bit 8 v), ucast (drop_bit 16 v)]) ps ! i"
      using i assms(1) assms(2) [OF i, of 0] assms(2) [OF i, of 1] assms(2) [OF i, of 2] by (simp add: three)
  qed (simp add: assms(1))
  then show ?thesis by (simp add: ppm_def ppm_of_def)
qed

text \<open>An index of a picture as a row and a column of it.\<close>

lemma picture_index:
  fixes i w h :: nat
  assumes "i < w * h"
  shows "i div w < h" and "i mod w < w" and "i = i div w * w + i mod w"
proof -
  have "0 < w" using assms by (cases w) auto
  then show "i mod w < w" by simp
  show "i div w < h" using assms by (metis less_mult_imp_div_less mult.commute)
qed simp

lemma region_ppm:
  assumes "shadow_ok s" and "px s = Some ps"
  shows "\<exists>m. rd_region (shadow_reads s) (pw s) (ph s) = Some m \<and> ppm m (pw s) (ph s) = ppm_of (pw s) (ph s) ps"
proof -
  let ?w = "nat (pw s)" and ?h = "nat (ph s)"
  obtain ok m where r: "fb_read_region s 0 0 (pw s) (ph s) (\<lambda>_. 0) (?w * 4) 0 0 = (ok, m)" by (metis prod.collapse)
  have s: "0 < pw s" "0 < ph s" "length ps = ?w * ?h" using assms by (simp_all add: shadow_ok_def)
  have ok: "ok" using fb_read_region_iff [of s 0 0 "pw s" "ph s" "\<lambda>_. 0" "?w * 4" 0 0] r assms(2) s by (simp add: rect_inside_def)
  have n: "nat (pw s * ph s) = ?w * ?h" using s by (simp add: nat_mult_distrib)
  have "m (i * 4 + c) = ucast (drop_bit (8 * c) (ps ! i))" if "i < nat (pw s * ph s)" "c < 3" for i c
  proof -
    note ix = picture_index [OF that(1) [unfolded n]]
    have k: "i mod ?w * 4 + c < 4 * ?w" using ix(2) that(2) by (simp add: algebra_simps)
    have at: "i * 4 + c = i div ?w * (?w * 4) + (i mod ?w * 4 + c)" using ix(3) by (metis add.assoc add_mult_distrib mult.assoc)
    have "m (i div ?w * (?w * 4) + (i mod ?w * 4 + c)) = pixel_byte ps (i div ?w * ?w * 4 + (i mod ?w * 4 + c))"
      using fb_read_region_content [of s 0 0 "pw s" "ph s" "\<lambda>_. 0" "?w * 4" 0 0, OF _ assms(2) _ ix(1) k] r ok by simp
    then have "m (i * 4 + c) = pixel_byte ps (i div ?w * ?w * 4 + (i mod ?w * 4 + c))" by (simp only: at)
    also have "i div ?w * ?w * 4 + (i mod ?w * 4 + c) = i * 4 + c" using ix(3) by (metis add.assoc add_mult_distrib)
    finally show ?thesis using that(2) by (simp add: pixel_byte_def)
  qed
  then have "ppm m (pw s) (ph s) = ppm_of (pw s) (ph s) ps" using s n by (intro ppm_pixels) auto
  then show ?thesis using r ok by (simp add: shadow_reads_def)
qed

text \<open>The pixels of a thumbnail: every \<open>step\<close>th of every \<open>step\<close>th row.\<close>

definition thumb_pixels :: "shadow \<Rightarrow> int \<Rightarrow> u32 list" where
  "thumb_pixels s step =
     (let tw = nat ((pw s + step - 1) div step); th = nat ((ph s + step - 1) div step)
      in map (\<lambda>i. the (px s) ! (i div tw * nat step * nat (pw s) + i mod tw * nat step)) [0..<tw * th])"

lemma thumbnail_ppm:
  assumes "shadow_ok s" and "px s = Some ps" and "1 \<le> step"
  shows "\<exists>m. rd_thumbnail (shadow_reads s) step ((pw s + step - 1) div step) ((ph s + step - 1) div step) = Some m \<and>
    ppm m ((pw s + step - 1) div step) ((ph s + step - 1) div step) =
    ppm_of ((pw s + step - 1) div step) ((ph s + step - 1) div step) (thumb_pixels s step)"
proof -
  let ?tw = "(pw s + step - 1) div step" and ?th = "(ph s + step - 1) div step"
  let ?w = "nat ?tw" and ?h = "nat ?th"
  obtain ok m where r: "fb_read_thumbnail s step (\<lambda>_. 0) (?w * 4) ?tw ?th = (ok, m)" by (metis prod.collapse)
  have s: "0 < pw s" "0 < ph s" using assms by (simp_all add: shadow_ok_def)
  have ok: "ok" using fb_read_thumbnail_iff [OF assms(1), of step "\<lambda>_. 0" "?w * 4" ?tw ?th] r assms(2,3) by simp
  have "0 \<le> ?tw" "0 \<le> ?th" using s assms(3) by (simp_all add: pos_imp_zdiv_nonneg_iff)
  then have n: "nat (?tw * ?th) = ?w * ?h" by (simp add: nat_mult_distrib)
  have "m (i * 4 + c) = ucast (drop_bit (8 * c) (thumb_pixels s step ! i))" if "i < nat (?tw * ?th)" "c < 3" for i c
  proof -
    note ix = picture_index [OF that(1) [unfolded n]]
    have k: "i mod ?w * 4 + c < 4 * ?w" using ix(2) that(2) by (simp add: algebra_simps)
    have at: "i * 4 + c = i div ?w * (?w * 4) + (i mod ?w * 4 + c)" using ix(3) by (metis add.assoc add_mult_distrib mult.assoc)
    have c: "(i mod ?w * 4 + c) div 4 = i mod ?w" "(i mod ?w * 4 + c) mod 4 = c" using that(2) by simp_all
    have "m (i div ?w * (?w * 4) + (i mod ?w * 4 + c)) =
        pixel_byte ps ((i div ?w * nat step * nat (pw s) + (i mod ?w * 4 + c) div 4 * nat step) * 4 + (i mod ?w * 4 + c) mod 4)"
      using fb_read_thumbnail_content [of s step "\<lambda>_. 0" "?w * 4" ?tw ?th, OF _ assms(2) _ ix(1) k] r ok by simp
    then have "m (i * 4 + c) = pixel_byte ps ((i div ?w * nat step * nat (pw s) + i mod ?w * nat step) * 4 + c)"
      by (simp only: at c)
    also have "\<dots> = ucast (drop_bit (8 * c) (ps ! (i div ?w * nat step * nat (pw s) + i mod ?w * nat step)))"
      by (rule pixel_byte_pixel) (use that(2) in simp)
    finally show ?thesis using that n assms(2) by (simp add: thumb_pixels_def Let_def)
  qed
  then have "ppm m ?tw ?th = ppm_of ?tw ?th (thumb_pixels s step)"
    using n by (intro ppm_pixels) (auto simp: thumb_pixels_def Let_def)
  then show ?thesis using r ok by (simp add: shadow_reads_def)
qed

text \<open>
  The picture a probe writes is the desktop.  With a session that has a framebuffer of the size it
  reported, and files that can be written, both reads are accepted and two files are written: the
  first is the PPM of exactly the framebuffer's pixels, row by row, red, green and blue of each,
  the second that of every \<open>step\<close>th pixel of every \<open>step\<close>th row.
\<close>

theorem probe_picture:
  assumes "shadow_ok s" and "px s = Some ps" and "1 \<le> po_thumb_step opts" and "\<forall>path. can path = (True, True)"
    and "pb_width p = pw s" and "pb_height p = ph s"
  shows "\<exists>p'. writePictures opts can (shadow_reads s) out p = (True, p') \<and>
    pb_files p' = pb_files p @
      [(out, ppm_of (pw s) (ph s) ps),
       (thumbPath out, ppm_of ((pw s + po_thumb_step opts - 1) div po_thumb_step opts)
          ((ph s + po_thumb_step opts - 1) div po_thumb_step opts) (thumb_pixels s (po_thumb_step opts)))]"
proof -
  obtain m where m: "rd_region (shadow_reads s) (pw s) (ph s) = Some m" "ppm m (pw s) (ph s) = ppm_of (pw s) (ph s) ps"
    using region_ppm [OF assms(1,2)] by blast
  let ?tw = "(pw s + po_thumb_step opts - 1) div po_thumb_step opts" and ?th = "(ph s + po_thumb_step opts - 1) div po_thumb_step opts"
  obtain tm where tm: "rd_thumbnail (shadow_reads s) (po_thumb_step opts) ?tw ?th = Some tm"
    "ppm tm ?tw ?th = ppm_of ?tw ?th (thumb_pixels s (po_thumb_step opts))"
    using thumbnail_ppm [OF assms(1-3)] by blast
  have "0 < pw s" "0 < ph s" using assms(1,2) by (simp_all add: shadow_ok_def)
  moreover have "rd_pixels (shadow_reads s)" "rd_thumb (shadow_reads s)" by (simp_all add: shadow_reads_def)
  ultimately show ?thesis
    using assms(4-6) m tm by (simp add: writePictures_def writeRegion_def writeThumbnail_def writePpm_def probe_call_def Let_def)
qed

section \<open>Examples\<close>

definition example_probe :: vento_probe where
  "example_probe = vento_probe_init\<lparr>po_password := Some ''secret'', po_out := Some ''out.ppm'', po_thumb_step := 2\<rparr>"

definition example_probe_env :: "arrival list \<Rightarrow> probe_env" where
  "example_probe_env as =
     \<lparr>pe_created = True, pe_early = [Status None, Credentials_needed False], pe_arrivals = as, pe_late = [],
      pe_reads = shadow_reads (shadow_alloc 3 1), pe_can = \<lambda>_. (True, True)\<rparr>"

lemmas example_probe_simps =
  example_probe_def example_probe_env_def vento_probe_init_def vento_probe_run_def probe_created_def probe_zero_def
  probe_watch_def probe_end_def waitFor.simps cbCredentialsNeeded_def answerTrust_def cbMessage_def probe_call_def poke_def Let_def

text \<open>A password that is refused, a question, and the end.\<close>

theorem probe_says_only_witness:
  "\<exists>p. vento_probe_run example_probe (example_probe_env [Callback (Trust_needed ''ab''), Callback (Credentials_needed False), Callback (Closed [])]) =
      Some (1, p) \<and>
    pb_calls p = [Answer_credentials None None (Some ''secret''), Answer_trust False, Answer_credentials None None None, Disconnect, Destroy] \<and>
    Answer_trust True \<notin> set (pb_calls p)"
proof -
  let ?e = "example_probe_env [Callback (Trust_needed ''ab''), Callback (Credentials_needed False), Callback (Closed [])]"
  obtain p where p: "vento_probe_run example_probe ?e = Some (1, p)"
    "pb_calls p = [Answer_credentials None None (Some ''secret''), Answer_trust False, Answer_credentials None None None, Disconnect, Destroy]"
    by (simp add: example_probe_simps)
  with probe_says_only [OF p(1)] show ?thesis by auto
qed

theorem probe_returns_witness:
  "\<exists>status p. vento_probe_run example_probe (example_probe_env [Deadline, Callback Bell, Deadline, Deadline, Deadline]) = Some (status, p)"
  by (rule probe_returns) (simp add: example_probe_env_def)

theorem probe_picture_witness:
  "\<exists>p. writePictures example_probe (\<lambda>_. (True, True)) (shadow_reads (shadow_alloc 3 1)) ''out.ppm'' (probe_zero\<lparr>pb_width := 3, pb_height := 1\<rparr>) =
      (True, p) \<and> map fst (pb_files p) = [''out.ppm'', ''out-thumb.ppm'']"
proof -
  have "shadow_ok (shadow_alloc 3 1)" by (rule shadow_ok_alloc) simp_all
  moreover have "px (shadow_alloc 3 1) = Some (replicate 3 ALPHA)" "pw (shadow_alloc 3 1) = 3" "ph (shadow_alloc 3 1) = 1"
    by (simp_all add: shadow_alloc_def)
  moreover have "1 \<le> po_thumb_step example_probe" by (simp add: example_probe_def)
  moreover have "thumbPath ''out.ppm'' = ''out-thumb.ppm''" by (simp add: thumbPath_def snprintf_s_def)
  ultimately show ?thesis
    using probe_picture [of "shadow_alloc 3 1" "replicate 3 ALPHA" example_probe "\<lambda>_. (True, True)"
        "probe_zero\<lparr>pb_width := 3, pb_height := 1\<rparr>" "''out.ppm''"]
    by (auto simp: probe_zero_def)
qed

end
