(* ===== verification/Probe_Options.thy ===== *)
theory Probe_Options
  imports Session_Probe Vnc_Session Rdp_Session
begin

text \<open>
  The command lines of the probes: the options every backend's probe takes
  (\<open>vento_probe_option\<close> of \<open>src/backends/platform/linux/probe/probe.c\<close>) and the programs of the two C
  backends, \<open>src/backends/modules/libvnc/cpp/libvnc_probe.c\<close> and
  \<open>src/backends/modules/freerdp/cpp/freerdp_probe.c\<close>.

  The arguments from \<open>argv[i]\<close> on are a list, and an option says how many arguments it takes after its
  name.  A program that prints its usage or a complaint exits with status 2.  Where the standard
  leaves \<open>atoi\<close> and \<open>sscanf\<close> undefined, a number beyond \<open>int\<close>, the model is that of the C library the
  programs are built with, \<open>strtol\<close> and a conversion.
\<close>

section \<open>Numbers\<close>

definition to_int :: "int \<Rightarrow> int" where
  "to_int n = signed_take_bit 31 n"

definition atoi :: "string \<Rightarrow> int" where
  "atoi s = to_int (fst (strtol10 s))"

definition char_digit :: "char \<Rightarrow> nat" where
  "char_digit c =
     (let n = of_char c
      in if 48 \<le> n \<and> n \<le> 57 then n - 48
         else if 65 \<le> n \<and> n \<le> 90 then n - 55
         else if 97 \<le> n \<and> n \<le> 122 then n - 87
         else 36)"

text \<open>The base \<open>strtol\<close> finds when it is given none, and the length of the prefix that says so.\<close>

fun strtol_base :: "string \<Rightarrow> nat \<times> nat" where
  "strtol_base (c # x # d # _) =
     (if c = CHR ''0'' \<and> (x = CHR ''x'' \<or> x = CHR ''X'') \<and> char_digit d < 16 then (16, 2)
      else if c = CHR ''0'' then (8, 0) else (10, 0))"
| "strtol_base (c # _) = (if c = CHR ''0'' then (8, 0) else (10, 0))"
| "strtol_base [] = (10, 0)"

definition base_value :: "nat \<Rightarrow> string \<Rightarrow> int" where
  "base_value base ds = fold (\<lambda>c acc. acc * int base + int (char_digit c)) ds 0"

text \<open>\<open>strtol\<close> in base 0: the value, the number of characters consumed, and whether it set \<open>errno\<close>.\<close>

definition strtol0 :: "string \<Rightarrow> int \<times> nat \<times> bool" where
  "strtol0 s =
     (let blank = length (takeWhile is_space s);
          t = drop blank s;
          neg = (t \<noteq> [] \<and> hd t = CHR ''-'');
          sign = (if t \<noteq> [] \<and> (hd t = CHR ''-'' \<or> hd t = CHR ''+'') then 1 else 0);
          u = drop sign t;
          (base, prefix) = strtol_base u;
          ds = takeWhile (\<lambda>c. char_digit c < base) (drop prefix u);
          v = (if neg then - base_value base ds else base_value base ds)
      in if ds = [] then (0, 0, False)
         else (max long_min (min long_max v), blank + sign + prefix + length ds, v < long_min \<or> long_max < v))"

definition number :: "string \<Rightarrow> int option" where
  "number v =
     (let (n, used, err) = strtol0 v
      in if err \<or> used = 0 \<or> used < length v then None else Some n)"

text \<open>\<open>sscanf\<close> with \<open>%d\<close>, the separator and \<open>%d\<close>, when it converts both.\<close>

definition scan_pair :: "char \<Rightarrow> string \<Rightarrow> (int \<times> int) option" where
  "scan_pair sep s =
     (let (x, used) = strtol10 s; t = drop used s
      in if used = 0 \<or> t = [] \<or> hd t \<noteq> sep then None
         else let (y, used) = strtol10 (tl t)
         in if used = 0 then None else Some (to_int x, to_int y))"

section \<open>Options\<close>

text \<open>An option exits the program, is not one of these, or is taken, with so many arguments after it.\<close>

datatype 'a parsed = Exits | Not_mine | Takes 'a nat

definition vento_probe_value :: "string list \<Rightarrow> string option" where
  "vento_probe_value args = (if 1 < length args then Some (args ! 1) else None)"

definition with_value :: "string list \<Rightarrow> (string \<Rightarrow> 'a option) \<Rightarrow> 'a parsed" where
  "with_value args f =
     (case vento_probe_value args of
        None \<Rightarrow> Exits
      | Some v \<Rightarrow> (case f v of None \<Rightarrow> Exits | Some x \<Rightarrow> Takes x 1))"

definition vento_probe_option :: "vento_probe \<Rightarrow> string list \<Rightarrow> vento_probe parsed" where
  "vento_probe_option p args =
     (let a = args ! 0
      in if a = ''--trust'' then Takes (p\<lparr>po_trust := True\<rparr>) 0
         else if a = ''--seconds'' then with_value args (\<lambda>v. map_option (\<lambda>n. p\<lparr>po_seconds := to_int n\<rparr>) (number v))
         else if a = ''--connect-timeout''
         then with_value args (\<lambda>v. map_option (\<lambda>n. p\<lparr>po_connect_timeout_s := to_int n\<rparr>) (number v))
         else if a = ''--user'' then with_value args (\<lambda>v. Some (p\<lparr>po_user := Some v\<rparr>))
         else if a = ''--domain'' then with_value args (\<lambda>v. Some (p\<lparr>po_domain := Some v\<rparr>))
         else if a = ''--password'' then with_value args (\<lambda>v. Some (p\<lparr>po_password := Some v\<rparr>))
         else if a = ''--clipboard'' then with_value args (\<lambda>v. Some (p\<lparr>po_clipboard := Some v\<rparr>))
         else if a = ''--key'' then with_value args (\<lambda>v. map_option (\<lambda>n. p\<lparr>po_keysym := n\<rparr>) (number v))
         else if a = ''--click''
         then with_value args (\<lambda>v. map_option (\<lambda>(x, y). p\<lparr>po_click_x := x, po_click_y := y\<rparr>) (scan_pair (CHR '','') v))
         else if a = ''--out'' then with_value args (\<lambda>v. Some (p\<lparr>po_out := Some v\<rparr>))
         else if a = ''--thumb-step''
         then with_value args (\<lambda>v. case number v of
                                      None \<Rightarrow> None
                                    | Some n \<Rightarrow> if to_int n < 1 then None else Some (p\<lparr>po_thumb_step := to_int n\<rparr>))
         else Not_mine)"

section \<open>Programs\<close>

text \<open>
  The loop of a program over its arguments, for its own options \<open>own\<close>; \<open>None\<close> when it exits there.
\<close>

function probe_args ::
  "('c \<Rightarrow> string list \<Rightarrow> 'c parsed) \<Rightarrow> vento_probe \<Rightarrow> 'c \<Rightarrow> string list \<Rightarrow> (vento_probe \<times> 'c) option"
where
  "probe_args own p c [] = Some (p, c)"
| "probe_args own p c (a # args) =
     (case vento_probe_option p (a # args) of
        Exits \<Rightarrow> None
      | Takes p' k \<Rightarrow> probe_args own p' c (drop k args)
      | Not_mine \<Rightarrow>
          (case own c (a # args) of
             Exits \<Rightarrow> None
           | Takes c' k \<Rightarrow> probe_args own p c' (drop k args)
           | Not_mine \<Rightarrow> None))"
  by pat_completeness auto
termination by (relation "measure (\<lambda>(own, p, c, args). length args)") auto

declare probe_args.simps(2) [simp del]

definition is_dash :: "string \<Rightarrow> bool" where
  "is_dash a \<longleftrightarrow> a \<noteq> [] \<and> hd a = CHR ''-''"

subsection \<open>The program of LibVNC\<close>

definition libvnc_probe_config :: vento_libvnc_config where
  "libvnc_probe_config =
     \<lparr>address = None, user_name = None, password = None,
      encoding = Some ''tight zrle ultra copyrect hextile zlib corre rre raw'', compress_level = -1, quality_level = -1,
      color_level = 0, shared = False, anonymous_tls = False, connect_timeout_ms = 0\<rparr>"

definition libvnc_probe_option :: "vento_libvnc_config \<Rightarrow> string list \<Rightarrow> vento_libvnc_config parsed" where
  "libvnc_probe_option c args =
     (let a = args ! 0
      in if a = ''--shared'' then Takes (c\<lparr>shared := True\<rparr>) 0
         else if a = ''--anonymous-tls'' then Takes (c\<lparr>anonymous_tls := True\<rparr>) 0
         else if a = ''--encoding'' then with_value args (\<lambda>v. Some (c\<lparr>encoding := Some v\<rparr>))
         else if a = ''--compress'' then with_value args (\<lambda>v. Some (c\<lparr>compress_level := atoi v\<rparr>))
         else if a = ''--quality'' then with_value args (\<lambda>v. Some (c\<lparr>quality_level := atoi v\<rparr>))
         else if a = ''--color'' then with_value args (\<lambda>v. Some (c\<lparr>color_level := atoi v\<rparr>))
         else if a = ''--timeout'' then with_value args (\<lambda>v. Some (c\<lparr>connect_timeout_ms := atoi v\<rparr>))
         else if \<not> is_dash a \<and> address c = None then Takes (c\<lparr>address := Some a\<rparr>) 0
         else Exits)"

text \<open>
  The program: its exit status, and the probe's end of the session where one was run; \<open>run\<close> is what
  happens around a run of this configuration.
\<close>

definition libvnc_probe_main :: "(vento_libvnc_config \<Rightarrow> probe_env) \<Rightarrow> string list \<Rightarrow> (int \<times> probe_state option) option" where
  "libvnc_probe_main run args =
     (case probe_args libvnc_probe_option vento_probe_init libvnc_probe_config args of
        None \<Rightarrow> Some (2, None)
      | Some (p, c) \<Rightarrow>
          if address c = None then Some (2, None)
          else map_option (apsnd Some) (vento_probe_run p (run c)))"

subsection \<open>The program of FreeRDP\<close>

definition freerdp_probe_config :: vento_freerdp_config where
  "freerdp_probe_config =
     \<lparr>fc_address = None, fc_user_name = None, fc_domain = None, fc_password = None, fc_nla = Some ''prefer'',
      fc_legacy_tls = False, fc_compression = True, fc_graphics = Some ''gfx'', fc_experience = Some ''balanced'',
      fc_sound = Some ''off'', fc_scale = 100, fc_width = 1280, fc_height = 800, fc_monitors = 1, fc_keyboard_layout = 0,
      fc_client_name = Some ''vento-probe'', fc_platform = Some ''linux'', fc_config_path = Some ''vento-probe-freerdp'',
      fc_connect_timeout_ms = 0, fc_video = None, fc_audio = False\<rparr>"

definition freerdp_probe_option :: "vento_freerdp_config \<Rightarrow> string list \<Rightarrow> vento_freerdp_config parsed" where
  "freerdp_probe_option c args =
     (let a = args ! 0
      in if a = ''--nla'' then with_value args (\<lambda>v. Some (c\<lparr>fc_nla := Some v\<rparr>))
         else if a = ''--legacy-tls'' then Takes (c\<lparr>fc_legacy_tls := True\<rparr>) 0
         else if a = ''--no-compression'' then Takes (c\<lparr>fc_compression := False\<rparr>) 0
         else if a = ''--graphics'' then with_value args (\<lambda>v. Some (c\<lparr>fc_graphics := Some v\<rparr>))
         else if a = ''--experience'' then with_value args (\<lambda>v. Some (c\<lparr>fc_experience := Some v\<rparr>))
         else if a = ''--sound'' then with_value args (\<lambda>v. Some (c\<lparr>fc_sound := Some v\<rparr>))
         else if a = ''--scale'' then with_value args (\<lambda>v. Some (c\<lparr>fc_scale := atoi v\<rparr>))
         else if a = ''--size''
         then with_value args (\<lambda>v. map_option (\<lambda>(w, h). c\<lparr>fc_width := w, fc_height := h\<rparr>) (scan_pair (CHR ''x'') v))
         else if a = ''--monitors'' then with_value args (\<lambda>v. Some (c\<lparr>fc_monitors := atoi v\<rparr>))
         else if a = ''--layout'' then with_value args (\<lambda>v. Some (c\<lparr>fc_keyboard_layout := atoi v\<rparr>))
         else if a = ''--config-dir'' then with_value args (\<lambda>v. Some (c\<lparr>fc_config_path := Some v\<rparr>))
         else if a = ''--timeout'' then with_value args (\<lambda>v. Some (c\<lparr>fc_connect_timeout_ms := atoi v\<rparr>))
         else if \<not> is_dash a \<and> fc_address c = None then Takes (c\<lparr>fc_address := Some a\<rparr>) 0
         else Exits)"

definition freerdp_probe_main :: "(vento_freerdp_config \<Rightarrow> probe_env) \<Rightarrow> string list \<Rightarrow> (int \<times> probe_state option) option" where
  "freerdp_probe_main run args =
     (case probe_args freerdp_probe_option vento_probe_init freerdp_probe_config args of
        None \<Rightarrow> Some (2, None)
      | Some (p, c) \<Rightarrow>
          if fc_address c = None then Some (2, None)
          else map_option (apsnd Some) (vento_probe_run p (run c)))"

section \<open>Where an answer comes from\<close>

definition follows :: "string list \<Rightarrow> string \<Rightarrow> string \<Rightarrow> bool" where
  "follows args a v \<longleftrightarrow> (\<exists>xs ys. args = xs @ a # v # ys)"

text \<open>An option that is unchanged, or given among the arguments.\<close>

definition given_by :: "string list \<Rightarrow> string \<Rightarrow> string option \<Rightarrow> string option \<Rightarrow> bool" where
  "given_by args a old new \<longleftrightarrow> new = old \<or> (\<exists>v. new = Some v \<and> follows args a v)"

lemma follows_drop: "follows (drop k args) a v \<Longrightarrow> follows args a v"
  unfolding follows_def by (metis append.assoc append_take_drop_id)

lemma given_refl [simp]: "given_by args a x x"
  by (simp add: given_by_def)

lemma given_trans: "given_by args a x y \<Longrightarrow> given_by (drop k args) a y z \<Longrightarrow> given_by args a x z"
  by (auto simp: given_by_def dest: follows_drop)

lemma with_value_simps [simp]:
  "with_value [a] f = Exits"
  "with_value (a # v # args) f = (case f v of None \<Rightarrow> Exits | Some x \<Rightarrow> Takes x 1)"
  by (simp_all add: with_value_def vento_probe_value_def)

lemma given_value [simp]: "given_by (a # v # args) a x (Some v)"
  unfolding given_by_def follows_def by (metis append_Nil)

definition options_from :: "string list \<Rightarrow> vento_probe \<Rightarrow> vento_probe \<Rightarrow> bool" where
  "options_from args p p' \<longleftrightarrow>
     (po_trust p' \<longrightarrow> po_trust p \<or> ''--trust'' \<in> set args) \<and>
     given_by args ''--user'' (po_user p) (po_user p') \<and>
     given_by args ''--domain'' (po_domain p) (po_domain p') \<and>
     given_by args ''--password'' (po_password p) (po_password p') \<and>
     (1 \<le> po_thumb_step p \<longrightarrow> 1 \<le> po_thumb_step p')"

lemma options_from_refl [simp]: "options_from args p p"
  by (simp add: options_from_def)

lemma options_from_trans:
  "options_from args p q \<Longrightarrow> options_from (drop k args) q r \<Longrightarrow> options_from args p r"
  by (auto simp: options_from_def dest: in_set_dropD intro: given_trans)

lemma vento_probe_option_from:
  assumes "vento_probe_option p (a # args) = Takes p' k"
  shows "options_from (a # args) p p'"
  using assms
  by (cases args) (auto simp: vento_probe_option_def options_from_def Let_def split: if_splits option.splits prod.splits)

text \<open>
  A program of its own options and configuration, of which some fact is kept: the options say how
  many arguments they take, and the configuration's fact holds throughout.
\<close>

locale probe_program =
  fixes own :: "'c \<Rightarrow> string list \<Rightarrow> 'c parsed"
    and keeps :: "string list \<Rightarrow> 'c \<Rightarrow> bool"
  assumes own_keeps: "own c (a # args) = Takes c' k \<Longrightarrow> set (a # args) \<subseteq> set all \<Longrightarrow> keeps all c \<Longrightarrow> keeps all c'"
begin

lemma args_from:
  "probe_args own p c args = Some (p', c') \<Longrightarrow> set args \<subseteq> set all \<Longrightarrow> keeps all c \<Longrightarrow> options_from args p p' \<and> keeps all c'"
proof (induction "length args" arbitrary: p c args rule: less_induct)
  case less
  show ?case
  proof (cases args)
    case (Cons a rest)
    have rest: "set (drop k rest) \<subseteq> set all" for k using less.prems(2) Cons set_drop_subset [of k rest] by auto
    have later: "options_from (drop k rest) q p' \<Longrightarrow> options_from args p q \<Longrightarrow> options_from args p p'" for k q
      using options_from_trans [of args p q "Suc k" p'] Cons by simp
    have IH: "probe_args own q d (drop k rest) = Some (p', c') \<Longrightarrow> keeps all d \<Longrightarrow> options_from (drop k rest) q p' \<and> keeps all c'" for q d k
      by (rule less.hyps) (use rest Cons in auto)
    show ?thesis
    proof (cases "vento_probe_option p (a # rest)")
      case (Takes q k)
      then show ?thesis using less.prems IH [of q c k] later [of k q] vento_probe_option_from [OF Takes] Cons
        by (simp add: probe_args.simps(2))
    next
      case Not_mine
      then obtain d k where d: "own c (a # rest) = Takes d k" "probe_args own p d (drop k rest) = Some (p', c')"
        using less.prems(1) Cons by (auto simp: probe_args.simps(2) split: parsed.splits)
      then show ?thesis using less.prems IH [OF d(2)] later [of k p] own_keeps [OF d(1)] Cons by simp
    qed (use less.prems Cons in \<open>simp add: probe_args.simps(2)\<close>)
  qed (use less.prems in simp)
qed

end

definition libvnc_keeps :: "string list \<Rightarrow> vento_libvnc_config \<Rightarrow> bool" where
  "libvnc_keeps args c \<longleftrightarrow> user_name c = None \<and> password c = None \<and> (\<forall>a. address c = Some a \<longrightarrow> a \<in> set args)"

definition freerdp_keeps :: "string list \<Rightarrow> vento_freerdp_config \<Rightarrow> bool" where
  "freerdp_keeps args c \<longleftrightarrow>
     fc_user_name c = None \<and> fc_domain c = None \<and> fc_password c = None \<and> (\<forall>a. fc_address c = Some a \<longrightarrow> a \<in> set args) \<and>
     fc_video c = None \<and> \<not> fc_audio c"

interpretation vp: probe_program libvnc_probe_option libvnc_keeps
proof
  fix c c' :: vento_libvnc_config and a args k all
  assume "libvnc_probe_option c (a # args) = Takes c' k" "set (a # args) \<subseteq> set all" "libvnc_keeps all c"
  then show "libvnc_keeps all c'"
    by (cases args) (auto simp: libvnc_probe_option_def libvnc_keeps_def Let_def split: if_splits)
qed

interpretation rp: probe_program freerdp_probe_option freerdp_keeps
proof
  fix c c' :: vento_freerdp_config and a args k all
  assume "freerdp_probe_option c (a # args) = Takes c' k" "set (a # args) \<subseteq> set all" "freerdp_keeps all c"
  then show "freerdp_keeps all c'"
    by (cases args) (auto simp: freerdp_probe_option_def freerdp_keeps_def Let_def split: if_splits option.splits prod.splits)
qed

text \<open>What a run says, given the arguments of the program: the calls it made and whether a message with one button came.\<close>

definition says_only :: "string list \<Rightarrow> bool \<Rightarrow> session_call list \<Rightarrow> bool" where
  "says_only args one calls \<longleftrightarrow>
     (case filter gives_password calls of
        [] \<Rightarrow> True
      | [Answer_credentials user domain (Some w)] \<Rightarrow>
          follows args ''--password'' w \<and> given_by args ''--user'' None user \<and> given_by args ''--domain'' None domain
      | _ \<Rightarrow> False) \<and>
     (Answer_trust True \<in> set calls \<longrightarrow> ''--trust'' \<in> set args \<or> one)"

lemma run_says_only:
  assumes "options_from args vento_probe_init o'" and "vento_probe_run o' e = Some (status, p)"
  shows "says_only args (list_ex one_button (all_callbacks e)) (pb_calls p)"
proof -
  have from_args: "po_trust o' \<longrightarrow> ''--trust'' \<in> set args" "given_by args ''--user'' None (po_user o')"
    "given_by args ''--domain'' None (po_domain o')" "given_by args ''--password'' None (po_password o')"
    using assms(1) by (simp_all add: options_from_def vento_probe_init_def)
  note says = probe_says_only [OF assms(2)]
  have "filter gives_password (pb_calls p) = [] \<or>
      (\<exists>w. po_password o' = Some w \<and> filter gives_password (pb_calls p) = [Answer_credentials (po_user o') (po_domain o') (Some w)])"
  proof (cases "filter gives_password (pb_calls p)")
    case (Cons c cs)
    then have "gives_password c" by (metis filter_eq_ConsD)
    with Cons says show ?thesis by (cases "po_password o'") auto
  qed simp
  moreover have "Answer_trust True \<in> set (pb_calls p) \<longrightarrow> ''--trust'' \<in> set args \<or> list_ex one_button (all_callbacks e)"
    using says from_args(1) by blast
  ultimately show ?thesis using from_args(2-4) by (auto simp: says_only_def given_by_def)
qed


definition example_probe_args :: "string list" where
  "example_probe_args = [''host:1'', ''--password'', ''secret'', ''--trust'']"

definition example_probe_prompts :: probe_env where
  "example_probe_prompts = example_probe_env (map arrival.Callback [Trust_needed ''ab'', Credentials_needed False, Closed []])"


section \<open>Reading a command line back\<close>

subsection \<open>Numbers\<close>

definition int_range :: "int \<Rightarrow> bool" where
  "int_range n \<longleftrightarrow> - (2 ^ 31) \<le> n \<and> n < 2 ^ 31"

definition long_range :: "int \<Rightarrow> bool" where
  "long_range n \<longleftrightarrow> long_min \<le> n \<and> n \<le> long_max"

lemma int_range_long: "int_range n \<Longrightarrow> long_range n"
  by (simp add: int_range_def long_range_def long_min_def long_max_def)

lemma to_int_id [simp]: "int_range n \<Longrightarrow> to_int n = n"
  by (simp add: to_int_def int_range_def signed_take_bit_int_eq_self)

lemma char_digit_digit: "is_digit c \<Longrightarrow> char_digit c = of_char c - 48 \<and> char_digit c < 10"
  by (auto simp: is_digit_def char_digit_def Let_def)

lemma base_value_digits:
  "list_all is_digit ds \<Longrightarrow> fold (\<lambda>c acc. acc * int 10 + int (char_digit c)) ds acc = digits_value acc ds"
proof (induction ds arbitrary: acc)
  case (Cons d ds)
  then have "int (char_digit d) = of_char d - 48" using char_digit_digit [of d] by (simp add: is_digit_def of_char_int_nat)
  with Cons show ?case by simp
qed simp

lemma show_nat_hd: "0 < n \<Longrightarrow> hd (show_nat n) \<noteq> CHR ''0''"
proof (induction n rule: show_nat.induct)
  case (1 n)
  show ?case
  proof (cases "n < 10")
    case True
    have "char_of (48 + n) \<noteq> CHR ''0''"
    proof
      assume "char_of (48 + n) = CHR ''0''"
      from arg_cong [OF this, of "of_char :: char \<Rightarrow> nat"] show False using 1(2) True by (simp add: of_char_digit)
    qed
    then show ?thesis using True by (simp add: show_nat.simps [of n])
  next
    case False
    then show ?thesis using 1 show_nat_digits [of "n div 10"] by (simp add: show_nat.simps [of n])
  qed
qed

lemma show_nat_0: "show_nat 0 = ''0''"
  using char_of_char [of "CHR ''0''", where ?'a = nat] by (simp add: show_nat.simps)

lemma strtol_base_show_nat: "strtol_base (show_nat n) = (if n = 0 then 8 else 10, 0)"
proof (cases "n = 0")
  case False
  then have "hd (show_nat n) \<noteq> CHR ''0''" by (simp add: show_nat_hd)
  then show ?thesis using False by (cases "show_nat n" rule: strtol_base.cases) auto
qed (simp add: show_nat_0)

lemma show_int_cases:
  obtains m where "show_int n = show_nat m" "n = int m" | m where "show_int n = CHR ''-'' # show_nat m" "n = - int m" "0 < m"
  by (cases "n < 0") (auto simp: show_int_def intro: that(1) [of "nat n"] that(2) [of "nat (- n)"])

lemma number_show_int [simp]:
  assumes "long_range n"
  shows "number (show_int n) = Some n"
proof -
  have digits: "takeWhile (\<lambda>c. char_digit c < (if m = 0 then 8 else 10)) (show_nat m) = show_nat m" for m
  proof (cases "m = 0")
    case False
    have "\<forall>c\<in>set (show_nat m). char_digit c < 10" using show_nat_digits [of m] char_digit_digit by (metis list_all_iff)
    with False show ?thesis by (simp add: takeWhile_eq_all_conv)
  qed (simp add: show_nat_0 char_digit_def)
  have val: "base_value (if m = 0 then 8 else 10) (show_nat m) = int m" for m
    using base_value_digits [of "show_nat m" 0] show_nat_digits [of m] digits_value_show_nat [of m]
    by (cases "m = 0") (auto simp: base_value_def show_nat_0 char_digit_def)
  have hd: "\<exists>d ds. show_nat m = d # ds \<and> is_digit d" for m using show_nat_digits [of m] by (cases "show_nat m") auto
  show ?thesis
  proof (cases rule: show_int_cases [of n])
    case (1 m)
    obtain d ds where d: "show_nat m = d # ds" "is_digit d" using hd by blast
    then have "strtol0 (show_nat m) = (n, length (show_nat m), False)"
      using digit_not_special [OF d(2)] strtol_base_show_nat [of m] digits [of m] val [of m] assms 1(2)
      by (simp add: strtol0_def Let_def long_range_def split: prod.split)
    then show ?thesis using d(1) by (simp add: number_def 1(1))
  next
    case (2 m)
    have "strtol0 (CHR ''-'' # show_nat m) = (n, Suc (length (show_nat m)), False)"
      using strtol_base_show_nat [of m] val [of m] digits [of m] assms 2(2,3) show_nat_digits [of m]
      by (simp add: strtol0_def Let_def long_range_def is_space_def takeWhile_eq_all_conv [THEN iffD2] split: prod.split)
    then show ?thesis by (simp add: number_def 2(1))
  qed
qed

lemma strtol10_show_int:
  assumes "long_range n" and "rest = [] \<or> \<not> is_digit (hd rest)"
  shows "strtol10 (show_int n @ rest) = (n, length (show_int n))"
proof -
  have digits: "takeWhile is_digit (show_nat m @ rest) = show_nat m" for m
    using show_nat_digits [of m] assms(2) by (cases rest) (auto simp: list_all_iff takeWhile_append2 takeWhile_tail)
  have hd: "\<exists>d ds. show_nat m = d # ds \<and> is_digit d" for m using show_nat_digits [of m] by (cases "show_nat m") auto
  show ?thesis
  proof (cases rule: show_int_cases [of n])
    case (1 m)
    obtain d ds where d: "show_nat m = d # ds" "is_digit d" using hd by blast
    then show ?thesis using digit_not_special [OF d(2)] digits [of m] digits_value_show_nat [of m] assms(1) 1
      by (simp add: strtol10_def Let_def long_range_def)
  next
    case (2 m)
    then show ?thesis using digits [of m] digits_value_show_nat [of m] assms(1) show_nat_digits [of m]
      by (simp add: strtol10_def Let_def long_range_def is_space_def)
  qed
qed

lemma atoi_show_int [simp]: "int_range n \<Longrightarrow> atoi (show_int n) = n"
  using strtol10_show_int [of n "[]"] by (simp add: atoi_def int_range_long)

lemma show_int_ne [simp]: "show_int n \<noteq> []"
  using show_nat_digits by (simp add: show_int_def)

lemma scan_pair_show_int [simp]:
  assumes "int_range x" and "int_range y" and "\<not> is_digit sep" and "rest = [] \<or> \<not> is_digit (hd rest)"
  shows "scan_pair sep (show_int x @ sep # show_int y @ rest) = Some (x, y)"
  using strtol10_show_int [of x "sep # show_int y @ rest"] strtol10_show_int [of y rest] assms
  by (simp add: scan_pair_def int_range_long)

subsection \<open>Command lines\<close>

definition opt_args :: "string \<Rightarrow> string option \<Rightarrow> string list" where
  "opt_args name x = (case x of None \<Rightarrow> [] | Some v \<Rightarrow> [name, v])"

text \<open>A command line that says all of the options.\<close>

definition probe_line :: "vento_probe \<Rightarrow> string list" where
  "probe_line p =
     (if po_trust p then [''--trust''] else []) @
     [''--seconds'', show_int (po_seconds p), ''--connect-timeout'', show_int (po_connect_timeout_s p)] @
     opt_args ''--user'' (po_user p) @ opt_args ''--domain'' (po_domain p) @ opt_args ''--password'' (po_password p) @
     opt_args ''--clipboard'' (po_clipboard p) @
     [''--key'', show_int (po_keysym p), ''--click'', show_int (po_click_x p) @ '','' @ show_int (po_click_y p)] @
     opt_args ''--out'' (po_out p) @
     [''--thumb-step'', show_int (po_thumb_step p)]"

text \<open>The options there are: numbers of their types, and a scale of at least one.\<close>

definition probe_options_ok :: "vento_probe \<Rightarrow> bool" where
  "probe_options_ok p \<longleftrightarrow>
     int_range (po_seconds p) \<and> int_range (po_connect_timeout_s p) \<and> long_range (po_keysym p) \<and>
     int_range (po_click_x p) \<and> int_range (po_click_y p) \<and> int_range (po_thumb_step p) \<and> 1 \<le> po_thumb_step p"

lemma drop_one [simp]: "drop 1 (v # args) = args"
  by simp

lemma probe_args_common:
  "vento_probe_option p (a # v # args) = Takes p' 1 \<Longrightarrow> probe_args own p c (a # v # args) = probe_args own p' c args"
  "vento_probe_option p (a # args) = Takes p' 0 \<Longrightarrow> probe_args own p c (a # args) = probe_args own p' c args"
  by (simp_all add: probe_args.simps(2))

lemma probe_args_opt_as:
  assumes "\<And>v rest. vento_probe_option p (name # v # rest) = Takes (f (Some v)) 1" and "f None = p"
  shows "probe_args own p c (opt_args name x @ args) = probe_args own (f x) c args"
  using assms by (cases x) (simp_all add: opt_args_def probe_args_common(1))

lemma vento_probe_option_simps:
  "vento_probe_option p (''--trust'' # args) = Takes (p\<lparr>po_trust := True\<rparr>) 0"
  "long_range n \<Longrightarrow> vento_probe_option p (''--seconds'' # show_int n # args) = Takes (p\<lparr>po_seconds := to_int n\<rparr>) 1"
  "long_range n \<Longrightarrow> vento_probe_option p (''--connect-timeout'' # show_int n # args) = Takes (p\<lparr>po_connect_timeout_s := to_int n\<rparr>) 1"
  "vento_probe_option p (''--user'' # v # args) = Takes (p\<lparr>po_user := Some v\<rparr>) 1"
  "vento_probe_option p (''--domain'' # v # args) = Takes (p\<lparr>po_domain := Some v\<rparr>) 1"
  "vento_probe_option p (''--password'' # v # args) = Takes (p\<lparr>po_password := Some v\<rparr>) 1"
  "vento_probe_option p (''--clipboard'' # v # args) = Takes (p\<lparr>po_clipboard := Some v\<rparr>) 1"
  "long_range n \<Longrightarrow> vento_probe_option p (''--key'' # show_int n # args) = Takes (p\<lparr>po_keysym := n\<rparr>) 1"
  "int_range x \<Longrightarrow> int_range y \<Longrightarrow> rest = [] \<or> \<not> is_digit (hd rest) \<Longrightarrow>
    vento_probe_option p (''--click'' # (show_int x @ CHR '','' # show_int y @ rest) # args) = Takes (p\<lparr>po_click_x := x, po_click_y := y\<rparr>) 1"
  "vento_probe_option p (''--out'' # v # args) = Takes (p\<lparr>po_out := Some v\<rparr>) 1"
  "int_range n \<Longrightarrow> 1 \<le> n \<Longrightarrow> vento_probe_option p (''--thumb-step'' # show_int n # args) = Takes (p\<lparr>po_thumb_step := n\<rparr>) 1"
  by (simp_all add: vento_probe_option_def int_range_long is_digit_def)

lemma probe_args_trust:
  "\<not> po_trust p \<Longrightarrow> probe_args own p c ((if t then [''--trust''] else []) @ args) = probe_args own (p\<lparr>po_trust := t\<rparr>) c args"
  by (cases p) (simp add: probe_args_common(2) vento_probe_option_simps)

lemma probe_args_opt:
  "po_user p = None \<Longrightarrow> probe_args own p c (opt_args ''--user'' x @ args) = probe_args own (p\<lparr>po_user := x\<rparr>) c args"
  "po_domain p = None \<Longrightarrow> probe_args own p c (opt_args ''--domain'' x @ args) = probe_args own (p\<lparr>po_domain := x\<rparr>) c args"
  "po_password p = None \<Longrightarrow> probe_args own p c (opt_args ''--password'' x @ args) = probe_args own (p\<lparr>po_password := x\<rparr>) c args"
  "po_clipboard p = None \<Longrightarrow> probe_args own p c (opt_args ''--clipboard'' x @ args) = probe_args own (p\<lparr>po_clipboard := x\<rparr>) c args"
  "po_out p = None \<Longrightarrow> probe_args own p c (opt_args ''--out'' x @ args) = probe_args own (p\<lparr>po_out := x\<rparr>) c args"
  by (rule probe_args_opt_as; cases p; simp add: vento_probe_option_simps)+

lemmas probe_args_simps = probe_args_trust probe_args_opt vento_probe_option_simps(2-11) [THEN probe_args_common(1)]
  vento_probe_option_simps(9) [where rest = "[]", THEN probe_args_common(1), simplified]

text \<open>A command line of all the options is read as exactly these.\<close>

lemma probe_line_args:
  assumes "probe_options_ok p"
  shows "probe_args own vento_probe_init c (probe_line p) = Some (p, c)"
proof -
  note ok = assms [unfolded probe_options_ok_def]
  then have "long_range (po_seconds p)" "long_range (po_connect_timeout_s p)" by (simp_all add: int_range_long)
  with ok show ?thesis by (simp add: probe_line_def vento_probe_init_def probe_args_simps)
qed

text \<open>The programs' own options, and a command line of them.\<close>

definition libvnc_line :: "vento_libvnc_config \<Rightarrow> string list" where
  "libvnc_line c =
     (if shared c then [''--shared''] else []) @ (if anonymous_tls c then [''--anonymous-tls''] else []) @
     [''--encoding'', the (encoding c), ''--compress'', show_int (compress_level c), ''--quality'', show_int (quality_level c),
      ''--color'', show_int (color_level c), ''--timeout'', show_int (connect_timeout_ms c), the (address c)]"

definition libvnc_config_ok :: "vento_libvnc_config \<Rightarrow> bool" where
  "libvnc_config_ok c \<longleftrightarrow>
     user_name c = None \<and> password c = None \<and> encoding c \<noteq> None \<and> address c \<noteq> None \<and> \<not> is_dash (the (address c)) \<and>
     int_range (compress_level c) \<and> int_range (quality_level c) \<and> int_range (color_level c) \<and> int_range (connect_timeout_ms c)"

definition freerdp_line :: "vento_freerdp_config \<Rightarrow> string list" where
  "freerdp_line c =
     [''--nla'', the (fc_nla c)] @ (if fc_legacy_tls c then [''--legacy-tls''] else []) @
     (if fc_compression c then [] else [''--no-compression'']) @
     [''--graphics'', the (fc_graphics c), ''--experience'', the (fc_experience c), ''--sound'', the (fc_sound c),
      ''--scale'', show_int (fc_scale c), ''--size'', show_int (fc_width c) @ ''x'' @ show_int (fc_height c),
      ''--monitors'', show_int (fc_monitors c), ''--layout'', show_int (fc_keyboard_layout c),
      ''--config-dir'', the (fc_config_path c), ''--timeout'', show_int (fc_connect_timeout_ms c), the (fc_address c)]"

definition freerdp_config_ok :: "vento_freerdp_config \<Rightarrow> bool" where
  "freerdp_config_ok c \<longleftrightarrow>
     fc_user_name c = None \<and> fc_domain c = None \<and> fc_password c = None \<and> fc_nla c \<noteq> None \<and> fc_graphics c \<noteq> None \<and>
     fc_experience c \<noteq> None \<and> fc_sound c \<noteq> None \<and> fc_config_path c \<noteq> None \<and> fc_address c \<noteq> None \<and> \<not> is_dash (the (fc_address c)) \<and>
     fc_client_name c = Some ''vento-probe'' \<and> fc_platform c = Some ''linux'' \<and> fc_video c = None \<and> \<not> fc_audio c \<and>
     int_range (fc_scale c) \<and> int_range (fc_width c) \<and> int_range (fc_height c) \<and> int_range (fc_monitors c) \<and>
     int_range (fc_keyboard_layout c) \<and> int_range (fc_connect_timeout_ms c)"

lemma probe_args_own:
  "vento_probe_option p (a # args) = Not_mine \<Longrightarrow> own c (a # args) = Takes c' 0 \<Longrightarrow>
    probe_args own p c (a # args) = probe_args own p c' args"
  "vento_probe_option p (a # v # args) = Not_mine \<Longrightarrow> own c (a # v # args) = Takes c' 1 \<Longrightarrow>
    probe_args own p c (a # v # args) = probe_args own p c' args"
  by (simp_all add: probe_args.simps(2))

lemma not_dash: "\<not> is_dash a \<Longrightarrow> (a = CHR ''-'' # xs) = False"
  by (auto simp: is_dash_def)

lemma vento_probe_option_address: "\<not> is_dash a \<Longrightarrow> vento_probe_option p (a # args) = Not_mine"
  by (simp add: vento_probe_option_def not_dash)

lemma libvnc_probe_flags:
  "\<not> shared c \<Longrightarrow>
    probe_args libvnc_probe_option p c ((if t then [''--shared''] else []) @ args) = probe_args libvnc_probe_option p (c\<lparr>shared := t\<rparr>) args"
  "\<not> anonymous_tls c \<Longrightarrow>
    probe_args libvnc_probe_option p c ((if t then [''--anonymous-tls''] else []) @ args) = probe_args libvnc_probe_option p (c\<lparr>anonymous_tls := t\<rparr>) args"
  by (cases t; cases c; simp add: probe_args.simps(2) vento_probe_option_def libvnc_probe_option_def)+

lemma libvnc_probe_values:
  fixes p defines "parse \<equiv> probe_args libvnc_probe_option p"
  shows
    "parse c (''--encoding'' # v # args) = parse (c\<lparr>encoding := Some v\<rparr>) args"
    "parse c (''--compress'' # v # args) = parse (c\<lparr>compress_level := atoi v\<rparr>) args"
    "parse c (''--quality'' # v # args) = parse (c\<lparr>quality_level := atoi v\<rparr>) args"
    "parse c (''--color'' # v # args) = parse (c\<lparr>color_level := atoi v\<rparr>) args"
    "parse c (''--timeout'' # v # args) = parse (c\<lparr>connect_timeout_ms := atoi v\<rparr>) args"
  unfolding parse_def by (rule probe_args_own(2); simp add: vento_probe_option_def libvnc_probe_option_def)+

lemma libvnc_probe_address:
  assumes "\<not> is_dash a" and "address c = None"
  shows "probe_args libvnc_probe_option p c (a # args) = probe_args libvnc_probe_option p (c\<lparr>address := Some a\<rparr>) args"
  using assms by (intro probe_args_own(1)) (simp_all add: vento_probe_option_address libvnc_probe_option_def not_dash)

lemma libvnc_line_args:
  assumes "libvnc_config_ok c"
  shows "probe_args libvnc_probe_option p libvnc_probe_config (libvnc_line c @ args) = probe_args libvnc_probe_option p c args"
proof -
  obtain a e where "address c = Some a" "\<not> is_dash a" "encoding c = Some e" using assms by (auto simp: libvnc_config_ok_def)
  with assms show ?thesis
    by (simp add: libvnc_line_def libvnc_config_ok_def libvnc_probe_config_def libvnc_probe_flags libvnc_probe_values libvnc_probe_address)
      (cases c, simp)
qed

lemma freerdp_probe_flags:
  "\<not> fc_legacy_tls c \<Longrightarrow>
    probe_args freerdp_probe_option p c ((if t then [''--legacy-tls''] else []) @ args) = probe_args freerdp_probe_option p (c\<lparr>fc_legacy_tls := t\<rparr>) args"
  "fc_compression c \<Longrightarrow>
    probe_args freerdp_probe_option p c ((if t then [] else [''--no-compression'']) @ args) = probe_args freerdp_probe_option p (c\<lparr>fc_compression := t\<rparr>) args"
  by (cases t; cases c; simp add: probe_args.simps(2) vento_probe_option_def freerdp_probe_option_def)+

lemma freerdp_probe_values:
  fixes p defines "parse \<equiv> probe_args freerdp_probe_option p"
  shows
    "parse c (''--nla'' # v # args) = parse (c\<lparr>fc_nla := Some v\<rparr>) args"
    "parse c (''--graphics'' # v # args) = parse (c\<lparr>fc_graphics := Some v\<rparr>) args"
    "parse c (''--experience'' # v # args) = parse (c\<lparr>fc_experience := Some v\<rparr>) args"
    "parse c (''--sound'' # v # args) = parse (c\<lparr>fc_sound := Some v\<rparr>) args"
    "parse c (''--scale'' # v # args) = parse (c\<lparr>fc_scale := atoi v\<rparr>) args"
    "parse c (''--monitors'' # v # args) = parse (c\<lparr>fc_monitors := atoi v\<rparr>) args"
    "parse c (''--layout'' # v # args) = parse (c\<lparr>fc_keyboard_layout := atoi v\<rparr>) args"
    "parse c (''--config-dir'' # v # args) = parse (c\<lparr>fc_config_path := Some v\<rparr>) args"
    "parse c (''--timeout'' # v # args) = parse (c\<lparr>fc_connect_timeout_ms := atoi v\<rparr>) args"
  unfolding parse_def by (rule probe_args_own(2); simp add: vento_probe_option_def freerdp_probe_option_def)+

lemma freerdp_probe_size:
  assumes "int_range w" and "int_range h"
  shows "probe_args freerdp_probe_option p c (''--size'' # (show_int w @ CHR ''x'' # show_int h) # args) =
    probe_args freerdp_probe_option p (c\<lparr>fc_width := w, fc_height := h\<rparr>) args"
proof (rule probe_args_own(2))
  have "scan_pair (CHR ''x'') (show_int w @ CHR ''x'' # show_int h) = Some (w, h)"
    using scan_pair_show_int [OF assms, of "CHR ''x''" "[]"] by (simp add: is_digit_def)
  then show "freerdp_probe_option c (''--size'' # (show_int w @ CHR ''x'' # show_int h) # args) = Takes (c\<lparr>fc_width := w, fc_height := h\<rparr>) 1"
    by (simp add: freerdp_probe_option_def)
qed (simp add: vento_probe_option_def)

lemma freerdp_probe_address:
  assumes "\<not> is_dash a" and "fc_address c = None"
  shows "probe_args freerdp_probe_option p c (a # args) = probe_args freerdp_probe_option p (c\<lparr>fc_address := Some a\<rparr>) args"
  using assms by (intro probe_args_own(1)) (simp_all add: vento_probe_option_address freerdp_probe_option_def not_dash)

lemma freerdp_line_args:
  assumes "freerdp_config_ok c"
  shows "probe_args freerdp_probe_option p freerdp_probe_config (freerdp_line c @ args) = probe_args freerdp_probe_option p c args"
proof -
  obtain a n g e s d where "fc_address c = Some a" "\<not> is_dash a" "fc_nla c = Some n" "fc_graphics c = Some g" "fc_experience c = Some e"
    "fc_sound c = Some s" "fc_config_path c = Some d" using assms by (auto simp: freerdp_config_ok_def)
  with assms show ?thesis
    by (simp add: freerdp_line_def freerdp_config_ok_def freerdp_probe_config_def freerdp_probe_flags freerdp_probe_values
        freerdp_probe_size freerdp_probe_address) (cases c, simp)
qed

text \<open>
  C33. Every run of a probe can be asked for, and a command line means one run: from the line that spells the options
  and the configuration out, each program reads back exactly these, negative and boundary numbers
  included, and it leaves to its defaults only what has no option, so that nothing on the line is lost,
  reordered or taken for something else, whatever the texts are.
\<close>

theorem probe_line_roundtrip:
  assumes "probe_options_ok p" and "libvnc_config_ok c" and "freerdp_config_ok d"
  shows "probe_args libvnc_probe_option vento_probe_init libvnc_probe_config (libvnc_line c @ probe_line p) = Some (p, c) \<and>
    probe_args freerdp_probe_option vento_probe_init freerdp_probe_config (freerdp_line d @ probe_line p) = Some (p, d)"
  using assms by (simp add: libvnc_line_args freerdp_line_args probe_line_args)

theorem probe_line_roundtrip_witness:
  "probe_args libvnc_probe_option vento_probe_init libvnc_probe_config
      (libvnc_line (libvnc_probe_config\<lparr>address := Some ''host:1'', color_level := 2\<rparr>) @ probe_line (vento_probe_init\<lparr>po_password := Some ''--trust''\<rparr>)) =
    Some (vento_probe_init\<lparr>po_password := Some ''--trust''\<rparr>, libvnc_probe_config\<lparr>address := Some ''host:1'', color_level := 2\<rparr>)"
proof -
  let ?p = "vento_probe_init\<lparr>po_password := Some ''--trust''\<rparr>" and ?c = "libvnc_probe_config\<lparr>address := Some ''host:1'', color_level := 2\<rparr>"
  have "probe_options_ok ?p" "libvnc_config_ok ?c" "freerdp_config_ok (freerdp_probe_config\<lparr>fc_address := Some ''host''\<rparr>)"
    by (simp_all add: probe_options_ok_def libvnc_config_ok_def freerdp_config_ok_def vento_probe_init_def libvnc_probe_config_def
        freerdp_probe_config_def int_range_def long_range_def long_min_def long_max_def is_dash_def)
  from probe_line_roundtrip [OF this] show ?thesis by blast
qed

text \<open>
  A click with something after it is taken: the second number ends where its digits do, and what follows
  is not looked at.
\<close>

lemma click_takes_rest:
  assumes "int_range x" and "int_range y" and "rest = [] \<or> \<not> is_digit (hd rest)"
  shows "vento_probe_option p (''--click'' # (show_int x @ CHR '','' # show_int y @ rest) # args) = Takes (p\<lparr>po_click_x := x, po_click_y := y\<rparr>) 1"
  by (rule vento_probe_option_simps(9) [OF assms])

end
