(* ===== verification/Linux_Audio.thy ===== *)
theory Linux_Audio
  imports Binary32
begin

text \<open>
  The sound decoder of the Linux client, from \<open>src/backends/platform/linux/cpp/vento_ffaudio.c\<close>:
  packets of AAC or Opus through libavcodec into interleaved 16-bit samples.

  libavcodec is a parameter: what it answers to a packet and to each request for a frame, and the
  frames it gives out.  Memory is a list of samples with an address; \<open>realloc\<close> gives an address or
  nothing.  The \<open>int\<close> and \<open>int64_t\<close> counters are integers.
\<close>

section \<open>Frames of the library\<close>

datatype AVSampleFormat =
    AV_SAMPLE_FMT_FLTP
  | AV_SAMPLE_FMT_FLT
  | AV_SAMPLE_FMT_S16P
  | AV_SAMPLE_FMT_S16
  | AV_SAMPLE_FMT_other int

text \<open>\<open>f_float c i\<close> and \<open>f_s16 c i\<close> are sample \<open>i\<close> of \<open>extended_data[c]\<close>, read as either type.\<close>

record AVFrame =
  f_channels :: int
  f_nb_samples :: int
  f_sample_rate :: int
  f_format :: AVSampleFormat
  f_float :: "nat \<Rightarrow> nat \<Rightarrow> float32"
  f_s16 :: "nat \<Rightarrow> nat \<Rightarrow> u16"

text \<open>The answers of \<open>avcodec_receive_frame\<close>; \<open>EAGAIN\<close> and end of stream are one to this code.\<close>

datatype av_received = Av_frame AVFrame | Av_again | Av_error int

section \<open>The decoder\<close>

text \<open>
  \<open>ff_in\<close> is the padded copy of the packet, its length \<open>in_cap\<close>; \<open>ff_out\<close> the address of the
  samples, \<open>None\<close> for NULL, and \<open>ff_data\<close> what is there, its length \<open>out_cap\<close>; \<open>ff_timebase\<close> is
  \<open>pkt_timebase.den\<close>.
\<close>

record vento_ffaudio =
  ff_in :: bytes
  ff_out :: "nat option"
  ff_data :: "u16 list"
  ff_next_pts :: int
  ff_timebase :: int

datatype ff_error = No_error | No_decoder | No_stream int int | Out_of_memory | Library_error int | Format_error AVSampleFormat

datatype ff_codec = VENTO_FFAUDIO_AAC | VENTO_FFAUDIO_OPUS | Ff_codec_other int

text \<open>\<open>has\<close> is whether this libavcodec has a decoder of the codec.\<close>

definition ff_find :: "(ff_codec \<Rightarrow> bool) \<Rightarrow> ff_codec \<Rightarrow> bool" where
  "ff_find has codec \<longleftrightarrow> (case codec of Ff_codec_other _ \<Rightarrow> False | _ \<Rightarrow> has codec)"

definition vento_ffaudio_decodable :: "(ff_codec \<Rightarrow> bool) \<Rightarrow> ff_codec \<Rightarrow> bool" where
  "vento_ffaudio_decodable has codec = ff_find has codec"

text \<open>
  \<open>memory\<close> is whether each of the three allocations (the decoder, libavcodec's objects, the
  configuration) succeeds, \<open>opened\<close> what \<open>avcodec_open2\<close> answers to the configuration.
\<close>

definition vento_ffaudio_open ::
  "(ff_codec \<Rightarrow> bool) \<Rightarrow> bool \<times> bool \<times> bool \<Rightarrow> (bytes \<Rightarrow> int) \<Rightarrow> ff_codec \<Rightarrow> int \<Rightarrow> int \<Rightarrow> bytes \<Rightarrow> ff_error + vento_ffaudio"
where
  "vento_ffaudio_open has memory opened codec rate channels config =
     (let (decoder_ok, objects_ok, config_ok) = memory
      in if \<not> ff_find has codec then Inl No_decoder
         else if rate \<le> 0 \<or> channels \<le> 0 \<or> length config > 2 ^ 16 then Inl (No_stream rate channels)
         else if \<not> decoder_ok \<or> \<not> objects_ok then Inl Out_of_memory
         else if config \<noteq> [] \<and> \<not> config_ok then Inl Out_of_memory
         else if opened config < 0 then Inl (Library_error (opened config))
         else Inr \<lparr>ff_in = [], ff_out = None, ff_data = [], ff_next_pts = 0, ff_timebase = rate\<rparr>)"

section \<open>Samples\<close>

text \<open>
  \<open>s * 32768\<close> is exact, or an infinity when it is too large; the sum with a half is rounded, and
  the conversion cuts towards zero.
\<close>

definition trunc :: "rat \<Rightarrow> int" where
  "trunc x = (if x < 0 then - \<lfloor>- x\<rfloor> else \<lfloor>x\<rfloor>)"

definition scaled_sample :: "rat \<Rightarrow> int" where
  "scaled_sample x =
     (if \<not> x > -32768 then -32768
      else if \<not> x < 32767 then 32767
      else trunc (if x \<ge> 0 then fl32s (x + 1 / 2) else fl32s (x - 1 / 2)))"

fun from_float :: "float32 \<Rightarrow> int" where
  "from_float Nan = 0"
| "from_float (Infinity negative) = (if negative then -32768 else 32767)"
| "from_float (Finite s) = scaled_sample (s * 32768)"

text \<open>
  One frame into the samples from \<open>used\<close> on; the loops are those of the source, and a write is an
  update of the list.  \<open>None\<close> for a format that is not converted.
\<close>

definition append_planes :: "nat \<Rightarrow> nat \<Rightarrow> nat \<Rightarrow> (nat \<Rightarrow> nat \<Rightarrow> u16) \<Rightarrow> u16 list \<Rightarrow> u16 list" where
  "append_planes used ch n sample out =
     fold (\<lambda>c out. fold (\<lambda>i out. out[used + (i * ch + c) := sample c i]) [0..<n] out) [0..<ch] out"

definition append_row :: "nat \<Rightarrow> nat \<Rightarrow> (nat \<Rightarrow> u16) \<Rightarrow> u16 list \<Rightarrow> u16 list" where
  "append_row used n sample out = fold (\<lambda>i out. out[used + i := sample i]) [0..<n] out"

definition append_frame :: "AVFrame \<Rightarrow> nat \<Rightarrow> u16 list \<Rightarrow> u16 list option" where
  "append_frame f used out =
     (let ch = nat (f_channels f); n = nat (f_nb_samples f)
      in case f_format f of
           AV_SAMPLE_FMT_FLTP \<Rightarrow> Some (append_planes used ch n (\<lambda>c i. word_of_int (from_float (f_float f c i))) out)
         | AV_SAMPLE_FMT_FLT \<Rightarrow> Some (append_row used (n * ch) (\<lambda>i. word_of_int (from_float (f_float f 0 i))) out)
         | AV_SAMPLE_FMT_S16P \<Rightarrow> Some (append_planes used ch n (f_s16 f) out)
         | AV_SAMPLE_FMT_S16 \<Rightarrow> Some (append_row used (n * ch) (f_s16 f 0) out)
         | AV_SAMPLE_FMT_other _ \<Rightarrow> None)"

section \<open>Decoding a packet\<close>

text \<open>
  What a call gives back: the result, the address in \<open>*samples\<close>, \<open>*rate\<close> and \<open>*channels\<close>, the
  error.  The loop stops at the first answer that is no frame; \<open>None\<close> is a loop still running.
  With each answer comes what \<open>realloc\<close> would give; \<open>old\<close> is what \<open>*samples\<close> was set to before.
\<close>

record ff_result =
  r_frames :: int
  r_samples :: "nat option"
  r_rate :: int
  r_channels :: int
  r_error :: ff_error

definition ff_grow :: "nat \<Rightarrow> nat option \<Rightarrow> vento_ffaudio \<Rightarrow> vento_ffaudio option" where
  "ff_grow need room a =
     (if need > length (ff_data a)
      then map_option (\<lambda>p. a\<lparr>ff_out := Some p, ff_data := ff_data a @ replicate (need - length (ff_data a)) 0\<rparr>) room
      else Some a)"

definition ff_advance :: "(int \<Rightarrow> int \<Rightarrow> int \<Rightarrow> int) \<Rightarrow> AVFrame \<Rightarrow> vento_ffaudio \<Rightarrow> vento_ffaudio" where
  "ff_advance rescale f a =
     (if f_sample_rate f > 0
      then a\<lparr>ff_next_pts := ff_next_pts a + rescale (f_nb_samples f) (ff_timebase a) (f_sample_rate f)\<rparr> else a)"

fun ff_receive ::
  "(int \<Rightarrow> int \<Rightarrow> int \<Rightarrow> int) \<Rightarrow> nat option \<Rightarrow> (av_received \<times> nat option) list \<Rightarrow> nat \<Rightarrow> int \<Rightarrow> int \<Rightarrow> int \<Rightarrow> vento_ffaudio \<Rightarrow>
   (ff_result \<times> vento_ffaudio) option"
where
  "ff_receive rescale old [] used frames rate channels a = None"
| "ff_receive rescale old ((Av_again, _) # rs) used frames rate channels a =
     Some (\<lparr>r_frames = frames, r_samples = ff_out a, r_rate = rate, r_channels = channels, r_error = No_error\<rparr>, a)"
| "ff_receive rescale old ((Av_error e, _) # rs) used frames rate channels a =
     Some (\<lparr>r_frames = (if frames > 0 then frames else -1), r_samples = old, r_rate = rate, r_channels = channels,
            r_error = Library_error e\<rparr>, a)"
| "ff_receive rescale old ((Av_frame f, room) # rs) used frames rate channels a =
     (let ch = f_channels f
      in if ch \<le> 0 \<or> (frames > 0 \<and> (ch \<noteq> channels \<or> f_sample_rate f \<noteq> rate))
         then Some (\<lparr>r_frames = frames, r_samples = ff_out a, r_rate = rate, r_channels = channels, r_error = No_error\<rparr>, a)
         else let need = used + nat (f_nb_samples f) * nat ch
         in case ff_grow need room a of
              None \<Rightarrow> Some (\<lparr>r_frames = -1, r_samples = old, r_rate = rate, r_channels = channels, r_error = Out_of_memory\<rparr>, a)
            | Some a \<Rightarrow>
                (case append_frame f used (ff_data a) of
                   None \<Rightarrow> Some (\<lparr>r_frames = -1, r_samples = old, r_rate = rate, r_channels = channels,
                                  r_error = Format_error (f_format f)\<rparr>, a)
                 | Some out \<Rightarrow>
                     ff_receive rescale old rs need (frames + f_nb_samples f) (f_sample_rate f) ch
                       (ff_advance rescale f (a\<lparr>ff_data := out\<rparr>))))"

text \<open>
  The packet copied with its padding, \<open>pad\<close> being \<open>AV_INPUT_BUFFER_PADDING_SIZE\<close>; \<open>room\<close> is whether memory for a longer one is given, and what
  is left of a longer packet before stays behind the padding.
\<close>

definition ff_pad :: "nat \<Rightarrow> bool \<Rightarrow> bytes \<Rightarrow> bytes \<Rightarrow> bytes option" where
  "ff_pad pad room data buf =
     (let need = length data + pad;
          buf = (if length buf < need then (if room then Some (replicate need 0) else None) else Some buf)
      in map_option (\<lambda>b. data @ replicate pad 0 @ drop need b) buf)"

text \<open>\<open>send\<close> is libavcodec's answer to the packet at its time, \<open>rate\<close> and \<open>channels\<close> the caller's variables.\<close>

definition vento_ffaudio_decode ::
  "nat \<Rightarrow> (int \<Rightarrow> int \<Rightarrow> int \<Rightarrow> int) \<Rightarrow> bool \<Rightarrow> (bytes \<Rightarrow> int \<Rightarrow> int) \<Rightarrow> (av_received \<times> nat option) list \<Rightarrow> bytes \<Rightarrow> int \<Rightarrow> int \<Rightarrow>
   vento_ffaudio \<Rightarrow> (ff_result \<times> vento_ffaudio) option"
where
  "vento_ffaudio_decode pad rescale room send rs data rate channels a =
     (let res = \<lparr>r_frames = 0, r_samples = ff_out a, r_rate = rate, r_channels = channels, r_error = No_error\<rparr>
      in if data = [] \<or> length data > 2 ^ 31 - 1 - pad then Some (res, a)
         else case ff_pad pad room data (ff_in a) of
           None \<Rightarrow> Some (res\<lparr>r_frames := -1, r_error := Out_of_memory\<rparr>, a\<lparr>ff_in := []\<rparr>)
         | Some buf \<Rightarrow>
             let a = a\<lparr>ff_in := buf\<rparr>; sent = send data (ff_next_pts a)
             in if sent < 0 then Some (res\<lparr>r_frames := -1, r_error := Library_error sent\<rparr>, a)
                else ff_receive rescale (ff_out a) rs 0 0 rate channels a)"

section \<open>Conversion\<close>

lemma trunc_bounds: "\<bar>of_int (trunc x) - x\<bar> < 1" "x \<ge> 0 \<Longrightarrow> of_int (trunc x) \<le> x" "x < 0 \<Longrightarrow> x \<le> of_int (trunc x)"
  by (simp_all add: trunc_def abs_if) linarith+

lemma scaled_sample_near:
  assumes "-32768 < x" "x < 32767"
  shows "\<bar>of_int (scaled_sample x) - x\<bar> \<le> 51 / 100"
proof (cases "0 \<le> x")
  case True
  let ?y = "fl32s (x + 1 / 2)"
  have e: "scaled_sample x = trunc ?y" using assms True by (simp add: scaled_sample_def)
  have y: "\<bar>?y - (x + 1 / 2)\<bar> \<le> 1 / 100" using assms True by (intro fl32s_close) simp
  then have "0 \<le> ?y" using True by linarith
  from trunc_bounds(1) [of ?y] trunc_bounds(2) [OF this] y show ?thesis unfolding e by linarith
next
  case False
  let ?y = "fl32s (x - 1 / 2)"
  have e: "scaled_sample x = trunc ?y" using assms False by (simp add: scaled_sample_def)
  have y: "\<bar>?y - (x - 1 / 2)\<bar> \<le> 1 / 100" using assms False by (intro fl32s_close) simp
  then have "?y < 0" using False by linarith
  from trunc_bounds(1) [of ?y] trunc_bounds(3) [OF this] y show ?thesis unfolding e by linarith
qed

lemma scaled_sample_range: "-32768 \<le> scaled_sample x \<and> scaled_sample x \<le> 32767"
proof (cases "-32768 < x \<and> x < 32767")
  case True
  then have "\<bar>of_int (scaled_sample x) - x\<bar> \<le> 51 / 100" by (intro scaled_sample_near) simp_all
  then have "(of_int (scaled_sample x) :: rat) < 32768" "-32769 < (of_int (scaled_sample x) :: rat)"
    using True by linarith+
  then have "(of_int (scaled_sample x) :: rat) < of_int 32768" "(of_int (-32769) :: rat) < of_int (scaled_sample x)"
    by simp_all
  then show ?thesis unfolding of_int_less_iff by simp
qed (auto simp: scaled_sample_def)

text \<open>
  A decoder's sample is converted without overflow to the 16-bit one nearest to it: the result
  is in range whatever the decoder gives, so the 16 bits written read back as it, no number is
  silence, and a number is at most 0.51 away from the result after scaling, or clipped when it
  is beyond full scale.
\<close>

theorem linux_audio_samples:
  "sint (word_of_int (from_float x) :: u16) = from_float x \<and> from_float Nan = 0 \<and>
   (\<forall>s. \<bar>of_int (from_float (Finite s)) - max (-32768) (min 32767 (s * 32768))\<bar> \<le> 51 / 100)"
proof -
  have "-32768 \<le> from_float x \<and> from_float x \<le> 32767"
    by (cases x) (use scaled_sample_range in auto)
  then have "sint (word_of_int (from_float x) :: u16) = from_float x"
    unfolding sint_sbintrunc' by (intro signed_take_bit_int_eq_self) simp_all
  moreover have "\<bar>of_int (scaled_sample x) - max (-32768) (min 32767 x)\<bar> \<le> 51 / 100" for x
    using scaled_sample_near [of x]
    by (cases "-32768 < x"; cases "x < 32767") (auto simp: scaled_sample_def max_def min_def)
  ultimately show ?thesis by simp
qed

section \<open>Interleaving\<close>

definition frame_len :: "AVFrame \<Rightarrow> nat" where
  "frame_len f = nat (f_nb_samples f) * nat (f_channels f)"

text \<open>The samples of a frame in the order they are heard: all channels of a moment, then the next.\<close>

definition frame_sample :: "AVFrame \<Rightarrow> nat \<Rightarrow> u16" where
  "frame_sample f j =
     (let ch = nat (f_channels f)
      in case f_format f of
           AV_SAMPLE_FMT_FLTP \<Rightarrow> word_of_int (from_float (f_float f (j mod ch) (j div ch)))
         | AV_SAMPLE_FMT_FLT \<Rightarrow> word_of_int (from_float (f_float f 0 j))
         | AV_SAMPLE_FMT_S16P \<Rightarrow> f_s16 f (j mod ch) (j div ch)
         | AV_SAMPLE_FMT_S16 \<Rightarrow> f_s16 f 0 j
         | AV_SAMPLE_FMT_other _ \<Rightarrow> 0)"

definition frame_samples :: "AVFrame \<Rightarrow> u16 list" where
  "frame_samples f = map (frame_sample f) [0..<frame_len f]"

lemma append_row_eq:
  "used + n \<le> length out \<Longrightarrow> append_row used n sample out = take used out @ map sample [0..<n] @ drop (used + n) out"
proof (induction n)
  case (Suc n)
  then have "append_row used (Suc n) sample out = (take used out @ map sample [0..<n] @ drop (used + n) out)[used + n := sample n]"
    by (simp add: append_row_def)
  also have "drop (used + n) out = out ! (used + n) # drop (used + Suc n) out"
    using Suc.prems by (simp add: Cons_nth_drop_Suc)
  finally show ?case using Suc.prems by (simp add: list_update_append)
qed (simp add: append_row_def)

lemma update_column:
  assumes "c < ch" "n * ch \<le> length out"
  shows "fold (\<lambda>i out. out[i * ch + c := g i]) [0..<n] out =
    map (\<lambda>j. if j < n * ch \<and> j mod ch = c then g (j div ch) else out ! j) [0..<length out]"
  using assms(2)
proof (induction n)
  case (Suc n)
  have less: "n * ch + c < length out" using Suc.prems assms(1) by simp
  show ?case
  proof (rule nth_equalityI)
    show "length (fold (\<lambda>i out. out[i * ch + c := g i]) [0..<Suc n] out) =
      length (map (\<lambda>j. if j < Suc n * ch \<and> j mod ch = c then g (j div ch) else out ! j) [0..<length out])"
      using Suc by simp
    fix j assume "j < length (fold (\<lambda>i out. out[i * ch + c := g i]) [0..<Suc n] out)"
    then have j: "j < length out" using Suc by simp
    have "j < Suc n * ch \<and> \<not> j < n * ch \<and> j mod ch = c \<longleftrightarrow> j = n * ch + c"
    proof
      assume a: "j < Suc n * ch \<and> \<not> j < n * ch \<and> j mod ch = c"
      then have "j div ch = n" using assms(1) by (simp add: div_nat_eqI mult.commute)
      then show "j = n * ch + c" using a by (metis div_mult_mod_eq)
    qed (use assms(1) in simp)
    then show "fold (\<lambda>i out. out[i * ch + c := g i]) [0..<Suc n] out ! j =
      map (\<lambda>j. if j < Suc n * ch \<and> j mod ch = c then g (j div ch) else out ! j) [0..<length out] ! j"
      using Suc j less assms(1) by (auto simp: nth_list_update)
  qed
qed (simp add: map_nth)

lemma update_columns:
  assumes "m \<le> ch" "n * ch \<le> length out"
  shows "fold (\<lambda>c out. fold (\<lambda>i out. out[i * ch + c := g c i]) [0..<n] out) [0..<m] out =
    map (\<lambda>j. if j < n * ch \<and> j mod ch < m then g (j mod ch) (j div ch) else out ! j) [0..<length out]"
  using assms(1)
proof (induction m)
  case (Suc m)
  let ?o = "map (\<lambda>j. if j < n * ch \<and> j mod ch < m then g (j mod ch) (j div ch) else out ! j) [0..<length out]"
  have "fold (\<lambda>i out. out[i * ch + m := g m i]) [0..<n] ?o =
      map (\<lambda>j. if j < n * ch \<and> j mod ch = m then g m (j div ch) else ?o ! j) [0..<length ?o]"
    using Suc.prems assms(2) by (intro update_column) simp_all
  then show ?case using Suc by (auto simp: less_Suc_eq)
qed (simp add: map_nth)

lemma fold_update_behind:
  "fold (\<lambda>i out. out[length pre + g i := h i]) is (pre @ out) = pre @ fold (\<lambda>i out. out[g i := h i]) is out"
  by (induction "is" arbitrary: out) (simp_all add: list_update_append)

lemma fold_columns_behind:
  "fold (\<lambda>c out. fold (\<lambda>i out. out[length pre + (i * ch + c) := h c i]) [0..<n] out) cs (pre @ out) =
   pre @ fold (\<lambda>c out. fold (\<lambda>i out. out[i * ch + c := h c i]) [0..<n] out) cs out"
  by (induction cs arbitrary: out) (simp_all add: fold_update_behind [where g = "\<lambda>i. i * ch + c" for c])

lemma map_prefix:
  assumes "m \<le> length ys" "\<And>j. j < m \<Longrightarrow> P j"
  shows "map (\<lambda>j. if j < m \<and> P j then g j else ys ! j) [0..<length ys] = map g [0..<m] @ drop m ys"
  by (rule nth_equalityI) (use assms in \<open>auto simp: nth_append\<close>)

lemma append_planes_eq:
  assumes "used + n * ch \<le> length out" "0 < ch"
  shows "append_planes used ch n sample out =
    take used out @ map (\<lambda>j. sample (j mod ch) (j div ch)) [0..<n * ch] @ drop (used + n * ch) out"
proof -
  let ?pre = "take used out" and ?rest = "drop used out"
  have l: "length ?pre = used" "n * ch \<le> length ?rest" using assms by simp_all
  have "append_planes used ch n sample (?pre @ ?rest) =
      ?pre @ map (\<lambda>j. if j < n * ch \<and> j mod ch < ch then sample (j mod ch) (j div ch) else ?rest ! j) [0..<length ?rest]"
    unfolding append_planes_def
    using fold_columns_behind [of ?pre ch sample n "[0..<ch]" ?rest, unfolded l(1)] update_columns [OF order_refl l(2)]
    by metis
  also have "\<dots> = ?pre @ map (\<lambda>j. sample (j mod ch) (j div ch)) [0..<n * ch] @ drop (n * ch) ?rest"
    using map_prefix [OF l(2), of "\<lambda>j. j mod ch < ch"] assms(2) by simp
  finally show ?thesis by (simp add: add.commute)
qed

definition convertible :: "AVFrame \<Rightarrow> bool" where
  "convertible f \<longleftrightarrow> (\<forall>n. f_format f \<noteq> AV_SAMPLE_FMT_other n)"

lemma append_frame_eq:
  assumes "used + frame_len f \<le> length out" "0 < f_channels f"
  shows "append_frame f used out =
    (if convertible f then Some (take used out @ frame_samples f @ drop (used + frame_len f) out) else None)"
  using assms append_planes_eq [of used "nat (f_nb_samples f)" "nat (f_channels f)" out] append_row_eq [of used "frame_len f" out]
  by (cases "f_format f")
    (simp_all add: append_frame_def frame_len_def frame_samples_def frame_sample_def convertible_def Let_def cong: map_cong)

section \<open>A packet\<close>

lemma ff_grow_Some:
  assumes "ff_grow need room a = Some a'"
  shows "need \<le> length (ff_data a') \<and> take (length (ff_data a)) (ff_data a') = ff_data a \<and> length (ff_data a) \<le> length (ff_data a')"
  using assms by (auto simp: ff_grow_def split: if_splits)

lemma length_frame_samples: "length (frame_samples f) = frame_len f"
  by (simp add: frame_samples_def)

lemma ff_advance_sel [simp]: "ff_data (ff_advance rescale f a) = ff_data a" "ff_out (ff_advance rescale f a) = ff_out a"
  by (simp_all add: ff_advance_def)

text \<open>The answers that end a packet: nothing more for it, or a frame of another kind than those before.\<close>

fun ends_packet :: "int \<Rightarrow> int \<Rightarrow> int \<Rightarrow> av_received \<Rightarrow> bool" where
  "ends_packet frames rate channels Av_again \<longleftrightarrow> True"
| "ends_packet frames rate channels (Av_error e) \<longleftrightarrow> False"
| "ends_packet frames rate channels (Av_frame f) \<longleftrightarrow>
     f_channels f \<le> 0 \<or> frames > 0 \<and> (f_channels f \<noteq> channels \<or> f_sample_rate f \<noteq> rate)"

definition frames_total :: "AVFrame list \<Rightarrow> int" where
  "frames_total fs = sum_list (map f_nb_samples fs)"

definition samples_total :: "AVFrame list \<Rightarrow> u16 list" where
  "samples_total fs = concat (map frame_samples fs)"

lemma ff_receive_ok:
  assumes "ff_receive rescale old rs used frames rate channels a = Some (r, a')"
    and "r_error r = No_error" and "used \<le> length (ff_data a)" and "0 \<le> frames"
    and "\<forall>f room. (Av_frame f, room) \<in> set rs \<longrightarrow> 0 \<le> f_nb_samples f"
    and "int used = frames * channels \<or> frames = 0 \<and> used = 0" "frames > 0 \<longrightarrow> channels > 0"
  shows "\<exists>fs x rest. map fst rs = map Av_frame fs @ x # rest \<and> list_all convertible fs \<and>
    r_frames r = frames + frames_total fs \<and> ends_packet (r_frames r) (r_rate r) (r_channels r) x \<and>
    take (used + length (samples_total fs)) (ff_data a') = take used (ff_data a) @ samples_total fs \<and>
    r_samples r = ff_out a' \<and> used + length (samples_total fs) \<le> length (ff_data a') \<and>
    (int (used + length (samples_total fs)) = r_frames r * r_channels r \<or> r_frames r = 0 \<and> used + length (samples_total fs) = 0) \<and>
    (\<forall>f\<in>set fs. frames > 0 \<longrightarrow> f_channels f = channels \<and> f_sample_rate f = rate)"
  using assms
proof (induction rescale old rs used frames rate channels a rule: ff_receive.induct)
  case (2 rescale old room rs used frames rate channels a)
  then show ?case by (intro exI [of _ "[]"]) (auto simp: frames_total_def samples_total_def)
next
  case (4 rescale old f room rs used frames rate channels a)
  let ?ch = "f_channels f" and ?need = "used + nat (f_nb_samples f) * nat (f_channels f)"
  have nb: "0 \<le> f_nb_samples f" using "4.prems"(5) by auto
  show ?case
  proof (cases "?ch \<le> 0 \<or> (frames > 0 \<and> (?ch \<noteq> channels \<or> f_sample_rate f \<noteq> rate))")
    case True
    with "4.prems" show ?thesis
      by (intro exI [of _ "[]"] exI [of _ "Av_frame f"] exI [of _ "map fst rs"]) (auto simp: frames_total_def samples_total_def)
  next
    case False
    then obtain a1 out where a1: "ff_grow ?need room a = Some a1" "append_frame f used (ff_data a1) = Some out"
      using "4.prems"(1,2) by (auto simp: Let_def split: option.splits)
    let ?a = "ff_advance rescale f (a1\<lparr>ff_data := out\<rparr>)"
    have need: "?need = used + frame_len f" by (simp add: frame_len_def)
    note g = ff_grow_Some [OF a1(1)]
    have out: "out = take used (ff_data a1) @ frame_samples f @ drop ?need (ff_data a1)" "convertible f"
      using append_frame_eq [of used f "ff_data a1"] a1(2) g False by (auto simp: need split: if_splits)
    have l: "length out = length (ff_data a1)" "take used (ff_data a1) = take used (ff_data a)"
      using g "4.prems"(3) by (simp_all add: out need length_frame_samples) (metis min.absorb1 take_take)
    have u: "used \<le> length (ff_data a1)" using g "4.prems"(3) by simp
    have "?need \<le> length out" using g l by simp
    moreover have "int ?need = (frames + f_nb_samples f) * ?ch \<or> frames + f_nb_samples f = 0 \<and> ?need = 0"
      using "4.prems"(4,6) False nb by (cases "frames = 0") (auto simp: algebra_simps)
    ultimately obtain fs x rest where fs: "map fst rs = map Av_frame fs @ x # rest" "list_all convertible fs"
      "r_frames r = frames + f_nb_samples f + frames_total fs" "ends_packet (r_frames r) (r_rate r) (r_channels r) x"
      "take (?need + length (samples_total fs)) (ff_data a') = take ?need out @ samples_total fs"
      "r_samples r = ff_out a'" "?need + length (samples_total fs) \<le> length (ff_data a')"
      "int (?need + length (samples_total fs)) = r_frames r * r_channels r \<or> r_frames r = 0 \<and> ?need + length (samples_total fs) = 0"
      "\<forall>g\<in>set fs. frames + f_nb_samples f > 0 \<longrightarrow> f_channels g = ?ch \<and> f_sample_rate g = f_sample_rate f"
      using "4.IH" [OF refl False refl a1] "4.prems" a1 False nb by (auto simp: Let_def)
    have "take ?need out = take used (ff_data a) @ frame_samples f"
      using u g by (simp add: out l(2) [symmetric] need length_frame_samples)
    with fs out(2) False nb show ?thesis
      by (intro exI [of _ "f # fs"] exI [of _ x] exI [of _ rest])
        (auto simp: frames_total_def samples_total_def length_frame_samples frame_len_def add.assoc)
  qed
qed auto

lemma ff_receive_returns:
  "\<exists>x\<in>set rs. \<forall>f. fst x \<noteq> Av_frame f \<Longrightarrow> \<exists>r. ff_receive rescale old rs used frames rate channels a = Some r"
proof (induction rescale old rs used frames rate channels a rule: ff_receive.induct)
  case (4 rescale old f room rs used frames rate channels a)
  then have "\<exists>x\<in>set rs. \<forall>f. fst x \<noteq> Av_frame f" by auto
  with "4.IH" show ?case by (auto simp: Let_def split: option.splits)
qed auto

lemma ff_receive_in: "ff_receive rescale old rs used frames rate channels a = Some (r, a') \<Longrightarrow> ff_in a' = ff_in a"
proof (induction rescale old rs used frames rate channels a rule: ff_receive.induct)
  case (4 rescale old f room rs used frames rate channels a)
  let ?need = "used + nat (f_nb_samples f) * nat (f_channels f)"
  show ?case
  proof (cases "f_channels f \<le> 0 \<or> (frames > 0 \<and> (f_channels f \<noteq> channels \<or> f_sample_rate f \<noteq> rate))")
    case False
    show ?thesis
    proof (cases "ff_grow ?need room a")
      case (Some b)
      then have b: "ff_in b = ff_in a" by (auto simp: ff_grow_def split: if_splits)
      show ?thesis
      proof (cases "append_frame f used (ff_data b)")
        case app: (Some out)
        have "ff_in a' = ff_in (ff_advance rescale f (b\<lparr>ff_data := out\<rparr>))"
          using "4.IH" [OF refl False refl Some app] "4.prems" False Some app by (auto simp: Let_def split: if_splits)
        then show ?thesis by (simp add: ff_advance_def b)
      qed (use "4.prems" False Some b in \<open>auto simp: Let_def\<close>)
    qed (use "4.prems" False in \<open>auto simp: Let_def\<close>)
  qed (use "4.prems" in \<open>auto simp: Let_def\<close>)
qed auto

lemma ff_pad_spec:
  assumes "ff_pad pad room data buf = Some b"
  shows "take (length data + pad) b = data @ replicate pad 0"
  using assms by (auto simp: ff_pad_def Let_def split: if_splits)

text \<open>
  C17. A packet decodes to the sound of its frames.  The call returns once libavcodec has no more
  frames for the packet; when it reports no error, the samples at the address it hands out are
  those of every frame up to the end of the packet, or up to the first of another rate or number
  of channels, in order, interleaved, each converted from its format, and as many as the frames
  and channels it reports: nothing is lost, written outside the buffer or counted twice.  The
  library read the packet with zeroes for as long as it may read past its end.
\<close>

theorem linux_audio_decode:
  assumes "\<exists>x\<in>set rs. \<forall>f. fst x \<noteq> Av_frame f" and "\<forall>f room. (Av_frame f, room) \<in> set rs \<longrightarrow> 0 \<le> f_nb_samples f"
    and "data \<noteq> []" "length data \<le> 2 ^ 31 - 1 - pad"
  shows "\<exists>r a'. vento_ffaudio_decode pad rescale room send rs data rate channels a = Some (r, a') \<and>
    (r_error r = No_error \<longrightarrow>
      take (length data + pad) (ff_in a') = data @ replicate pad 0 \<and>
      (\<exists>fs x rest. map fst rs = map Av_frame fs @ x # rest \<and> ends_packet (r_frames r) (r_rate r) (r_channels r) x \<and>
        list_all convertible fs \<and> r_frames r = frames_total fs \<and> r_samples r = ff_out a' \<and>
        take (length (samples_total fs)) (ff_data a') = samples_total fs \<and>
        (r_frames r > 0 \<longrightarrow> int (length (samples_total fs)) = r_frames r * r_channels r)))"
proof (cases "ff_pad pad room data (ff_in a)")
  case (Some buf)
  let ?a = "a\<lparr>ff_in := buf\<rparr>"
  show ?thesis
  proof (cases "send data (ff_next_pts a) < 0")
    case False
    obtain r a' where r: "ff_receive rescale (ff_out ?a) rs 0 0 rate channels ?a = Some (r, a')"
      using ff_receive_returns [OF assms(1)] by (metis surj_pair)
    have "take (length data + pad) (ff_in a') = data @ replicate pad 0"
      using ff_pad_spec [OF Some] ff_receive_in [OF r] by simp
    moreover have "\<exists>fs x rest. map fst rs = map Av_frame fs @ x # rest \<and> ends_packet (r_frames r) (r_rate r) (r_channels r) x \<and>
        list_all convertible fs \<and> r_frames r = frames_total fs \<and> r_samples r = ff_out a' \<and>
        take (length (samples_total fs)) (ff_data a') = samples_total fs \<and>
        (r_frames r > 0 \<longrightarrow> int (length (samples_total fs)) = r_frames r * r_channels r)" if "r_error r = No_error"
      using ff_receive_ok [OF r that _ _ assms(2)] by fastforce
    moreover have "vento_ffaudio_decode pad rescale room send rs data rate channels a = Some (r, a')"
      using False Some assms(3,4) r by (simp add: vento_ffaudio_decode_def)
    ultimately show ?thesis by blast
  qed (use Some assms(3,4) in \<open>simp add: vento_ffaudio_decode_def\<close>)
qed (use assms(3,4) in \<open>simp add: vento_ffaudio_decode_def\<close>)

definition example_frame :: AVFrame where
  "example_frame = \<lparr>f_channels = 2, f_nb_samples = 2, f_sample_rate = 48000, f_format = AV_SAMPLE_FMT_S16P,
     f_float = \<lambda>_ _. Nan, f_s16 = \<lambda>c i. of_nat (10 * c + i)\<rparr>"

definition example_ffaudio :: vento_ffaudio where
  "example_ffaudio = \<lparr>ff_in = [], ff_out = None, ff_data = [], ff_next_pts = 0, ff_timebase = 48000\<rparr>"

theorem linux_audio_decode_witness:
  "\<exists>r a'. vento_ffaudio_decode 64 (\<lambda>n b c. n * b div c) True (\<lambda>_ _. 0) [(Av_frame example_frame, Some 7), (Av_again, None)] [1, 2, 3] 0 0
      example_ffaudio = Some (r, a') \<and>
    r_frames r = 2 \<and> r_channels r = 2 \<and> r_samples r = Some 7 \<and> take 4 (ff_data a') = [0, 10, 1, 11]"
proof -
  let ?rs = "[(Av_frame example_frame, Some 7), (Av_again, None)]"
  have s: "samples_total [example_frame] = [0, 10, 1, 11]"
    by (simp add: samples_total_def frame_samples_def frame_len_def frame_sample_def example_frame_def upt_rec)
  obtain r a' where d: "vento_ffaudio_decode 64 (\<lambda>n b c. n * b div c) True (\<lambda>_ _. 0) ?rs [1, 2, 3] 0 0 example_ffaudio = Some (r, a')"
    and ok: "r_error r = No_error \<longrightarrow> (\<exists>fs x rest. map fst ?rs = map Av_frame fs @ x # rest \<and>
        ends_packet (r_frames r) (r_rate r) (r_channels r) x \<and> r_samples r = ff_out a' \<and>
        take (length (samples_total fs)) (ff_data a') = samples_total fs)"
    using linux_audio_decode [of ?rs "[1, 2, 3]" 64 "\<lambda>n b c. n * b div c" True "\<lambda>_ _. 0" 0 0 example_ffaudio]
    by (fastforce simp: example_frame_def)
  have r: "r_error r = No_error" "r_frames r = 2" "r_channels r = 2" "r_rate r = 48000" "ff_out a' = Some 7"
    using d by (auto simp: vento_ffaudio_decode_def ff_pad_def ff_grow_def ff_advance_def append_frame_def example_frame_def example_ffaudio_def Let_def)
  with ok obtain fs x rest where "map fst ?rs = map Av_frame fs @ x # rest" "ends_packet 2 48000 2 x" "r_samples r = Some 7"
    "take (length (samples_total fs)) (ff_data a') = samples_total fs" by auto
  then have "fs = [example_frame]" by (cases fs; cases "tl fs") (auto simp: example_frame_def)
  with s r d \<open>take (length (samples_total fs)) (ff_data a') = samples_total fs\<close> \<open>r_samples r = Some 7\<close> show ?thesis
    by (auto simp: numeral_eq_Suc)
qed

text \<open>
  When libavcodec fails after it has given frames for the packet, the call reports those frames,
  but the address it hands out is that of the buffer before it grew: nothing for a first packet,
  memory already given back for a later one.
\<close>

theorem linux_audio_stale_samples:
  "\<exists>r a'. vento_ffaudio_decode 64 (\<lambda>n b c. n * b div c) True (\<lambda>_ _. 0) [(Av_frame example_frame, Some 7), (Av_error (-5), None)] [1, 2, 3] 0 0
      example_ffaudio = Some (r, a') \<and>
    r_frames r = 2 \<and> r_samples r = None \<and> ff_out a' = Some 7"
  by (simp add: vento_ffaudio_decode_def ff_pad_def ff_grow_def ff_advance_def append_frame_def example_frame_def example_ffaudio_def Let_def)

end
