(* ===== verification/Linux_Video.thy ===== *)
theory Linux_Video
  imports Prelude
begin

text \<open>
  The video decoder of the Linux client, from \<open>src/backends/platform/linux/cpp/vento_video.c\<close>:
  packets through libavcodec, on the VAAPI device where that works and in software where it does
  not, to a description of the picture's planes or a held surface.

  libavcodec, libva and the clock are parameters: the record \<open>libav\<close> holds what the library says of
  formats and errors, \<open>open_answers\<close> and \<open>packet_answers\<close> what it answers while a decoder is opened
  and a packet decoded.  Durations are answers too; the times reported to the caller
  (\<open>decode_us\<close>, \<open>map_us\<close>) and the reads made only to measure them are not modelled, apart from the
  measurements the decoder keeps.
\<close>

section \<open>The library\<close>

datatype video_codec =
    VENTO_VIDEO_H264 | VENTO_VIDEO_H265 | VENTO_VIDEO_VP8 | VENTO_VIDEO_VP9 | VENTO_VIDEO_AV1
  | Video_codec_other int

datatype video_method =
    VENTO_VIDEO_HW_OFF | VENTO_VIDEO_HW_VAAPI | VENTO_VIDEO_HW_AUTO | Video_method_other int

datatype pix_fmt =
    AV_PIX_FMT_NONE | AV_PIX_FMT_VAAPI | AV_PIX_FMT_NV12 | AV_PIX_FMT_P010LE | AV_PIX_FMT_XV30LE
  | AV_PIX_FMT_YUVJ420P | AV_PIX_FMT_YUVJ422P | AV_PIX_FMT_YUVJ444P | Pix_fmt_other int

datatype pix_flag =
    AV_PIX_FMT_FLAG_BE | AV_PIX_FMT_FLAG_PAL | AV_PIX_FMT_FLAG_BITSTREAM | AV_PIX_FMT_FLAG_HWACCEL
  | AV_PIX_FMT_FLAG_PLANAR | AV_PIX_FMT_FLAG_RGB | AV_PIX_FMT_FLAG_BAYER | AV_PIX_FMT_FLAG_FLOAT
  | AV_PIX_FMT_FLAG_XYZ | Pix_flag_other nat

datatype color_space = AVCOL_SPC_BT470BG | AVCOL_SPC_SMPTE170M | AVCOL_SPC_UNSPECIFIED | Color_space_other int

datatype color_range = AVCOL_RANGE_JPEG | Color_range_other int

record av_comp =
  cmp_plane :: int
  cmp_step :: int
  cmp_offset :: int
  cmp_shift :: int
  cmp_depth :: int

record pix_desc =
  pd_flags :: "pix_flag list"
  pd_nb_components :: int
  pd_log2_chroma_w :: nat
  pd_log2_chroma_h :: nat
  pd_comp :: "nat \<Rightarrow> av_comp"

text \<open>
  A frame: \<open>vf_data i\<close> is whether the pointer to plane \<open>i\<close> is non-NULL; \<open>vf_frames\<close> the set of
  surfaces a picture on the device is from, with their software format.
\<close>

record vframe =
  vf_format :: pix_fmt
  vf_width :: int
  vf_height :: int
  vf_data :: "nat \<Rightarrow> bool"
  vf_linesize :: "nat \<Rightarrow> int"
  vf_colorspace :: color_space
  vf_range :: color_range
  vf_frames :: "(nat \<times> pix_fmt) option"
  vf_surface :: u32

record libav =
  la_decoder :: "video_codec \<Rightarrow> bool \<Rightarrow> bool"  \<comment> \<open>found by id, or AV1's by name for a device or in software\<close>
  la_desc :: "pix_fmt \<Rightarrow> pix_desc option"
  la_pix_name :: "pix_fmt \<Rightarrow> string option"
  la_strerror :: "int \<Rightarrow> string"
  la_EAGAIN :: int
  la_EOF :: int
  la_INVALIDDATA :: int
  la_EINVAL :: int
  la_EIO :: int
  la_ENOMEM :: int
  la_ENOSYS :: int
  la_EXTERNAL :: int
  la_NOT_FOUND :: int

section \<open>Names\<close>

definition video_find :: "libav \<Rightarrow> video_codec \<Rightarrow> bool \<Rightarrow> bool" where
  "video_find lib codec hardware \<longleftrightarrow> (case codec of Video_codec_other _ \<Rightarrow> False | _ \<Rightarrow> la_decoder lib codec hardware)"

definition vento_video_decodable :: "libav \<Rightarrow> video_codec \<Rightarrow> bool" where
  "vento_video_decodable lib codec = video_find lib codec False"

fun codec_name :: "video_codec \<Rightarrow> string" where
  "codec_name VENTO_VIDEO_H264 = ''H.264''"
| "codec_name VENTO_VIDEO_H265 = ''H.265''"
| "codec_name VENTO_VIDEO_VP8 = ''VP8''"
| "codec_name VENTO_VIDEO_VP9 = ''VP9''"
| "codec_name VENTO_VIDEO_AV1 = ''AV1''"
| "codec_name (Video_codec_other _) = ''this codec''"

fun vento_video_method_name :: "video_method \<Rightarrow> string" where
  "vento_video_method_name VENTO_VIDEO_HW_OFF = ''off''"
| "vento_video_method_name VENTO_VIDEO_HW_VAAPI = ''vaapi''"
| "vento_video_method_name VENTO_VIDEO_HW_AUTO = ''auto''"
| "vento_video_method_name (Video_method_other _) = ''unknown''"

section \<open>A decoder\<close>

datatype map_verdict = MAP_UNKNOWN | MAP_IMAGE | MAP_DIRECT

definition MAP_TRIALS :: nat where "MAP_TRIALS = 8"

definition MAP_TRIALS_FROM :: nat where "MAP_TRIALS_FROM = 2"

text \<open>
  \<open>vv_context\<close> is whether there is a context; \<open>vv_hw\<close> whether \<open>hw_format\<close> is VAAPI's rather than
  none; \<open>vv_image_us\<close> and \<open>vv_direct_us\<close> are the two rows of \<open>trial_us\<close>, and \<open>vv_held_trial\<close> is \<open>None\<close>
  for -1; \<open>vv_dead\<close> is 0 while the decoder decodes.
\<close>

record vento_video =
  vv_codec :: video_codec
  vv_context :: bool
  vv_pts :: int
  vv_method :: video_method
  vv_hw :: bool
  vv_untried :: bool
  vv_copy :: bool
  vv_hw_pictures :: nat
  vv_map_verdict :: map_verdict
  vv_trials :: nat
  vv_image_us :: "u64 list"
  vv_direct_us :: "u64 list"
  vv_held_trial :: "nat option"
  vv_fail_next :: bool
  vv_fail_software :: bool
  vv_dead :: int
  vv_reason :: string
  vv_pool_ref :: "nat option"
  vv_pool :: nat

definition video_say :: "string \<Rightarrow> vento_video \<Rightarrow> vento_video" where
  "video_say text v = v\<lparr>vv_reason := snprintf_s 256 text\<rparr>"

subsection \<open>The shared device\<close>

text \<open>\<open>dev_state\<close> is 0 before the first use, 1 open, -1 failed.\<close>

record va_device =
  dev_state :: int
  dev_why :: string

text \<open>
  The answers while a decoder opens: the device, which library is missing if one is, a reference
  to the device; and for a context on the device or not, whether it is allocated and what opening
  it says.
\<close>

record open_answers =
  oa_device :: int
  oa_missing :: "string option"
  oa_ref :: bool
  oa_alloc :: "bool \<Rightarrow> bool"
  oa_open :: "bool \<Rightarrow> int"

definition vento_video_device_state :: "video_method \<Rightarrow> va_device \<Rightarrow> int" where
  "vento_video_device_state method g =
     (if method \<noteq> VENTO_VIDEO_HW_VAAPI \<and> method \<noteq> VENTO_VIDEO_HW_AUTO then 0 else dev_state g)"

definition device_try :: "libav \<Rightarrow> open_answers \<Rightarrow> va_device \<Rightarrow> va_device" where
  "device_try lib oa g =
     (if dev_state g \<noteq> 0 then g
      else if oa_device oa \<ge> 0 then g\<lparr>dev_state := 1\<rparr>
      else g\<lparr>dev_state := -1,
             dev_why := snprintf_s 128
               (case oa_missing oa of
                  Some missing \<Rightarrow> ''no libva ('' @ missing @ '')''
                | None \<Rightarrow> if oa_device oa = la_EXTERNAL lib then ''no device''
                          else ''no device ('' @ snprintf_s 64 (la_strerror lib (oa_device oa)) @ '')'')\<rparr>)"

text \<open>A reference, or \<open>Inl\<close> why there is none.\<close>

definition video_device :: "libav \<Rightarrow> open_answers \<Rightarrow> va_device \<Rightarrow> (string + unit) \<times> va_device" where
  "video_device lib oa g =
     (let g = device_try lib oa g
      in (if dev_state g = 1 \<and> oa_ref oa then Inr ()
          else Inl (snprintf_s 256 (''vaapi: '' @ (if dev_state g = 1 then ''out of memory'' else dev_why g))), g))"

subsection \<open>Opening\<close>

definition open_context :: "libav \<Rightarrow> open_answers \<Rightarrow> video_method \<Rightarrow> bool \<Rightarrow> vento_video \<Rightarrow> int \<times> vento_video" where
  "open_context lib oa method device v =
     (if \<not> video_find lib (vv_codec v) device then (la_NOT_FOUND lib, v)
      else if \<not> oa_alloc oa device then (la_ENOMEM lib, v)
      else if oa_open oa device < 0 then (oa_open oa device, v)
      else (0, v\<lparr>vv_context := True, vv_method := (if device then method else VENTO_VIDEO_HW_OFF), vv_hw := device,
                 vv_copy := False\<rparr>))"

text \<open>The device's try: \<open>True\<close> when a decoder is open on it.\<close>

definition open_on_device :: "libav \<Rightarrow> open_answers \<Rightarrow> va_device \<Rightarrow> vento_video \<Rightarrow> bool \<times> va_device \<times> vento_video" where
  "open_on_device lib oa g v =
     (let v = v\<lparr>vv_untried := False\<rparr>; (ref, g) = video_device lib oa g
      in case ref of
           Inl why \<Rightarrow> (False, g, video_say why v)
         | Inr _ \<Rightarrow>
             let (opened, v) = open_context lib oa VENTO_VIDEO_HW_VAAPI True v
             in if opened \<ge> 0 then (True, g, v)
                else (False, g, video_say (snprintf_s 256 (''vaapi: the decoder did not open ('' @
                        snprintf_s 64 (la_strerror lib opened) @ '')'')) v))"

definition open_decoder :: "libav \<Rightarrow> open_answers \<Rightarrow> va_device \<Rightarrow> vento_video \<Rightarrow> int \<times> va_device \<times> vento_video" where
  "open_decoder lib oa g v =
     (let (done', g, v) = (if vv_untried v then open_on_device lib oa g v else (False, g, v))
      in if done' then (0, g, v)
         else if vv_fail_software v then (la_ENOMEM lib, g, v\<lparr>vv_fail_software := False\<rparr>)
         else let (opened, v) = open_context lib oa VENTO_VIDEO_HW_OFF False v in (opened, g, v))"

definition video_zero :: "video_codec \<Rightarrow> vento_video" where
  "video_zero codec =
     \<lparr>vv_codec = codec, vv_context = False, vv_pts = 0, vv_method = VENTO_VIDEO_HW_OFF, vv_hw = False,
      vv_untried = False, vv_copy = False, vv_hw_pictures = 0, vv_map_verdict = MAP_UNKNOWN, vv_trials = 0,
      vv_image_us = replicate MAP_TRIALS 0, vv_direct_us = replicate MAP_TRIALS 0, vv_held_trial = None,
      vv_fail_next = False, vv_fail_software = False, vv_dead = 0, vv_reason = [], vv_pool_ref = None, vv_pool = 0\<rparr>"

text \<open>\<open>memory\<close>: the decoder and the library's packet and frames are allocated; \<open>Inl\<close> is the error text.\<close>

definition vento_video_open ::
  "libav \<Rightarrow> open_answers \<Rightarrow> bool \<times> bool \<Rightarrow> video_codec \<Rightarrow> video_method \<Rightarrow> va_device \<Rightarrow> (string + vento_video) \<times> va_device"
where
  "vento_video_open lib oa memory codec hardware g =
     (let (decoder_ok, objects_ok) = memory
      in if \<not> video_find lib codec False then (Inl ''no decoder for it in this libavcodec'', g)
         else if \<not> decoder_ok \<or> \<not> objects_ok then (Inl ''out of memory'', g)
         else let v = (video_zero codec)\<lparr>vv_untried := (hardware = VENTO_VIDEO_HW_VAAPI \<or> hardware = VENTO_VIDEO_HW_AUTO)\<rparr>;
                  (opened, g, v) = open_decoder lib oa g v
              in (if opened < 0 then Inl (la_strerror lib opened) else Inr v, g))"

definition vento_video_maps_in_place :: "vento_video \<Rightarrow> int" where
  "vento_video_maps_in_place v =
     (if vv_map_verdict v = MAP_UNKNOWN then -1 else if vv_map_verdict v = MAP_DIRECT then 1 else 0)"

definition vento_video_fail_next :: "bool \<Rightarrow> vento_video \<Rightarrow> vento_video" where
  "vento_video_fail_next software_too v = v\<lparr>vv_fail_next := True, vv_fail_software := software_too\<rparr>"

section \<open>Pictures\<close>

text \<open>
  \<open>pic_data\<close> names the plane of the frame each pointer is to, \<open>None\<close> for NULL; \<open>pic_held\<close> is whether a
  held frame is handed out.
\<close>

record vento_video_picture =
  pic_data :: "nat option list"
  pic_stride :: "int list"
  pic_width :: int
  pic_height :: int
  pic_chroma_shift_x :: nat
  pic_chroma_shift_y :: nat
  pic_interleaved :: bool
  pic_v_first :: bool
  pic_depth :: int
  pic_bt709 :: bool
  pic_full_range :: bool
  pic_error :: int
  pic_shift :: int
  pic_packed :: bool
  pic_hardware :: int
  pic_fell_back :: int
  pic_held :: bool
  pic_pool :: nat
  pic_surface :: u32

definition picture_zero :: vento_video_picture where
  "picture_zero =
     \<lparr>pic_data = [None, None, None], pic_stride = [0, 0, 0], pic_width = 0, pic_height = 0, pic_chroma_shift_x = 0,
      pic_chroma_shift_y = 0, pic_interleaved = False, pic_v_first = False, pic_depth = 0, pic_bt709 = False,
      pic_full_range = False, pic_error = 0, pic_shift = 0, pic_packed = False, pic_hardware = 0, pic_fell_back = 0,
      pic_held = False, pic_pool = 0, pic_surface = 0\<rparr>"

definition is_bt709 :: "vframe \<Rightarrow> bool" where
  "is_bt709 f \<longleftrightarrow> \<not> (vf_colorspace f = AVCOL_SPC_BT470BG \<or> vf_colorspace f = AVCOL_SPC_SMPTE170M \<or>
     vf_colorspace f = AVCOL_SPC_UNSPECIFIED)"

definition is_full_range :: "vframe \<Rightarrow> bool" where
  "is_full_range f \<longleftrightarrow> vf_range f = AVCOL_RANGE_JPEG \<or> vf_format f = AV_PIX_FMT_YUVJ420P \<or>
     vf_format f = AV_PIX_FMT_YUVJ422P \<or> vf_format f = AV_PIX_FMT_YUVJ444P"

definition video_colour :: "vframe \<Rightarrow> vento_video_picture \<Rightarrow> vento_video_picture" where
  "video_colour f out = out\<lparr>pic_bt709 := is_bt709 f, pic_full_range := is_full_range f\<rparr>"

definition unwanted_flags :: "pix_flag list" where
  "unwanted_flags =
     [AV_PIX_FMT_FLAG_BE, AV_PIX_FMT_FLAG_PAL, AV_PIX_FMT_FLAG_BITSTREAM, AV_PIX_FMT_FLAG_HWACCEL,
      AV_PIX_FMT_FLAG_RGB, AV_PIX_FMT_FLAG_BAYER, AV_PIX_FMT_FLAG_FLOAT, AV_PIX_FMT_FLAG_XYZ]"

definition desc_refused :: "pix_desc \<Rightarrow> bool" where
  "desc_refused p \<longleftrightarrow> list_ex (\<lambda>x. x \<in> set unwanted_flags) (pd_flags p) \<or> AV_PIX_FMT_FLAG_PLANAR \<notin> set (pd_flags p) \<or>
     pd_nb_components p < 3 \<or> pd_log2_chroma_w p > 1 \<or> pd_log2_chroma_h p > 1"

definition sample_bytes :: "pix_desc \<Rightarrow> int" where
  "sample_bytes p = (if cmp_depth (pd_comp p 0) > 8 then 2 else 1)"

definition samples_refused :: "pix_desc \<Rightarrow> bool" where
  "samples_refused p \<longleftrightarrow>
     (let c = pd_comp p; depth = cmp_depth (c 0); shift = cmp_shift (c 0); bytes = sample_bytes p
      in list_ex (\<lambda>i. cmp_depth (c i) \<noteq> depth \<or> cmp_shift (c i) \<noteq> shift) [0..<3] \<or>
         depth < 8 \<or> depth + shift > 8 * bytes \<or> cmp_plane (c 0) \<noteq> 0 \<or> cmp_step (c 0) \<noteq> bytes \<or> cmp_offset (c 0) \<noteq> 0)"

definition chroma_separate :: "pix_desc \<Rightarrow> bool" where
  "chroma_separate p \<longleftrightarrow>
     (let c = pd_comp p; bytes = sample_bytes p
      in cmp_plane (c 1) = 1 \<and> cmp_plane (c 2) = 2 \<and> cmp_step (c 1) = bytes \<and> cmp_step (c 2) = bytes \<and>
         cmp_offset (c 1) = 0 \<and> cmp_offset (c 2) = 0)"

definition chroma_paired :: "pix_desc \<Rightarrow> bool" where
  "chroma_paired p \<longleftrightarrow>
     (let c = pd_comp p; bytes = sample_bytes p
      in cmp_plane (c 1) = 1 \<and> cmp_plane (c 2) = 1 \<and> cmp_step (c 1) = 2 * bytes \<and> cmp_step (c 2) = 2 * bytes \<and>
         (cmp_offset (c 1) = 0 \<and> cmp_offset (c 2) = bytes \<or> cmp_offset (c 1) = bytes \<and> cmp_offset (c 2) = 0))"

text \<open>\<open>AV_CEIL_RSHIFT\<close>.\<close>

definition ceil_rshift :: "int \<Rightarrow> nat \<Rightarrow> int" where
  "ceil_rshift a b = - ((- a) div 2 ^ b)"

definition row_bytes :: "vframe \<Rightarrow> pix_desc \<Rightarrow> bool \<Rightarrow> nat \<Rightarrow> int" where
  "row_bytes f p paired i =
     (let cw = ceil_rshift (vf_width f) (pd_log2_chroma_w p); bytes = sample_bytes p
      in if i = 0 then vf_width f * bytes else if paired then cw * 2 * bytes else cw * bytes)"

definition describe_planes :: "vframe \<Rightarrow> pix_desc \<Rightarrow> vento_video_picture \<Rightarrow> vento_video_picture option" where
  "describe_planes f p out =
     (if desc_refused p \<or> samples_refused p then None
      else let paired = chroma_paired p
      in if \<not> chroma_separate p \<and> \<not> paired then None
         else if list_ex (\<lambda>i. \<not> vf_data f i \<or> vf_linesize f i < row_bytes f p paired i) [0..<if paired then 2 else 3] then None
         else let v = (if paired then 1 else 2)
         in Some (out\<lparr>pic_data := [Some 0, Some 1, Some v],
                      pic_stride := [vf_linesize f 0, vf_linesize f 1, vf_linesize f v],
                      pic_chroma_shift_x := pd_log2_chroma_w p, pic_chroma_shift_y := pd_log2_chroma_h p,
                      pic_interleaved := paired, pic_v_first := (paired \<and> cmp_offset (pd_comp p 2) = 0),
                      pic_depth := cmp_depth (pd_comp p 0), pic_shift := cmp_shift (pd_comp p 0)\<rparr>))"

definition describe_xv30 :: "vframe \<Rightarrow> vento_video_picture \<Rightarrow> vento_video_picture option" where
  "describe_xv30 f out =
     (if \<not> vf_data f 0 \<or> vf_linesize f 0 < vf_width f * 4 then None
      else Some (out\<lparr>pic_data := [Some 0, Some 0, Some 0], pic_stride := replicate 3 (vf_linesize f 0),
                     pic_packed := True, pic_depth := 10\<rparr>))"

definition describe :: "libav \<Rightarrow> vframe \<Rightarrow> vento_video_picture \<Rightarrow> vento_video_picture option" where
  "describe lib f out =
     (case la_desc lib (vf_format f) of
        None \<Rightarrow> None
      | Some p \<Rightarrow>
          if vf_width f \<le> 0 \<or> vf_height f \<le> 0 then None
          else let out = (video_colour f out)\<lparr>pic_width := vf_width f, pic_height := vf_height f\<rparr>
          in if vf_format f = AV_PIX_FMT_XV30LE then describe_xv30 f out else describe_planes f p out)"

section \<open>Decoding\<close>

datatype video_status =
    VENTO_VIDEO_PICTURE | VENTO_VIDEO_NONE | VENTO_VIDEO_REFUSED | VENTO_VIDEO_UNSUPPORTED | HARDWARE_FAILED

text \<open>
  A call of \<open>get_format\<close> by libavcodec: the formats it offers, the name of the profile and of the
  software format.
\<close>

type_synonym format_call = "pix_fmt list \<times> string option \<times> string option"

record packet_answers =
  pa_format_calls :: "format_call list"
  pa_send :: int
  pa_receive :: "(int + vframe) list"
  pa_synced :: bool
  pa_pool_ref :: bool
  pa_held_mem :: bool
  pa_map_direct :: int
  pa_map_image :: int
  pa_transfer :: int
  pa_copy_props :: int
  pa_mapped :: vframe
  pa_trial_us :: u64

definition get_format :: "libav \<Rightarrow> format_call \<Rightarrow> vento_video \<Rightarrow> pix_fmt \<times> vento_video" where
  "get_format lib call v =
     (let (formats, profile, sw) = call
      in if vv_hw v \<and> AV_PIX_FMT_VAAPI \<in> set formats then (AV_PIX_FMT_VAAPI, v)
         else let name = vento_video_method_name (vv_method v) @ '': '' @ codec_name (vv_codec v);
                  v = video_say (case profile of
                                   Some p \<Rightarrow> name @ '' '' @ p @ '' is not supported''
                                 | None \<Rightarrow> name @ '' in '' @ (case sw of Some w \<Rightarrow> w | None \<Rightarrow> ''this format'') @ '' is not supported'') v
              in (case List.find (\<lambda>f. case la_desc lib f of None \<Rightarrow> False | Some p \<Rightarrow> AV_PIX_FMT_FLAG_HWACCEL \<notin> set (pd_flags p)) formats of
                    Some f \<Rightarrow> f | None \<Rightarrow> AV_PIX_FMT_NONE, v))"

definition hardware_failed :: "libav \<Rightarrow> string \<Rightarrow> int \<Rightarrow> vento_video \<Rightarrow> vento_video" where
  "hardware_failed lib what error v =
     (if vv_reason v \<noteq> [] then v
      else video_say (vento_video_method_name (vv_method v) @ '': '' @ what @ '' ('' @ snprintf_s 64 (la_strerror lib error) @ '')'') v)"

definition device_error :: "libav \<Rightarrow> int \<Rightarrow> vento_video \<Rightarrow> bool" where
  "device_error lib error v \<longleftrightarrow>
     vv_method v \<noteq> VENTO_VIDEO_HW_OFF \<and> error \<noteq> la_INVALIDDATA lib \<and> error \<noteq> la_EAGAIN lib \<and> error \<noteq> la_EOF lib"

text \<open>The loop over the frames: the last of them and the error it ended with; \<open>None\<close> while it runs.\<close>

fun receive_frames :: "(int + vframe) list \<Rightarrow> vframe option \<Rightarrow> (int \<times> vframe option) option" where
  "receive_frames [] frame = None"
| "receive_frames (Inl e # rs) frame = Some (e, frame)"
| "receive_frames (Inr f # rs) frame = receive_frames rs (Some f)"

definition holdable :: "vento_video \<Rightarrow> vframe \<Rightarrow> bool" where
  "holdable v f \<longleftrightarrow> vv_method v = VENTO_VIDEO_HW_VAAPI \<and>
     (case vf_frames f of None \<Rightarrow> False | Some (_, sw) \<Rightarrow> sw = AV_PIX_FMT_NV12 \<or> sw = AV_PIX_FMT_P010LE)"

text \<open>\<open>pools\<close> is the last number given to a set of surfaces in the process.\<close>

definition hold_picture ::
  "libav \<Rightarrow> packet_answers \<Rightarrow> vframe \<Rightarrow> nat \<Rightarrow> vento_video \<Rightarrow> vento_video_picture \<Rightarrow> int \<times> nat \<times> vento_video \<times> vento_video_picture"
where
  "hold_picture lib pa f pools v out =
     (case vf_frames f of
        None \<Rightarrow> (la_EIO lib, pools, v, out)
      | Some (frames, sw) \<Rightarrow>
          if \<not> pa_synced pa then (la_EIO lib, pools, v, out)
          else let same = (vv_pool_ref v = Some frames);
                   (ok, pools, v) =
                     (if same then (True, pools, v)
                      else if \<not> pa_pool_ref pa then (False, pools, v\<lparr>vv_pool_ref := None\<rparr>)
                      else (True, pools + 1, v\<lparr>vv_pool_ref := Some frames, vv_pool := pools + 1\<rparr>))
          in if \<not> ok \<or> \<not> pa_held_mem pa then (la_ENOMEM lib, pools, v, out)
             else (0, pools, v,
                   video_colour f (out\<lparr>pic_held := True, pic_pool := vv_pool v, pic_surface := vf_surface f,
                     pic_width := vf_width f, pic_height := vf_height f,
                     pic_depth := (if sw = AV_PIX_FMT_P010LE then 10 else 8)\<rparr>)))"

subsection \<open>A surface read\<close>

text \<open>Which way the next surface is mapped, and whether as a trial.\<close>

definition map_way :: "vento_video \<Rightarrow> bool \<times> nat option" where
  "map_way v =
     (if vv_map_verdict v \<noteq> MAP_UNKNOWN then (vv_map_verdict v = MAP_DIRECT, None)
      else if vv_hw_pictures v \<ge> MAP_TRIALS_FROM \<and> vv_trials v < 2 * MAP_TRIALS
      then (vv_trials v mod 2 = 1, Some (vv_trials v mod 2))
      else (False, None))"

definition map_surface :: "libav \<Rightarrow> packet_answers \<Rightarrow> vento_video \<Rightarrow> int \<times> nat option \<times> vento_video" where
  "map_surface lib pa v =
     (let (direct, trial) = map_way v;
          mapped = (if direct then pa_map_direct pa else pa_map_image pa);
          (mapped, trial, v) =
            (if direct \<and> mapped = la_EINVAL lib then (pa_map_image pa, None, v\<lparr>vv_map_verdict := MAP_IMAGE\<rparr>)
             else (mapped, trial, v))
      in (mapped, trial, if mapped = la_ENOSYS lib then v\<lparr>vv_copy := True\<rparr> else v))"

definition read_surface :: "libav \<Rightarrow> packet_answers \<Rightarrow> vento_video \<Rightarrow> int \<times> nat option \<times> vento_video" where
  "read_surface lib pa v =
     (if vv_fail_next v then (la_EIO lib, None, v\<lparr>vv_fail_next := False\<rparr>)
      else let (mapped, trial, v) = (if \<not> vv_copy v then map_surface lib pa v else (0, None, v))
      in if vv_copy v then (if pa_transfer pa \<ge> 0 then pa_copy_props pa else pa_transfer pa, trial, v)
         else (mapped, trial, v))"

definition put_trial :: "nat \<Rightarrow> nat \<Rightarrow> (u64 \<Rightarrow> u64) \<Rightarrow> vento_video \<Rightarrow> vento_video" where
  "put_trial way i f v =
     (if way = 0 then v\<lparr>vv_image_us := (vv_image_us v)[i := f (vv_image_us v ! i)]\<rparr>
      else v\<lparr>vv_direct_us := (vv_direct_us v)[i := f (vv_direct_us v ! i)]\<rparr>)"

definition note_trial :: "packet_answers \<Rightarrow> int \<Rightarrow> nat option \<Rightarrow> vento_video \<Rightarrow> vento_video" where
  "note_trial pa read trial v =
     (case trial of
        Some way \<Rightarrow>
          if read \<ge> 0
          then (put_trial way (vv_trials v div 2) (\<lambda>_. pa_trial_us pa) v)\<lparr>vv_trials := vv_trials v + 1, vv_held_trial := Some way\<rparr>
          else v
      | None \<Rightarrow> v)"

subsection \<open>A packet\<close>

type_synonym packet_result = "video_status \<times> vento_video_picture \<times> string \<times> nat \<times> vento_video"

text \<open>The picture of a frame in software or of a surface's planes, and its refusal.\<close>

definition finish_picture :: "libav \<Rightarrow> vframe \<Rightarrow> nat \<Rightarrow> vento_video \<Rightarrow> vento_video_picture \<Rightarrow> packet_result" where
  "finish_picture lib f pools v out =
     (case describe lib f out of
        Some out \<Rightarrow> (VENTO_VIDEO_PICTURE, out, [], pools, v)
      | None \<Rightarrow>
          let name = (case la_pix_name lib (vf_format f) of Some n \<Rightarrow> n | None \<Rightarrow> ''an unknown format'')
          in if pic_hardware out \<noteq> 0
             then (HARDWARE_FAILED, out, [], pools,
                   v\<lparr>vv_reason := snprintf_s 256 (vento_video_method_name (vv_method v) @ '': its pictures are '' @ name)\<rparr>)
             else (VENTO_VIDEO_UNSUPPORTED, out, name, pools, v))"

definition hold_frame ::
  "libav \<Rightarrow> packet_answers \<Rightarrow> vframe \<Rightarrow> nat \<Rightarrow> vento_video \<Rightarrow> vento_video_picture \<Rightarrow> packet_result"
where
  "hold_frame lib pa f pools v out =
     (let (held, pools, v, out) =
            (if vv_fail_next v then (la_EIO lib, pools, v, out) else hold_picture lib pa f pools v out);
          v = v\<lparr>vv_fail_next := False\<rparr>
      in if held < 0 then (HARDWARE_FAILED, out, [], pools, hardware_failed lib ''sync failed'' held v)
         else (VENTO_VIDEO_PICTURE, out\<lparr>pic_hardware := 3\<rparr>, [], pools,
               v\<lparr>vv_hw_pictures := vv_hw_pictures v + 1, vv_reason := []\<rparr>))"

definition read_frame ::
  "libav \<Rightarrow> packet_answers \<Rightarrow> vframe \<Rightarrow> nat \<Rightarrow> vento_video \<Rightarrow> vento_video_picture \<Rightarrow> packet_result"
where
  "read_frame lib pa f pools v out =
     (let (read, trial, v) = read_surface lib pa v;
          v = note_trial pa read trial v
      in if read < 0
         then (HARDWARE_FAILED, out, [], pools,
               hardware_failed lib (if vv_copy v then ''copy failed'' else ''map failed'') read v)
         else finish_picture lib (pa_mapped pa) pools
                (v\<lparr>vv_hw_pictures := vv_hw_pictures v + 1, vv_reason := []\<rparr>)
                (out\<lparr>pic_hardware := (if vv_copy v then 2 else 1)\<rparr>))"

text \<open>The packet with its time, and the formats libavcodec asks a decoder on the device about.\<close>

definition packet_sent :: "libav \<Rightarrow> packet_answers \<Rightarrow> vento_video \<Rightarrow> vento_video" where
  "packet_sent lib pa v =
     (let v = v\<lparr>vv_pts := vv_pts v + 1\<rparr>
      in if vv_hw v then fold (\<lambda>call v. snd (get_format lib call v)) (pa_format_calls pa) v else v)"

definition decode_packet ::
  "libav \<Rightarrow> packet_answers \<Rightarrow> bool \<Rightarrow> nat \<Rightarrow> vento_video \<Rightarrow> vento_video_picture \<Rightarrow> packet_result option"
where
  "decode_packet lib pa hold pools v out =
     (let v = packet_sent lib pa v
      in if pa_send pa < 0
         then Some (if device_error lib (pa_send pa) v
                    then (HARDWARE_FAILED, out, [], pools, hardware_failed lib ''decode failed'' (pa_send pa) v)
                    else (VENTO_VIDEO_REFUSED, out\<lparr>pic_error := pa_send pa\<rparr>, [], pools, v))
         else case receive_frames (pa_receive pa) None of
           None \<Rightarrow> None
         | Some (e, frame) \<Rightarrow>
             if device_error lib e v
             then Some (HARDWARE_FAILED, out, [], pools, hardware_failed lib ''decode failed'' e v)
             else let out = (if e \<noteq> la_EAGAIN lib \<and> e \<noteq> la_EOF lib then out\<lparr>pic_error := e\<rparr> else out)
             in Some (case frame of
                        None \<Rightarrow> (VENTO_VIDEO_NONE, out, [], pools, v)
                      | Some f \<Rightarrow>
                          if vv_hw v \<and> vf_format f = AV_PIX_FMT_VAAPI
                          then (if hold \<and> holdable v f then hold_frame lib pa f pools v out else read_frame lib pa f pools v out)
                          else finish_picture lib f pools v out))"

definition trial_median :: "u64 list \<Rightarrow> u64" where
  "trial_median us = (let s = sort us in (s ! (MAP_TRIALS div 2 - 1) + s ! (MAP_TRIALS div 2)) div 2)"

text \<open>The last picture given back: the time its unmapping took ends a trial, the last one decides.\<close>

definition end_trial :: "u64 \<Rightarrow> vento_video \<Rightarrow> vento_video" where
  "end_trial unmap_us v =
     (case vv_held_trial v of
        None \<Rightarrow> v
      | Some way \<Rightarrow>
          let v = (put_trial way ((vv_trials v - 1) div 2) (\<lambda>t. t + unmap_us) v)\<lparr>vv_held_trial := None\<rparr>
          in if vv_trials v = 2 * MAP_TRIALS
             then v\<lparr>vv_map_verdict := (if trial_median (vv_direct_us v) < trial_median (vv_image_us v) then MAP_DIRECT else MAP_IMAGE)\<rparr>
             else v)"

text \<open>\<open>again\<close> are the answers when the software decoder gets the packet again.\<close>

definition vento_video_decode ::
  "libav \<Rightarrow> open_answers \<Rightarrow> packet_answers \<Rightarrow> packet_answers \<Rightarrow> u64 \<Rightarrow> nat \<Rightarrow> bool \<Rightarrow> nat \<Rightarrow> va_device \<Rightarrow> vento_video \<Rightarrow>
   (packet_result \<times> va_device) option"
where
  "vento_video_decode lib oa pa again unmap_us len hold pools g v =
     (let v = end_trial unmap_us v
      in if len > 2 ^ 31 - 1 then Some ((VENTO_VIDEO_REFUSED, picture_zero\<lparr>pic_error := la_EINVAL lib\<rparr>, [], pools, v), g)
         else if vv_dead v \<noteq> 0 then Some ((VENTO_VIDEO_REFUSED, picture_zero\<lparr>pic_error := vv_dead v\<rparr>, [], pools, v), g)
         else case decode_packet lib pa hold pools v picture_zero of
           None \<Rightarrow> None
         | Some (HARDWARE_FAILED, _, _, pools, v) \<Rightarrow>
             let (opened, g, v) = open_decoder lib oa g v
             in if opened < 0
                then Some ((VENTO_VIDEO_REFUSED, picture_zero\<lparr>pic_fell_back := -1, pic_error := opened\<rparr>, [], pools,
                            v\<lparr>vv_context := False, vv_method := VENTO_VIDEO_HW_OFF, vv_hw := False, vv_dead := opened\<rparr>), g)
                else map_option (\<lambda>r. (r, g)) (decode_packet lib again hold pools v (picture_zero\<lparr>pic_fell_back := 1\<rparr>))
         | Some r \<Rightarrow> Some (r, g))"

section \<open>Held pictures\<close>

text \<open>A mapping of a held picture: what mapping it, or copying it where that fails, answers.\<close>

definition vento_video_frame_map :: "libav \<Rightarrow> bool \<Rightarrow> int \<Rightarrow> int \<Rightarrow> int \<Rightarrow> vframe \<Rightarrow> vento_video_picture option" where
  "vento_video_frame_map lib memory mapped transfer props f =
     (if \<not> memory then None
      else let read = (if mapped \<ge> 0 then mapped else if transfer \<ge> 0 then props else transfer)
      in if read < 0 then None
         else map_option (\<lambda>out. out\<lparr>pic_hardware := 1\<rparr>) (describe lib f picture_zero))"

text \<open>
  The surface as the driver exports it, a descriptor of \<open>objects\<close> per object; the layers' first plane
  is all that is read.
\<close>

record surface_layer =
  sl_num_planes :: nat
  sl_object :: nat
  sl_format :: u32
  sl_offset :: u32
  sl_pitch :: u32

record surface_export =
  se_width :: u32
  se_height :: u32
  se_objects :: "(int \<times> u64) list"
  se_layers :: "surface_layer list"

record vento_video_layer =
  ly_fd :: int
  ly_fourcc :: u32
  ly_modifier :: u64
  ly_offset :: u32
  ly_pitch :: u32
  ly_width :: u32
  ly_height :: u32

text \<open>
  The loop over the layers: what it ended with and the layers made.  \<open>dup i\<close> is what duplicating
  the descriptor of layer \<open>i\<close> answers, \<open>Inl\<close> the error.
\<close>

definition export_layer :: "surface_export \<Rightarrow> nat \<Rightarrow> int \<Rightarrow> vento_video_layer" where
  "export_layer e i fd =
     (let l = se_layers e ! i; half = (\<lambda>n. (n + 1) div 2)
      in \<lparr>ly_fd = fd, ly_fourcc = sl_format l, ly_modifier = snd (se_objects e ! sl_object l), ly_offset = sl_offset l,
          ly_pitch = sl_pitch l, ly_width = (if i = 0 then se_width e else half (se_width e)),
          ly_height = (if i = 0 then se_height e else half (se_height e))\<rparr>)"

fun export_layers :: "libav \<Rightarrow> (nat \<Rightarrow> int + int) \<Rightarrow> surface_export \<Rightarrow> nat list \<Rightarrow> vento_video_layer list \<Rightarrow> int \<times> vento_video_layer list" where
  "export_layers lib dup e [] out = (0, out)"
| "export_layers lib dup e (i # is) out =
     (let l = se_layers e ! i
      in if sl_num_planes l \<noteq> 1 \<or> sl_object l \<ge> length (se_objects e) then (la_ENOSYS lib, out)
         else case dup i of
                Inl err \<Rightarrow> (err, out)
              | Inr fd \<Rightarrow> export_layers lib dup e is (out @ [export_layer e i fd]))"

text \<open>The result, the layers handed out and the descriptors closed, in order.  \<open>Inl\<close>: the driver refused.\<close>

definition vento_video_frame_export ::
  "libav \<Rightarrow> (nat \<Rightarrow> int + int) \<Rightarrow> (unit + surface_export) \<Rightarrow> int \<times> vento_video_layer list \<times> int list"
where
  "vento_video_frame_export lib dup exported =
     (case exported of
        Inl _ \<Rightarrow> (la_EIO lib, [], [])
      | Inr e \<Rightarrow>
          let n = length (se_objects e);
              (made, out) = (if length (se_layers e) \<noteq> 2 \<or> n < 1 \<or> n > 4 then (la_ENOSYS lib, [])
                             else export_layers lib dup e [0, 1] []);
              closed = map fst (take 4 (se_objects e))
          in if made < 0 then (made, [], closed @ map ly_fd out) else (0, out, closed))"

section \<open>Which decoder decodes\<close>

text \<open>The part of the state that says where the decoder decodes, which only opening one changes.\<close>

definition video_mode :: "vento_video \<Rightarrow> video_codec \<times> bool \<times> video_method \<times> bool \<times> bool \<times> int" where
  "video_mode v = (vv_codec v, vv_context v, vv_method v, vv_hw v, vv_untried v, vv_dead v)"

definition mode_ok :: "vento_video \<Rightarrow> bool" where
  "mode_ok v \<longleftrightarrow> \<not> vv_untried v \<and> (vv_method v = VENTO_VIDEO_HW_OFF \<or> vv_method v = VENTO_VIDEO_HW_VAAPI) \<and>
     (vv_hw v \<longleftrightarrow> vv_method v = VENTO_VIDEO_HW_VAAPI) \<and> (vv_context v \<longleftrightarrow> vv_dead v = 0) \<and> (vv_hw v \<longrightarrow> vv_context v)"

lemma mode_ok_cong: "video_mode v' = video_mode v \<Longrightarrow> mode_ok v' = mode_ok v"
  by (simp add: video_mode_def mode_ok_def)

lemma mode_say [simp]: "video_mode (video_say t v) = video_mode v"
  by (simp add: video_say_def video_mode_def)

lemma mode_updates [simp]:
  "video_mode (v\<lparr>vv_pts := n\<rparr>) = video_mode v" "video_mode (v\<lparr>vv_copy := b\<rparr>) = video_mode v"
  "video_mode (v\<lparr>vv_hw_pictures := k\<rparr>) = video_mode v" "video_mode (v\<lparr>vv_map_verdict := m\<rparr>) = video_mode v"
  "video_mode (v\<lparr>vv_trials := k\<rparr>) = video_mode v" "video_mode (v\<lparr>vv_held_trial := h\<rparr>) = video_mode v"
  "video_mode (v\<lparr>vv_image_us := us\<rparr>) = video_mode v" "video_mode (v\<lparr>vv_direct_us := us\<rparr>) = video_mode v"
  "video_mode (v\<lparr>vv_fail_next := b\<rparr>) = video_mode v" "video_mode (v\<lparr>vv_fail_software := b\<rparr>) = video_mode v"
  "video_mode (v\<lparr>vv_reason := r\<rparr>) = video_mode v" "video_mode (v\<lparr>vv_pool_ref := p\<rparr>) = video_mode v"
  "video_mode (v\<lparr>vv_pool := k\<rparr>) = video_mode v"
  by (simp_all add: video_mode_def)

lemma mode_get_formats [simp]: "video_mode (fold (\<lambda>call v. snd (get_format lib call v)) calls v) = video_mode v"
  by (induction calls arbitrary: v) (simp_all add: get_format_def Let_def split: prod.splits)

lemma mode_packet_sent [simp]: "video_mode (packet_sent lib pa v) = video_mode v"
  by (simp add: packet_sent_def Let_def)

lemma packet_sent_sel [simp]: "vv_hw (packet_sent lib pa v) = vv_hw v" "vv_method (packet_sent lib pa v) = vv_method v"
  using mode_packet_sent [of lib pa v] by (simp_all add: video_mode_def)

lemma mode_hardware_failed [simp]: "video_mode (hardware_failed lib what e v) = video_mode v"
  by (simp add: hardware_failed_def)

lemma mode_put_trial [simp]: "video_mode (put_trial way i f v) = video_mode v"
  by (simp add: put_trial_def)

lemma mode_note_trial [simp]: "video_mode (note_trial pa read trial v) = video_mode v"
  by (simp add: note_trial_def split: option.splits)

lemma mode_end_trial [simp]: "video_mode (end_trial us v) = video_mode v"
  by (simp add: end_trial_def Let_def split: option.splits)

lemma mode_hold: "hold_picture lib pa f pools v out = (e, p, v', out') \<Longrightarrow> video_mode v' = video_mode v"
  by (auto simp: hold_picture_def Let_def split: option.splits prod.splits if_splits)

lemma mode_read: "read_surface lib pa v = (e, t, v') \<Longrightarrow> video_mode v' = video_mode v"
  by (auto simp: read_surface_def map_surface_def Let_def split: prod.splits if_splits)

lemma mode_finish: "finish_picture lib f pools v out = (st, out', fmt, p, v') \<Longrightarrow> video_mode v' = video_mode v"
  by (auto simp: finish_picture_def Let_def split: option.splits if_splits)

lemma mode_hold_frame: "hold_frame lib pa f pools v out = (st, out', fmt, p, v') \<Longrightarrow> video_mode v' = video_mode v"
  by (auto simp: hold_frame_def Let_def dest: mode_hold split: prod.splits if_splits)

lemma mode_read_frame: "read_frame lib pa f pools v out = (st, out', fmt, p, v') \<Longrightarrow> video_mode v' = video_mode v"
  by (auto simp: read_frame_def Let_def dest!: mode_read mode_finish split: prod.splits if_splits)

lemma mode_decode_packet:
  assumes "decode_packet lib pa hold pools v out = Some (st, out', fmt, p, v')"
  shows "video_mode v' = video_mode v"
  using assms
  by (auto simp: decode_packet_def Let_def dest!: mode_hold_frame mode_read_frame mode_finish
      split: option.splits prod.splits if_splits)

lemma describe_keeps:
  "describe lib f out = Some out' \<Longrightarrow> pic_hardware out' = pic_hardware out \<and> pic_fell_back out' = pic_fell_back out"
  by (auto simp: describe_def describe_xv30_def describe_planes_def video_colour_def Let_def split: option.splits if_splits)

lemma finish_keeps:
  assumes "finish_picture lib f pools v out = (st, out', fmt, p, v')"
  shows "pic_fell_back out' = pic_fell_back out" "pic_hardware out' = pic_hardware out"
    "st = HARDWARE_FAILED \<Longrightarrow> pic_hardware out \<noteq> 0"
  using assms by (auto simp: finish_picture_def Let_def dest: describe_keeps split: option.splits if_splits)

lemma decode_packet_fell_back:
  assumes "decode_packet lib pa hold pools v out = Some (st, out', fmt, p, v')"
  shows "pic_fell_back out' = pic_fell_back out"
proof -
  have "hold_frame lib pa f pools w o1 = (st, out', fmt, p, v') \<Longrightarrow> pic_fell_back out' = pic_fell_back o1" for f w o1
    by (auto simp: hold_frame_def hold_picture_def video_colour_def Let_def split: prod.splits if_splits option.splits)
  moreover have "read_frame lib pa f pools w o1 = (st, out', fmt, p, v') \<Longrightarrow> pic_fell_back out' = pic_fell_back o1" for f w o1
    by (auto simp: read_frame_def Let_def dest!: finish_keeps(1) split: prod.splits if_splits)
  ultimately show ?thesis
    using assms by (auto simp: decode_packet_def Let_def dest!: finish_keeps(1) split: option.splits prod.splits if_splits)
qed

text \<open>The software decoder fails no packet as the hardware does, and its pictures are not the hardware's.\<close>

lemma decode_packet_software:
  assumes "decode_packet lib pa hold pools v out = Some (st, out', fmt, p, v')"
    and "vv_method v = VENTO_VIDEO_HW_OFF" "\<not> vv_hw v" "pic_hardware out = 0"
  shows "st \<noteq> HARDWARE_FAILED \<and> pic_hardware out' = 0"
  using assms by (auto simp: decode_packet_def device_error_def Let_def dest: finish_keeps split: option.splits prod.splits if_splits)

text \<open>The errors of the library are negative, as \<open>AVERROR\<close> makes them.\<close>

definition errors_negative :: "libav \<Rightarrow> bool" where
  "errors_negative lib \<longleftrightarrow> la_EAGAIN lib < 0 \<and> la_EOF lib < 0 \<and> la_INVALIDDATA lib < 0 \<and> la_EINVAL lib < 0 \<and> la_EIO lib < 0 \<and>
     la_ENOMEM lib < 0 \<and> la_ENOSYS lib < 0 \<and> la_EXTERNAL lib < 0 \<and> la_NOT_FOUND lib < 0"

lemma open_context_mode:
  assumes "open_context lib oa method device v = (opened, v')" "errors_negative lib"
  shows "opened \<ge> 0 \<Longrightarrow> video_mode v' = (vv_codec v, True, if device then method else VENTO_VIDEO_HW_OFF, device, vv_untried v, vv_dead v)"
    "opened < 0 \<Longrightarrow> v' = v"
  using assms by (auto simp: open_context_def video_mode_def errors_negative_def split: if_splits)

text \<open>A decoder opened again, after the first time, is the software one.\<close>

lemma open_decoder_again:
  assumes "open_decoder lib oa g v = (opened, g', v')" "\<not> vv_untried v" "errors_negative lib"
  shows "opened \<ge> 0 \<Longrightarrow> video_mode v' = (vv_codec v, True, VENTO_VIDEO_HW_OFF, False, False, vv_dead v)"
    "opened < 0 \<Longrightarrow> video_mode v' = video_mode v"
  using assms open_context_mode [of lib oa VENTO_VIDEO_HW_OFF False v]
  by (auto simp: open_decoder_def errors_negative_def Let_def split: if_splits prod.splits)

lemma open_decoder_first:
  assumes "open_decoder lib oa g v = (opened, g', v')" "errors_negative lib" "vv_dead v = 0" "opened \<ge> 0"
  shows "mode_ok v' \<and> vv_codec v' = vv_codec v"
proof (cases "vv_untried v")
  case True
  obtain d g1 v1 where o: "open_on_device lib oa g v = (d, g1, v1)" by (metis prod_cases3)
  have d: "d \<Longrightarrow> mode_ok v1" "video_mode v1 = (vv_codec v, vv_context v1, vv_method v1, vv_hw v1, False, 0)"
    using o assms(2,3)
    by (auto simp: open_on_device_def open_context_def mode_ok_def video_mode_def video_say_def errors_negative_def Let_def
        split: prod.splits sum.splits if_splits)
  show ?thesis
  proof (cases d)
    case True
    then show ?thesis using assms(1) d o \<open>vv_untried v\<close> by (auto simp: open_decoder_def video_mode_def)
  next
    case False
    then have "open_decoder lib oa g1 v1 = (opened, g', v')"
      using assms(1) o \<open>vv_untried v\<close> d(2) by (auto simp: open_decoder_def video_mode_def)
    from open_decoder_again(1) [OF this _ assms(2,4)] d(2) show ?thesis
      by (auto simp: video_mode_def mode_ok_def)
  qed
next
  case False
  from open_decoder_again(1) [OF assms(1) False assms(2,4)] assms(3) show ?thesis
    by (auto simp: video_mode_def mode_ok_def)
qed

lemma vento_video_open_ok:
  assumes "vento_video_open lib oa memory codec hardware g = (Inr v, g')" "errors_negative lib"
  shows "mode_ok v"
  using assms open_decoder_first [of lib oa g "(video_zero codec)\<lparr>vv_untried := (hardware = VENTO_VIDEO_HW_VAAPI \<or> hardware = VENTO_VIDEO_HW_AUTO)\<rparr>"]
  by (auto simp: vento_video_open_def video_zero_def Let_def split: prod.splits if_splits)

lemma video_decode_step:
  assumes d: "vento_video_decode lib oa pa again us len hold pools g v = Some ((st, out, fmt, p, v'), g')"
    and ok: "mode_ok v" and e: "errors_negative lib"
  shows "st \<noteq> HARDWARE_FAILED \<and> mode_ok v' \<and> (\<not> vv_hw v \<longrightarrow> \<not> vv_hw v' \<and> pic_fell_back out = 0 \<and> pic_hardware out = 0) \<and>
    (pic_fell_back out \<noteq> 0 \<longrightarrow> \<not> vv_hw v' \<and> pic_hardware out = 0 \<and>
       (pic_fell_back out = -1 \<and> st = VENTO_VIDEO_REFUSED \<and> vv_dead v' \<noteq> 0 \<or> pic_fell_back out = 1 \<and> vv_dead v' = 0)) \<and>
    (vv_dead v \<noteq> 0 \<longrightarrow> st = VENTO_VIDEO_REFUSED \<and> vv_dead v' = vv_dead v)"
proof -
  let ?v = "end_trial us v"
  have m: "video_mode ?v = video_mode v" by simp
  then have f: "mode_ok ?v" "vv_hw ?v = vv_hw v" "vv_dead ?v = vv_dead v" "\<not> vv_untried ?v" "vv_method ?v = vv_method v"
    using ok mode_ok_cong [OF m] by (auto simp: video_mode_def mode_ok_def)
  consider (long) "len > 2 ^ 31 - 1" | (dead) "\<not> len > 2 ^ 31 - 1" "vv_dead v \<noteq> 0" | (go) "\<not> len > 2 ^ 31 - 1" "vv_dead v = 0" by blast
  then show ?thesis
  proof cases
    case long
    then show ?thesis using d f by (auto simp: vento_video_decode_def picture_zero_def Let_def)
  next
    case dead
    then show ?thesis using d f by (auto simp: vento_video_decode_def picture_zero_def Let_def)
  next
    case go
    obtain st1 o1 f1 p1 v1 where k: "decode_packet lib pa hold pools ?v picture_zero = Some (st1, o1, f1, p1, v1)"
      using d f go by (auto simp: vento_video_decode_def Let_def split: option.splits)
    have v1: "video_mode v1 = video_mode v" using mode_decode_packet [OF k] by simp
    have fb: "pic_fell_back o1 = 0" using decode_packet_fell_back [OF k] by (simp add: picture_zero_def)
    have sw: "\<not> vv_hw v \<Longrightarrow> st1 \<noteq> HARDWARE_FAILED \<and> pic_hardware o1 = 0"
      using decode_packet_software [OF k] f ok by (auto simp: picture_zero_def mode_ok_def)
    show ?thesis
    proof (cases "st1 = HARDWARE_FAILED")
      case False
      then have "(st, out, fmt, p, v') = (st1, o1, f1, p1, v1)"
        using d f go k by (cases st1) (auto simp: vento_video_decode_def Let_def)
      then show ?thesis using False fb sw v1 ok go mode_ok_cong [OF v1] by (auto simp: video_mode_def)
    next
      case True
      obtain opened g2 v2 where o: "open_decoder lib oa g v1 = (opened, g2, v2)" by (metis prod_cases3)
      have hw: "vv_hw v" using sw True by blast
      have u: "\<not> vv_untried v1" using v1 ok by (simp add: video_mode_def mode_ok_def)
      show ?thesis
      proof (cases "opened < 0")
        case neg: True
        then have r: "st = VENTO_VIDEO_REFUSED" "out = picture_zero\<lparr>pic_fell_back := -1, pic_error := opened\<rparr>"
          "v' = v2\<lparr>vv_context := False, vv_method := VENTO_VIDEO_HW_OFF, vv_hw := False, vv_dead := opened\<rparr>"
          using d f go k o True by (auto simp: vento_video_decode_def Let_def)
        have "video_mode v2 = video_mode v" using open_decoder_again(2) [OF o u e neg] v1 by simp
        then show ?thesis using r neg hw go ok by (auto simp: mode_ok_def video_mode_def picture_zero_def)
      next
        case pos: False
        then have again: "decode_packet lib again hold p1 v2 (picture_zero\<lparr>pic_fell_back := 1\<rparr>) = Some (st, out, fmt, p, v')"
          using d f go k o True by (auto simp: vento_video_decode_def Let_def)
        have v2: "video_mode v2 = (vv_codec v1, True, VENTO_VIDEO_HW_OFF, False, False, 0)"
          using open_decoder_again(1) [OF o u e] pos v1 go by (simp add: video_mode_def)
        have v': "video_mode v' = video_mode v2" by (rule mode_decode_packet [OF again])
        have "st \<noteq> HARDWARE_FAILED \<and> pic_hardware out = 0"
          using decode_packet_software [OF again] v2 by (simp add: video_mode_def picture_zero_def)
        then show ?thesis using decode_packet_fell_back [OF again] v' v2 hw go by (simp add: mode_ok_def video_mode_def)
      qed
    qed
  qed
qed

subsection \<open>A stream\<close>

record video_packet =
  vp_open :: open_answers
  vp_first :: packet_answers
  vp_again :: packet_answers
  vp_unmap_us :: u64
  vp_len :: nat
  vp_hold :: bool

fun video_run ::
  "libav \<Rightarrow> video_packet list \<Rightarrow> nat \<Rightarrow> va_device \<Rightarrow> vento_video \<Rightarrow> ((video_status \<times> vento_video_picture) list \<times> vento_video) option"
where
  "video_run lib [] pools g v = Some ([], v)"
| "video_run lib (x # xs) pools g v =
     (case vento_video_decode lib (vp_open x) (vp_first x) (vp_again x) (vp_unmap_us x) (vp_len x) (vp_hold x) pools g v of
        None \<Rightarrow> None
      | Some ((st, out, _, pools, v), g) \<Rightarrow> map_option (\<lambda>(rs, v). ((st, out) # rs, v)) (video_run lib xs pools g v))"

definition in_software :: "video_status \<times> vento_video_picture \<Rightarrow> bool" where
  "in_software r \<longleftrightarrow> pic_hardware (snd r) = 0 \<and> pic_fell_back (snd r) = 0"

definition refused :: "video_status \<times> vento_video_picture \<Rightarrow> bool" where
  "refused r \<longleftrightarrow> fst r = VENTO_VIDEO_REFUSED"

lemma video_run_Cons:
  assumes "video_run lib (x # xs) pools g v = Some (rs, v')"
  obtains st out fmt pools1 v1 g1 rs1 where
    "vento_video_decode lib (vp_open x) (vp_first x) (vp_again x) (vp_unmap_us x) (vp_len x) (vp_hold x) pools g v =
       Some ((st, out, fmt, pools1, v1), g1)"
    "video_run lib xs pools1 g1 v1 = Some (rs1, v')" "rs = (st, out) # rs1"
  using assms by (auto split: option.splits prod.splits)

lemma video_run_software:
  assumes "video_run lib ps pools g v = Some (rs, v')" "mode_ok v" "errors_negative lib" "\<not> vv_hw v"
  shows "list_all in_software rs \<and> (vv_dead v \<noteq> 0 \<longrightarrow> list_all refused rs)"
  using assms(1,2,4)
proof (induction ps arbitrary: pools g v rs)
  case (Cons x xs)
  from Cons.prems(1) obtain st out fmt pools1 v1 g1 rs1 where
    d: "vento_video_decode lib (vp_open x) (vp_first x) (vp_again x) (vp_unmap_us x) (vp_len x) (vp_hold x) pools g v =
       Some ((st, out, fmt, pools1, v1), g1)"
    and r: "video_run lib xs pools1 g1 v1 = Some (rs1, v')" "rs = (st, out) # rs1" by (rule video_run_Cons)
  note s = video_decode_step [OF d Cons.prems(2) assms(3)]
  with Cons.IH [OF r(1)] r(2) Cons.prems(3) show ?case by (auto simp: in_software_def refused_def)
qed simp

lemma video_run_falls:
  assumes "video_run lib ps pools g v = Some (rs, v')" "mode_ok v" "errors_negative lib"
  shows "list_all (\<lambda>r. fst r \<noteq> HARDWARE_FAILED) rs \<and>
    (\<forall>before r after. rs = before @ r # after \<and> pic_fell_back (snd r) \<noteq> 0 \<longrightarrow>
       list_all in_software after \<and> pic_hardware (snd r) = 0 \<and> list_all (\<lambda>r. pic_fell_back (snd r) = 0) before \<and>
       (pic_fell_back (snd r) = 1 \<or> pic_fell_back (snd r) = -1 \<and> list_all refused (r # after)))"
  using assms(1,2)
proof (induction ps arbitrary: pools g v rs)
  case (Cons x xs)
  from Cons.prems(1) obtain st out fmt pools1 v1 g1 rs1 where
    d: "vento_video_decode lib (vp_open x) (vp_first x) (vp_again x) (vp_unmap_us x) (vp_len x) (vp_hold x) pools g v =
       Some ((st, out, fmt, pools1, v1), g1)"
    and r: "video_run lib xs pools1 g1 v1 = Some (rs1, v')" "rs = (st, out) # rs1" by (rule video_run_Cons)
  note s = video_decode_step [OF d Cons.prems(2) assms(3)]
  show ?case
  proof (cases "pic_fell_back out = 0")
    case True
    with Cons.IH [OF r(1)] s r(2) show ?thesis by (auto simp: Cons_eq_append_conv)
  next
    case False
    with s have sw: "list_all in_software rs1" "vv_dead v1 \<noteq> 0 \<longrightarrow> list_all refused rs1"
      using video_run_software [OF r(1) _ assms(3)] by auto
    then have "\<forall>r\<in>set rs1. pic_fell_back (snd r) = 0" by (auto simp: list_all_iff in_software_def)
    with Cons.IH [OF r(1)] s r(2) sw False show ?thesis
      by (auto simp: Cons_eq_append_conv refused_def [of "(st, out)"] refused_def [of "(VENTO_VIDEO_REFUSED, out)"])
  qed
qed simp


definition example_libav :: libav where
  "example_libav =
     \<lparr>la_decoder = \<lambda>_ _. True,
      la_desc = \<lambda>f. if f = AV_PIX_FMT_NV12
        then Some \<lparr>pd_flags = [AV_PIX_FMT_FLAG_PLANAR], pd_nb_components = 3, pd_log2_chroma_w = 1, pd_log2_chroma_h = 1,
          pd_comp = \<lambda>i. \<lparr>cmp_plane = (if i = 0 then 0 else 1), cmp_step = (if i = 0 then 1 else 2),
                          cmp_offset = (if i = 2 then 1 else 0), cmp_shift = 0, cmp_depth = 8\<rparr>\<rparr>
        else None,
      la_pix_name = \<lambda>_. None, la_strerror = \<lambda>_. ''failed'', la_EAGAIN = -11, la_EOF = -12, la_INVALIDDATA = -13,
      la_EINVAL = -22, la_EIO = -5, la_ENOMEM = -14, la_ENOSYS = -38, la_EXTERNAL = -15, la_NOT_FOUND = -16\<rparr>"

definition example_nv12 :: vframe where
  "example_nv12 = \<lparr>vf_format = AV_PIX_FMT_NV12, vf_width = 5, vf_height = 3, vf_data = \<lambda>i. i < 2, vf_linesize = \<lambda>i. 8,
     vf_colorspace = AVCOL_SPC_UNSPECIFIED, vf_range = Color_range_other 0, vf_frames = None, vf_surface = 0\<rparr>"

definition example_open :: open_answers where
  "example_open = \<lparr>oa_device = 0, oa_missing = None, oa_ref = True, oa_alloc = \<lambda>_. True, oa_open = \<lambda>_. 0\<rparr>"

definition example_packet_answers :: "int \<Rightarrow> (int + vframe) list \<Rightarrow> packet_answers" where
  "example_packet_answers sent rs = \<lparr>pa_format_calls = [], pa_send = sent, pa_receive = rs, pa_synced = True, pa_pool_ref = True,
     pa_held_mem = True, pa_map_direct = 0, pa_map_image = 0, pa_transfer = 0, pa_copy_props = 0, pa_mapped = example_nv12,
     pa_trial_us = 7\<rparr>"

definition example_video_packet :: video_packet where
  "example_video_packet = \<lparr>vp_open = example_open, vp_first = example_packet_answers (-5) [],
     vp_again = example_packet_answers 0 [Inr example_nv12, Inl (-11)], vp_unmap_us = 3, vp_len = 100, vp_hold = False\<rparr>"

lemmas example_video_simps = example_libav_def example_nv12_def example_open_def example_packet_answers_def example_video_packet_def
  vento_video_open_def open_decoder_def open_on_device_def open_context_def video_device_def device_try_def video_find_def
  video_zero_def errors_negative_def

lemma example_video_open:
  "vento_video_open example_libav example_open (True, True) VENTO_VIDEO_H264 VENTO_VIDEO_HW_AUTO \<lparr>dev_state = 0, dev_why = []\<rparr> =
     (Inr ((video_zero VENTO_VIDEO_H264)\<lparr>vv_context := True, vv_method := VENTO_VIDEO_HW_VAAPI, vv_hw := True\<rparr>),
      \<lparr>dev_state = 1, dev_why = []\<rparr>)"
  by (simp add: example_video_simps)

lemma example_video_run:
  "\<exists>out v'. video_run example_libav [example_video_packet] 0 \<lparr>dev_state = 1, dev_why = []\<rparr>
       ((video_zero VENTO_VIDEO_H264)\<lparr>vv_context := True, vv_method := VENTO_VIDEO_HW_VAAPI, vv_hw := True\<rparr>) =
     Some ([(VENTO_VIDEO_PICTURE, out)], v') \<and> pic_fell_back out = 1"
  by (simp add: example_video_simps vento_video_decode_def end_trial_def decode_packet_def packet_sent_def device_error_def
      finish_picture_def describe_def describe_planes_def desc_refused_def samples_refused_def unwanted_flags_def
      chroma_paired_def chroma_separate_def sample_bytes_def row_bytes_def ceil_rshift_def video_colour_def picture_zero_def
      hardware_failed_def video_say_def upt_rec Let_def)


section \<open>The trials\<close>

definition video_trials :: "vento_video \<Rightarrow> map_verdict \<times> nat \<times> u64 list \<times> u64 list \<times> nat option" where
  "video_trials v = (vv_map_verdict v, vv_trials v, vv_image_us v, vv_direct_us v, vv_held_trial v)"

definition trials_ok :: "vento_video \<Rightarrow> bool" where
  "trials_ok v \<longleftrightarrow> length (vv_image_us v) = MAP_TRIALS \<and> length (vv_direct_us v) = MAP_TRIALS \<and> vv_trials v \<le> 2 * MAP_TRIALS \<and>
     (\<forall>w. vv_held_trial v = Some w \<longrightarrow> 0 < vv_trials v \<and> w = (vv_trials v - 1) mod 2 \<and> vv_map_verdict v = MAP_UNKNOWN) \<and>
     (vv_trials v = 2 * MAP_TRIALS \<and> vv_held_trial v = None \<longrightarrow> vv_map_verdict v \<noteq> MAP_UNKNOWN)"

text \<open>A verdict that has been reached stays, unless the driver refuses to map in place after all.\<close>

definition verdict_kept :: "vento_video \<Rightarrow> vento_video \<Rightarrow> bool" where
  "verdict_kept v v' \<longleftrightarrow>
     (vv_map_verdict v = MAP_IMAGE \<longrightarrow> vv_map_verdict v' = MAP_IMAGE) \<and>
     (vv_map_verdict v = MAP_DIRECT \<longrightarrow> vv_map_verdict v' \<noteq> MAP_UNKNOWN)"

lemma trials_cong: "video_trials v' = video_trials v \<Longrightarrow> trials_ok v' = trials_ok v"
  by (simp add: video_trials_def trials_ok_def)

lemma trials_updates [simp]:
  "video_trials (v\<lparr>vv_pts := n\<rparr>) = video_trials v" "video_trials (v\<lparr>vv_copy := b\<rparr>) = video_trials v"
  "video_trials (v\<lparr>vv_hw_pictures := k\<rparr>) = video_trials v" "video_trials (v\<lparr>vv_fail_next := b\<rparr>) = video_trials v"
  "video_trials (v\<lparr>vv_fail_software := b\<rparr>) = video_trials v" "video_trials (v\<lparr>vv_reason := r\<rparr>) = video_trials v"
  "video_trials (v\<lparr>vv_pool_ref := p\<rparr>) = video_trials v" "video_trials (v\<lparr>vv_pool := k\<rparr>) = video_trials v"
  "video_trials (v\<lparr>vv_untried := b\<rparr>) = video_trials v" "video_trials (video_say t v) = video_trials v"
  by (simp_all add: video_trials_def video_say_def)

lemma trials_get_formats [simp]: "video_trials (fold (\<lambda>call v. snd (get_format lib call v)) calls v) = video_trials v"
  by (induction calls arbitrary: v) (simp_all add: get_format_def Let_def split: prod.splits)

lemma trials_packet_sent [simp]: "video_trials (packet_sent lib pa v) = video_trials v"
  by (simp add: packet_sent_def Let_def)

lemma trials_hardware_failed [simp]: "video_trials (hardware_failed lib what e v) = video_trials v"
  by (simp add: hardware_failed_def)

lemma trials_finish: "finish_picture lib f pools v out = (st, out', fmt, p, v') \<Longrightarrow> video_trials v' = video_trials v"
  by (auto simp: finish_picture_def Let_def split: option.splits if_splits)

lemma trials_hold: "hold_frame lib pa f pools v out = (st, out', fmt, p, v') \<Longrightarrow> video_trials v' = video_trials v"
  by (auto simp: hold_frame_def hold_picture_def Let_def split: prod.splits if_splits option.splits)

lemma trials_open: "open_decoder lib oa g v = (opened, g', v') \<Longrightarrow> video_trials v' = video_trials v"
  by (auto simp: open_decoder_def open_on_device_def open_context_def video_trials_def video_say_def Let_def
      split: prod.splits if_splits sum.splits)

lemma end_trial_ok:
  assumes "trials_ok v"
  shows "trials_ok (end_trial us v)" "vv_held_trial (end_trial us v) = None" "verdict_kept v (end_trial us v)"
  using assms
  by (auto simp: end_trial_def put_trial_def trials_ok_def verdict_kept_def Let_def split: option.splits if_splits)

lemma read_surface_trial:
  assumes "read_surface lib pa v = (read, trial, v')"
  shows "case trial of
      Some w \<Rightarrow> video_trials v' = video_trials v \<and> vv_map_verdict v = MAP_UNKNOWN \<and> vv_trials v < 2 * MAP_TRIALS \<and> w = vv_trials v mod 2
    | None \<Rightarrow> video_trials v' = video_trials v \<or>
        vv_map_verdict v' = MAP_IMAGE \<and> vv_trials v' = vv_trials v \<and> vv_image_us v' = vv_image_us v \<and>
        vv_direct_us v' = vv_direct_us v \<and> vv_held_trial v' = vv_held_trial v \<and>
        (vv_map_verdict v = MAP_UNKNOWN \<or> vv_map_verdict v = MAP_DIRECT)"
  using assms
  by (auto simp: read_surface_def map_surface_def map_way_def video_trials_def Let_def split: prod.splits if_splits option.splits)

lemma read_frame_trials:
  assumes "read_frame lib pa f pools v out = (st, out', fmt, p, v')" and ok: "trials_ok v" "vv_held_trial v = None"
  shows "trials_ok v' \<and> verdict_kept v v'"
proof -
  obtain read trial v1 where r: "read_surface lib pa v = (read, trial, v1)" by (metis prod_cases3)
  let ?v = "note_trial pa read trial v1"
  have v': "video_trials v' = video_trials ?v"
    using assms(1) r by (auto simp: read_frame_def Let_def dest!: trials_finish split: if_splits)
  have "trials_ok ?v \<and> verdict_kept v ?v"
  proof (cases trial)
    case None
    then show ?thesis using read_surface_trial [OF r] ok
      by (auto simp: note_trial_def trials_ok_def verdict_kept_def video_trials_def)
  next
    case (Some w)
    then have t: "video_trials v1 = video_trials v" "vv_map_verdict v = MAP_UNKNOWN" "vv_trials v < 2 * MAP_TRIALS" "w = vv_trials v mod 2"
      using read_surface_trial [OF r] by auto
    then have f: "vv_map_verdict v1 = MAP_UNKNOWN" "vv_trials v1 = vv_trials v" "length (vv_image_us v1) = MAP_TRIALS"
      "length (vv_direct_us v1) = MAP_TRIALS" "vv_held_trial v1 = None"
      using ok by (simp_all add: video_trials_def trials_ok_def)
    then have "trials_ok ?v" using Some t(3,4) by (cases "read \<ge> 0") (simp_all add: note_trial_def put_trial_def trials_ok_def)
    then show ?thesis using t(2) by (simp add: verdict_kept_def)
  qed
  moreover have "vv_map_verdict v' = vv_map_verdict ?v" using v' by (simp add: video_trials_def)
  ultimately show ?thesis using trials_cong [OF v'] by (simp add: verdict_kept_def)
qed

text \<open>How a packet ends, by what it leaves of the trials.\<close>

lemma decode_packet_cases:
  assumes "decode_packet lib pa hold pools v out = Some (st, out', fmt, p, v')"
  obtains (same) "video_trials v' = video_trials v"
    | (read) w f o1 where "video_mode w = video_mode v" "video_trials w = video_trials v" "vv_hw v"
        "read_frame lib pa f pools w o1 = (st, out', fmt, p, v')"
proof -
  let ?w = "packet_sent lib pa v"
  have same': "video_trials v' = video_trials ?w \<Longrightarrow> ?thesis" using same by simp
  show ?thesis
  proof (cases "pa_send pa < 0")
    case True
    then show ?thesis using assms by (intro same') (auto simp: decode_packet_def Let_def split: if_splits)
  next
    case False
    then obtain e frame where r: "receive_frames (pa_receive pa) None = Some (e, frame)"
      using assms by (auto simp: decode_packet_def Let_def split: option.splits)
    show ?thesis
    proof (cases "vv_hw v \<and> (\<exists>f. frame = Some f \<and> vf_format f = AV_PIX_FMT_VAAPI \<and> \<not> (hold \<and> holdable ?w f)) \<and> \<not> device_error lib e ?w")
      case True
      then obtain f where f: "frame = Some f" "vf_format f = AV_PIX_FMT_VAAPI" "\<not> (hold \<and> holdable ?w f)" by blast
      then obtain o1 where "read_frame lib pa f pools ?w o1 = (st, out', fmt, p, v')"
        using assms False True r by (auto simp: decode_packet_def Let_def split: if_splits)
      then show ?thesis using True read [of ?w f o1] by simp
    next
      case no: False
      then show ?thesis using assms False r
        by (intro same') (auto simp: decode_packet_def Let_def dest!: trials_hold trials_finish split: option.splits if_splits)
    qed
  qed
qed

lemma decode_packet_trials:
  assumes "decode_packet lib pa hold pools v out = Some (st, out', fmt, p, v')" and ok: "trials_ok v" "vv_held_trial v = None \<or> \<not> vv_hw v"
  shows "trials_ok v' \<and> verdict_kept v v'"
  using assms(1)
proof (cases rule: decode_packet_cases)
  case same
  then show ?thesis using ok(1) trials_cong [OF same] by (simp add: verdict_kept_def video_trials_def)
next
  case (read w f o1)
  then have "trials_ok w" "vv_held_trial w = None" using ok trials_cong [OF read(2)] by (simp_all add: video_trials_def)
  from read_frame_trials [OF read(4) this] read(2) show ?thesis by (simp add: verdict_kept_def video_trials_def)
qed

lemma verdict_kept_trans: "verdict_kept a b \<Longrightarrow> verdict_kept b c \<Longrightarrow> verdict_kept a c"
  by (cases "vv_map_verdict b") (auto simp: verdict_kept_def)

lemma video_decode_trials:
  assumes d: "vento_video_decode lib oa pa again us len hold pools g v = Some ((st, out, fmt, p, v'), g')"
    and ok: "mode_ok v" "trials_ok v" and e: "errors_negative lib"
  shows "trials_ok v' \<and> verdict_kept v v'"
proof -
  let ?v = "end_trial us v"
  note t = end_trial_ok [OF ok(2), of us]
  show ?thesis
  proof (cases "len > 2 ^ 31 - 1 \<or> vv_dead ?v \<noteq> 0")
    case True
    then have "v' = ?v" using d by (auto simp: vento_video_decode_def Let_def split: if_splits)
    with t show ?thesis by simp
  next
    case False
    then obtain st1 o1 f1 p1 v1 where k: "decode_packet lib pa hold pools ?v picture_zero = Some (st1, o1, f1, p1, v1)"
      using d by (auto simp: vento_video_decode_def Let_def split: option.splits)
    have k1: "trials_ok v1" "verdict_kept v v1"
      using decode_packet_trials [OF k t(1)] t(2,3) verdict_kept_trans by blast+
    show ?thesis
    proof (cases "st1 = HARDWARE_FAILED")
      case no: False
      then have "v' = v1" using d False k by (cases st1) (auto simp: vento_video_decode_def Let_def)
      with k1 show ?thesis by simp
    next
      case True
      obtain opened g2 v2 where o: "open_decoder lib oa g v1 = (opened, g2, v2)" by (metis prod_cases3)
      note v2 = trials_open [OF o]
      have "video_mode v1 = video_mode v" using mode_decode_packet [OF k] by simp
      then have u: "\<not> vv_untried v1" using ok(1) by (simp add: video_mode_def mode_ok_def)
      show ?thesis
      proof (cases "opened < 0")
        case neg: True
        then have "video_trials v' = video_trials v1" using d False k True o v2
          by (auto simp: vento_video_decode_def video_trials_def Let_def)
        then show ?thesis using k1 trials_cong [of v' v1] by (auto simp: verdict_kept_def video_trials_def)
      next
        case pos: False
        then have a: "decode_packet lib again hold p1 v2 (picture_zero\<lparr>pic_fell_back := 1\<rparr>) = Some (st, out, fmt, p, v')"
          using d False k True o by (auto simp: vento_video_decode_def Let_def)
        have "\<not> vv_hw v2" using open_decoder_again(1) [OF o u e] pos by (simp add: video_mode_def)
        moreover have "trials_ok v2" "verdict_kept v v2"
          using k1 trials_cong [OF v2] v2 by (auto simp: verdict_kept_def video_trials_def)
        ultimately show ?thesis using decode_packet_trials [OF a] verdict_kept_trans by blast
      qed
    qed
  qed
qed



section \<open>Reading a described picture\<close>

lemma mult_div_le: "0 < m \<Longrightarrow> (a :: int) div m * m \<le> a"
  by (metis add_increasing2 div_mult_mod_eq order_refl pos_mod_sign)

lemma div_ceil:
  assumes "x < w" shows "x div 2 ^ b + 1 \<le> ceil_rshift w b"
proof -
  let ?m = "2 ^ b :: int"
  have "(- w) div ?m * ?m \<le> - w" "x div ?m * ?m \<le> x" by (rule mult_div_le, simp)+
  then have "(- w) div ?m * ?m < (- (x div ?m)) * ?m" using assms by simp
  then have "(- w) div ?m < - (x div ?m)" by (simp only: mult_less_cancel_right_pos zero_less_power zero_less_numeral)
  then show ?thesis by (simp add: ceil_rshift_def)
qed

text \<open>
  Where the bytes of the sample of pixel \<open>x\<close> of a described picture are in its row: from the pointer
  of the component, in the layout the description gives.
\<close>

definition pic_bytes :: "vento_video_picture \<Rightarrow> int" where
  "pic_bytes p = (if pic_depth p > 8 then 2 else 1)"

definition luma_end :: "vento_video_picture \<Rightarrow> int \<Rightarrow> int" where
  "luma_end p x = (if pic_packed p then (x + 1) * 4 else (x + 1) * pic_bytes p)"

definition chroma_end :: "vento_video_picture \<Rightarrow> int \<Rightarrow> int" where
  "chroma_end p x =
     (let cx = x div 2 ^ pic_chroma_shift_x p
      in if pic_packed p then (x + 1) * 4
         else if pic_interleaved p then (cx + 1) * 2 * pic_bytes p else (cx + 1) * pic_bytes p)"

text \<open>
  C18. A picture that is described can be read as described: it has a size, its three planes are
  there, and the bytes of the luma and of both chroma samples of every pixel of a row end within
  that row of their plane, whatever the layout (planes of their own, paired either way round, or
  packed), subsampling and depth; the samples have eight bits or more and fit, shifted, in the bytes they
  are read from.
\<close>

theorem linux_video_described:
  assumes "describe lib f picture_zero = Some p" and "0 \<le> x" "x < pic_width p"
  shows "0 < pic_width p \<and> 0 < pic_height p \<and> (\<forall>i<3. \<exists>n. pic_data p ! i = Some n \<and> vf_data f n \<and> pic_stride p ! i = vf_linesize f n) \<and>
    luma_end p x \<le> pic_stride p ! 0 \<and> chroma_end p x \<le> pic_stride p ! 1 \<and> chroma_end p x \<le> pic_stride p ! 2 \<and>
    8 \<le> pic_depth p \<and> (\<not> pic_packed p \<longrightarrow> pic_depth p + pic_shift p \<le> 8 * pic_bytes p \<and> pic_chroma_shift_x p \<le> 1)"
proof -
  let ?o = "(video_colour f picture_zero)\<lparr>pic_width := vf_width f, pic_height := vf_height f\<rparr>"
  obtain d where d: "la_desc lib (vf_format f) = Some d" "0 < vf_width f" "0 < vf_height f"
    "(if vf_format f = AV_PIX_FMT_XV30LE then describe_xv30 f ?o else describe_planes f d ?o) = Some p"
    using assms(1) by (auto simp: describe_def Let_def split: option.splits if_splits)
  show ?thesis
  proof (cases "vf_format f = AV_PIX_FMT_XV30LE")
    case True
    then show ?thesis using d assms(2,3)
      by (auto simp: describe_xv30_def luma_end_def chroma_end_def less_Suc_eq numeral_eq_Suc split: if_splits)
  next
    case False
    let ?paired = "chroma_paired d" and ?b = "sample_bytes d" and ?cw = "ceil_rshift (vf_width f) (pd_log2_chroma_w d)"
    let ?v = "if ?paired then 1 else 2 :: nat"
    have p: "p = ?o\<lparr>pic_data := [Some 0, Some 1, Some ?v], pic_stride := [vf_linesize f 0, vf_linesize f 1, vf_linesize f ?v],
          pic_chroma_shift_x := pd_log2_chroma_w d, pic_chroma_shift_y := pd_log2_chroma_h d, pic_interleaved := ?paired,
          pic_v_first := (?paired \<and> cmp_offset (pd_comp d 2) = 0), pic_depth := cmp_depth (pd_comp d 0), pic_shift := cmp_shift (pd_comp d 0)\<rparr>"
      and ok: "\<not> desc_refused d" "\<not> samples_refused d"
      and rows: "list_all (\<lambda>i. vf_data f i \<and> row_bytes f d ?paired i \<le> vf_linesize f i) [0..<if ?paired then 2 else 3]"
      using d(4) False by (auto simp: describe_planes_def Let_def list_ex_iff list_all_iff not_less split: if_splits)
    have b: "0 < ?b" "pic_bytes p = ?b" by (simp_all add: sample_bytes_def pic_bytes_def p)
    have cx: "(x div 2 ^ pd_log2_chroma_w d + 1) * k \<le> ?cw * k" if "0 < k" for k
      using div_ceil [of x "vf_width f" "pd_log2_chroma_w d"] assms(3) that by (simp add: p)
    have y: "(x + 1) * ?b \<le> vf_width f * ?b" using assms(3) b(1) by (simp add: p)
    have r: "vf_data f 0" "vf_data f 1" "vf_data f ?v" "vf_width f * ?b \<le> vf_linesize f 0"
      "?cw * (if ?paired then 2 * ?b else ?b) \<le> vf_linesize f 1" "?cw * (if ?paired then 2 * ?b else ?b) \<le> vf_linesize f ?v"
      using rows by (auto simp: row_bytes_def Let_def upt_rec numeral_eq_Suc split: if_splits)
    have "luma_end p x \<le> pic_stride p ! 0" using y r(4) by (simp add: luma_end_def b(2)) (simp add: p video_colour_def picture_zero_def)
    moreover have "chroma_end p x \<le> pic_stride p ! 1 \<and> chroma_end p x \<le> pic_stride p ! 2"
    proof -
      let ?k = "if ?paired then 2 * ?b else ?b"
      have "chroma_end p x = (x div 2 ^ pd_log2_chroma_w d + 1) * ?k"
        by (simp add: chroma_end_def b(2) Let_def) (simp add: p video_colour_def picture_zero_def)
      also have "\<dots> \<le> ?cw * ?k" using b(1) by (intro cx) simp
      finally show ?thesis using r(5,6) by (simp add: p)
    qed
    ultimately show ?thesis
      using d(2,3) ok r(1,2,3) b
      by (auto simp: p less_Suc_eq numeral_eq_Suc desc_refused_def samples_refused_def Let_def pic_bytes_def sample_bytes_def)
  qed
qed

theorem linux_video_described_witness:
  "\<exists>p. describe example_libav example_nv12 picture_zero = Some p \<and> pic_interleaved p \<and> luma_end p 4 \<le> 8 \<and> chroma_end p 4 \<le> 8"
proof -
  obtain p where p: "describe example_libav example_nv12 picture_zero = Some p" "pic_width p = 5" "pic_interleaved p" "pic_stride p = [8, 8, 8]"
    by (simp add: example_video_simps describe_def describe_planes_def desc_refused_def samples_refused_def unwanted_flags_def
        chroma_paired_def chroma_separate_def sample_bytes_def row_bytes_def ceil_rshift_def video_colour_def picture_zero_def
        upt_rec Let_def)
  with linux_video_described [OF p(1), of 4] show ?thesis by auto
qed

section \<open>Descriptors of an exported surface\<close>

lemma export_layers_dups:
  assumes "export_layers lib dup e is out = (made, out')" "errors_negative lib" "\<forall>i err. dup i = Inl err \<longrightarrow> err < 0"
  shows "\<exists>k\<le>length is. (\<forall>i\<in>set (take k is). \<exists>fd. dup i = Inr fd) \<and>
    map ly_fd out' = map ly_fd out @ map (projr \<circ> dup) (take k is) \<and> made \<le> 0 \<and> (made = 0 \<longrightarrow> k = length is)"
  using assms(1)
proof (induction "is" arbitrary: out)
  case (Cons i "is")
  show ?case
  proof (cases "sl_num_planes (se_layers e ! i) \<noteq> 1 \<or> sl_object (se_layers e ! i) \<ge> length (se_objects e) \<or> (\<exists>err. dup i = Inl err)")
    case True
    then have "made < 0 \<and> out' = out" using Cons.prems assms(2,3) by (auto simp: errors_negative_def Let_def split: sum.splits if_splits)
    then show ?thesis by (intro exI [of _ 0]) auto
  next
    case False
    then obtain fd where fd: "dup i = Inr fd" by (metis sum.exhaust)
    with False Cons.prems have "export_layers lib dup e is (out @ [export_layer e i fd]) = (made, out')" by (simp add: Let_def)
    from Cons.IH [OF this] obtain k where "k \<le> length is" "\<forall>i\<in>set (take k is). \<exists>fd. dup i = Inr fd"
      "map ly_fd out' = map ly_fd (out @ [export_layer e i fd]) @ map (projr \<circ> dup) (take k is)" "made \<le> 0" "made = 0 \<longrightarrow> k = length is"
      by blast
    then show ?thesis using fd by (intro exI [of _ "Suc k"]) (auto simp: export_layer_def Let_def)
  qed
qed simp

text \<open>
  C25. Exporting a held surface leaks no descriptor and closes none twice.  The descriptors the driver
  handed out and those duplicated for the layers are, together, exactly the ones that are closed
  and the ones handed out; an export that succeeds hands out one for each of two layers and closes
  all of the driver's, and one that fails hands out none.
\<close>

theorem linux_video_export:
  assumes "vento_video_frame_export lib dup (Inr e) = (made, layers, closed)" and "errors_negative lib"
    and "\<forall>i err. dup i = Inl err \<longrightarrow> err < 0" and "length (se_objects e) \<le> 4"
  shows "\<exists>k\<le>2. (\<forall>i<k. \<exists>fd. dup i = Inr fd) \<and>
    closed @ map ly_fd layers = map fst (se_objects e) @ map (projr \<circ> dup) [0..<k] \<and>
    (made = 0 \<longrightarrow> length layers = 2 \<and> closed = map fst (se_objects e)) \<and> (made \<noteq> 0 \<longrightarrow> made < 0 \<and> layers = [])"
proof (cases "length (se_layers e) \<noteq> 2 \<or> length (se_objects e) < 1 \<or> length (se_objects e) > 4")
  case True
  then show ?thesis using assms by (intro exI [of _ 0]) (auto simp: vento_video_frame_export_def errors_negative_def Let_def)
next
  case False
  obtain m out where l: "export_layers lib dup e [0, 1] [] = (m, out)" by (metis prod.collapse)
  have two: "length [0, 1 :: nat] = 2" by simp
  from export_layers_dups [OF l assms(2,3), unfolded two list.map(1) append_Nil] obtain k where k: "k \<le> 2" "\<forall>i\<in>set (take k [0, 1]). \<exists>fd. dup i = Inr fd"
    "map ly_fd out = map (projr \<circ> dup) (take k [0, 1])" "m \<le> 0" "m = 0 \<longrightarrow> k = 2" by blast
  have t: "take k [0, 1] = [0..<k]" using k(1) by (auto simp: le_Suc_eq numeral_eq_Suc)
  have "length out = k" using arg_cong [OF k(3), of length] k(1) by (simp add: t)
  then show ?thesis
    using assms(1,4) False l k t
    by (intro exI [of _ k]) (auto simp: vento_video_frame_export_def Let_def split: if_splits)
qed

theorem linux_video_export_witness:
  "\<exists>made layers closed. vento_video_frame_export example_libav (\<lambda>i. if i = 0 then Inr 30 else Inl (-24))
       (Inr \<lparr>se_width = 5, se_height = 3, se_objects = [(20, 0)],
             se_layers = [\<lparr>sl_num_planes = 1, sl_object = 0, sl_format = 1, sl_offset = 0, sl_pitch = 8\<rparr>,
                          \<lparr>sl_num_planes = 1, sl_object = 0, sl_format = 2, sl_offset = 24, sl_pitch = 8\<rparr>]\<rparr>) = (made, layers, closed) \<and>
     made = -24 \<and> closed @ map ly_fd layers = [20, 30]"
proof -
  let ?dup = "\<lambda>i :: nat. if i = 0 then Inr 30 else Inl (-24) :: int + int"
  let ?e = "\<lparr>se_width = 5, se_height = 3, se_objects = [(20, 0)],
             se_layers = [\<lparr>sl_num_planes = 1, sl_object = 0, sl_format = 1, sl_offset = 0, sl_pitch = 8\<rparr>,
                          \<lparr>sl_num_planes = 1, sl_object = 0, sl_format = 2, sl_offset = 24, sl_pitch = 8\<rparr>]\<rparr>"
  obtain made layers closed where r: "vento_video_frame_export example_libav ?dup (Inr ?e) = (made, layers, closed)"
    by (metis prod_cases3)
  then have "made = -24" "length closed = 2" by (auto simp: vento_video_frame_export_def Let_def)
  moreover have "errors_negative example_libav" "\<forall>i err. ?dup i = Inl err \<longrightarrow> err < 0" "length (se_objects ?e) \<le> 4"
    by (auto simp: example_video_simps errors_negative_def)
  from linux_video_export [OF r this] obtain k where k: "k \<le> 2"
    "closed @ map ly_fd layers = [20] @ map (projr \<circ> ?dup) [0..<k]" "made \<noteq> 0 \<longrightarrow> layers = []"
    by auto
  ultimately have "layers = []" "length closed = Suc k" by auto
  with \<open>length closed = 2\<close> have "k = 1" by simp
  with k(2) \<open>made = -24\<close> r show ?thesis by auto
qed

end
