(* ===== verification/Video_Frames.thy ===== *)
theory Video_Frames
  imports Linux_Video "HOL-Library.Multiset"
begin

text \<open>
  The references of the Linux video decoder, \<open>src/backends/platform/linux/cpp/vento_video.c\<close>.  Its frames hold
  references to the library's pictures: \<open>frame\<close> the picture last described, \<open>newer\<close> the next one while it
  is received, \<open>mapped\<close> the planes of a surface; and each held picture has a frame and a mapping of its
  own, which outlive the decoder.

  \<open>Linux_Video\<close> models what a decode computes; here the same branches are taken for what they do to the
  frames.  A reference is a number, and acquiring and releasing one is recorded in order, so that a
  reference written over without being released shows as one that is never released.  The library's
  side of it is as documented: \<open>avcodec_receive_frame\<close> releases what its frame held and, as mapping and
  copying, leaves a reference in it exactly when it succeeds.
\<close>

section \<open>References\<close>

datatype av_ref = Acquire nat | Release nat

record video_refs =
  fr_next :: nat
  fr_trace :: "av_ref list"
  fr_frame :: "nat option"
  fr_newer :: "nat option"
  fr_mapped :: "nat option"

definition refs_zero :: video_refs where
  "refs_zero = \<lparr>fr_next = 0, fr_trace = [], fr_frame = None, fr_newer = None, fr_mapped = None\<rparr>"

definition av_acquire :: "video_refs \<Rightarrow> nat \<times> video_refs" where
  "av_acquire r = (fr_next r, r\<lparr>fr_next := fr_next r + 1, fr_trace := fr_trace r @ [Acquire (fr_next r)]\<rparr>)"

definition av_release :: "nat option \<Rightarrow> video_refs \<Rightarrow> video_refs" where
  "av_release x r = (case x of None \<Rightarrow> r | Some n \<Rightarrow> r\<lparr>fr_trace := fr_trace r @ [Release n]\<rparr>)"

definition unref_frame :: "video_refs \<Rightarrow> video_refs" where
  "unref_frame r = (av_release (fr_frame r) r)\<lparr>fr_frame := None\<rparr>"

definition unref_newer :: "video_refs \<Rightarrow> video_refs" where
  "unref_newer r = (av_release (fr_newer r) r)\<lparr>fr_newer := None\<rparr>"

definition unref_mapped :: "video_refs \<Rightarrow> video_refs" where
  "unref_mapped r = (av_release (fr_mapped r) r)\<lparr>fr_mapped := None\<rparr>"

text \<open>A picture into \<open>mapped\<close>, and one received into \<open>newer\<close> and moved to \<open>frame\<close>.\<close>

definition into_mapped :: "int \<Rightarrow> video_refs \<Rightarrow> video_refs" where
  "into_mapped answer r = (if answer < 0 then r else let (n, r) = av_acquire r in r\<lparr>fr_mapped := Some n\<rparr>)"

definition into_newer :: "video_refs \<Rightarrow> video_refs" where
  "into_newer r = (let (n, r) = av_acquire (unref_newer r) in r\<lparr>fr_newer := Some n\<rparr>)"

definition move_newer :: "video_refs \<Rightarrow> video_refs" where
  "move_newer r = r\<lparr>fr_frame := fr_newer r, fr_newer := None\<rparr>"

section \<open>A decode\<close>

fun receive_refs :: "(int + vframe) list \<Rightarrow> video_refs \<Rightarrow> video_refs" where
  "receive_refs (Inr f # rs) r = receive_refs rs (move_newer (unref_frame (into_newer r)))"
| "receive_refs _ r = unref_newer r"

definition map_refs :: "libav \<Rightarrow> packet_answers \<Rightarrow> vento_video \<Rightarrow> video_refs \<Rightarrow> video_refs" where
  "map_refs lib pa v r =
     (let direct = fst (map_way v);
          mapped = (if direct then pa_map_direct pa else pa_map_image pa);
          r = into_mapped mapped r
      in if direct \<and> mapped = la_EINVAL lib then into_mapped (pa_map_image pa) (unref_mapped r) else r)"

definition read_refs :: "libav \<Rightarrow> packet_answers \<Rightarrow> vento_video \<Rightarrow> video_refs \<Rightarrow> video_refs" where
  "read_refs lib pa v r =
     (if vv_fail_next v then r
      else let r = (if \<not> vv_copy v then map_refs lib pa v r else r);
               copy = (vv_copy v \<or> vv_copy (snd (snd (map_surface lib pa v))))
      in if copy then into_mapped (pa_transfer pa) (unref_mapped r) else r)"

text \<open>The references after a picture, and the one of the picture handed out to be held.\<close>

definition picture_refs ::
  "libav \<Rightarrow> packet_answers \<Rightarrow> bool \<Rightarrow> nat \<Rightarrow> vento_video \<Rightarrow> vento_video_picture \<Rightarrow> vframe \<Rightarrow> video_refs \<Rightarrow> video_refs \<times> nat option"
where
  "picture_refs lib pa hold pools v out f r =
     (if vv_hw v \<and> vf_format f = AV_PIX_FMT_VAAPI
      then if hold \<and> holdable v f
           then let held = (if vv_fail_next v then la_EIO lib else fst (hold_picture lib pa f pools v out))
                in if held < 0 then (unref_frame r, None) else let (n, r) = av_acquire r in (r, Some n)
           else let r = read_refs lib pa v r; read = fst (read_surface lib pa v)
                in if read < 0 then (unref_frame r, None)
                   else if describe lib (pa_mapped pa) out = None then (unref_frame (unref_mapped r), None)
                   else (r, None)
      else if describe lib f out = None then (unref_frame r, None) else (r, None))"

definition decode_packet_refs ::
  "libav \<Rightarrow> packet_answers \<Rightarrow> bool \<Rightarrow> nat \<Rightarrow> vento_video \<Rightarrow> vento_video_picture \<Rightarrow> video_refs \<Rightarrow> video_refs \<times> nat option"
where
  "decode_packet_refs lib pa hold pools v out r =
     (let v = packet_sent lib pa v
      in if pa_send pa < 0 then (r, None)
         else let r = receive_refs (pa_receive pa) r
         in case receive_frames (pa_receive pa) None of
              None \<Rightarrow> (r, None)
            | Some (e, frame) \<Rightarrow>
                if device_error lib e v then (unref_frame r, None)
                else (case frame of None \<Rightarrow> (r, None) | Some f \<Rightarrow> picture_refs lib pa hold pools v out f r))"

definition decode_refs ::
  "libav \<Rightarrow> open_answers \<Rightarrow> packet_answers \<Rightarrow> packet_answers \<Rightarrow> u64 \<Rightarrow> nat \<Rightarrow> bool \<Rightarrow> nat \<Rightarrow> va_device \<Rightarrow> vento_video \<Rightarrow>
   video_refs \<Rightarrow> video_refs \<times> nat option"
where
  "decode_refs lib oa pa again unmap_us len hold pools g v r =
     (let r = unref_frame (unref_mapped r); v = end_trial unmap_us v
      in if len > 2 ^ 31 - 1 \<or> vv_dead v \<noteq> 0 then (r, None)
         else let (r, held) = decode_packet_refs lib pa hold pools v picture_zero r
         in case decode_packet lib pa hold pools v picture_zero of
              Some (HARDWARE_FAILED, _, _, pools, v) \<Rightarrow>
                let (opened, g, v) = open_decoder lib oa g v
                in if opened < 0 then (r, None)
                   else decode_packet_refs lib again hold pools v (picture_zero\<lparr>pic_fell_back := 1\<rparr>) r
            | _ \<Rightarrow> (r, held))"

definition vento_video_close :: "video_refs \<Rightarrow> video_refs" where
  "vento_video_close r = unref_frame (unref_newer (unref_mapped r))"

section \<open>Held pictures\<close>

text \<open>\<open>hf_mapped\<close> is \<open>None\<close> also for the frame that is not there yet, which holds nothing either.\<close>

record vento_video_frame =
  hf_frame :: "nat option"
  hf_mapped :: "nat option"

definition held_unref :: "vento_video_frame \<times> video_refs \<Rightarrow> vento_video_frame \<times> video_refs" where
  "held_unref x = (let (h, r) = x in (h\<lparr>hf_mapped := None\<rparr>, av_release (hf_mapped h) r))"

definition held_into :: "int \<Rightarrow> vento_video_frame \<times> video_refs \<Rightarrow> vento_video_frame \<times> video_refs" where
  "held_into answer x =
     (if answer < 0 then x else let (h, r) = x; (n, r) = av_acquire r in (h\<lparr>hf_mapped := Some n\<rparr>, r))"

definition frame_map_refs ::
  "libav \<Rightarrow> bool \<Rightarrow> int \<Rightarrow> int \<Rightarrow> int \<Rightarrow> vframe \<Rightarrow> vento_video_frame \<times> video_refs \<Rightarrow> vento_video_frame \<times> video_refs"
where
  "frame_map_refs lib memory mapped transfer props f x =
     (if \<not> memory then x
      else let x = held_into mapped (held_unref x);
               x = (if mapped < 0 then held_into transfer (held_unref x) else x)
      in if vento_video_frame_map lib memory mapped transfer props f = None then held_unref x else x)"

definition vento_video_frame_unmap :: "vento_video_frame \<times> video_refs \<Rightarrow> vento_video_frame \<times> video_refs" where
  "vento_video_frame_unmap x = held_unref x"

definition vento_video_frame_free :: "vento_video_frame \<times> video_refs \<Rightarrow> video_refs" where
  "vento_video_frame_free x = (let (h, r) = held_unref x in av_release (hf_frame h) r)"

section \<open>Balance\<close>

text \<open>What a trace leaves referenced, and whether only what was referenced was released.\<close>

fun ref_step :: "av_ref \<Rightarrow> bool \<times> nat multiset \<Rightarrow> bool \<times> nat multiset" where
  "ref_step (Acquire n) (ok, s) = (ok, add_mset n s)"
| "ref_step (Release n) (ok, s) = (ok \<and> n \<in># s, s - {#n#})"

definition live :: "av_ref list \<Rightarrow> bool \<times> nat multiset" where
  "live t = fold ref_step t (True, {#})"

definition opt_mset :: "nat option \<Rightarrow> nat multiset" where
  "opt_mset x = (case x of None \<Rightarrow> {#} | Some n \<Rightarrow> {#n#})"

definition owned :: "video_refs \<Rightarrow> nat multiset" where
  "owned r = opt_mset (fr_frame r) + opt_mset (fr_newer r) + opt_mset (fr_mapped r)"

text \<open>What is referenced is what the decoder's frames hold, and the \<open>others\<close>.\<close>

definition balanced :: "nat multiset \<Rightarrow> video_refs \<Rightarrow> bool" where
  "balanced others r \<longleftrightarrow> live (fr_trace r) = (True, owned r + others)"

lemma opt_mset_simps [simp]: "opt_mset None = {#}" "opt_mset (Some n) = {#n#}"
  by (simp_all add: opt_mset_def)

lemma live_snoc [simp]: "live (t @ [x]) = ref_step x (live t)" "live [] = (True, {#})"
  by (simp_all add: live_def)

lemma live_release:
  "live (fr_trace r) = (True, opt_mset x + S) \<Longrightarrow> live (fr_trace (av_release x r)) = (True, S)"
  by (cases x) (simp_all add: av_release_def)

lemma av_release_slots [simp]:
  "fr_frame (av_release x r) = fr_frame r" "fr_newer (av_release x r) = fr_newer r" "fr_mapped (av_release x r) = fr_mapped r"
  by (simp_all add: av_release_def split: option.split)

lemma unref_slots [simp]:
  "fr_frame (unref_frame r) = None" "fr_newer (unref_frame r) = fr_newer r" "fr_mapped (unref_frame r) = fr_mapped r"
  "fr_frame (unref_newer r) = fr_frame r" "fr_newer (unref_newer r) = None" "fr_mapped (unref_newer r) = fr_mapped r"
  "fr_frame (unref_mapped r) = fr_frame r" "fr_newer (unref_mapped r) = fr_newer r" "fr_mapped (unref_mapped r) = None"
  by (simp_all add: unref_frame_def unref_newer_def unref_mapped_def)

lemma balanced_unref [simp]:
  assumes "balanced H r"
  shows "balanced H (unref_frame r)" "balanced H (unref_newer r)" "balanced H (unref_mapped r)"
  using assms live_release [of r "fr_frame r"] live_release [of r "fr_newer r"] live_release [of r "fr_mapped r"]
  by (simp_all add: balanced_def owned_def unref_frame_def unref_newer_def unref_mapped_def ac_simps)

lemma into_slots [simp]:
  "fr_frame (into_mapped k r) = fr_frame r" "fr_newer (into_mapped k r) = fr_newer r"
  "Option.is_none (fr_mapped (into_mapped k r)) \<longleftrightarrow> k < 0 \<and> Option.is_none (fr_mapped r)"
  "fr_frame (into_newer r) = fr_frame r" "\<not> Option.is_none (fr_newer (into_newer r))" "fr_mapped (into_newer r) = fr_mapped r"
  by (auto simp: into_mapped_def into_newer_def av_acquire_def)

lemma balanced_into:
  "balanced H r \<Longrightarrow> fr_mapped r = None \<Longrightarrow> balanced H (into_mapped k r)"
  "balanced H r \<Longrightarrow> balanced H (into_newer r)"
  using balanced_unref(2) [of H r]
  by (auto simp: balanced_def owned_def into_mapped_def into_newer_def av_acquire_def ac_simps)

lemma balanced_move: "balanced H r \<Longrightarrow> fr_frame r = None \<Longrightarrow> balanced H (move_newer r)"
  by (simp add: balanced_def owned_def move_newer_def)

lemma move_slots [simp]:
  "fr_frame (move_newer r) = fr_newer r" "fr_newer (move_newer r) = None" "fr_mapped (move_newer r) = fr_mapped r"
  by (simp_all add: move_newer_def)

subsection \<open>A decode\<close>

lemma receive_refs_balanced:
  "balanced H r \<Longrightarrow>
   balanced H (receive_refs rs r) \<and> fr_newer (receive_refs rs r) = None \<and> fr_mapped (receive_refs rs r) = fr_mapped r"
proof (induction rs r rule: receive_refs.induct)
  case (1 f rs r)
  then have "balanced H (move_newer (unref_frame (into_newer r)))" by (intro balanced_move balanced_unref balanced_into) simp_all
  with 1 show ?case by simp
qed simp_all

lemma receive_refs_frame:
  "receive_frames rs f = Some (e, f') \<Longrightarrow> Option.is_none (fr_frame r) = Option.is_none f \<Longrightarrow>
   Option.is_none (fr_frame (receive_refs rs r)) = Option.is_none f'"
proof (induction rs f arbitrary: r rule: receive_frames.induct)
  case (3 f0 rs frame)
  then show ?case using 3(1) [of "move_newer (unref_frame (into_newer r))"] 3(2) by simp
qed auto

lemma map_refs_balanced:
  assumes "balanced H r" and "fr_mapped r = None"
  shows "balanced H (map_refs lib pa v r) \<and> fr_frame (map_refs lib pa v r) = fr_frame r \<and> fr_newer (map_refs lib pa v r) = fr_newer r"
  using assms by (simp add: map_refs_def Let_def balanced_into)

lemma map_refs_mapped:
  assumes "fr_mapped r = None" and "map_surface lib pa v = (mapped, trial, v')" and "errors_negative lib" and "mapped \<ge> 0"
  shows "\<not> Option.is_none (fr_mapped (map_refs lib pa v r))"
  using assms by (auto simp: map_refs_def map_surface_def errors_negative_def Let_def split: if_splits prod.splits)

lemma read_refs_balanced:
  assumes "balanced H r" and "fr_mapped r = None"
  shows "balanced H (read_refs lib pa v r) \<and> fr_frame (read_refs lib pa v r) = fr_frame r \<and> fr_newer (read_refs lib pa v r) = fr_newer r"
  using assms map_refs_balanced [OF assms, of lib pa v] by (simp add: read_refs_def Let_def balanced_into)

lemma read_refs_mapped:
  assumes "fr_mapped r = None" and "fst (read_surface lib pa v) \<ge> 0" and "errors_negative lib"
  shows "\<not> Option.is_none (fr_mapped (read_refs lib pa v r))"
proof -
  obtain mapped trial v' where m: "map_surface lib pa v = (mapped, trial, v')" by (metis prod_cases3)
  have "\<not> vv_fail_next v" using assms(2,3) by (auto simp: read_surface_def errors_negative_def)
  then show ?thesis
    using assms m map_refs_mapped [OF assms(1) m assms(3)]
    by (auto simp: read_refs_def read_surface_def Let_def split: if_splits)
qed

text \<open>What the references are after a decode that came to \<open>st\<close> and \<open>out\<close>: the caller's picture is referenced.\<close>

definition picture_kept :: "video_status \<Rightarrow> vento_video_picture \<Rightarrow> video_refs \<Rightarrow> nat option \<Rightarrow> bool" where
  "picture_kept st out r held \<longleftrightarrow>
     (if st \<noteq> VENTO_VIDEO_PICTURE then fr_frame r = None \<and> held = None
      else \<not> Option.is_none (fr_frame r) \<and> (held \<noteq> None \<longleftrightarrow> pic_hardware out = 3) \<and>
           (pic_hardware out = 1 \<or> pic_hardware out = 2 \<longrightarrow> \<not> Option.is_none (fr_mapped r)))"

lemma balanced_acquire: "balanced H r \<Longrightarrow> av_acquire r = (n, r') \<Longrightarrow> balanced (add_mset n H) r'"
  by (auto simp: balanced_def owned_def av_acquire_def)

lemma acquire_slots:
  "av_acquire r = (n, r') \<Longrightarrow> fr_frame r' = fr_frame r \<and> fr_newer r' = fr_newer r \<and> fr_mapped r' = fr_mapped r"
  by (auto simp: av_acquire_def)

text \<open>The status and the hardware way of a picture, as the model of a decode has them.\<close>

definition picture_result ::
  "libav \<Rightarrow> packet_answers \<Rightarrow> bool \<Rightarrow> nat \<Rightarrow> vento_video \<Rightarrow> vento_video_picture \<Rightarrow> vframe \<Rightarrow> packet_result"
where
  "picture_result lib pa hold pools v out f =
     (if vv_hw v \<and> vf_format f = AV_PIX_FMT_VAAPI
      then (if hold \<and> holdable v f then hold_frame lib pa f pools v out else read_frame lib pa f pools v out)
      else finish_picture lib f pools v out)"

lemma describe_None: "describe lib f a = None \<longleftrightarrow> describe lib f b = None"
  by (auto simp: describe_def describe_xv30_def describe_planes_def Let_def split: option.splits if_splits)

lemma finish_picture_status:
  assumes "finish_picture lib f pools v out = (st, out', fmt, p, v')"
  shows "st = VENTO_VIDEO_PICTURE \<longleftrightarrow> describe lib f out \<noteq> None" and "pic_hardware out' = pic_hardware out"
  using assms by (auto simp: finish_picture_def Let_def dest: describe_keeps split: option.splits if_splits)

lemma hold_frame_status:
  assumes "hold_frame lib pa f pools v out = (st, out', fmt, p, v')"
  shows "st = VENTO_VIDEO_PICTURE \<longleftrightarrow> 0 \<le> (if vv_fail_next v then la_EIO lib else fst (hold_picture lib pa f pools v out))"
    and "st = VENTO_VIDEO_PICTURE \<longrightarrow> pic_hardware out' = 3"
  using assms by (auto simp: hold_frame_def Let_def split: if_splits prod.splits)

lemma read_frame_status:
  assumes "read_frame lib pa f pools v out = (st, out', fmt, p, v')"
  shows "st = VENTO_VIDEO_PICTURE \<longleftrightarrow> 0 \<le> fst (read_surface lib pa v) \<and> describe lib (pa_mapped pa) out \<noteq> None"
    and "st = VENTO_VIDEO_PICTURE \<longrightarrow> pic_hardware out' = 1 \<or> pic_hardware out' = 2"
proof -
  obtain read trial v1 where r: "read_surface lib pa v = (read, trial, v1)" by (metis prod_cases3)
  define v2 where "v2 = note_trial pa read trial v1"
  define k where "k = (if vv_copy v2 then 2 else 1 :: int)"
  have d: "describe lib (pa_mapped pa) (out\<lparr>pic_hardware := k\<rparr>) = None \<longleftrightarrow> describe lib (pa_mapped pa) out = None" by (rule describe_None)
  have "st = VENTO_VIDEO_PICTURE \<longleftrightarrow> 0 \<le> read \<and> describe lib (pa_mapped pa) (out\<lparr>pic_hardware := k\<rparr>) \<noteq> None"
    "0 \<le> read \<longrightarrow> pic_hardware out' = k"
  proof (atomize (full), cases "read < 0")
    case False
    then have "finish_picture lib (pa_mapped pa) pools (v2\<lparr>vv_hw_pictures := vv_hw_pictures v2 + 1, vv_reason := []\<rparr>) (out\<lparr>pic_hardware := k\<rparr>) =
        (st, out', fmt, p, v')"
      using assms r by (simp add: read_frame_def v2_def k_def Let_def)
    from finish_picture_status [OF this] False show "(st = VENTO_VIDEO_PICTURE \<longleftrightarrow>
        0 \<le> read \<and> describe lib (pa_mapped pa) (out\<lparr>pic_hardware := k\<rparr>) \<noteq> None) \<and> (0 \<le> read \<longrightarrow> pic_hardware out' = k)" by simp
  qed (use assms r in \<open>auto simp: read_frame_def Let_def\<close>)
  then show "st = VENTO_VIDEO_PICTURE \<longleftrightarrow> 0 \<le> fst (read_surface lib pa v) \<and> describe lib (pa_mapped pa) out \<noteq> None"
    and "st = VENTO_VIDEO_PICTURE \<longrightarrow> pic_hardware out' = 1 \<or> pic_hardware out' = 2"
    using r d by (auto simp: k_def)
qed

lemma picture_refs_kept:
  assumes "picture_refs lib pa hold pools v out f r = (r', held)" and "picture_result lib pa hold pools v out f = (st, out', fmt, p, v')"
    and r: "balanced H r" "\<not> Option.is_none (fr_frame r)" "fr_newer r = None" "vv_hw v \<Longrightarrow> fr_mapped r = None"
    and e: "errors_negative lib" and out: "pic_hardware out = 0"
  shows "balanced (opt_mset held + H) r' \<and> fr_newer r' = None \<and> picture_kept st out' r' held"
proof (cases "vv_hw v \<and> vf_format f = AV_PIX_FMT_VAAPI")
  case False
  then show ?thesis using assms(1,2) r out finish_picture_status [of lib f pools v out st out' fmt p v']
    by (auto simp: picture_refs_def picture_result_def picture_kept_def split: if_splits)
next
  case hw: True
  show ?thesis
  proof (cases "hold \<and> holdable v f")
    case True
    then have h: "hold_frame lib pa f pools v out = (st, out', fmt, p, v')" using assms(2) hw by (simp add: picture_result_def)
    show ?thesis
      using assms(1) hw True r hold_frame_status [OF h] balanced_acquire [OF r(1)] acquire_slots [of r]
      by (auto simp: picture_refs_def picture_kept_def Let_def split: if_splits prod.splits)
  next
    case False
    then have h: "read_frame lib pa f pools v out = (st, out', fmt, p, v')" using assms(2) hw by (auto simp: picture_result_def)
    show ?thesis
      using assms(1) hw False r read_frame_status [OF h] read_refs_balanced [OF r(1) r(4), of lib pa v] read_refs_mapped [OF r(4) _ e, of pa v]
      by (auto simp: picture_refs_def picture_kept_def Let_def split: if_splits)
  qed
qed

lemma picture_refs_out: "picture_refs lib pa hold pools v a f r = picture_refs lib pa hold pools v b f r"
proof -
  have "fst (hold_picture lib pa f pools v a) = fst (hold_picture lib pa f pools v b)"
    by (simp add: hold_picture_def Let_def split: option.split prod.split)
  then show ?thesis unfolding picture_refs_def Let_def describe_None [of lib _ a b] by simp
qed

lemma decode_packet_refs_kept:
  assumes d: "decode_packet lib pa hold pools v out = Some (st, out', fmt, p, v')"
    and d': "decode_packet_refs lib pa hold pools v out r = (r', held)"
    and r: "balanced H r" "fr_frame r = None" "fr_newer r = None" "vv_hw v \<Longrightarrow> fr_mapped r = None"
    and e: "errors_negative lib" and out: "pic_hardware out = 0"
  shows "balanced (opt_mset held + H) r' \<and> fr_newer r' = None \<and> picture_kept st out' r' held"
proof (cases "pa_send pa < 0")
  case True
  then show ?thesis using d d' r by (auto simp: decode_packet_def decode_packet_refs_def picture_kept_def Let_def split: if_splits)
next
  case send: False
  let ?v = "packet_sent lib pa v" and ?r = "receive_refs (pa_receive pa) r"
  obtain err frame where f: "receive_frames (pa_receive pa) None = Some (err, frame)"
    using d send by (auto simp: decode_packet_def Let_def split: option.splits)
  note rr = receive_refs_balanced [OF r(1), of "pa_receive pa"] and fr = receive_refs_frame [OF f, of r]
  show ?thesis
  proof (cases "device_error lib err ?v \<or> frame = None")
    case True
    then show ?thesis using d d' send f rr fr r(2)
      by (auto simp: decode_packet_def decode_packet_refs_def picture_kept_def Let_def Option.is_none_def split: if_splits)
  next
    case False
    then obtain pic where pic: "frame = Some pic" by auto
    define o1 where "o1 = (if err \<noteq> la_EAGAIN lib \<and> err \<noteq> la_EOF lib then out\<lparr>pic_error := err\<rparr> else out)"
    have res: "picture_result lib pa hold pools ?v o1 pic = (st, out', fmt, p, v')"
      using d send f False pic by (simp add: decode_packet_def picture_result_def o1_def Let_def)
    have refs: "picture_refs lib pa hold pools ?v o1 pic ?r = (r', held)"
      using d' send f False pic by (simp add: decode_packet_refs_def Let_def picture_refs_out [of lib pa hold pools ?v o1 pic ?r out])
    show ?thesis by (rule picture_refs_kept [OF refs res]) (use rr fr r e out pic in \<open>simp_all add: o1_def\<close>)
  qed
qed

lemma decode_refs_kept:
  assumes d: "vento_video_decode lib oa pa again us len hold pools g v = Some ((st, out, fmt, p, v'), g')"
    and d': "decode_refs lib oa pa again us len hold pools g v r = (r', held)"
    and r: "balanced H r" "fr_newer r = None"
    and ok: "mode_ok v" and e: "errors_negative lib"
  shows "balanced (opt_mset held + H) r' \<and> fr_newer r' = None \<and> picture_kept st out r' held"
proof -
  let ?v = "end_trial us v" and ?r = "unref_frame (unref_mapped r)"
  have m: "video_mode ?v = video_mode v" by simp
  then have f: "vv_hw ?v = vv_hw v" "vv_dead ?v = vv_dead v" by (auto simp: video_mode_def)
  have r0: "balanced H ?r" "fr_frame ?r = None" "fr_newer ?r = None" "fr_mapped ?r = None" using r by simp_all
  show ?thesis
  proof (cases "len > 2 ^ 31 - 1 \<or> vv_dead v \<noteq> 0")
    case True
    then show ?thesis using d d' f r0
      by (auto simp: vento_video_decode_def decode_refs_def picture_kept_def Let_def split: if_splits)
  next
    case go: False
    obtain st1 o1 f1 p1 v1 where k: "decode_packet lib pa hold pools ?v picture_zero = Some (st1, o1, f1, p1, v1)"
      using d f go by (auto simp: vento_video_decode_def Let_def split: option.splits)
    obtain r1 h1 where k': "decode_packet_refs lib pa hold pools ?v picture_zero ?r = (r1, h1)" by (metis prod.collapse)
    have one: "balanced (opt_mset h1 + H) r1 \<and> fr_newer r1 = None \<and> picture_kept st1 o1 r1 h1"
      by (rule decode_packet_refs_kept [OF k k' r0(1-3) r0(4) e]) (simp add: picture_zero_def)
    show ?thesis
    proof (cases "st1 = HARDWARE_FAILED")
      case False
      then have "(st, out) = (st1, o1)" "(r', held) = (r1, h1)"
        using d d' f go k k' by (cases st1; auto simp: vento_video_decode_def decode_refs_def Let_def)+
      then show ?thesis using one by simp
    next
      case True
      then have h1: "h1 = None" "fr_frame r1 = None" using one by (simp_all add: picture_kept_def)
      obtain opened g2 v2 where o: "open_decoder lib oa g v1 = (opened, g2, v2)" by (metis prod_cases3)
      have u: "\<not> vv_untried v1" using mode_decode_packet [OF k] m ok by (simp add: video_mode_def mode_ok_def)
      show ?thesis
      proof (cases "opened < 0")
        case neg: True
        then have "st = VENTO_VIDEO_REFUSED" "(r', held) = (r1, None)"
          using d d' f go k k' o True by (auto simp: vento_video_decode_def decode_refs_def Let_def)
        then show ?thesis using one h1 by (simp add: picture_kept_def)
      next
        case pos: False
        then have again: "decode_packet lib again hold p1 v2 (picture_zero\<lparr>pic_fell_back := 1\<rparr>) = Some (st, out, fmt, p, v')"
          "decode_packet_refs lib again hold p1 v2 (picture_zero\<lparr>pic_fell_back := 1\<rparr>) r1 = (r', held)"
          using d d' f go k k' o True by (auto simp: vento_video_decode_def decode_refs_def Let_def)
        have "\<not> vv_hw v2" using open_decoder_again(1) [OF o u e] pos by (simp add: video_mode_def)
        then show ?thesis using one h1
          by (intro decode_packet_refs_kept [OF again _ _ _ _ e]) (simp_all add: picture_zero_def)
      qed
    qed
  qed
qed

subsection \<open>A held picture\<close>

definition held_refs :: "vento_video_frame \<Rightarrow> nat multiset" where
  "held_refs h = opt_mset (hf_frame h) + opt_mset (hf_mapped h)"

text \<open>What every operation on a held picture \<open>h\<close> keeps: the balance, the picture, and the decoder's frames.\<close>

definition held_kept :: "nat multiset \<Rightarrow> vento_video_frame \<Rightarrow> video_refs \<Rightarrow> vento_video_frame \<times> video_refs \<Rightarrow> bool" where
  "held_kept H h r x \<longleftrightarrow>
     balanced (held_refs (fst x) + H) (snd x) \<and> hf_frame (fst x) = hf_frame h \<and> fr_frame (snd x) = fr_frame r \<and>
     fr_newer (snd x) = fr_newer r \<and> fr_mapped (snd x) = fr_mapped r"

lemma held_unref_kept: "held_kept H h r x \<Longrightarrow> held_kept H h r (held_unref x)"
  using live_release [of "snd x" "hf_mapped (fst x)"]
  by (cases x) (auto simp: held_kept_def held_unref_def held_refs_def balanced_def owned_def ac_simps)

lemma held_unref_mapped: "hf_mapped (fst (held_unref x)) = None"
  by (cases x) (simp add: held_unref_def)

lemma held_into_kept: "held_kept H h r x \<Longrightarrow> hf_mapped (fst x) = None \<Longrightarrow> held_kept H h r (held_into k x)"
  by (cases x) (auto simp: held_kept_def held_into_def held_refs_def balanced_def owned_def av_acquire_def)

lemma frame_map_refs_kept:
  "held_kept H h r x \<Longrightarrow> held_kept H h r (frame_map_refs lib memory mapped transfer props f x)"
  by (simp add: frame_map_refs_def Let_def held_unref_kept held_into_kept held_unref_mapped)

lemma frame_free_kept:
  assumes "held_kept H h r x"
  shows "balanced H (vento_video_frame_free x)" "fr_frame (vento_video_frame_free x) = fr_frame r"
    "fr_newer (vento_video_frame_free x) = fr_newer r" "fr_mapped (vento_video_frame_free x) = fr_mapped r"
  using held_unref_kept [OF assms] held_unref_mapped [of x] live_release [of "snd (held_unref x)" "hf_frame (fst (held_unref x))"]
  by (auto simp: vento_video_frame_free_def held_kept_def held_refs_def balanced_def owned_def ac_simps split: prod.splits)

section \<open>A decoder in use\<close>

text \<open>
  The calls of a caller, in any order: packets, mappings of the pictures it holds, and the end of both; the pictures
  held are numbered in the order they were handed out, and a call for one that was freed, or on
  a decoder that was closed, is not made.
\<close>

datatype video_call =
    Call_decode video_packet
  | Call_map nat bool int int int vframe
  | Call_unmap nat
  | Call_free nat
  | Call_close

record video_world =
  vw_video :: "vento_video option"
  vw_dev :: va_device
  vw_pools :: nat
  vw_refs :: video_refs
  vw_held :: "vento_video_frame option list"
  vw_last :: "(video_status \<times> vento_video_picture) option"

definition on_held :: "nat \<Rightarrow> (vento_video_frame \<times> video_refs \<Rightarrow> vento_video_frame option \<times> video_refs) \<Rightarrow> video_world \<Rightarrow> video_world" where
  "on_held k f w =
     (if k < length (vw_held w)
      then (case vw_held w ! k of
              None \<Rightarrow> w
            | Some h \<Rightarrow> let (h, r) = f (h, vw_refs w) in w\<lparr>vw_refs := r, vw_held := (vw_held w)[k := h]\<rparr>)
      else w)"

definition call_decode :: "libav \<Rightarrow> video_packet \<Rightarrow> vento_video \<Rightarrow> video_world \<Rightarrow> video_world option" where
  "call_decode lib x v w =
     (case vento_video_decode lib (vp_open x) (vp_first x) (vp_again x) (vp_unmap_us x) (vp_len x) (vp_hold x) (vw_pools w) (vw_dev w) v of
        None \<Rightarrow> None
      | Some ((st, out, _, pools, v'), g) \<Rightarrow>
          let (r, held) = decode_refs lib (vp_open x) (vp_first x) (vp_again x) (vp_unmap_us x) (vp_len x) (vp_hold x)
                            (vw_pools w) (vw_dev w) v (vw_refs w)
          in Some (w\<lparr>vw_video := Some v', vw_dev := g, vw_pools := pools, vw_refs := r,
                     vw_held := vw_held w @ (case held of None \<Rightarrow> [] | Some n \<Rightarrow> [Some \<lparr>hf_frame = Some n, hf_mapped = None\<rparr>]),
                     vw_last := Some (st, out)\<rparr>))"

definition video_call_step :: "libav \<Rightarrow> video_call \<Rightarrow> video_world \<Rightarrow> video_world option" where
  "video_call_step lib c w =
     (case c of
        Call_decode x \<Rightarrow> (case vw_video w of None \<Rightarrow> Some w | Some v \<Rightarrow> call_decode lib x v w)
      | Call_map k memory mapped transfer props f \<Rightarrow> Some (on_held k (apfst Some \<circ> frame_map_refs lib memory mapped transfer props f) w)
      | Call_unmap k \<Rightarrow> Some (on_held k (apfst Some \<circ> vento_video_frame_unmap) w)
      | Call_free k \<Rightarrow> Some (on_held k (\<lambda>x. (None, vento_video_frame_free x)) w)
      | Call_close \<Rightarrow>
          Some (case vw_video w of
                  None \<Rightarrow> w
                | Some _ \<Rightarrow> w\<lparr>vw_video := None, vw_refs := vento_video_close (vw_refs w)\<rparr>))"

fun video_calls :: "libav \<Rightarrow> video_call list \<Rightarrow> video_world \<Rightarrow> video_world option" where
  "video_calls lib [] w = Some w"
| "video_calls lib (c # cs) w = (case video_call_step lib c w of None \<Rightarrow> None | Some w \<Rightarrow> video_calls lib cs w)"

definition video_opened :: "va_device \<Rightarrow> nat \<Rightarrow> vento_video \<Rightarrow> video_world" where
  "video_opened g pools v = \<lparr>vw_video = Some v, vw_dev = g, vw_pools = pools, vw_refs = refs_zero, vw_held = [], vw_last = None\<rparr>"

text \<open>The references of all held pictures.\<close>

definition held_all :: "vento_video_frame option list \<Rightarrow> nat multiset" where
  "held_all hs = sum_list (map (\<lambda>x. case x of None \<Rightarrow> {#} | Some h \<Rightarrow> held_refs h) hs)"

definition readable :: "(video_status \<times> vento_video_picture) option \<Rightarrow> video_refs \<Rightarrow> bool" where
  "readable x r \<longleftrightarrow>
     (case x of
        Some (VENTO_VIDEO_PICTURE, out) \<Rightarrow>
          fr_frame r \<noteq> None \<and> (pic_hardware out = 1 \<or> pic_hardware out = 2 \<longrightarrow> fr_mapped r \<noteq> None)
      | _ \<Rightarrow> True)"

definition world_ok :: "video_world \<Rightarrow> bool" where
  "world_ok w \<longleftrightarrow>
     balanced (held_all (vw_held w)) (vw_refs w) \<and> fr_newer (vw_refs w) = None \<and>
     (\<forall>h. Some h \<in> set (vw_held w) \<longrightarrow> hf_frame h \<noteq> None) \<and>
     (case vw_video w of
        None \<Rightarrow> fr_frame (vw_refs w) = None \<and> fr_mapped (vw_refs w) = None
      | Some v \<Rightarrow> mode_ok v \<and> readable (vw_last w) (vw_refs w))"

lemma held_all_append [simp]: "held_all (xs @ ys) = held_all xs + held_all ys"
  by (simp add: held_all_def)

lemma held_all_take:
  assumes "k < length hs" and "hs ! k = Some h"
  shows "held_all hs = held_refs h + (held_all (take k hs) + held_all (drop (Suc k) hs))"
    and "held_all (hs[k := x]) = (case x of None \<Rightarrow> {#} | Some h \<Rightarrow> held_refs h) + (held_all (take k hs) + held_all (drop (Suc k) hs))"
proof -
  have "hs = take k hs @ Some h # drop (Suc k) hs" using id_take_nth_drop [OF assms(1)] assms(2) by simp
  then have "held_all hs = held_all (take k hs @ Some h # drop (Suc k) hs)" by simp
  then show "held_all hs = held_refs h + (held_all (take k hs) + held_all (drop (Suc k) hs))" by (simp add: held_all_def ac_simps)
  show "held_all (hs[k := x]) = (case x of None \<Rightarrow> {#} | Some h \<Rightarrow> held_refs h) + (held_all (take k hs) + held_all (drop (Suc k) hs))"
    using assms(1) by (simp add: upd_conv_take_nth_drop held_all_def ac_simps)
qed

lemma readable_cong: "fr_frame r' = fr_frame r \<Longrightarrow> fr_mapped r' = fr_mapped r \<Longrightarrow> readable x r' = readable x r"
  by (auto simp: readable_def split: option.split prod.split video_status.split)

lemma held_kept_Some:
  "held_kept H h r y \<Longrightarrow>
   (case apfst Some y of
      (None, r') \<Rightarrow> balanced H r' \<and> fr_frame r' = fr_frame r \<and> fr_newer r' = fr_newer r \<and> fr_mapped r' = fr_mapped r
    | (Some h', r') \<Rightarrow> held_kept H h r (h', r'))"
  by (cases y) simp

lemma on_held_ok:
  assumes ok: "world_ok w"
    and f: "\<And>H h r. held_kept H h r (h, r) \<Longrightarrow>
      (case f (h, r) of
         (None, r') \<Rightarrow> balanced H r' \<and> fr_frame r' = fr_frame r \<and> fr_newer r' = fr_newer r \<and> fr_mapped r' = fr_mapped r
       | (Some h', r') \<Rightarrow> held_kept H h r (h', r'))"
  shows "world_ok (on_held k f w)"
proof (cases "k < length (vw_held w) \<and> vw_held w ! k \<noteq> None")
  case True
  then obtain h where k: "k < length (vw_held w)" "vw_held w ! k = Some h" by auto
  let ?H = "held_all (take k (vw_held w)) + held_all (drop (Suc k) (vw_held w))"
  obtain x r' where x: "f (h, vw_refs w) = (x, r')" by (metis prod.collapse)
  have in_held: "Some h \<in> set (vw_held w)" using k by (metis nth_mem)
  have "held_kept ?H h (vw_refs w) (h, vw_refs w)" using ok held_all_take(1) [OF k] by (simp add: held_kept_def world_ok_def)
  from f [OF this] have kept: "balanced ((case x of None \<Rightarrow> {#} | Some h \<Rightarrow> held_refs h) + ?H) r'"
    "fr_frame r' = fr_frame (vw_refs w)" "fr_newer r' = fr_newer (vw_refs w)" "fr_mapped r' = fr_mapped (vw_refs w)"
    "\<forall>h'. x = Some h' \<longrightarrow> hf_frame h' = hf_frame h"
    by (auto simp: x held_kept_def split: option.splits)
  have "\<forall>h'. Some h' \<in> set ((vw_held w)[k := x]) \<longrightarrow> hf_frame h' \<noteq> None"
  proof (intro allI impI)
    fix h' assume "Some h' \<in> set ((vw_held w)[k := x])"
    then have "Some h' = x \<or> Some h' \<in> set (vw_held w)" by (meson insertE set_update_subset_insert subsetD)
    then show "hf_frame h' \<noteq> None" using kept(5) ok in_held unfolding world_ok_def by metis
  qed
  then show ?thesis using ok k x kept(1-4) held_all_take(2) [OF k, of x]
    by (simp add: on_held_def world_ok_def readable_cong [OF kept(2,4)] split: option.splits)
qed (use ok in \<open>auto simp: on_held_def\<close>)

lemma call_decode_ok:
  assumes "call_decode lib x v w = Some w'" and w: "world_ok w" "vw_video w = Some v" and e: "errors_negative lib"
  shows "world_ok w'"
proof -
  obtain st out fmt pools v' g where d: "vento_video_decode lib (vp_open x) (vp_first x) (vp_again x) (vp_unmap_us x) (vp_len x)
      (vp_hold x) (vw_pools w) (vw_dev w) v = Some ((st, out, fmt, pools, v'), g)"
    using assms(1) by (auto simp: call_decode_def split: option.splits prod.splits)
  obtain r held where d': "decode_refs lib (vp_open x) (vp_first x) (vp_again x) (vp_unmap_us x) (vp_len x) (vp_hold x)
      (vw_pools w) (vw_dev w) v (vw_refs w) = (r, held)" by (metis prod.collapse)
  have ok: "balanced (held_all (vw_held w)) (vw_refs w)" "fr_newer (vw_refs w) = None" "mode_ok v" using w by (simp_all add: world_ok_def)
  note kept = decode_refs_kept [OF d d' ok e] and step = video_decode_step [OF d ok(3) e]
  have "readable (Some (st, out)) r" using kept by (cases st) (auto simp: readable_def picture_kept_def Option.is_none_def)
  moreover have "w' = w\<lparr>vw_video := Some v', vw_dev := g, vw_pools := pools, vw_refs := r,
      vw_held := vw_held w @ (case held of None \<Rightarrow> [] | Some n \<Rightarrow> [Some \<lparr>hf_frame = Some n, hf_mapped = None\<rparr>]), vw_last := Some (st, out)\<rparr>"
    using assms(1) d d' by (simp add: call_decode_def)
  moreover have "held_all (case held of None \<Rightarrow> [] | Some n \<Rightarrow> [Some \<lparr>hf_frame = Some n, hf_mapped = None\<rparr>]) = opt_mset held"
    by (simp add: held_all_def held_refs_def split: option.split)
  ultimately show ?thesis using kept step w(1) by (auto simp: world_ok_def ac_simps split: option.splits)
qed

lemma video_call_step_ok:
  assumes "video_call_step lib c w = Some w'" and w: "world_ok w" and e: "errors_negative lib"
  shows "world_ok w'"
proof (cases c)
  case (Call_decode x)
  then show ?thesis using assms call_decode_ok [OF _ w _ e] by (auto simp: video_call_step_def split: option.splits)
next
  case (Call_map k memory mapped transfer props f)
  have "world_ok (on_held k (apfst Some \<circ> frame_map_refs lib memory mapped transfer props f) w)"
    by (rule on_held_ok [OF w]) (simp only: o_apply, rule held_kept_Some, rule frame_map_refs_kept)
  then show ?thesis using assms(1) Call_map by (simp add: video_call_step_def)
next
  case (Call_unmap k)
  have "world_ok (on_held k (apfst Some \<circ> vento_video_frame_unmap) w)"
    by (rule on_held_ok [OF w]) (simp only: o_apply vento_video_frame_unmap_def, rule held_kept_Some, rule held_unref_kept)
  then show ?thesis using assms(1) Call_unmap by (simp add: video_call_step_def)
next
  case (Call_free k)
  have "world_ok (on_held k (\<lambda>x. (None, vento_video_frame_free x)) w)"
    by (rule on_held_ok [OF w]) (simp add: frame_free_kept)
  then show ?thesis using assms(1) Call_free by (simp add: video_call_step_def)
next
  case Call_close
  then show ?thesis using assms(1) w by (auto simp: video_call_step_def world_ok_def vento_video_close_def split: option.splits)
qed

lemma video_calls_ok:
  "video_calls lib cs w = Some w' \<Longrightarrow> world_ok w \<Longrightarrow> errors_negative lib \<Longrightarrow> world_ok w'"
  by (induction cs arbitrary: w) (auto split: option.splits dest: video_call_step_ok)

text \<open>
  C24. The decoder leaks no picture of the library's, releases none twice and shows none it let go of.  Whatever
  the library answers and in whatever order a caller decodes, maps, unmaps, frees and closes, what is
  referenced is what the decoder's frames and the pictures held refer to, never more than two for the decoder
  itself; the picture a decode returned stays referenced, with its mapping, until the
  next decode or the end; a held picture stays referenced until it is freed, also after the decoder
  was closed; and once the decoder is closed and they are freed nothing is referenced.
\<close>

theorem linux_video_frames:
  assumes "vento_video_open lib oa memory codec hardware g = (Inr v, g')" and "errors_negative lib"
    and "video_calls lib cs (video_opened g' pools v) = Some w"
  shows "live (fr_trace (vw_refs w)) = (True, owned (vw_refs w) + held_all (vw_held w)) \<and> size (owned (vw_refs w)) \<le> 2 \<and>
    (vw_video w \<noteq> None \<longrightarrow> readable (vw_last w) (vw_refs w)) \<and>
    (\<forall>h. Some h \<in> set (vw_held w) \<longrightarrow> hf_frame h \<noteq> None) \<and>
    (vw_video w = None \<and> set (vw_held w) \<subseteq> {None} \<longrightarrow> live (fr_trace (vw_refs w)) = (True, {#}))"
proof -
  have "world_ok (video_opened g' pools v)" using vento_video_open_ok [OF assms(1,2)]
    by (simp add: world_ok_def video_opened_def refs_zero_def balanced_def owned_def held_all_def readable_def)
  from video_calls_ok [OF assms(3) this assms(2)] have ok: "world_ok w" .
  have "set hs \<subseteq> {None} \<Longrightarrow> held_all hs = {#}" for hs by (induction hs) (auto simp: held_all_def)
  moreover have "size (opt_mset x) \<le> 1" for x by (cases x) simp_all
  then have "fr_newer r = None \<Longrightarrow> size (owned r) \<le> 2" for r
    by (metis (no_types, lifting) add_mono nat_1_add_1 opt_mset_simps(1) owned_def add_0_right size_union)
  ultimately show ?thesis using ok by (auto simp: world_ok_def balanced_def owned_def split: option.splits)
qed

text \<open>A surface that is held, mapped after the decoder was closed, and let go of.\<close>

definition example_hold :: video_packet where
  "example_hold = example_video_packet\<lparr>vp_hold := True,
     vp_first := example_packet_answers 0 [Inr (example_nv12\<lparr>vf_format := AV_PIX_FMT_VAAPI, vf_frames := Some (1, AV_PIX_FMT_NV12)\<rparr>), Inl (-11)]\<rparr>"

definition example_calls :: "video_call list" where
  "example_calls = [Call_decode example_hold, Call_close, Call_map 0 True 0 0 0 example_nv12, Call_free 0]"

lemma example_calls_run:
  "\<exists>w. video_calls example_libav example_calls
      (video_opened \<lparr>dev_state = 1, dev_why = []\<rparr> 0
        ((video_zero VENTO_VIDEO_H264)\<lparr>vv_context := True, vv_method := VENTO_VIDEO_HW_VAAPI, vv_hw := True\<rparr>)) = Some w \<and>
    vw_video w = None \<and> vw_held w = [None] \<and>
    fr_trace (vw_refs w) = [Acquire 0, Acquire 1, Release 0, Acquire 2, Release 2, Release 1]"
  by (simp add: example_calls_def example_hold_def example_video_simps video_opened_def refs_zero_def video_call_step_def call_decode_def
      vento_video_decode_def decode_refs_def end_trial_def decode_packet_def decode_packet_refs_def packet_sent_def device_error_def
      picture_refs_def hold_frame_def hold_picture_def holdable_def video_colour_def picture_zero_def on_held_def frame_map_refs_def
      vento_video_frame_map_def describe_def describe_planes_def desc_refused_def samples_refused_def unwanted_flags_def
      chroma_paired_def chroma_separate_def sample_bytes_def row_bytes_def ceil_rshift_def upt_rec
      held_into_def held_unref_def vento_video_frame_free_def vento_video_close_def
      unref_frame_def unref_mapped_def unref_newer_def into_newer_def move_newer_def av_acquire_def av_release_def Let_def)

theorem linux_video_frames_witness:
  "\<exists>w. video_calls example_libav example_calls
      (video_opened \<lparr>dev_state = 1, dev_why = []\<rparr> 0
        ((video_zero VENTO_VIDEO_H264)\<lparr>vv_context := True, vv_method := VENTO_VIDEO_HW_VAAPI, vv_hw := True\<rparr>)) = Some w \<and>
    vw_held w = [None] \<and> length (fr_trace (vw_refs w)) = 6 \<and> live (fr_trace (vw_refs w)) = (True, {#})"
proof -
  obtain w where w: "video_calls example_libav example_calls
      (video_opened \<lparr>dev_state = 1, dev_why = []\<rparr> 0
        ((video_zero VENTO_VIDEO_H264)\<lparr>vv_context := True, vv_method := VENTO_VIDEO_HW_VAAPI, vv_hw := True\<rparr>)) = Some w"
    "vw_video w = None" "vw_held w = [None]"
    "fr_trace (vw_refs w) = [Acquire 0, Acquire 1, Release 0, Acquire 2, Release 2, Release 1]"
    using example_calls_run by blast
  have e: "errors_negative example_libav" by (simp add: example_video_simps)
  from linux_video_frames [OF example_video_open e w(1)] have
    "vw_video w = None \<and> set (vw_held w) \<subseteq> {None} \<longrightarrow> live (fr_trace (vw_refs w)) = (True, {#})" by blast
  with w show ?thesis by auto
qed

end
