(* ===== verification/Va_Shim.thy ===== *)
theory Va_Shim
  imports Prelude
begin

text \<open>
  libva, loaded the first time one of its functions is called, from
  \<open>src/backends/platform/linux/cpp/va_shim.c\<close>: the functions forwarded, with the library each is in
  and what it answers without it, \<open>load\<close>, the forwarding of a call and \<open>vento_va_loaded\<close>, which the
  video decoder names the reason by.

  The dynamic linker is a parameter.  A call of a shim is modelled by what it does with it: it is
  passed on to the real function, with the arguments as they are, or answered here.
\<close>

section \<open>The functions\<close>

datatype va_function =
    vaAcquireBufferHandle | vaBeginPicture | vaCreateBuffer | vaCreateConfig
  | vaCreateContext | vaCreateImage | vaCreateSurfaces | vaDeriveImage
  | vaDestroyBuffer | vaDestroyConfig | vaDestroyContext | vaDestroyImage
  | vaDestroySurfaces | vaEndPicture | vaErrorStr | vaExportSurfaceHandle
  | vaGetDisplayAttributes | vaGetImage | vaInitialize | vaMapBuffer
  | vaMaxNumImageFormats | vaMaxNumProfiles | vaPutImage | vaQueryConfigProfiles
  | vaQueryImageFormats | vaQuerySurfaceAttributes | vaQueryVendorString | vaReleaseBufferHandle
  | vaRenderPicture | vaSetDriverName | vaSetErrorCallback | vaSetInfoCallback
  | vaSyncSurface | vaTerminate | vaUnmapBuffer | vaGetDisplayDRM

datatype va_answer = VA_STATUS_ERROR_OPERATION_FAILED | Va_int int | Va_null | Va_text string

text \<open>Which library a function is in: 0 libva, 1 libva-drm.\<close>

definition va_lib :: "va_function \<Rightarrow> nat" where
  "va_lib f = (if f = vaGetDisplayDRM then 1 else 0)"

text \<open>What a function answers without its library.\<close>

definition va_fail :: "va_function \<Rightarrow> va_answer" where
  "va_fail f =
     (case f of
        vaErrorStr \<Rightarrow> Va_text ''libva is not loaded''
      | vaMaxNumImageFormats \<Rightarrow> Va_int 0
      | vaMaxNumProfiles \<Rightarrow> Va_int 0
      | vaQueryVendorString \<Rightarrow> Va_null
      | vaSetErrorCallback \<Rightarrow> Va_null
      | vaSetInfoCallback \<Rightarrow> Va_null
      | vaGetDisplayDRM \<Rightarrow> Va_null
      | _ \<Rightarrow> VA_STATUS_ERROR_OPERATION_FAILED)"

section \<open>Loading\<close>

text \<open>
  What the dynamic linker answers: an error for a library that does not open, and which functions
  a library has.
\<close>

record linker =
  ld_open :: "nat \<Rightarrow> string option"
  ld_sym :: "nat \<Rightarrow> va_function \<Rightarrow> bool"
  ld_map2 :: bool

text \<open>
  The state of the file: \<open>sh_once\<close> is whether \<open>load\<close> has run, \<open>sh_real\<close> which functions are there, and
  \<open>sh_opened\<close> the libraries the linker was asked for, in order.
\<close>

record va_shim =
  sh_once :: bool
  sh_real :: "va_function \<Rightarrow> bool"
  sh_map2 :: bool
  sh_why :: string
  sh_loaded :: bool
  sh_opened :: "nat list"

definition shim_zero :: va_shim where
  "shim_zero = \<lparr>sh_once = False, sh_real = \<lambda>_. False, sh_map2 = False, sh_why = [], sh_loaded = False, sh_opened = []\<rparr>"

definition resolve :: "linker \<Rightarrow> va_shim \<Rightarrow> va_shim" where
  "resolve ld s = s\<lparr>sh_real := \<lambda>f. ld_sym ld (va_lib f) f, sh_map2 := ld_map2 ld\<rparr>"

definition shim_load :: "linker \<Rightarrow> va_shim \<Rightarrow> va_shim" where
  "shim_load ld s =
     (let s = s\<lparr>sh_opened := sh_opened s @ [0]\<rparr>
      in case ld_open ld 0 of
           Some err \<Rightarrow> s\<lparr>sh_why := snprintf_s 256 err\<rparr>
         | None \<Rightarrow>
             let s = s\<lparr>sh_opened := sh_opened s @ [1]\<rparr>
             in case ld_open ld 1 of
                  Some err \<Rightarrow> s\<lparr>sh_why := snprintf_s 256 err\<rparr>
                | None \<Rightarrow>
                    let s = resolve ld s
                    in if \<not> sh_real s vaGetDisplayDRM \<or> \<not> sh_real s vaInitialize
                       then s\<lparr>sh_why := ''libva has no vaGetDisplayDRM or vaInitialize''\<rparr>
                       else s\<lparr>sh_loaded := True\<rparr>)"

text \<open>\<open>pthread_once\<close>: the first caller loads.\<close>

definition shim_once :: "linker \<Rightarrow> va_shim \<Rightarrow> va_shim" where
  "shim_once ld s = (if sh_once s then s else shim_load ld (s\<lparr>sh_once := True\<rparr>))"

definition vento_va_loaded :: "linker \<Rightarrow> va_shim \<Rightarrow> (bool \<times> string option) \<times> va_shim" where
  "vento_va_loaded ld s =
     (let s = shim_once ld s in ((sh_loaded s, if sh_loaded s then None else Some (sh_why s)), s))"

section \<open>Calling\<close>

datatype va_call = Forwarded va_function | Forwarded_map2 | Answered va_answer

definition va_forward :: "linker \<Rightarrow> va_function \<Rightarrow> va_shim \<Rightarrow> va_call \<times> va_shim" where
  "va_forward ld f s =
     (let s = shim_once ld s in (if sh_real s f then Forwarded f else Answered (va_fail f), s))"

definition vaMapBuffer2 :: "linker \<Rightarrow> va_shim \<Rightarrow> va_call \<times> va_shim" where
  "vaMapBuffer2 ld s =
     (let s = shim_once ld s
      in (if sh_map2 s then Forwarded_map2
          else if sh_real s vaMapBuffer then Forwarded vaMapBuffer
          else Answered VA_STATUS_ERROR_OPERATION_FAILED, s))"

datatype shim_use = Calls va_function | Calls_map2 | Asks

datatype shim_result = Called va_call | Said bool "string option"

fun shim_use_step :: "linker \<Rightarrow> shim_use \<Rightarrow> va_shim \<Rightarrow> shim_result \<times> va_shim" where
  "shim_use_step ld (Calls f) s = (let (r, s) = va_forward ld f s in (Called r, s))"
| "shim_use_step ld Calls_map2 s = (let (r, s) = vaMapBuffer2 ld s in (Called r, s))"
| "shim_use_step ld Asks s = (let ((ok, why), s) = vento_va_loaded ld s in (Said ok why, s))"

fun shim_run :: "(linker \<times> shim_use) list \<Rightarrow> va_shim \<Rightarrow> shim_result list \<times> va_shim" where
  "shim_run [] s = ([], s)"
| "shim_run ((ld, u) # us) s =
     (let (r, s) = shim_use_step ld u s; (rs, s) = shim_run us s in (r # rs, s))"

section \<open>Loaded once, and consistently\<close>

text \<open>What a use is answered from a shim that is loaded.\<close>

fun shim_answer :: "va_shim \<Rightarrow> shim_use \<Rightarrow> shim_result" where
  "shim_answer s (Calls f) = Called (if sh_real s f then Forwarded f else Answered (va_fail f))"
| "shim_answer s Calls_map2 =
     Called (if sh_map2 s then Forwarded_map2 else if sh_real s vaMapBuffer then Forwarded vaMapBuffer
             else Answered VA_STATUS_ERROR_OPERATION_FAILED)"
| "shim_answer s Asks = Said (sh_loaded s) (if sh_loaded s then None else Some (sh_why s))"

lemma shim_use_step_eq: "shim_use_step ld u s = (shim_answer (shim_once ld s) u, shim_once ld s)"
  by (cases u) (simp_all add: va_forward_def vaMapBuffer2_def vento_va_loaded_def Let_def)

lemma shim_once_done: "sh_once s \<Longrightarrow> shim_once ld s = s"
  by (simp add: shim_once_def)

lemma sh_once_load [simp]: "sh_once (shim_load ld s) = sh_once s"
  by (simp add: shim_load_def resolve_def Let_def split: option.split)

lemma sh_once_once [simp]: "sh_once (shim_once ld s)"
  by (simp add: shim_once_def)

lemma shim_run_done: "sh_once s \<Longrightarrow> shim_run us s = (map (shim_answer s \<circ> snd) us, s)"
  by (induction us) (auto simp: shim_use_step_eq shim_once_done)

text \<open>What the first use finds: nothing of libva without both libraries, and agreement with what is said of it.\<close>

lemma shim_load_zero:
  assumes "s = shim_load ld (shim_zero\<lparr>sh_once := True\<rparr>)"
  shows "sh_opened s = (if ld_open ld 0 = None then [0, 1] else [0])"
    and "sh_loaded s \<longleftrightarrow> ld_open ld 0 = None \<and> ld_open ld 1 = None \<and> sh_real s vaGetDisplayDRM \<and> sh_real s vaInitialize"
    and "sh_real s f \<longleftrightarrow> ld_open ld 0 = None \<and> ld_open ld 1 = None \<and> ld_sym ld (va_lib f) f"
    and "ld_open ld 0 \<noteq> None \<or> ld_open ld 1 \<noteq> None \<Longrightarrow> \<not> sh_map2 s"
  using assms by (auto simp: shim_load_def resolve_def shim_zero_def Let_def split: option.splits)

text \<open>
  libva is loaded only when it is called, and once.  A process that calls nothing opens nothing;
  otherwise each of the two libraries is opened at most once, by the first use, and every use
  after it, by whichever thread and whatever the linker would say by then, is answered as that
  use was: the library is said to be loaded, or a reason given, consistently, a library said
  to be loaded can be initialised, and without one of the libraries every function answers its
  own failure, \<open>vaMapBuffer2\<close> included.
\<close>

theorem va_shim_once:
  assumes "shim_run us shim_zero = (rs, s)"
  shows "(us = [] \<longrightarrow> sh_opened s = []) \<and> distinct (sh_opened s) \<and> set (sh_opened s) \<subseteq> {0, 1} \<and>
    rs = map (shim_answer s \<circ> snd) us \<and>
    (sh_loaded s \<longrightarrow> sh_real s vaGetDisplayDRM \<and> sh_real s vaInitialize) \<and>
    (us \<noteq> [] \<and> (ld_open (fst (hd us)) 0 \<noteq> None \<or> ld_open (fst (hd us)) 1 \<noteq> None) \<longrightarrow>
       \<not> sh_loaded s \<and> (\<forall>f. shim_answer s (Calls f) = Called (Answered (va_fail f))) \<and>
       shim_answer s Calls_map2 = Called (Answered VA_STATUS_ERROR_OPERATION_FAILED))"
proof (cases us)
  case (Cons x us')
  obtain ld u where x: "x = (ld, u)" by (cases x)
  let ?s = "shim_load ld (shim_zero\<lparr>sh_once := True\<rparr>)"
  have once: "shim_once ld shim_zero = ?s" by (simp add: shim_once_def shim_zero_def)
  have "sh_once ?s" by simp
  then have r: "s = ?s" "rs = map (shim_answer s \<circ> snd) us"
    using assms by (auto simp: Cons x shim_use_step_eq once shim_run_done)
  show ?thesis using r shim_load_zero [OF r(1)] by (auto simp: Cons x)
qed (use assms in \<open>auto simp: shim_zero_def\<close>)

theorem va_shim_once_witness:
  "let ld = \<lparr>ld_open = \<lambda>n. if n = 1 then Some ''no libva-drm'' else None, ld_sym = \<lambda>_ _. True, ld_map2 = True\<rparr>;
       late = \<lparr>ld_open = \<lambda>_. None, ld_sym = \<lambda>_ _. True, ld_map2 = True\<rparr> in
   fst (shim_run [(ld, Calls vaGetDisplayDRM), (late, Calls_map2), (late, Asks)] shim_zero) =
     [Called (Answered Va_null), Called (Answered VA_STATUS_ERROR_OPERATION_FAILED), Said False (Some ''no libva-drm'')]"
proof -
  let ?ld = "\<lparr>ld_open = \<lambda>n. if n = 1 then Some ''no libva-drm'' else None, ld_sym = \<lambda>_ _. True, ld_map2 = True\<rparr>"
  let ?late = "\<lparr>ld_open = \<lambda>_. None, ld_sym = \<lambda>_ _. True, ld_map2 = True\<rparr>"
  obtain rs s where r: "shim_run [(?ld, Calls vaGetDisplayDRM), (?late, Calls_map2), (?late, Asks)] shim_zero = (rs, s)"
    by (metis prod.collapse)
  then have "sh_why s = ''no libva-drm''"
    by (auto simp: shim_use_step_eq shim_once_def shim_load_def shim_zero_def snprintf_s_def Let_def)
  with va_shim_once [OF r] r show ?thesis by (auto simp: va_fail_def Let_def)
qed

end
