(* ===== verification/Linux_Log.thy ===== *)
theory Linux_Log
  imports Prelude
begin

text \<open>
  The log lines of the Linux client: \<open>vento_log_line\<close> and \<open>vento_log\<close> of
  \<open>src/backends/platform/linux/cpp/vento_log.c\<close>, and the callback that turns what FFmpeg logs into such
  lines, \<open>log_line\<close> of \<open>vento_video.c\<close>.

  The local time, and what a format and its arguments print, are parameters; what is written to
  standard error is the value.  A message is a string without a NUL, as \<open>vsnprintf\<close> makes one.
\<close>

section \<open>A line\<close>

text \<open>\<open>%02d\<close> and \<open>%03ld\<close> of a number that is not negative.\<close>

definition padded :: "nat \<Rightarrow> nat \<Rightarrow> string" where
  "padded w n = (let s = show_nat n in replicate (w - length s) (CHR ''0'') @ s)"

record local_time =
  tm_hour :: nat
  tm_min :: nat
  tm_sec :: nat
  tm_ns :: nat

definition clock_text :: "local_time option \<Rightarrow> string" where
  "clock_text local =
     (case local of
        Some t \<Rightarrow> padded 2 (tm_hour t) @ '':'' @ padded 2 (tm_min t) @ '':'' @ padded 2 (tm_sec t) @ ''.'' @
                  padded 3 (tm_ns t div 1000000)
      | None \<Rightarrow> ''--:--:--.---'')"

definition line_prefix :: "local_time option \<Rightarrow> char \<Rightarrow> string \<Rightarrow> nat \<Rightarrow> string" where
  "line_prefix local level tag tag_len =
     (let prefix = clock_text local @ '' '' @ [level] @ '' '' @ takeWhile (\<lambda>c. c \<noteq> CHR 0x00) (take tag_len tag) @ '': '';
          n = (if length prefix \<ge> 128 then 127 else length prefix)
      in take n prefix)"

text \<open>The parts of the one write: the prefix cut to its buffer, the text, a newline.\<close>

definition vento_log_line :: "local_time option \<Rightarrow> char \<Rightarrow> string \<Rightarrow> nat \<Rightarrow> string \<Rightarrow> nat \<Rightarrow> string" where
  "vento_log_line local level tag tag_len text text_len =
     line_prefix local level tag tag_len @ take text_len text @ [CHR 0x0A]"

section \<open>A message of a session\<close>

datatype log_level = VENTO_LOG_INFO | VENTO_LOG_WARN | Log_level_other int

text \<open>The loop over the trailing characters: how many are kept.\<close>

fun strip_from :: "(char \<Rightarrow> bool) \<Rightarrow> string \<Rightarrow> nat \<Rightarrow> nat" where
  "strip_from P line n = (if n > 0 \<and> P (line ! (n - 1)) then strip_from P line (n - 1) else n)"

declare strip_from.simps [simp del]

text \<open>The buffer's text after a message, with the dots of one that was cut.\<close>

definition log_body :: "string \<Rightarrow> string" where
  "log_body message =
     (let line = snprintf_s 1024 message;
          cut = length message \<ge> 1024;
          n = (if cut then 1024 - 4 else length message);
          n = strip_from (\<lambda>c. c = CHR 0x0A) line n
      in take n line @ (if cut then ''...'' else []))"

definition vento_log :: "local_time option \<Rightarrow> log_level \<Rightarrow> string \<Rightarrow> string \<Rightarrow> string" where
  "vento_log local level tag message =
     (let body = log_body message
      in vento_log_line local (if level = VENTO_LOG_WARN then CHR ''W'' else CHR ''I'') tag (length tag) body (length body))"

section \<open>A message of FFmpeg\<close>

text \<open>
  \<open>AV_LOG_WARNING\<close> is a parameter of the library's, \<open>most\<close> the level it logs up to; \<open>None\<close> is a line
  that is not written.
\<close>

definition log_line :: "int \<Rightarrow> int \<Rightarrow> local_time option \<Rightarrow> int \<Rightarrow> string \<Rightarrow> string option" where
  "log_line warning most local level message =
     (let level = (if level \<ge> 0 then level mod 256 else level)
      in if level > most then None
         else let line = snprintf_s 1024 message;
                  n = (if length message \<ge> 1024 then 1024 - 1 else length message);
                  n = strip_from (\<lambda>c. c = CHR 0x0A \<or> c = CHR 0x0D) line n
              in if n > 0
                 then Some (vento_log_line local (if level \<le> warning then CHR ''W'' else CHR ''I'') ''ffmpeg'' 6 line n)
                 else None)"

section \<open>Lines stay whole\<close>

text \<open>The loop stops at the last character that is none of those dropped.\<close>

lemma strip_from_spec:
  "n \<le> length line \<Longrightarrow> take (strip_from P line n) line = rev (dropWhile P (rev (take n line)))"
proof (induction P line n rule: strip_from.induct)
  case (1 P line n)
  show ?case
  proof (cases n)
    case (Suc m)
    then have "take n line = take m line @ [line ! m]" using 1(2) by (simp add: take_Suc_conv_app_nth)
    then show ?thesis using 1 Suc by (subst strip_from.simps) simp
  qed (subst strip_from.simps, simp)
qed

lemma strip_from_le: "strip_from P line n \<le> n"
  by (induction P line n rule: strip_from.induct) (subst strip_from.simps, auto)

definition strip_newlines :: "string \<Rightarrow> string" where
  "strip_newlines s = rev (dropWhile (\<lambda>c. c = CHR 0x0A) (rev s))"

lemma set_strip_newlines: "set (strip_newlines s) \<subseteq> set s"
  unfolding strip_newlines_def using set_dropWhileD by fastforce

lemma strip_newlines_take: "\<exists>n\<le>length s. strip_newlines s = take n s"
  by (rule exI [of _ "strip_from (\<lambda>c. c = CHR 0x0A) s (length s)"])
    (simp add: strip_from_spec strip_from_le strip_newlines_def)

lemma length_strip_newlines: "length (strip_newlines s) \<le> length s"
  using length_dropWhile_le [of "\<lambda>c. c = CHR 0x0A" "rev s"] by (simp add: strip_newlines_def)

lemma log_body_eq:
  "log_body message =
     (if length message < 1024 then strip_newlines message else strip_newlines (take 1020 message) @ ''...'')"
proof (cases "length message < 1024")
  case True
  then have "take 1023 message = message" by simp
  then show ?thesis using True strip_from_spec [of "length message" message]
    by (simp only: log_body_def snprintf_s_def Let_def strip_newlines_def) simp
next
  case False
  then show ?thesis using strip_from_spec [of 1020 "take 1023 message"]
    by (simp add: log_body_def snprintf_s_def Let_def strip_newlines_def)
qed

text \<open>The characters a line has besides the message's own.\<close>

lemma newline_free_clock: "CHR 0x0A \<notin> set (clock_text local)"
proof -
  have "CHR 0x0A \<notin> set (show_nat n)" for n
    using show_nat_digits [of n] digit_not_special by (auto simp: list_all_iff is_digit_def)
  then show ?thesis by (auto simp: clock_text_def padded_def Let_def split: option.split)
qed

lemma length_line_prefix: "length (line_prefix local level tag tag_len) < 128"
proof -
  have "length (take (if length s \<ge> 128 then 127 else length s) s) < 128" for s :: string by simp
  then show ?thesis unfolding line_prefix_def Let_def .
qed

lemma newline_free_prefix:
  assumes "CHR 0x0A \<notin> set tag" and "level \<noteq> CHR 0x0A"
  shows "CHR 0x0A \<notin> set (line_prefix local level tag tag_len)"
proof -
  have "CHR 0x0A \<notin> set (clock_text local @ '' '' @ [level] @ '' '' @ takeWhile (\<lambda>c. c \<noteq> CHR 0x00) (take tag_len tag) @ '': '')"
    using newline_free_clock assms by (auto dest: set_takeWhileD in_set_takeD)
  then show ?thesis unfolding line_prefix_def Let_def by (blast dest: in_set_takeD)
qed

lemma length_log_body: "length (log_body message) < 1024"
  using length_strip_newlines [of message] length_strip_newlines [of "take 1020 message"] by (simp add: log_body_eq)

text \<open>
  Every message of a session is one line.  The text of the line stays within its buffer, the dots
  of a message that was cut included, and is the message without the newlines at its end or, when
  it does not fit, its first 1020 characters without them and three dots.  When neither the
  message, its end apart, nor the tag has a newline, the only newline of what is written is its
  last character, and what comes before the text is cut to 127 characters.
\<close>

theorem linux_log_one_line:
  assumes "CHR 0x0A \<notin> set (strip_newlines message)" and "CHR 0x0A \<notin> set tag"
  shows "\<exists>prefix. vento_log local level tag message = prefix @ log_body message @ [CHR 0x0A] \<and>
    length prefix < 128 \<and> length (log_body message) < 1024 \<and>
    CHR 0x0A \<notin> set prefix \<and> CHR 0x0A \<notin> set (log_body message) \<and>
    (if length message < 1024 then log_body message = strip_newlines message
     else log_body message = strip_newlines (take 1020 message) @ ''...'')"
proof -
  let ?level = "if level = VENTO_LOG_WARN then CHR ''W'' else CHR ''I''"
  have "CHR 0x0A \<notin> set (strip_newlines (take 1020 message))"
  proof
    assume in_cut: "CHR 0x0A \<in> set (strip_newlines (take 1020 message))"
    have app: "strip_newlines (a @ b) = (if strip_newlines b = [] then strip_newlines a else a @ strip_newlines b)" for a b
      by (auto simp: strip_newlines_def dropWhile_append dropWhile_eq_Nil_conv)
    have "set (strip_newlines (take 1020 message)) \<subseteq> set (strip_newlines message)"
      using app [of "take 1020 message" "drop 1020 message"] set_strip_newlines [of "take 1020 message"] by auto
    with assms(1) in_cut show False by blast
  qed
  then show ?thesis
    using length_log_body [of message] assms(1) length_line_prefix newline_free_prefix [OF assms(2), of ?level]
    by (intro exI [of _ "line_prefix local ?level tag (length tag)"])
      (auto simp: vento_log_def vento_log_line_def log_body_eq)
qed

theorem linux_log_one_line_witness:
  "vento_log (Some \<lparr>tm_hour = 14, tm_min = 3, tm_sec = 27, tm_ns = 512999999\<rparr>) VENTO_LOG_INFO ''libvnc'' (''hi'' @ [CHR 0x0A]) =
     ''14:03:27.512 I libvnc: hi'' @ [CHR 0x0A] \<and> length (log_body (''hi'' @ [CHR 0x0A])) < 1024"
proof -
  let ?m = "''hi'' @ [CHR 0x0A]"
  have "CHR 0x0A \<notin> set (strip_newlines ?m)" "CHR 0x0A \<notin> set ''libvnc''" by (simp_all add: strip_newlines_def)
  from linux_log_one_line [OF this] have "length (log_body ?m) < 1024" by blast
  then show ?thesis
    by (simp add: vento_log_def vento_log_line_def log_body_eq strip_newlines_def clock_text_def line_prefix_def padded_def show_nat.simps Let_def) code_simp
qed

text \<open>A line of FFmpeg is written only when something is left of it and never longer than the buffers.\<close>

theorem ffmpeg_log_line:
  assumes "log_line warning most local level message = Some line"
  shows "length line \<le> 127 + 1023 + 1 \<and> last line = CHR 0x0A \<and> line ! (length line - 2) \<notin> {CHR 0x0A, CHR 0x0D}"
proof -
  let ?P = "\<lambda>c. c = CHR 0x0A \<or> c = CHR 0x0D"
  define body where "body = take 1023 message"
  define n where "n = strip_from ?P body (length body)"
  have t: "take n body = rev (dropWhile ?P (rev body))" unfolding n_def using strip_from_spec [of "length body" body ?P] by simp
  have n: "n \<le> length body" unfolding n_def by (rule strip_from_le)
  have len: "(if length message \<ge> 1024 then 1024 - 1 else length message) = length body" by (simp add: body_def)
  obtain prefix where p: "line = prefix @ take n body @ [CHR 0x0A]" "length prefix < 128" "0 < n"
    using assms unfolding log_line_def Let_def snprintf_s_def len
    by (auto simp: vento_log_line_def body_def [symmetric] n_def [symmetric] length_line_prefix split: if_splits)
  have ne: "take n body \<noteq> []" using p(3) n by auto
  then have "\<not> ?P (last (take n body))" using hd_dropWhile [of ?P "rev body"] unfolding t by (simp add: last_rev)
  moreover have "line ! (length line - 2) = last (take n body)"
  proof -
    have "line = (prefix @ butlast (take n body)) @ last (take n body) # [CHR 0x0A]" using ne p(1) by simp
    moreover from this have "length line - 2 = length (prefix @ butlast (take n body))" by simp
    ultimately show ?thesis by (metis nth_append_length)
  qed
  ultimately show ?thesis using p n by (simp add: body_def)
qed

end
