(* ===== verification/Realvnc_Traffic.thy ===== *)
theory Realvnc_Traffic
  imports Prelude
begin

text \<open>
  The byte count of a RealVNC session, read out of the memory of a viewer core nothing is known of
  but its offsets: \<open>src/backends/modules/realvnc/cpp/realvnc_traffic.h\<close>, the walk through the
  core's pointers, every hop copied through a pipe so that an address that is not mapped is an
  error and not a crash, and \<open>realvnc_traffic.c\<close>, the entry the phone reads it through.

  The core's memory is a parameter, \<open>mem\<close>, \<open>None\<close> where nothing is mapped.  The kernel's pipe is a
  queue of bytes; how much of a write it takes is a parameter too, limited by what is mapped.
\<close>

section \<open>The pipe\<close>

type_synonym core_mem = "u64 \<Rightarrow> u8 option"

definition HOP_A :: u64 where "HOP_A = 0x1c8"
definition HOP_C :: u64 where "HOP_C = 0x1c8"
definition OWNER :: u64 where "OWNER = 0x2e8"
definition EST :: u64 where "EST = 8"
definition EST_ELAPSED :: nat where "EST_ELAPSED = 0x00"
definition EST_KILOBITS :: nat where "EST_KILOBITS = 0x08"
definition EST_RTT :: nat where "EST_RTT = 0x20"
definition EST_MARK :: nat where "EST_MARK = 0x28"
definition EST_BYTES :: nat where "EST_BYTES = 0x30"

text \<open>\<open>pr_open\<close> is whether \<open>probe_pipe\<close> holds descriptors, \<open>pr_pipe\<close> what is in the pipe.\<close>

record probe =
  pr_open :: bool
  pr_pipe :: bytes

text \<open>
  What the kernel answers to one probe: \<open>ka_pipe\<close>, whether a pipe is made when there is none;
  \<open>ka_takes\<close>, how many bytes of the write it takes, \<open>None\<close> when it refuses (a full pipe).
\<close>

record kernel_answer =
  ka_pipe :: bool
  ka_takes :: "nat option"

definition probe_open :: "kernel_answer \<Rightarrow> probe \<Rightarrow> bool \<times> probe" where
  "probe_open ka p = (if \<not> pr_open p \<and> \<not> ka_pipe ka then (False, p) else (True, p\<lparr>pr_open := True\<rparr>))"

text \<open>The bytes at an address, up to the first one that is not mapped.\<close>

primrec mapped_bytes :: "core_mem \<Rightarrow> u64 \<Rightarrow> nat \<Rightarrow> bytes" where
  "mapped_bytes mem addr 0 = []"
| "mapped_bytes mem addr (Suc n) =
     (case mem addr of None \<Rightarrow> [] | Some b \<Rightarrow> b # mapped_bytes mem (addr + 1) n)"

text \<open>\<open>write\<close> to the pipe: a source that is not mapped from its first byte on is \<open>EFAULT\<close>.\<close>

definition pipe_write :: "core_mem \<Rightarrow> kernel_answer \<Rightarrow> u64 \<Rightarrow> nat \<Rightarrow> probe \<Rightarrow> int \<times> probe" where
  "pipe_write mem ka addr len p =
     (case ka_takes ka of
        None \<Rightarrow> (-1, p)
      | Some k \<Rightarrow>
          let taken = take k (mapped_bytes mem addr len)
          in if taken = [] then (-1, p) else (int (length taken), p\<lparr>pr_pipe := pr_pipe p @ taken\<rparr>))"

text \<open>\<open>read\<close> from the pipe: what is there up to \<open>len\<close>, \<open>EAGAIN\<close> when it is empty.\<close>

definition pipe_read :: "nat \<Rightarrow> probe \<Rightarrow> int \<times> bytes \<times> probe" where
  "pipe_read len p =
     (if pr_pipe p = [] then (-1, [], p)
      else (int (min len (length (pr_pipe p))), take len (pr_pipe p), p\<lparr>pr_pipe := drop len (pr_pipe p)\<rparr>))"

definition probe_read :: "core_mem \<Rightarrow> kernel_answer \<Rightarrow> u64 \<Rightarrow> nat \<Rightarrow> probe \<Rightarrow> bytes option \<times> probe" where
  "probe_read mem ka addr len p =
     (let (opened, p) = probe_open ka p
      in if \<not> opened then (None, p)
         else let (n, p) = pipe_write mem ka addr len p
         in if n = int len
            then let (got, dst, p) = pipe_read len p in (if got = int len then Some dst else None, p)
            else if n > 0 then let (_, _, p) = pipe_read (nat n) p in (None, p)
            else (None, p))"

section \<open>The walk\<close>

text \<open>A little-endian word of memory, as the \<open>memcpy\<close> of an LP64 machine reads it.\<close>

definition le_word :: "bytes \<Rightarrow> 'a::len word" where
  "le_word bs = word_of_int (horner_sum uint 256 bs)"

definition hop :: "core_mem \<Rightarrow> kernel_answer \<Rightarrow> u64 \<Rightarrow> u64 \<Rightarrow> probe \<Rightarrow> u64 option \<times> probe" where
  "hop mem ka base offset p =
     (case probe_read mem ka (base + offset) 8 p of
        (None, p) \<Rightarrow> (None, p)
      | (Some bs, p) \<Rightarrow>
          let v = le_word bs :: u64 in (if v \<noteq> 0 \<and> v AND 7 = 0 then Some v else None, p))"

definition realvnc_estimator_at ::
  "core_mem \<Rightarrow> kernel_answer \<Rightarrow> kernel_answer \<Rightarrow> u64 \<Rightarrow> probe \<Rightarrow> u64 option \<times> probe"
where
  "realvnc_estimator_at mem ka kc token p =
     (case hop mem ka token HOP_A p of
        (None, p) \<Rightarrow> (None, p)
      | (Some a, p) \<Rightarrow>
          (case hop mem kc a HOP_C p of
             (None, p) \<Rightarrow> (None, p)
           | (Some c, p) \<Rightarrow> (Some (c + OWNER + EST), p)))"

text \<open>
  The entry: \<open>out\<close> is the array of the caller, \<open>None\<close> for null; what it answers and the array
  after it.
\<close>

definition nativeEstimator ::
  "core_mem \<Rightarrow> kernel_answer \<times> kernel_answer \<times> kernel_answer \<Rightarrow> u64 \<Rightarrow> u64 list option \<Rightarrow> probe \<Rightarrow>
   bool \<times> u64 list option \<times> probe"
where
  "nativeEstimator mem kas token out p =
     (let (ka, kc, ke) = kas
      in case out of
           None \<Rightarrow> (False, out, p)
         | Some xs \<Rightarrow>
             if token = 0 \<or> length xs < 4 then (False, out, p)
             else case realvnc_estimator_at mem ka kc token p of
               (None, p) \<Rightarrow> (False, out, p)
             | (Some est, p) \<Rightarrow>
                 (case probe_read mem ke est EST_BYTES p of
                    (None, p) \<Rightarrow> (False, out, p)
                  | (Some bs, p) \<Rightarrow>
                      let at = (\<lambda>offset n. take n (drop offset bs));
                          elapsed = le_word (at EST_ELAPSED 8);
                          kilobits = le_word (at EST_KILOBITS 8);
                          rtt = le_word (at EST_RTT 8);
                          mark = le_word (at EST_MARK 4) :: u32
                      in (True, Some ([elapsed, kilobits, rtt, ucast mark] @ drop 4 xs), p)))"

section \<open>A probe\<close>

lemma length_mapped_bytes: "length (mapped_bytes mem addr n) \<le> n"
  by (induction n arbitrary: addr) (auto split: option.splits)

text \<open>The bytes of a range all of which is mapped.\<close>

definition mem_at :: "core_mem \<Rightarrow> u64 \<Rightarrow> nat \<Rightarrow> bytes \<Rightarrow> bool" where
  "mem_at mem addr n bs \<longleftrightarrow> length bs = n \<and> (\<forall>i<n. mem (addr + of_nat i) = Some (bs ! i))"

lemma mapped_bytes_mem_at: "mem_at mem addr n (mapped_bytes mem addr n)" if "length (mapped_bytes mem addr n) = n"
  using that
proof (induction n arbitrary: addr)
  case (Suc n)
  from Suc.prems obtain b where b: "mem addr = Some b" "length (mapped_bytes mem (addr + 1) n) = n"
    by (auto split: option.splits)
  from Suc.IH [OF b(2)] b show ?case
    by (auto simp: mem_at_def less_Suc_eq_0_disj algebra_simps)
qed (simp add: mem_at_def)

lemma mem_at_mapped_bytes: "mem_at mem addr n bs \<Longrightarrow> mapped_bytes mem addr n = bs"
proof (induction n arbitrary: addr bs)
  case (Suc n)
  then obtain b bs' where bs: "bs = b # bs'" by (cases bs) (auto simp: mem_at_def)
  then have "mem addr = Some b" using Suc.prems by (auto simp: mem_at_def dest: spec [of _ 0])
  moreover have "mem_at mem (addr + 1) n bs'"
    using Suc.prems by (auto simp: mem_at_def bs algebra_simps dest!: spec [of _ "Suc i" for i])
  ultimately show ?case using Suc.IH bs by simp
qed (simp add: mem_at_def)

text \<open>
  A probe of an empty pipe leaves it empty, whatever the kernel took, so no byte of one probe is
  ever read as another's; what it reads is the memory asked for, all of it mapped; and it reads
  it when the kernel makes the pipe and takes the whole.
\<close>

lemma probe_read_eq:
  assumes "pr_pipe p = []" and "0 < len"
  shows "probe_read mem ka addr len p =
    (if \<not> pr_open p \<and> \<not> ka_pipe ka then (None, p)
     else (case ka_takes ka of
             None \<Rightarrow> None
           | Some k \<Rightarrow> let t = take k (mapped_bytes mem addr len) in if length t = len then Some t else None,
           p\<lparr>pr_open := True\<rparr>))"
proof (cases "(pr_open p \<or> ka_pipe ka) \<and> ka_takes ka \<noteq> None")
  case True
  then obtain k where k: "ka_takes ka = Some k" by auto
  let ?t = "take k (mapped_bytes mem addr len)"
  consider "?t = []" | "?t \<noteq> []" "length ?t = len" | "?t \<noteq> []" "length ?t \<noteq> len" by blast
  then show ?thesis
    by cases (use True assms k in \<open>auto simp add: probe_read_def probe_open_def pipe_write_def pipe_read_def Let_def simp del: length_take take_eq_Nil take_take\<close>)
qed (use assms in \<open>auto simp: probe_read_def probe_open_def pipe_write_def\<close>)

lemma probe_read_spec:
  assumes "probe_read mem ka addr len p = (r, p')" and "pr_pipe p = []" and "0 < len"
  shows "pr_pipe p' = []" and "r = Some bs \<Longrightarrow> mem_at mem addr len bs"
    and "mem_at mem addr len bs \<Longrightarrow> pr_open p \<or> ka_pipe ka \<Longrightarrow> ka_takes ka = Some k \<Longrightarrow> len \<le> k \<Longrightarrow> r = Some bs \<and> pr_open p'"
proof -
  let ?m = "mapped_bytes mem addr len"
  note r = assms(1) [unfolded probe_read_eq [OF assms(2,3)]]
  show "pr_pipe p' = []" using r assms(2) by (auto split: if_splits)
  show "mem_at mem addr len bs" if some: "r = Some bs"
  proof -
    obtain k where k: "bs = take k ?m" "length bs = len"
      using r some by (auto simp: Let_def split: if_splits option.splits)
    then have "bs = ?m" using length_mapped_bytes [of mem addr len] by simp
    then show ?thesis using mapped_bytes_mem_at [of mem addr len] k(2) by simp
  qed
  show "r = Some bs \<and> pr_open p'" if "mem_at mem addr len bs" "pr_open p \<or> ka_pipe ka" "ka_takes ka = Some k" "len \<le> k"
    using r that mem_at_mapped_bytes [OF that(1)] by (auto simp: mem_at_def)
qed

section \<open>The walk is safe and finds the estimator\<close>

text \<open>The pointer at an address, when the core's memory holds one a hop accepts.\<close>

definition points_to :: "core_mem \<Rightarrow> u64 \<Rightarrow> u64 \<Rightarrow> bool" where
  "points_to mem addr v \<longleftrightarrow> (\<exists>bs. mem_at mem addr 8 bs \<and> v = le_word bs) \<and> v \<noteq> 0 \<and> v AND 7 = 0"

definition answers_all :: "kernel_answer \<Rightarrow> bool" where
  "answers_all ka \<longleftrightarrow> ka_pipe ka \<and> (\<exists>k. ka_takes ka = Some k \<and> EST_BYTES \<le> k)"

lemma mem_at_unique: "mem_at mem addr n bs \<Longrightarrow> mem_at mem addr n bs' \<Longrightarrow> bs = bs'"
  using mem_at_mapped_bytes by blast

lemma points_to_unique: "points_to mem addr v \<Longrightarrow> points_to mem addr v' \<Longrightarrow> v = v'"
  by (auto simp: points_to_def dest: mem_at_unique)

lemma hop_spec:
  assumes "hop mem ka base offset p = (r, p')" and "pr_pipe p = []"
  shows "pr_pipe p' = []" and "r = Some v \<Longrightarrow> points_to mem (base + offset) v"
    and "points_to mem (base + offset) v \<Longrightarrow> answers_all ka \<Longrightarrow> r = Some v"
proof -
  obtain r1 p1 where r1: "probe_read mem ka (base + offset) 8 p = (r1, p1)" by (metis prod.collapse)
  note spec = probe_read_spec [OF r1 assms(2)]
  have r: "p' = p1" "r = (case r1 of None \<Rightarrow> None | Some bs \<Rightarrow> let v = le_word bs in if v \<noteq> 0 \<and> v AND 7 = 0 then Some v else None)"
    using assms(1) r1 by (auto simp: hop_def Let_def split: option.splits)
  show "pr_pipe p' = []" using spec(1) r(1) by simp
  show "points_to mem (base + offset) v" if "r = Some v"
    using that r(2) spec(2) by (auto simp: points_to_def Let_def split: option.splits if_splits)
  show "r = Some v" if pt: "points_to mem (base + offset) v" and a: "answers_all ka"
  proof -
    obtain bs where bs: "mem_at mem (base + offset) 8 bs" "v = le_word bs" using pt by (auto simp: points_to_def)
    obtain k where "ka_pipe ka" "ka_takes ka = Some k" "8 \<le> k" using a by (auto simp: answers_all_def EST_BYTES_def)
    then have "r1 = Some bs" using spec(3) [OF _ bs(1)] by simp
    then show ?thesis using r(2) pt bs(2) by (simp add: points_to_def)
  qed
qed

definition estimator :: "core_mem \<Rightarrow> u64 \<Rightarrow> bytes \<Rightarrow> bool" where
  "estimator mem token bs \<longleftrightarrow>
     (\<exists>a c. points_to mem (token + HOP_A) a \<and> points_to mem (a + HOP_C) c \<and> mem_at mem (c + OWNER + EST) EST_BYTES bs)"

definition estimator_values :: "bytes \<Rightarrow> u64 list" where
  "estimator_values bs =
     [le_word (take 8 bs), le_word (take 8 (drop 8 bs)), le_word (take 8 (drop 32 bs)),
      ucast (le_word (take 4 (drop 40 bs)) :: u32)]"

lemma estimator_iff:
  "points_to mem (token + HOP_A) a \<Longrightarrow> points_to mem (a + HOP_C) c \<Longrightarrow>
   estimator mem token bs \<longleftrightarrow> mem_at mem (c + OWNER + EST) EST_BYTES bs"
  unfolding estimator_def by (metis points_to_unique)

text \<open>The walk leaves the pipe empty, finds the address of the estimator or none, and finds it when there is one.\<close>

lemma realvnc_estimator_at_spec:
  assumes "realvnc_estimator_at mem ka kc token p = (r, p')" and "pr_pipe p = []"
  shows "pr_pipe p' = []"
    and "r = Some est \<Longrightarrow> estimator mem token bs \<longleftrightarrow> mem_at mem est EST_BYTES bs"
    and "estimator mem token bs \<Longrightarrow> answers_all ka \<Longrightarrow> answers_all kc \<Longrightarrow> r \<noteq> None"
proof -
  obtain r1 p1 where h1: "hop mem ka token HOP_A p = (r1, p1)" by (metis prod.collapse)
  note s1 = hop_spec [OF h1 assms(2)]
  have "pr_pipe p' = [] \<and> (r = Some est \<longrightarrow> (estimator mem token bs \<longleftrightarrow> mem_at mem est EST_BYTES bs)) \<and>
      (estimator mem token bs \<and> answers_all ka \<and> answers_all kc \<longrightarrow> r \<noteq> None)"
  proof (cases r1)
    case None
    then have "p' = p1" "r = None" using assms(1) h1 by (auto simp: realvnc_estimator_at_def)
    then show ?thesis using s1(1) s1(3) None by (auto simp: estimator_def)
  next
    case (Some a)
    obtain r2 p2 where h2: "hop mem kc a HOP_C p1 = (r2, p2)" by (metis prod.collapse)
    note s2 = hop_spec [OF h2 s1(1)]
    have out: "p' = p2" "r = map_option (\<lambda>c. c + OWNER + EST) r2"
      using assms(1) h1 h2 Some by (auto simp: realvnc_estimator_at_def split: option.splits)
    have "\<not> estimator mem token bs" if "answers_all kc" "r2 = None"
      using s2(3) [OF _ that(1)] that(2) s1(2) [OF Some] unfolding estimator_def by (metis points_to_unique option.distinct(1))
    moreover have "estimator mem token bs \<longleftrightarrow> mem_at mem (c + OWNER + EST) EST_BYTES bs" if "r2 = Some c" for c
      by (rule estimator_iff [OF s1(2) [OF Some] s2(2) [OF that]])
    ultimately show ?thesis using out s2(1) by auto
  qed
  then show "pr_pipe p' = []" "r = Some est \<Longrightarrow> estimator mem token bs \<longleftrightarrow> mem_at mem est EST_BYTES bs"
    "estimator mem token bs \<Longrightarrow> answers_all ka \<Longrightarrow> answers_all kc \<Longrightarrow> r \<noteq> None" by auto
qed

text \<open>
  The memory of a core with one session, at token 64: the pointers are 128 and 256, the estimator
  counts 1, 2 and 3 and is at mark 4.
\<close>

definition example_core :: core_mem where
  "example_core a =
     (if a = 64 + HOP_A then Some 128 else if a = 128 + HOP_C then Some 0 else if a = 129 + HOP_C then Some 1
      else if a \<ge> 64 + HOP_A \<and> a < 72 + HOP_A \<or> a \<ge> 128 + HOP_C \<and> a < 136 + HOP_C then Some 0
      else if a = 256 + OWNER + EST then Some 1 else if a = 264 + OWNER + EST then Some 2
      else if a = 288 + OWNER + EST then Some 3 else if a = 296 + OWNER + EST then Some 4
      else if a \<ge> 256 + OWNER + EST \<and> a < 304 + OWNER + EST then Some 0 else None)"

text \<open>
  C22. The entry never reads an address it has not proved mapped, and reads nothing stale.  However much
  of each write the kernel takes, the pipe is empty again afterwards; the answer is true only with
  the four values of the estimator the two pointers of the core lead to, every byte of it mapped;
  otherwise the caller's array is as it was.  When the core has an estimator and the kernel
  answers, the values are found.
\<close>

theorem realvnc_traffic:
  assumes "nativeEstimator mem (ka, kc, ke) token (Some xs) p = (ok, out, p')" and "pr_pipe p = []"
  shows "pr_pipe p' = [] \<and>
    (if ok then token \<noteq> 0 \<and> 4 \<le> length xs \<and> (\<exists>bs. estimator mem token bs \<and> out = Some (estimator_values bs @ drop 4 xs))
     else out = Some xs) \<and>
    (\<forall>bs. estimator mem token bs \<and> token \<noteq> 0 \<and> 4 \<le> length xs \<and> answers_all ka \<and> answers_all kc \<and> answers_all ke \<longrightarrow>
       ok \<and> out = Some (estimator_values bs @ drop 4 xs))"
proof (cases "token = 0 \<or> length xs < 4")
  case False
  obtain r p1 where at: "realvnc_estimator_at mem ka kc token p = (r, p1)" by (metis prod.collapse)
  note s1 = realvnc_estimator_at_spec [OF at assms(2)]
  show ?thesis
  proof (cases r)
    case (Some est)
    obtain r3 p3 where h3: "probe_read mem ke est EST_BYTES p1 = (r3, p3)" by (metis prod.collapse)
    have pos: "0 < EST_BYTES" by (simp add: EST_BYTES_def)
    note s3 = probe_read_spec [OF h3 s1(1) pos] and iff = s1(2) [OF Some]
    have out: "p' = p3" "(ok, out) = (case r3 of None \<Rightarrow> (False, Some xs) | Some bs \<Rightarrow> (True, Some (estimator_values bs @ drop 4 xs)))"
      using assms(1) False at h3 Some
      by (auto simp: nativeEstimator_def estimator_values_def EST_ELAPSED_def EST_KILOBITS_def EST_RTT_def EST_MARK_def Let_def split: option.splits)
    have found: "r3 = Some bs" if "estimator mem token bs" "answers_all ke" for bs
      using that s3(3) by (auto simp: iff answers_all_def)
    show ?thesis
    proof (cases r3)
      case r3: (Some bs)
      have "bs' = bs" if "estimator mem token bs'" "answers_all ke" for bs' using found [OF that] r3 by simp
      moreover have "estimator mem token bs" using s3(2) [OF r3] by (simp add: iff)
      moreover have "ok" "out = Some (estimator_values bs @ drop 4 xs)" using out(2) r3 by auto
      ultimately show ?thesis using out(1) s3(1) False by (metis leI)
    next
      case None
      have "\<not> (estimator mem token bs \<and> answers_all ke)" for bs using found [of bs] None by auto
      moreover have "\<not> ok" "out = Some xs" using out(2) None by auto
      ultimately show ?thesis using out(1) s3(1) by simp
    qed
  next
    case None
    then have "p' = p1" "\<not> ok" "out = Some xs" using assms(1) False at by (auto simp: nativeEstimator_def)
    then show ?thesis using s1(1,3) None by auto
  qed
qed (use assms in \<open>auto simp: nativeEstimator_def\<close>)

theorem realvnc_traffic_witness:
  "\<exists>p'. nativeEstimator example_core
      (\<lparr>ka_pipe = True, ka_takes = Some 100\<rparr>, \<lparr>ka_pipe = True, ka_takes = Some 100\<rparr>, \<lparr>ka_pipe = True, ka_takes = Some 100\<rparr>)
      64 (Some [0, 0, 0, 0, 9]) \<lparr>pr_open = False, pr_pipe = []\<rparr> = (True, Some [1, 2, 3, 4, 9], p') \<and> pr_pipe p' = []"
proof -
  let ?ka = "\<lparr>ka_pipe = True, ka_takes = Some 100\<rparr>" and ?p = "\<lparr>pr_open = False, pr_pipe = []\<rparr>"
  let ?xs = "[0, 0, 0, 0, 9] :: u64 list"
  obtain ok out p' where r: "nativeEstimator example_core (?ka, ?ka, ?ka) 64 (Some ?xs) ?p = (ok, out, p')" by (metis prod_cases3)
  let ?est = "mapped_bytes example_core (256 + OWNER + EST) EST_BYTES"
  have at: "mem_at example_core a n (mapped_bytes example_core a n)" if "length (mapped_bytes example_core a n) = n" for a n
    using that by (rule mapped_bytes_mem_at)
  have "points_to example_core (64 + HOP_A) 128"
    unfolding points_to_def by (intro conjI exI [of _ "mapped_bytes example_core (64 + HOP_A) 8"] at) code_simp+
  moreover have "points_to example_core (128 + HOP_C) 256"
    unfolding points_to_def by (intro conjI exI [of _ "mapped_bytes example_core (128 + HOP_C) 8"] at) code_simp+
  moreover have "mem_at example_core (256 + OWNER + EST) EST_BYTES ?est" by (rule at) code_simp
  ultimately have "estimator example_core 64 ?est" unfolding estimator_def by blast
  moreover have "answers_all ?ka" by (simp add: answers_all_def EST_BYTES_def)
  ultimately have "ok" "out = Some (estimator_values ?est @ [9])" "pr_pipe p' = []"
    using realvnc_traffic [OF r] by auto
  moreover have "estimator_values ?est = [1, 2, 3, 4]" by code_simp
  ultimately show ?thesis using r by auto
qed

end
