(* ===== verification/Spec2Isabelle.thy ===== *)
theory Spec2Isabelle
  imports Vnc_Thread Rdp_Thread Rdp_Devices Command_Memory Probe_Options Linux_Audio Video_Frames Va_Shim Linux_Log Realvnc_Traffic
begin

text \<open>
  \<^bold>\<open>Vento's C code, verified.\<close>  Vento is a remote desktop client for Android and Linux.  The part of it
  written in C is modelled here: two complete protocol sessions, the decoders and helpers they and
  the Linux client use, and the small pieces of platform code beside them.

  \<^bold>\<open>The program.\<close>  A session is created through a table of operations
  (\<open>src/backends/api/include/vento/backend.h\<close>): the platform calls it from any thread, and the
  session reports back through callbacks.  \<open>libvnc_session.c\<close> is a session over libvncclient,
  \<open>freerdp_session.c\<close> one over libfreerdp.  Each has one protocol thread, which owns the
  connection, and a ring of commands the other threads post to; each decodes into the library's
  buffer and copies what changed to a second one other threads read; each keeps a table of the
  keys it holds down at the far end; each asks the user for passwords and certificates and blocks
  its thread meanwhile.  The FreeRDP session brings two plugins: \<open>h264_vento.c\<close> gives H.264 of the
  graphics pipeline to the platform's decoder, \<open>rdpsnd_vento.c\<close> plays the server's sound on the
  platform's streams.  On Linux the platform's decoders are \<open>vento_video.c\<close> and
  \<open>vento_ffaudio.c\<close> over libavcodec, with libva behind \<open>va_shim.c\<close>; \<open>vento_log.c\<close> writes the log.
  \<open>realvnc_traffic.c\<close> reads a counter out of the core of the RealVNC session.  \<open>probe.c\<close> is a client of the
  interface for the command line, with a program for each of the two sessions.

  \<^bold>\<open>The theories.\<close>

  \<^item> \<open>Prelude\<close>: the C integer types, the functions of the C library the sources call, shared lemmas and
    the collections \<open>ring_simps\<close>, \<open>text_simps\<close>, \<open>vnc_simps\<close>, \<open>rdp_simps\<close>; \<open>Binary32\<close>: single-precision
    rounding, as far as the sound code needs it.
  \<^item> \<open>Backend\<close> (\<open>backend.h\<close>): the events a session reports, its configuration, credentials, monitors.
  \<^item> \<open>Text\<close> (\<open>text.h\<close>): UTF-8, line ends and clipboard text, loops as they are written; the check of
    UTF-8 is proved equal to a grammar, and the conversions to invert each other.
  \<^item> \<open>Address\<close> (\<open>splitAddress\<close> of both sessions): every address is split into a host and a port or
    refused with a reason.
  \<^item> \<open>Command_Ring\<close>: the ring both sessions queue in, and the locale \<open>command_queue\<close> of what a queue
    promises: order, at most once, never lost silently, drained.  Interpreted as \<open>vq\<close> (\<open>Vnc_Session\<close>)
    and \<open>rq\<close> (\<open>Rdp_Queue\<close>).
  \<^item> \<open>Command_Memory\<close>: what becomes of the memory of queued commands; the locale \<open>command_memory\<close> extends
    \<open>command_queue\<close> with a balance, interpreted as \<open>vm\<close> and \<open>rm\<close>.
  \<^item> \<open>Framebuffer\<close>: the second buffer, clipping, copying and the two reads; the locale
    \<open>opaque_framebuffer\<close>, interpreted as \<open>vd\<close> (\<open>Vnc_Display\<close>) and \<open>rd\<close> (\<open>Rdp_Display\<close>).
  \<^item> \<open>Held_Keys\<close>: the table of held keys refines a bounded finite map; the locale \<open>held_keys\<close>,
    interpreted as \<open>vk\<close> (\<open>Vnc_Input\<close>) and \<open>rk\<close> (\<open>Rdp_Input\<close>).
  \<^item> \<open>Vnc_Session\<close>, \<open>Vnc_Display\<close>, \<open>Vnc_Layout\<close>, \<open>Vnc_Input\<close>, \<open>Vnc_Info\<close>, \<open>Vnc_Thread\<close>
    (\<open>libvnc_session.c\<close>, in this order of its functions): state and queue; \<open>setColorFormat\<close>, the
    callbacks of decoding and the cursor; screen layouts; \<open>runCmd\<close>, clipboard and encodings; \<open>op_info\<close>
    and \<open>publishFacts\<close>; the operations of the table, the prompts, dialling and \<open>protocolThread\<close>.
  \<^item> \<open>Rdp_Session\<close>, \<open>Rdp_Queue\<close>, \<open>Rdp_Display\<close>, \<open>Rdp_Layout\<close>, \<open>Rdp_Input\<close>, \<open>Rdp_Channels\<close>,
    \<open>Rdp_Status\<close>, \<open>Rdp_Settings\<close>, \<open>Rdp_Info\<close>, \<open>Rdp_Thread\<close> (\<open>freerdp_session.c\<close>): state, queue
    and \<open>makeRoom\<close>; painting and cursors; monitors; keyboard and pointer; clipboard and graphics
    channels; the status thread; \<open>applySettings\<close>; \<open>op_info\<close>; the operations of the table, the prompts
    and \<open>protocolThread\<close>.
  \<^item> \<open>Rdp_H264\<close> (\<open>h264_vento.c\<close>): the contexts and the hardware slots they share.
  \<^item> \<open>Rdp_Sound\<close>, \<open>Rdp_Devices\<close> (\<open>rdpsnd_vento.c\<close>): one sound device, and all devices of a session with
    their closing threads in any order; the locale \<open>device_operation\<close> states what every operation
    keeps, and is interpreted for each of the seven (\<open>ann\<close>, \<open>opn\<close>, \<open>vol\<close>, \<open>ply\<close>, \<open>cls\<close>, \<open>clr\<close>, \<open>fre\<close>).
  \<^item> \<open>Linux_Audio\<close> (\<open>vento_ffaudio.c\<close>), \<open>Linux_Video\<close> (\<open>vento_video.c\<close>), \<open>Va_Shim\<close> (\<open>va_shim.c\<close>),
    \<open>Linux_Log\<close> (\<open>vento_log.c\<close>, and \<open>log_line\<close> of \<open>vento_video.c\<close>): the Linux platform's C; \<open>Video_Frames\<close>: what
    the calls of \<open>vento_video.c\<close> do to the references of the decoder's frames and of the pictures held.
  \<^item> \<open>Realvnc_Traffic\<close> (\<open>realvnc_traffic.h\<close>, \<open>realvnc_traffic.c\<close>): the walk through a core's memory.
  \<^item> \<open>Session_Probe\<close> (\<open>probe.c\<close>), \<open>Probe_Options\<close> (its command line, \<open>libvnc_probe.c\<close>, \<open>freerdp_probe.c\<close>): a
    run of the probe against any session, and the two programs; the locale \<open>probe_program\<close> states what the
    loop over the arguments keeps of a program's own configuration, interpreted as \<open>vp\<close> and \<open>rp\<close>.
  \<^item> this theory: the video decoder over the libva shim.

  \<^bold>\<open>How code is modelled.\<close>  A C struct is a record whose fields are the struct's, with a prefix
  (\<open>vs_\<close> for the LibVNC \<open>Session\<close>, \<open>rs_\<close> for the FreeRDP one, \<open>d_\<close> a sound device, \<open>vv_\<close> a video
  decoder); an array with a count is a list, an array read and written by index a list of its
  length, a pointer that may be NULL an option.  A function is a function of that name on the
  record (prefixed \<open>vnc_\<close> or \<open>rdp_\<close> where both files have one), each guard and early return a
  branch.  What a function tells the platform or asks of a library is appended to a trace in the
  order it happens (\<open>vs_trace\<close>, \<open>rs_trace\<close>, \<open>h_trace\<close>, \<open>sn_trace\<close>).  Integers whose width matters
  are words (ring indices, pixels, volumes, times), the others \<open>int\<close>.  libvncclient, libfreerdp,
  WinPR, libavcodec, libva, the dynamic linker, the kernel and the clock are parameters: their
  answers are arguments, and where a theorem needs one to behave as documented it says so as a
  hypothesis, with a witness that it can hold.

  \<^bold>\<open>Threads.\<close>  A critical section is one step, which is what the locks give.  Other threads are a
  schedule, batches of calls performed before each hook and each turn of a loop of the protocol
  thread; a thread that is blocked performs them until what it waits for is there.  The status
  thread and the closing threads of the sound devices take steps of their own between those of
  the others, and what the code does outside its locks is a separate step.  Theorems quantify
  over all schedules.

  \<^bold>\<open>Fuel and schedules.\<close>  A loop that ends is a terminating function.  A loop others can keep going
  (\<open>drainCommands\<close>, the library calling hooks, the protocol loop, a packet's frames) takes its bound or
  its schedule as an argument and returns \<open>None\<close> when that runs out, which is the thread still
  running.  That it does return is proved: draining with one more step than commands are queued
  (\<open>vnc_drain_runs_all\<close> and its counterpart in \<open>Rdp_Input\<close>), a prompt and the loop once the session is
  asked to end (\<open>vnc_disconnect_ends\<close>, \<open>rdp_disconnect_ends\<close>), a packet once the library has no more
  frames (\<open>linux_audio_decode\<close>).

  \<^bold>\<open>What is shown.\<close>  Sessions: the end is reported exactly once and last, no password or certificate
  passes without the user, a session asked to end does, no configuration disables a connection's
  protection.  Queues: order, at most once, bounded, coalescing, which command a full ring gives
  up, each command's memory freed once.  Input: no key stays down that the user let go, within the conditions the theorems state.
  Picture: copies are exactly the damage, reads stay inside, every pixel is opaque.  Monitors:
  layouts sent obey the protocol and the server's limits.  Sound: waves reach the stream as sent,
  volumes survive their rounding, no handle is leaked or used after it was closed, an idle stream is
  closed.  Decoders: slots are bounded, a failing device falls back once, described planes contain
  every sample read, references to pictures are released once and not while a picture is in use, exported descriptors are neither leaked nor closed twice.  Probes: what they answer
  comes from the command line, a command line is read back as what it spells, a run ends, and the picture
  written is the framebuffer's.  Several theorems
  (\<open>vnc_repeat_other_keysym_sticks\<close>, \<open>rdp_view_only_sticks\<close>, \<open>rdp_second_shift_lost\<close>,
  \<open>rdp_early_requests_lost\<close>, \<open>rdp_buildLayout_overlaps\<close>, \<open>rdp_release_displaced\<close>, \<open>rdp_status_stale\<close>,
  \<open>rdp_sound_switch_race\<close>, \<open>linux_audio_stale_samples\<close>, \<open>utf8_valid_accepts_ill_formed\<close>, \<open>click_takes_rest\<close>) prove a
  behaviour the code or its documentation does not mean.

  \<^bold>\<open>Not modelled.\<close>  The sessions in C++ over TigerVNC and RealVNC's core, the Rust and Java halves of
  the program, and third-party code and generated headers under \<open>ports\<close>; tests.
  Of the files above: freeing of memory other than that of queued commands, what the probes print, the routing of library log lines to \<open>vento_log\<close>,
  \<open>onPreConnect\<close> and \<open>registerPointer\<close> (which only register callbacks and channels), the times and names reported by
  the video decoder and the reads that measure a mapping, and the Android \<open>vento_log\<close>, one call of the
  system's.
\<close>

section \<open>The video decoder over the libva shim\<close>

text \<open>
  A decoder opened with the answers libva's shim gives: FFmpeg makes the device, once, starting with
  \<open>vaGetDisplayDRM\<close> (\<open>create\<close> is what it answers for what that call came to), and when it fails
  \<open>vento_va_loaded\<close> says what is missing.
\<close>

definition open_with_shim ::
  "libav \<Rightarrow> (va_call \<Rightarrow> int) \<Rightarrow> linker \<Rightarrow> open_answers \<Rightarrow> video_codec \<Rightarrow> video_method \<Rightarrow> va_device \<times> va_shim \<Rightarrow>
   (string + vento_video) \<times> va_device \<times> va_shim"
where
  "open_with_shim lib create ld oa codec hardware gs =
     (let (g, s) = gs;
          tries = (vento_video_decodable lib codec \<and> dev_state g = 0 \<and>
                   (hardware = VENTO_VIDEO_HW_VAAPI \<or> hardware = VENTO_VIDEO_HW_AUTO));
          (call, s) = (if tries then va_forward ld vaGetDisplayDRM s else (Answered Va_null, s));
          ((_, why), s) = (if tries \<and> create call < 0 then vento_va_loaded ld s else ((False, None), s));
          (r, g) = vento_video_open lib (oa\<lparr>oa_device := create call, oa_missing := why\<rparr>) (True, True) codec hardware g
      in (r, g, s))"

record video_asked =
  va_linker :: linker
  va_answers :: open_answers
  va_codec :: video_codec
  va_hardware :: video_method

definition asks_hardware :: "video_asked \<Rightarrow> bool" where
  "asks_hardware a \<longleftrightarrow> va_hardware a = VENTO_VIDEO_HW_VAAPI \<or> va_hardware a = VENTO_VIDEO_HW_AUTO"

fun open_all ::
  "libav \<Rightarrow> (va_call \<Rightarrow> int) \<Rightarrow> video_asked list \<Rightarrow> va_device \<times> va_shim \<Rightarrow>
   (string + vento_video) list \<times> va_device \<times> va_shim"
where
  "open_all lib create [] gs = ([], gs)"
| "open_all lib create (a # as) gs =
     (let (r, gs) = open_with_shim lib create (va_linker a) (va_answers a) (va_codec a) (va_hardware a) gs;
          (rs, gs) = open_all lib create as gs
      in (r # rs, gs))"

text \<open>What a decoder gives as its reason when the linker has \<open>err\<close> to say of libva.\<close>

definition no_libva :: "string \<Rightarrow> string" where
  "no_libva err = snprintf_s 256 (''vaapi: '' @ snprintf_s 128 (''no libva ('' @ snprintf_s 256 err @ '')''))"

definition software_opens :: "libav \<Rightarrow> string \<Rightarrow> video_asked \<Rightarrow> bool" where
  "software_opens lib err a \<longleftrightarrow> ld_open (va_linker a) 0 = Some err \<and> vento_video_decodable lib (va_codec a) \<and>
     oa_alloc (va_answers a) False \<and> oa_open (va_answers a) False \<ge> 0"

definition fresh_video :: "va_device \<times> va_shim" where
  "fresh_video = (\<lparr>dev_state = 0, dev_why = []\<rparr>, shim_zero)"

definition without_libva :: "string \<Rightarrow> va_device \<times> va_shim" where
  "without_libva err =
     (\<lparr>dev_state = -1, dev_why = snprintf_s 128 (''no libva ('' @ snprintf_s 256 err @ '')'')\<rparr>,
      shim_zero\<lparr>sh_once := True, sh_why := snprintf_s 256 err, sh_opened := [0]\<rparr>)"

definition software_video :: "video_codec \<Rightarrow> string \<Rightarrow> vento_video" where
  "software_video codec reason = (video_zero codec)\<lparr>vv_context := True, vv_reason := reason\<rparr>"

lemma open_software:
  assumes "software_opens lib err a" and "create (Answered Va_null) < 0" and "gs = fresh_video \<or> gs = without_libva err"
  shows "open_with_shim lib create (va_linker a) (va_answers a) (va_codec a) (va_hardware a) gs =
    (Inr (software_video (va_codec a) (if asks_hardware a then no_libva err else [])),
     if asks_hardware a then without_libva err else gs)"
  using assms
  by (auto simp: open_with_shim_def software_opens_def fresh_video_def without_libva_def vento_va_loaded_def va_forward_def
      shim_once_def shim_load_def shim_zero_def va_fail_def vento_video_open_def vento_video_decodable_def open_decoder_def
      open_on_device_def video_device_def device_try_def open_context_def video_say_def video_zero_def software_video_def
      asks_hardware_def no_libva_def snprintf_s_def Let_def)

text \<open>
  C23. A machine without libva decodes in software and says why.  Whatever decoders are opened, as
  long as libva does not load and FFmpeg makes no device without a display, each of them opens, as a
  plain software decoder; those that were asked to use the hardware give the linker's own words as
  the reason, the others none.  The linker is asked for libva once in all, and not at all as long
  as no decoder asks for hardware, and so is the device.
\<close>

theorem software_without_libva:
  assumes "list_all (software_opens lib err) as" and "create (Answered Va_null) < 0"
  shows "open_all lib create as fresh_video =
    (map (\<lambda>a. Inr (software_video (va_codec a) (if asks_hardware a then no_libva err else []))) as,
     if list_ex asks_hardware as then without_libva err else fresh_video)"
proof -
  have "open_all lib create as gs =
      (map (\<lambda>a. Inr (software_video (va_codec a) (if asks_hardware a then no_libva err else []))) as,
       if list_ex asks_hardware as then without_libva err else gs)"
    if "gs = fresh_video \<or> gs = without_libva err" for gs
    using that assms(1)
  proof (induction as arbitrary: gs)
    case (Cons a as)
    then have "software_opens lib err a" "list_all (software_opens lib err) as" by simp_all
    note this(2) and step = open_software [where create = create, OF this(1) assms(2) Cons.prems(1)]
    then show ?case using Cons.IH [of "if asks_hardware a then without_libva err else gs"] Cons.prems(1) by (simp add: step)
  qed simp
  then show ?thesis by blast
qed

theorem software_without_libva_witness:
  "let a = \<lparr>va_linker = \<lparr>ld_open = \<lambda>_. Some ''libva.so.2: not found'', ld_sym = \<lambda>_ _. False, ld_map2 = False\<rparr>,
            va_answers = example_open, va_codec = VENTO_VIDEO_H264, va_hardware = VENTO_VIDEO_HW_AUTO\<rparr>;
       (rs, g, s) = open_all example_libav (\<lambda>_. -1) [a\<lparr>va_hardware := VENTO_VIDEO_HW_OFF\<rparr>, a, a] fresh_video in
   map (map_sum id vv_reason) rs =
     [Inr '''', Inr ''vaapi: no libva (libva.so.2: not found)'', Inr ''vaapi: no libva (libva.so.2: not found)''] \<and>
   sh_opened s = [0] \<and> dev_state g = -1"
proof -
  let ?a = "\<lparr>va_linker = \<lparr>ld_open = \<lambda>_. Some ''libva.so.2: not found'', ld_sym = \<lambda>_ _. False, ld_map2 = False\<rparr>,
            va_answers = example_open, va_codec = VENTO_VIDEO_H264, va_hardware = VENTO_VIDEO_HW_AUTO\<rparr>"
  let ?as = "[?a\<lparr>va_hardware := VENTO_VIDEO_HW_OFF\<rparr>, ?a, ?a]"
  have "list_all (software_opens example_libav ''libva.so.2: not found'') ?as" "(\<lambda>_ :: va_call. -1 :: int) (Answered Va_null) < 0"
    by (simp_all add: software_opens_def vento_video_decodable_def video_find_def example_libav_def example_open_def)
  from software_without_libva [OF this]
  have r: "open_all example_libav (\<lambda>_. -1) ?as fresh_video =
    ([Inr (software_video VENTO_VIDEO_H264 ''''), Inr (software_video VENTO_VIDEO_H264 (no_libva ''libva.so.2: not found'')),
      Inr (software_video VENTO_VIDEO_H264 (no_libva ''libva.so.2: not found''))], without_libva ''libva.so.2: not found'')"
    by (simp add: asks_hardware_def)
  show ?thesis
    unfolding Let_def r by (simp add: software_video_def no_libva_def snprintf_s_def without_libva_def shim_zero_def)
qed

end
